(* ===== verification/Prelude.thy ===== *)
theory Prelude
  imports Main "HOL-Library.Word"
begin

text \<open>
  What the theories of the development share: the C integer types at their width, the ways in
  which kernel code can fail to return (a failed assertion, an explicit panic, a page fault, a
  loop that never ends), sequencing of operations that may fail, resumptions for operations that
  give up the processor, and generic facts about addresses and regions of addresses.
\<close>

unbundle bit_operations_syntax

section \<open>C types\<close>

type_synonym u8 = "8 word"
type_synonym u16 = "16 word"
type_synonym u32 = "32 word"
type_synonym addr = "32 word"

text \<open>Byte-addressed memory, as \<^verbatim>\<open>uint8_t*\<close> and \<^verbatim>\<open>char*\<close> accesses see it.\<close>

type_synonym mem = "addr \<Rightarrow> u8"

abbreviation (input) NULL :: addr where "NULL \<equiv> 0"

abbreviation (input) PG_SIZE :: u32 where "PG_SIZE \<equiv> 4096"

text \<open>\<^verbatim>\<open>DIV_ROUND_UP(X, STEP)\<close> of \<^verbatim>\<open>kernel/global.h\<close>, on \<^verbatim>\<open>uint32_t\<close> operands.\<close>

definition DIV_ROUND_UP :: "u32 \<Rightarrow> u32 \<Rightarrow> u32" where
  "DIV_ROUND_UP x step = (x + step - 1) div step"

section \<open>Operations that may not return\<close>

text \<open>
  \<^verbatim>\<open>ASSERT\<close> and \<^verbatim>\<open>PANIC\<close> of \<^verbatim>\<open>kernel/debug.h\<close> both call \<^verbatim>\<open>panic_spin\<close>, which prints and spins
  with interrupts off. A page fault ends in \<^verbatim>\<open>general_intr_handler\<close>, which spins as well.
  \<open>LOOP\<close> is a loop of the source that never reaches its exit condition.
\<close>

datatype halt = ASSERT string | PANIC string | PAGE_FAULT addr | LOOP

type_synonym 'a res = "halt + 'a"

definition res_bind :: "'a res \<Rightarrow> ('a \<Rightarrow> 'b res) \<Rightarrow> 'b res" where
  "res_bind r f = (case r of Inl e \<Rightarrow> Inl e | Inr x \<Rightarrow> f x)"

definition assertion :: "bool \<Rightarrow> string \<Rightarrow> 'a res \<Rightarrow> 'a res" where
  "assertion c msg r = (if c then r else Inl (ASSERT msg))"

definition of_loop :: "'a option \<Rightarrow> 'a res" where
  "of_loop r = (case r of None \<Rightarrow> Inl LOOP | Some x \<Rightarrow> Inr x)"

lemma res_bind_simps [simp]:
  "res_bind (Inl e) f = Inl e"
  "res_bind (Inr x) f = f x"
  by (simp_all add: res_bind_def)

lemma res_bind_Inr_iff [simp]:
  "res_bind r f = Inr y \<longleftrightarrow> (\<exists>x. r = Inr x \<and> f x = Inr y)"
  by (cases r) auto

lemma assertion_simps [simp]:
  "assertion True msg r = r"
  "assertion False msg r = Inl (ASSERT msg)"
  by (simp_all add: assertion_def)

lemma assertion_Inr_iff [simp]: "assertion c msg r = Inr y \<longleftrightarrow> c \<and> r = Inr y"
  by (simp add: assertion_def)

lemma of_loop_simps [simp]:
  "of_loop None = Inl LOOP"
  "of_loop (Some x) = Inr x"
  by (simp_all add: of_loop_def)

lemma of_loop_Inr_iff [simp]: "of_loop r = Inr x \<longleftrightarrow> r = Some x"
  by (cases r) auto

section \<open>Operations that may give up the processor\<close>

text \<open>
  A kernel operation that reaches \<^verbatim>\<open>switch_to\<close> stops with the processor in another thread and
  goes on when its own thread is switched to again. \<open>Block s k\<close> is that point: \<open>s\<close> is the state
  in which the next thread runs, \<open>k\<close> what this thread does from the state it is resumed in.
  A wait loop may block any number of times, so the type is a codatatype.
\<close>

codatatype (dead 's, 'a) kop =
    Done 'a 's
  | Halt halt
  | Block 's "'s \<Rightarrow> ('s, 'a) kop"

primcorec kbind :: "('s, 'a) kop \<Rightarrow> ('a \<Rightarrow> 's \<Rightarrow> ('s, 'b) kop) \<Rightarrow> ('s, 'b) kop" where
  "kbind m f = (case m of Done x s \<Rightarrow> f x s | Halt e \<Rightarrow> Halt e
     | Block s k \<Rightarrow> Block s (\<lambda>s'. kbind (k s') f))"

definition kassert :: "bool \<Rightarrow> string \<Rightarrow> ('s, 'a) kop \<Rightarrow> ('s, 'a) kop" where
  "kassert c msg r = (if c then r else Halt (ASSERT msg))"

definition klift :: "'s res \<Rightarrow> ('s, unit) kop" where
  "klift r = (case r of Inl e \<Rightarrow> Halt e | Inr s \<Rightarrow> Done () s)"

definition klift_val :: "('a \<times> 's) res \<Rightarrow> ('s, 'a) kop" where
  "klift_val r = (case r of Inl e \<Rightarrow> Halt e | Inr (x, s) \<Rightarrow> Done x s)"

lemma kbind_simps [simp]:
  "kbind (Done x s) f = f x s"
  "kbind (Halt e) f = Halt e"
  "kbind (Block s k) f = Block s (\<lambda>s'. kbind (k s') f)"
  by (subst kbind.code, simp)+

lemma kassert_simps [simp]:
  "kassert True msg r = r"
  "kassert False msg r = Halt (ASSERT msg)"
  by (simp_all add: kassert_def)

lemma klift_simps [simp]:
  "klift (Inl e) = Halt e"
  "klift (Inr s) = Done () s"
  "klift_val (Inl e) = Halt e"
  "klift_val (Inr (x, s)) = Done x s"
  by (simp_all add: klift_def klift_val_def)

text \<open>
  \<^verbatim>\<open>while (c) body\<close> where the body may block. \<open>kspin\<close> runs the rounds that return at once up to the
  first one that blocks or halts, or to the end of the loop; a loop all of whose rounds return
  without making the condition false never ends.
\<close>

partial_function (option) kspin ::
    "('s \<Rightarrow> bool) \<Rightarrow> ('s \<Rightarrow> ('s, unit) kop) \<Rightarrow> 's \<Rightarrow> ('s, unit) kop option" where
  "kspin c body s =
     (if c s then case body s of Done x s' \<Rightarrow> kspin c body s' | Halt e \<Rightarrow> Some (Halt e)
                    | Block s' k \<Rightarrow> Some (Block s' k)
      else Some (Done () s))"

primcorec kloop :: "('s \<Rightarrow> bool) \<Rightarrow> ('s \<Rightarrow> ('s, unit) kop) \<Rightarrow> ('s, unit) kop \<Rightarrow> ('s, unit) kop" where
  "kloop c body m =
     (case m of Halt e \<Rightarrow> Halt e
      | Block s k \<Rightarrow> Block s (\<lambda>s'. kloop c body (k s'))
      | Done x s \<Rightarrow>
          (case kspin c body s of
             None \<Rightarrow> Halt LOOP
           | Some r \<Rightarrow> (case r of Done y s' \<Rightarrow> Done () s' | Halt e \<Rightarrow> Halt e
                         | Block s' k \<Rightarrow> Block s' (\<lambda>s''. kloop c body (k s'')))))"

definition kwhile :: "('s \<Rightarrow> bool) \<Rightarrow> ('s \<Rightarrow> ('s, unit) kop) \<Rightarrow> 's \<Rightarrow> ('s, unit) kop" where
  "kwhile c body s = kloop c body (Done () s)"

lemma kloop_simps:
  "kloop c body (Halt e) = Halt e"
  "kloop c body (Block s k) = Block s (\<lambda>s'. kloop c body (k s'))"
  by (subst kloop.code, simp)+

lemma kloop_kbind: "kloop c body m = kbind m (\<lambda>_. kwhile c body)"
proof (coinduction arbitrary: m rule: kop.coinduct_strong)
  case Eq_kop
  show ?case
  proof (cases m)
    case (Done x s)
    then show ?thesis by (auto simp: kwhile_def rel_fun_def)
  next
    case (Block s k)
    then show ?thesis by (auto simp: kloop_simps rel_fun_def)
  qed (simp add: kloop_simps)
qed

lemma kwhile_unfold:
  "kwhile c body s = (if c s then kbind (body s) (\<lambda>_. kwhile c body) else Done () s)"
proof (cases "c s")
  case True
  show ?thesis
  proof (cases "body s")
    case (Done x s')
    with True have "kspin c body s = kspin c body s'" by (subst kspin.simps) simp
    then have "kwhile c body s = kwhile c body s'" unfolding kwhile_def by (subst (1 2) kloop.code) simp
    then show ?thesis using True Done by simp
  next
    case (Halt e)
    with True have "kspin c body s = Some (Halt e)" by (subst kspin.simps) simp
    then show ?thesis using True Halt by (simp add: kwhile_def) (subst kloop.code, simp)
  next
    case (Block s' k)
    with True have "kspin c body s = Some (Block s' k)" by (subst kspin.simps) simp
    then have "kwhile c body s = Block s' (\<lambda>s''. kloop c body (k s''))"
      unfolding kwhile_def by (subst kloop.code) simp
    then show ?thesis using True Block by (simp add: kloop_kbind)
  qed
next
  case False
  then have "kspin c body s = Some (Done () s)" by (subst kspin.simps) simp
  then show ?thesis using False by (simp add: kwhile_def) (subst kloop.code, simp)
qed

text \<open>
  \<open>returns m x s\<close>: the operation \<open>m\<close>, resumed in any states at the points where it blocks, can end
  with the result \<open>x\<close> in the state \<open>s\<close>.
\<close>

inductive returns :: "('s, 'a) kop \<Rightarrow> 'a \<Rightarrow> 's \<Rightarrow> bool" where
  finished: "returns (Done x s) x s"
| resumed: "returns (k s') x t \<Longrightarrow> returns (Block s k) x t"

inductive_cases returns_DoneE [elim!]: "returns (Done x s) y t"
inductive_cases returns_HaltE [elim!]: "returns (Halt e) y t"
inductive_cases returns_BlockE: "returns (Block s k) y t"

lemma returns_Done [simp]: "returns (Done x s) y t \<longleftrightarrow> y = x \<and> t = s"
  by (auto intro: returns.finished)

lemma returns_Halt [simp]: "\<not> returns (Halt e) y t"
  by auto

lemma returns_Block: "returns (Block s k) x t \<longleftrightarrow> (\<exists>s'. returns (k s') x t)"
  by (auto intro: returns.resumed elim: returns_BlockE)

lemma returns_kbindD:
  assumes "returns (kbind m f) y t"
  shows "\<exists>x s. returns m x s \<and> returns (f x s) y t"
  using assms
proof (induction "kbind m f" y t arbitrary: m rule: returns.induct)
  case (finished x s)
  then show ?case by (cases m) (metis kbind_simps returns.finished kop.distinct)+
next
  case (resumed k s' x t s)
  show ?case
  proof (cases m)
    case (Done y u)
    then show ?thesis using resumed by (metis kbind_simps(1) returns.finished returns.resumed)
  next
    case (Halt e)
    then show ?thesis using resumed(3) by simp
  next
    case (Block u k')
    then have "k s' = kbind (k' s') f" using resumed(3) by simp
    then show ?thesis using resumed(2) Block returns.resumed by metis
  qed
qed

text \<open>A loop that returns has made its condition false.\<close>

lemma kspin_Done:
  assumes "kspin c body s = Some r"
  shows "r = Done x t \<Longrightarrow> \<not> c t"
proof -
  have "\<forall>x t. r = Done x t \<longrightarrow> \<not> c t"
    by (rule kspin.raw_induct [of "\<lambda>c body s r. \<forall>x t. r = Done x t \<longrightarrow> \<not> c t", OF _ assms])
      (auto split: if_splits kop.splits, blast)
  then show "r = Done x t \<Longrightarrow> \<not> c t" by blast
qed

lemma returns_kloop: "returns r x t \<Longrightarrow> r = kloop c body m \<Longrightarrow> \<not> c t"
proof (induction arbitrary: m rule: returns.induct)
  case (finished x s)
  then show ?case
    by (subst (asm) kloop.code) (auto split: kop.splits option.splits dest: kspin_Done)
next
  case (resumed k s' x t s)
  then obtain k' where "k = (\<lambda>s'. kloop c body (k' s'))"
    by (subst (asm) (2) kloop.code) (auto split: kop.splits option.splits)
  then show ?case using resumed.IH by simp
qed

lemma returns_kwhile: "returns (kwhile c body s) x t \<Longrightarrow> \<not> c t"
  unfolding kwhile_def by (rule returns_kloop [OF _ refl])

section \<open>Addresses and regions\<close>

text \<open>
  \<open>within x a n\<close>: the address \<open>x\<close> is one of the \<open>n\<close> addresses from \<open>a\<close> on, counted with
  wrap-around as the hardware counts.
\<close>

definition within :: "addr \<Rightarrow> addr \<Rightarrow> nat \<Rightarrow> bool" where
  "within x a n \<longleftrightarrow> unat (x - a) < n"

definition disjoint_regions :: "addr \<Rightarrow> nat \<Rightarrow> addr \<Rightarrow> nat \<Rightarrow> bool" where
  "disjoint_regions a m b n \<longleftrightarrow> (\<forall>x. \<not> (within x a m \<and> within x b n))"

lemma within_0 [simp]: "\<not> within x a 0"
  by (simp add: within_def)

lemma unat_less_2p32 [simp]: "unat (x :: 32 word) < 4294967296"
  using unsigned_less [of x, where ?'a = nat] by simp

lemma unat_le_2p32 [simp]: "unat (x :: 32 word) \<le> 4294967296"
  by (rule less_imp_le) simp

lemma unat_add_of_nat:
  fixes a :: "32 word"
  assumes "unat a + i < 2 ^ 32"
  shows "unat (a + of_nat i) = unat a + i"
  using assms by (simp add: unat_word_ariths unsigned_of_nat take_bit_eq_mod)

lemma unat_of_nat32: "i < 2 ^ 32 \<Longrightarrow> unat (of_nat i :: 32 word) = i"
  by (simp add: unsigned_of_nat take_bit_nat_eq_self)

lemma unat_Suc_less:
  fixes i n :: "32 word"
  assumes "i < n"
  shows "unat (i + 1) = Suc (unat i)"
proof -
  have "unat i < unat n" using assms by (simp add: word_less_nat_alt)
  moreover have "unat n < 4294967296" by simp
  ultimately have "unat i + 1 < 4294967296" by linarith
  then show ?thesis using unat_add_of_nat [of i 1] by simp
qed

lemma unat_diff_Suc:
  fixes x a :: "32 word"
  assumes "x \<noteq> a"
  shows "unat (x - a) = Suc (unat (x - (a + 1)))"
proof -
  have "x - a \<noteq> 0" using assms by simp
  then have "unat (x - a - 1) = unat (x - a) - 1" and "unat (x - a) \<noteq> 0"
    by (simp_all add: unat_minus_one unat_eq_zero)
  moreover have "x - (a + 1) = x - a - 1" by (simp add: algebra_simps)
  ultimately show ?thesis by (metis Suc_pred' gr0I)
qed

lemma within_Suc:
  assumes "n < 2 ^ 32"
  shows "within x a (Suc n) \<longleftrightarrow> x = a \<or> within x (a + 1) n"
proof (cases "x = a")
  case True
  then show ?thesis by (simp add: within_def)
next
  case False
  then show ?thesis by (simp add: within_def unat_diff_Suc)
qed

lemma within_offset: "i < n \<Longrightarrow> within (a + of_nat i) a n"
  by (simp add: within_def unsigned_of_nat) (metis le_less_trans take_bit_nat_less_eq_self)

lemma within_iff:
  assumes "n \<le> 2 ^ 32"
  shows "within x a n \<longleftrightarrow> (\<exists>i<n. x = a + of_nat i)"
proof
  assume "within x a n"
  then show "\<exists>i<n. x = a + of_nat i"
    by (intro exI [of _ "unat (x - a)"]) (simp add: within_def)
next
  assume "\<exists>i<n. x = a + of_nat i"
  then show "within x a n" by (auto intro: within_offset)
qed

lemma within_mono: "within x a m \<Longrightarrow> m \<le> n \<Longrightarrow> within x a n"
  by (simp add: within_def)

lemma disjoint_regionsD: "disjoint_regions a m b n \<Longrightarrow> within x a m \<Longrightarrow> \<not> within x b n"
  by (simp add: disjoint_regions_def)

lemma disjoint_regionsI:
  assumes "unat a + m \<le> unat b" and "unat b + n \<le> 2 ^ 32"
  shows "disjoint_regions a m b n"
  unfolding disjoint_regions_def
proof (intro allI notI)
  fix x assume "within x a m \<and> within x b n"
  moreover have "m \<le> 2 ^ 32" "n \<le> 2 ^ 32" using assms by simp_all
  ultimately obtain i j where i: "i < m" "x = a + of_nat i" and j: "j < n" "x = b + of_nat j"
    by (auto simp: within_iff)
  have "unat x = unat a + i" using i assms by (simp add: unat_add_of_nat)
  moreover have "unat x = unat b + j" using j assms by (simp add: unat_add_of_nat)
  ultimately show False using i(1) assms(1) by simp
qed

lemma disjoint_regions_sym: "disjoint_regions a m b n \<Longrightarrow> disjoint_regions b n a m"
  by (auto simp: disjoint_regions_def)

lemma of_nat_eq_iff32:
  assumes "i < 2 ^ 32" and "j < 2 ^ 32"
  shows "(of_nat i :: 32 word) = of_nat j \<longleftrightarrow> i = j"
  using assms by (simp add: of_nat_eq_iff word_of_nat_eq_iff take_bit_nat_eq_self)

lemma within_shift:
  assumes "within x (a + of_nat k) n" and "k + n \<le> 2 ^ 32"
  shows "within x a (k + n)"
proof -
  obtain j where "j < n" "x = a + of_nat k + of_nat j" using assms by (auto simp: within_iff)
  then show ?thesis using within_offset [of "k + j" "k + n" a] by (simp add: add.assoc)
qed

lemma not_within_before:
  assumes "i < k" and "k + n \<le> 2 ^ 32"
  shows "\<not> within (a + of_nat i) (a + of_nat k) n"
proof
  assume "within (a + of_nat i) (a + of_nat k) n"
  then obtain j where j: "j < n" "a + of_nat i = a + of_nat k + of_nat j"
    using assms by (auto simp: within_iff)
  then have "(of_nat i :: 32 word) = of_nat (k + j)" by (simp add: add.assoc)
  then have "i = k + j" using assms j by (subst (asm) of_nat_eq_iff32) simp_all
  then show False using assms by simp
qed

section \<open>Lists and numbers\<close>

lemma all_from_Suc:
  assumes "P n" and "\<forall>j. Suc n \<le> j \<and> j < r \<longrightarrow> P j"
  shows "\<forall>j. n \<le> j \<and> j < (r :: nat) \<longrightarrow> P j"
  using assms by (metis Suc_leI le_neq_implies_less)

lemma length_takeWhile_less: "x \<in> set xs \<Longrightarrow> \<not> P x \<Longrightarrow> length (takeWhile P xs) < length xs"
  by (induction xs) auto

end
