(* ===== verification/Lib_String.thy ===== *)
theory Lib_String
  imports Prelude
begin

text \<open>
  \<^verbatim>\<open>lib/string.c\<close>: the memory and string routines, over byte memory. A loop that runs until it
  meets a NUL byte need not end, so those loops are \<open>partial_function (option)\<close>; \<open>None\<close> becomes
  the outcome \<open>LOOP\<close> of the routine.
\<close>

section \<open>The routines\<close>

fun memset_loop :: "nat \<Rightarrow> addr \<Rightarrow> u8 \<Rightarrow> mem \<Rightarrow> mem" where
  "memset_loop 0 dst value m = m"
| "memset_loop (Suc n) dst value m = memset_loop n (dst + 1) value (m(dst := value))"

definition memset :: "addr \<Rightarrow> u8 \<Rightarrow> u32 \<Rightarrow> mem \<Rightarrow> mem res" where
  "memset dst value sz m =
     assertion (dst \<noteq> NULL) ''dst_ != NULL'' (Inr (memset_loop (unat sz) dst value m))"

fun memcpy_loop :: "nat \<Rightarrow> addr \<Rightarrow> addr \<Rightarrow> mem \<Rightarrow> mem" where
  "memcpy_loop 0 dst src m = m"
| "memcpy_loop (Suc n) dst src m = memcpy_loop n (dst + 1) (src + 1) (m(dst := m src))"

definition memcpy :: "addr \<Rightarrow> addr \<Rightarrow> u32 \<Rightarrow> mem \<Rightarrow> mem res" where
  "memcpy dst src sz m =
     assertion (dst \<noteq> NULL \<and> src \<noteq> NULL) ''dst_ != NULL && src_ != NULL''
       (Inr (memcpy_loop (unat sz) dst src m))"

text \<open>\<^verbatim>\<open>char\<close> is signed on this target: comparisons of \<^verbatim>\<open>char\<close> values read the byte with \<open>sint\<close>.\<close>

fun memcmp_loop :: "nat \<Rightarrow> addr \<Rightarrow> addr \<Rightarrow> mem \<Rightarrow> int" where
  "memcmp_loop 0 a b m = 0"
| "memcmp_loop (Suc n) a b m =
     (if m a \<noteq> m b then (if sint (m a) > sint (m b) then 1 else - 1)
      else memcmp_loop n (a + 1) (b + 1) m)"

definition memcmp :: "addr \<Rightarrow> addr \<Rightarrow> u32 \<Rightarrow> mem \<Rightarrow> int res" where
  "memcmp a b sz m =
     assertion (a \<noteq> NULL \<and> b \<noteq> NULL) ''a != NULL && b != NULL''
       (Inr (memcmp_loop (unat sz) a b m))"

partial_function (option) strcpy_loop :: "addr \<Rightarrow> addr \<Rightarrow> mem \<Rightarrow> mem option" where
  "strcpy_loop dst src m =
     (let c = m src; m' = m(dst := c)
      in if c = 0 then Some m' else strcpy_loop (dst + 1) (src + 1) m')"

definition strcpy :: "addr \<Rightarrow> addr \<Rightarrow> mem \<Rightarrow> (addr \<times> mem) res" where
  "strcpy dst src m =
     assertion (src \<noteq> NULL \<and> dst \<noteq> NULL) ''src_ != NULL && dst_ != NULL''
       (res_bind (of_loop (strcpy_loop dst src m)) (\<lambda>m'. Inr (dst, m')))"

text \<open>\<^verbatim>\<open>while(*p++);\<close> leaves \<open>p\<close> one past the NUL.\<close>

partial_function (option) skip_string :: "addr \<Rightarrow> mem \<Rightarrow> addr option" where
  "skip_string p m = (if m p = 0 then Some (p + 1) else skip_string (p + 1) m)"

definition strlen :: "addr \<Rightarrow> mem \<Rightarrow> u32 res" where
  "strlen str m =
     assertion (str \<noteq> NULL) ''str != NULL''
       (res_bind (of_loop (skip_string str m)) (\<lambda>p. Inr (p - str - 1)))"

partial_function (option) strcmp_loop :: "addr \<Rightarrow> addr \<Rightarrow> mem \<Rightarrow> (addr \<times> addr) option" where
  "strcmp_loop a b m =
     (if m a \<noteq> 0 \<and> m a = m b then strcmp_loop (a + 1) (b + 1) m else Some (a, b))"

definition strcmp :: "addr \<Rightarrow> addr \<Rightarrow> mem \<Rightarrow> int res" where
  "strcmp a b m =
     assertion (a \<noteq> NULL \<and> b \<noteq> NULL) ''a != NULL && b != NULL''
       (res_bind (of_loop (strcmp_loop a b m)) (\<lambda>(a', b').
          Inr (if sint (m a') > sint (m b') then 1
               else if sint (m a') < sint (m b') then 1 else 0)))"

text \<open>\<^verbatim>\<open>*string == ch\<close> compares a signed \<^verbatim>\<open>char\<close> with a \<^verbatim>\<open>uint8_t\<close> after promotion to \<^verbatim>\<open>int\<close>.\<close>

partial_function (option) strchr_loop :: "addr \<Rightarrow> u8 \<Rightarrow> mem \<Rightarrow> addr option" where
  "strchr_loop string ch m =
     (if m string \<noteq> 0
      then if sint (m string) = uint ch then Some string else strchr_loop (string + 1) ch m
      else Some NULL)"

definition strchr :: "addr \<Rightarrow> u8 \<Rightarrow> mem \<Rightarrow> addr res" where
  "strchr string ch m =
     assertion (string \<noteq> NULL) ''string != NULL'' (of_loop (strchr_loop string ch m))"

partial_function (option) strrchr_loop :: "addr \<Rightarrow> u8 \<Rightarrow> addr \<Rightarrow> mem \<Rightarrow> addr option" where
  "strrchr_loop string ch last_char m =
     (if m string \<noteq> 0
      then strrchr_loop (string + 1) ch (if sint (m string) = uint ch then string else last_char) m
      else Some last_char)"

definition strrchr :: "addr \<Rightarrow> u8 \<Rightarrow> mem \<Rightarrow> addr res" where
  "strrchr string ch m =
     assertion (string \<noteq> NULL) ''string != NULL'' (of_loop (strrchr_loop string ch NULL m))"

definition strcat :: "addr \<Rightarrow> addr \<Rightarrow> mem \<Rightarrow> (addr \<times> mem) res" where
  "strcat dst src m =
     assertion (dst \<noteq> NULL \<and> src \<noteq> NULL) ''dst_ != NULL && src_ != NULL''
       (res_bind (of_loop (skip_string dst m)) (\<lambda>str.
        res_bind (of_loop (strcpy_loop (str - 1) src m)) (\<lambda>m'. Inr (dst, m'))))"

partial_function (option) strchrs_loop :: "addr \<Rightarrow> u8 \<Rightarrow> u32 \<Rightarrow> mem \<Rightarrow> u32 option" where
  "strchrs_loop filename ch count m =
     (if m filename \<noteq> 0
      then strchrs_loop (filename + 1) ch
             (if sint (m filename) = uint ch then count + 1 else count) m
      else Some count)"

definition strchrs :: "addr \<Rightarrow> u8 \<Rightarrow> mem \<Rightarrow> u32 res" where
  "strchrs filename ch m =
     assertion (filename \<noteq> NULL) ''filename != NULL'' (of_loop (strchrs_loop filename ch 0 m))"

text \<open>\<^verbatim>\<open>*(uint32_t*)a\<close>: a word of memory, low byte first.\<close>

definition load_u32 :: "addr \<Rightarrow> mem \<Rightarrow> u32" where
  "load_u32 a m = ucast (m a) OR push_bit 8 (ucast (m (a + 1))) OR push_bit 16 (ucast (m (a + 2))) OR
     push_bit 24 (ucast (m (a + 3)))"

section \<open>Buffers and C strings in memory\<close>

fun bytes_at :: "mem \<Rightarrow> addr \<Rightarrow> u8 list \<Rightarrow> bool" where
  "bytes_at m p [] = True"
| "bytes_at m p (c # cs) = (m p = c \<and> bytes_at m (p + 1) cs)"

text \<open>\<open>cstr m p s\<close>: the NUL-terminated string at \<open>p\<close> has the characters \<open>s\<close>.\<close>

fun cstr :: "mem \<Rightarrow> addr \<Rightarrow> u8 list \<Rightarrow> bool" where
  "cstr m p [] = (m p = 0)"
| "cstr m p (c # cs) = (m p = c \<and> c \<noteq> 0 \<and> cstr m (p + 1) cs)"

lemma bytes_at_iff: "bytes_at m p cs \<longleftrightarrow> (\<forall>i<length cs. m (p + of_nat i) = cs ! i)"
  by (induction cs arbitrary: p) (auto simp: less_Suc_eq_0_disj add.assoc)

lemma cstr_iff:
  "cstr m p s \<longleftrightarrow>
     (\<forall>i<length s. m (p + of_nat i) = s ! i \<and> s ! i \<noteq> 0) \<and> m (p + of_nat (length s)) = 0"
  by (induction s arbitrary: p) (auto simp: less_Suc_eq_0_disj add.assoc)

lemma cstr_transport:
  assumes "cstr m p s" and "\<And>i. i \<le> length s \<Longrightarrow> m' (q + of_nat i) = m (p + of_nat i)"
  shows "cstr m' q s"
  using assms by (auto simp: cstr_iff)

lemma cstr_frame:
  assumes "cstr m p s" and "\<And>x. within x p (Suc (length s)) \<Longrightarrow> m' x = m x"
  shows "cstr m' p s"
  using assms(1) by (rule cstr_transport) (simp add: assms(2) within_offset)

lemma cstr_unique: "cstr m p s \<Longrightarrow> cstr m p t \<Longrightarrow> s = t"
  by (induction s arbitrary: p t; case_tac t) auto

lemma cstr_append:
  "cstr m p (s @ t) \<longleftrightarrow> bytes_at m p s \<and> 0 \<notin> set s \<and> cstr m (p + of_nat (length s)) t"
  by (induction s arbitrary: p) (auto simp: add.assoc)

section \<open>The routines on buffers\<close>

lemma memset_loop_eq:
  "n \<le> 2 ^ 32 \<Longrightarrow> memset_loop n d v m = (\<lambda>x. if within x d n then v else m x)"
proof (induction n arbitrary: d m)
  case (Suc n)
  then show ?case by (auto simp: fun_eq_iff within_Suc)
qed simp

lemma disjoint_regions_Suc:
  assumes "disjoint_regions d (Suc n) s (Suc n)" and "n < 2 ^ 32"
  shows "disjoint_regions (d + 1) n (s + 1) n"
    and "\<not> within d s (Suc n)" and "\<not> within s d (Suc n)"
  using assms by (auto simp: disjoint_regions_def within_Suc)

lemma memcpy_loop_eq:
  "n \<le> 2 ^ 32 \<Longrightarrow> disjoint_regions d n s n \<Longrightarrow>
    memcpy_loop n d s m = (\<lambda>x. if within x d n then m (s + (x - d)) else m x)"
proof (induction n arbitrary: d s m)
  case (Suc n)
  have n: "n < 2 ^ 32" using Suc.prems(1) by simp
  note dis = disjoint_regions_Suc [OF Suc.prems(2) n]
  show ?case
  proof
    fix x
    have src: "within x (d + 1) n \<Longrightarrow> s + 1 + (x - (d + 1)) \<noteq> d"
    proof
      assume "within x (d + 1) n" and "s + 1 + (x - (d + 1)) = d"
      moreover from this(2) have "d - (s + 1) = x - (d + 1)" by (simp add: algebra_simps)
      ultimately have "within d (s + 1) n" unfolding within_def by metis
      with dis(2) n show False by (simp add: within_Suc)
    qed
    show "memcpy_loop (Suc n) d s m x = (if within x d (Suc n) then m (s + (x - d)) else m x)"
      using Suc.IH [OF _ dis(1)] n src by (auto simp: within_Suc algebra_simps)
  qed
qed simp

lemma memcmp_loop_eq_0: "memcmp_loop n a b m = 0 \<longleftrightarrow> (\<forall>i<n. m (a + of_nat i) = m (b + of_nat i))"
  by (induction n arbitrary: a b) (auto simp: less_Suc_eq_0_disj add.assoc)

section \<open>The routines on strings\<close>

lemma skip_string_cstr: "cstr m p s \<Longrightarrow> skip_string p m = Some (p + of_nat (length s) + 1)"
  by (induction s arbitrary: p) (simp_all add: skip_string.simps [of _ m] algebra_simps)

lemma strlen_cstr: "p \<noteq> NULL \<Longrightarrow> cstr m p s \<Longrightarrow> strlen p m = Inr (of_nat (length s))"
  by (simp add: strlen_def skip_string_cstr)

lemma strcmp_loop_cstr:
  "cstr m a s \<Longrightarrow> cstr m b t \<Longrightarrow>
    \<exists>a' b'. strcmp_loop a b m = Some (a', b') \<and> (m a' = m b' \<longleftrightarrow> s = t)"
proof (induction s arbitrary: a b t)
  case Nil
  then show ?case by (cases t) (auto simp: strcmp_loop.simps)
next
  case (Cons c s)
  show ?case
  proof (cases t)
    case Nil
    with Cons.prems show ?thesis by (auto simp: strcmp_loop.simps)
  next
    case (Cons d t')
    show ?thesis
    proof (cases "c = d")
      case True
      with Cons Cons.prems have "cstr m (a + 1) s" "cstr m (b + 1) t'" by auto
      from Cons.IH [OF this] True Cons Cons.prems show ?thesis
        by (subst strcmp_loop.simps) auto
    next
      case False
      with Cons Cons.prems show ?thesis by (subst strcmp_loop.simps) auto
    qed
  qed
qed

lemma sint_eq_uint_iff:
  fixes c ch :: u8
  assumes "ch < 128"
  shows "sint c = uint ch \<longleftrightarrow> c = ch"
proof -
  have ch: "uint ch < 128" using assms by (simp add: word_less_def)
  have sc: "sint c = uint c - 256 * of_bool (bit (uint c) 7)"
    using signed_take_bit_eq_take_bit_minus [of 7 "uint c"] uint_lt2p [of c]
    by (simp add: sint_uint take_bit_eq_mod)
  show ?thesis
  proof (cases "bit (uint c) 7")
    case True
    then have "\<not> uint c < 128" by (auto simp: bit_iff_odd)
    moreover have "sint c < 0" using True sc uint_lt2p [of c] by simp
    moreover have "0 \<le> uint ch" by simp
    ultimately have "sint c \<noteq> uint ch" "c \<noteq> ch" using ch by (linarith, auto)
    then show ?thesis by simp
  next
    case False
    then show ?thesis using sc by (simp add: word_uint_eq_iff)
  qed
qed

lemma strchr_loop_cstr:
  "ch < 128 \<Longrightarrow> cstr m p s \<Longrightarrow> strchr_loop p ch m =
     Some (if ch \<in> set s then p + of_nat (length (takeWhile (\<lambda>c. c \<noteq> ch) s)) else NULL)"
  by (induction s arbitrary: p)
    (auto simp: strchr_loop.simps [of _ ch m] sint_eq_uint_iff algebra_simps)

text \<open>The index of the last occurrence, as \<open>strrchr\<close> counts it.\<close>

definition last_index :: "u8 \<Rightarrow> u8 list \<Rightarrow> nat" where
  "last_index ch s = length s - 1 - length (takeWhile (\<lambda>c. c \<noteq> ch) (rev s))"

lemma last_index_spec:
  assumes "ch \<in> set s"
  shows "last_index ch s < length s" and "s ! last_index ch s = ch"
    and "\<And>i. last_index ch s < i \<Longrightarrow> i < length s \<Longrightarrow> s ! i \<noteq> ch"
proof -
  let ?n = "length (takeWhile (\<lambda>c. c \<noteq> ch) (rev s))"
  have n: "?n < length s" using assms length_takeWhile_less [of ch "rev s" "\<lambda>c. c \<noteq> ch"] by simp
  then show "last_index ch s < length s" by (simp add: last_index_def)
  have "rev s ! ?n = ch" using nth_length_takeWhile [of "\<lambda>c. c \<noteq> ch" "rev s"] n by auto
  with n show "s ! last_index ch s = ch" by (simp add: last_index_def rev_nth)
  fix i assume i: "last_index ch s < i" "i < length s"
  then have "length s - Suc i < ?n" using n by (simp add: last_index_def)
  then have "takeWhile (\<lambda>c. c \<noteq> ch) (rev s) ! (length s - Suc i) \<noteq> ch"
    using nth_mem set_takeWhileD by (metis (mono_tags, lifting))
  then have "rev s ! (length s - Suc i) \<noteq> ch"
    using \<open>length s - Suc i < ?n\<close> by (simp add: takeWhile_nth)
  with i show "s ! i \<noteq> ch" by (simp add: rev_nth)
qed

lemma last_index_Cons:
  "last_index ch (c # s) = (if ch \<in> set s then Suc (last_index ch s) else 0)"
proof (cases "ch \<in> set s")
  case True
  then have "length (takeWhile (\<lambda>c. c \<noteq> ch) (rev s)) < length s"
    using length_takeWhile_less [of ch "rev s" "\<lambda>c. c \<noteq> ch"] by simp
  with True show ?thesis by (simp add: last_index_def takeWhile_append)
next
  case False
  then show ?thesis by (simp add: last_index_def takeWhile_append)
qed

lemma strrchr_loop_cstr:
  "ch < 128 \<Longrightarrow> cstr m p s \<Longrightarrow> strrchr_loop p ch l m =
     Some (if ch \<in> set s then p + of_nat (last_index ch s) else l)"
  by (induction s arbitrary: p l)
    (auto simp: strrchr_loop.simps [of _ ch _ m] sint_eq_uint_iff last_index_Cons algebra_simps)

lemma strchrs_loop_cstr:
  "ch < 128 \<Longrightarrow> cstr m p s \<Longrightarrow>
     strchrs_loop p ch n m = Some (n + of_nat (length (filter (\<lambda>c. c = ch) s)))"
  by (induction s arbitrary: p n)
    (auto simp: strchrs_loop.simps [of _ ch _ m] sint_eq_uint_iff algebra_simps)

lemma strcpy_loop_cstr:
  "cstr m q s \<Longrightarrow> length s < 2 ^ 32 \<Longrightarrow>
     disjoint_regions p (Suc (length s)) q (Suc (length s)) \<Longrightarrow>
     strcpy_loop p q m = Some (memcpy_loop (Suc (length s)) p q m)"
proof (induction s arbitrary: p q m)
  case Nil
  then show ?case by (simp add: strcpy_loop.simps fun_eq_iff)
next
  case (Cons c s)
  have n: "Suc (length s) < 2 ^ 32" using Cons.prems(2) by simp
  note dis = disjoint_regions_Suc [OF Cons.prems(3) [simplified length_Cons] n]
  have "cstr (m(p := c)) (q + 1) s"
  proof (rule cstr_frame)
    show "cstr m (q + 1) s" using Cons.prems(1) by simp
  next
    fix x assume "within x (q + 1) (Suc (length s))"
    then show "(m(p := c)) x = m x" using dis(2) n by (auto simp: within_Suc [OF n])
  qed
  then have "strcpy_loop (p + 1) (q + 1) (m(p := c)) =
      Some (memcpy_loop (Suc (length s)) (p + 1) (q + 1) (m(p := c)))"
    by (rule Cons.IH [OF _ _ dis(1)]) (use n in simp)
  moreover have "m q = c" "c \<noteq> 0" using Cons.prems(1) by simp_all
  ultimately show ?case by (subst strcpy_loop.simps) (simp add: Let_def)
qed

section \<open>Main properties\<close>

text \<open>
  \<open>memcpy\<close> on disjoint buffers copies the source byte for byte, and changes
  nothing outside the destination buffer.
\<close>

theorem memcpy_copies:
  assumes "dst \<noteq> NULL" and "src \<noteq> NULL" and "disjoint_regions dst (unat n) src (unat n)"
  shows "\<exists>m'. memcpy dst src n m = Inr m' \<and>
    (\<forall>i<unat n. m' (dst + of_nat i) = m (src + of_nat i)) \<and>
    (\<forall>x. \<not> within x dst (unat n) \<longrightarrow> m' x = m x)"
proof -
  have "unat n \<le> 2 ^ 32" by simp
  then have "memcpy dst src n m =
      Inr (\<lambda>x. if within x dst (unat n) then m (src + (x - dst)) else m x)"
    using assms memcpy_loop_eq by (simp add: memcpy_def)
  then show ?thesis by (auto intro: within_offset)
qed

theorem memcpy_copies_witness:
  "\<exists>m'. memcpy 16 32 4 (\<lambda>x. ucast x) = Inr m' \<and>
    (\<forall>i<unat (4 :: u32). m' (16 + of_nat i) = ucast (32 + of_nat i :: u32)) \<and>
    (\<forall>x. \<not> within x 16 (unat (4 :: u32)) \<longrightarrow> m' x = ucast x)"
proof -
  have "disjoint_regions 16 (unat (4 :: u32)) 32 (unat (4 :: u32))"
    by (rule disjoint_regionsI) simp_all
  then show ?thesis using memcpy_copies [of 16 32 4 "\<lambda>x. ucast x"] by simp
qed

text \<open>
  C40: on NUL-terminated strings \<open>strcmp\<close> returns, and returns 0 exactly when the
  strings are equal. For different strings it returns 1 whichever is greater: the expression
  \<^verbatim>\<open>*a > *b ? 1 : *a < *b\<close> yields 1 for "less" as well, where the comment promises -1.
\<close>

theorem strcmp_decides_equality:
  assumes "a \<noteq> NULL" and "b \<noteq> NULL" and "cstr m a s" and "cstr m b t"
  shows "strcmp a b m = Inr (if s = t then 0 else 1)"
proof -
  obtain a' b' where "strcmp_loop a b m = Some (a', b')" and "m a' = m b' \<longleftrightarrow> s = t"
    using strcmp_loop_cstr [OF assms(3,4)] by blast
  moreover have "sint (m a') = sint (m b') \<longleftrightarrow> m a' = m b'" by (rule word_eq_iff_signed [symmetric])
  ultimately show ?thesis using assms(1,2) by (auto simp: strcmp_def)
qed

theorem strcmp_decides_equality_witness:
  "strcmp 8 16 ((\<lambda>_. 0)(8 := 65, 16 := 66)) = Inr 1"
  using strcmp_decides_equality [of 8 16 "(\<lambda>_. 0)(8 := 65, 16 := 66)" "[65]" "[66]"] by simp

text \<open>
  \<open>strrchr\<close>, on a NUL-terminated string and an ASCII character, returns the
  address of the last occurrence, and NULL when there is none.
\<close>

theorem strrchr_last_occurrence:
  assumes "p \<noteq> NULL" and "ch < 128" and "cstr m p s"
  shows "(ch \<notin> set s \<longrightarrow> strrchr p ch m = Inr NULL) \<and>
    (ch \<in> set s \<longrightarrow> (\<exists>i<length s. strrchr p ch m = Inr (p + of_nat i) \<and> s ! i = ch \<and>
       (\<forall>j. i < j \<and> j < length s \<longrightarrow> s ! j \<noteq> ch)))"
proof -
  have "strrchr p ch m = Inr (if ch \<in> set s then p + of_nat (last_index ch s) else NULL)"
    using assms strrchr_loop_cstr by (simp add: strrchr_def)
  then show ?thesis using last_index_spec [of ch s] by auto
qed

theorem strrchr_last_occurrence_witness:
  "\<exists>i<3. strrchr 8 47 ((\<lambda>_. 0)(8 := 47, 9 := 65, 10 := 47)) = Inr (8 + of_nat i) \<and>
     [47, 65, 47 :: u8] ! i = 47"
  using strrchr_last_occurrence
    [of 8 47 "(\<lambda>_. 0)(8 := 47, 9 := 65, 10 := 47)" "[47, 65, 47]"]
  by (auto simp: numeral_3_eq_3)

text \<open>
  \<open>strcat\<close> appends the source string to the destination string when the room
  it needs does not overlap the source; it leaves the source and all other memory alone.
\<close>

theorem strcat_appends:
  assumes "dst \<noteq> NULL" and "src \<noteq> NULL" and "cstr m dst d" and "cstr m src s"
    and "length d + length s < 2 ^ 32 - 1"
    and "disjoint_regions dst (Suc (length d + length s)) src (Suc (length s))"
  shows "\<exists>m'. strcat dst src m = Inr (dst, m') \<and> cstr m' dst (d @ s) \<and> cstr m' src s \<and>
    (\<forall>x. \<not> within x dst (Suc (length d + length s)) \<longrightarrow> m' x = m x)"
proof -
  let ?p = "dst + of_nat (length d)" and ?n = "Suc (length s)"
  let ?m = "\<lambda>x. if within x ?p ?n then m (src + (x - ?p)) else m x"
  have n: "length d + ?n \<le> 2 ^ 32" using assms(5) by simp
  have sub: "within x dst (Suc (length d + length s))" if "within x ?p ?n" for x
    using within_shift [OF that n] by simp
  have dis: "disjoint_regions ?p ?n src ?n"
    using assms(6) sub by (auto simp: disjoint_regions_def)
  have run: "strcat dst src m = Inr (dst, ?m)"
    using assms(1,2,5) dis memcpy_loop_eq [of ?n ?p src m]
    by (simp add: strcat_def skip_string_cstr [OF assms(3)] strcpy_loop_cstr [OF assms(4)]
        del: memcpy_loop.simps)
  have "bytes_at ?m dst d"
    using assms(3) not_within_before [OF _ n] by (auto simp: bytes_at_iff cstr_iff)
  moreover have "0 \<notin> set d" using assms(3) by (auto simp: cstr_iff in_set_conv_nth)
  moreover have "cstr ?m ?p s"
    by (rule cstr_transport [OF assms(4)]) (simp add: within_offset)
  moreover have "cstr ?m src s"
    by (rule cstr_frame [OF assms(4)]) (use dis in \<open>auto simp: disjoint_regions_def\<close>)
  ultimately show ?thesis using run sub by (auto simp: cstr_append)
qed

theorem strcat_appends_witness:
  "\<exists>m'. strcat 8 64 ((\<lambda>_. 0)(8 := 65, 64 := 66)) = Inr (8, m') \<and> cstr m' 8 [65, 66]"
  using strcat_appends [of 8 64 "(\<lambda>_. 0)(8 := 65, 64 := 66)" "[65]" "[66]"]
    disjoint_regionsI [of 8 "Suc (Suc (Suc 0))" 64 "Suc (Suc 0)"]
  by auto

end
