(* ===== verification/Bitmap.thy ===== *)
theory Bitmap
  imports Lib_String
begin

text \<open>
  \<^verbatim>\<open>lib/kernel/bitmap.c\<close>: bitmaps in byte memory. The bits of a \<^verbatim>\<open>struct bitmap\<close> are behind the
  pointer \<open>bits\<close>, so the operations take the memory as an argument, and a read or write past
  \<open>btmp_bytes_len\<close> is a read or write of whatever lies there. The value -1 of an \<^verbatim>\<open>int\<close> result
  is the word of all ones.
\<close>

section \<open>The routines\<close>

record bitmap =
  btmp_bytes_len :: u32
  bits :: addr

abbreviation (input) BITMAP_MASK :: "'a :: len word" where "BITMAP_MASK \<equiv> 1"

definition bitmap_init :: "bitmap \<Rightarrow> mem \<Rightarrow> mem res" where
  "bitmap_init btmp m = memset (bits btmp) 0 (btmp_bytes_len btmp) m"

definition bitmap_scan_test :: "bitmap \<Rightarrow> u32 \<Rightarrow> mem \<Rightarrow> bool" where
  "bitmap_scan_test btmp bit_idx m =
     (let byte_idx = bit_idx div 8; bit_odd = bit_idx mod 8
      in m (bits btmp + byte_idx) AND push_bit (unat bit_odd) BITMAP_MASK \<noteq> 0)"

text \<open>The first loop of \<open>bitmap_scan\<close>: it reads the byte before it checks the index.\<close>

function scan_byte :: "bitmap \<Rightarrow> mem \<Rightarrow> u32 \<Rightarrow> u32" where
  "scan_byte btmp m free_byte_idx =
     (if m (bits btmp + free_byte_idx) = 0xff \<and> free_byte_idx < btmp_bytes_len btmp
      then scan_byte btmp m (free_byte_idx + 1) else free_byte_idx)"
  by pat_completeness auto
termination
proof (relation "measure (\<lambda>(btmp, m, i). unat (btmp_bytes_len btmp) - unat i)", goal_cases)
  case (2 btmp m i)
  then have "unat i < unat (btmp_bytes_len btmp)" by (simp add: word_less_nat_alt)
  then show ?case using 2 by (simp add: unat_Suc_less [of i "btmp_bytes_len btmp"])
qed simp

declare scan_byte.simps [simp del]

text \<open>The second loop: \<^verbatim>\<open>(uint8_t)(BITMAP_MASK << free_bit_in_byte)\<close> is 0 from 8 on.\<close>

function scan_bit :: "u8 \<Rightarrow> nat \<Rightarrow> nat" where
  "scan_bit byte free_bit_in_byte =
     (if byte AND push_bit free_bit_in_byte BITMAP_MASK \<noteq> 0
      then scan_bit byte (Suc free_bit_in_byte) else free_bit_in_byte)"
  by pat_completeness auto
termination
proof (relation "measure (\<lambda>(byte, k). 8 - k)", goal_cases)
  case (2 byte k)
  then have "bit byte k" by (simp add: bit_iff_and_push_bit_not_eq_0)
  then have "k < 8" using bit_imp_le_length [of byte k] by simp
  then show ?case by simp
qed simp

declare scan_bit.simps [simp del]

text \<open>The third loop, \<^verbatim>\<open>while(bit_left-- > 0)\<close>, counts consecutive free bits.\<close>

fun scan_run :: "bitmap \<Rightarrow> mem \<Rightarrow> u32 \<Rightarrow> nat \<Rightarrow> u32 \<Rightarrow> u32 \<Rightarrow> u32" where
  "scan_run btmp m cnt 0 next_bit count = - 1"
| "scan_run btmp m cnt (Suc bit_left) next_bit count =
     (let count' = (if \<not> bitmap_scan_test btmp next_bit m then count + 1 else 0)
      in if count' = cnt then next_bit - count' + 1
         else scan_run btmp m cnt bit_left (next_bit + 1) count')"

definition bitmap_scan :: "bitmap \<Rightarrow> u32 \<Rightarrow> mem \<Rightarrow> u32 res" where
  "bitmap_scan btmp cnt m =
     (let free_byte_idx = scan_byte btmp m 0
      in assertion (free_byte_idx < btmp_bytes_len btmp) ''free_byte_idx < btmp->btmp_bytes_len''
        (if free_byte_idx \<ge> btmp_bytes_len btmp then Inr (- 1)
         else let free_bit_in_byte = scan_bit (m (bits btmp + free_byte_idx)) 0;
                  free_bit_start = free_byte_idx * 8 + of_nat free_bit_in_byte
              in if cnt = 1 then Inr free_bit_start
                 else Inr (scan_run btmp m cnt
                        (unat (btmp_bytes_len btmp * 8 - free_bit_start - 1))
                        (free_bit_start + 1) 1)))"

definition bitmap_set :: "bitmap \<Rightarrow> u32 \<Rightarrow> u8 \<Rightarrow> mem \<Rightarrow> mem res" where
  "bitmap_set btmp bit_idx value m =
     assertion (value = 0 \<or> value = 1) ''(value == 0) || (value == 1)''
       (let p = bits btmp + bit_idx div 8; bit_odd = unat (bit_idx mod 8)
        in if value \<noteq> 0 then Inr (m(p := m p OR push_bit bit_odd BITMAP_MASK))
           else Inr (m(p := m p AND NOT (push_bit bit_odd BITMAP_MASK))))"

section \<open>The bits of a bitmap\<close>

definition bm_bit :: "mem \<Rightarrow> bitmap \<Rightarrow> nat \<Rightarrow> bool" where
  "bm_bit m btmp i = bit (m (bits btmp + of_nat (i div 8))) (i mod 8)"

abbreviation bm_size :: "bitmap \<Rightarrow> nat" where
  "bm_size btmp \<equiv> 8 * unat (btmp_bytes_len btmp)"

text \<open>
  A bitmap that fits the code's use of \<^verbatim>\<open>int\<close> indices: fewer than \<open>2 ^ 31\<close> bits. The kernel's
  largest bitmaps, those of a user address space, have under \<open>2 ^ 20\<close>.
\<close>

definition bm_wf :: "bitmap \<Rightarrow> bool" where
  "bm_wf btmp \<longleftrightarrow> bm_size btmp < 2 ^ 31 \<and> bits btmp \<noteq> NULL"

definition bm_same :: "mem \<Rightarrow> mem \<Rightarrow> bitmap \<Rightarrow> bool" where
  "bm_same m m' btmp \<longleftrightarrow> (\<forall>i<bm_size btmp. bm_bit m' btmp i = bm_bit m btmp i)"

lemma bm_wf_size [simp]: "bm_wf btmp \<Longrightarrow> bm_size btmp < 2147483648"
  by (simp add: bm_wf_def)

lemma of_nat_unat_div8: "of_nat (unat i div 8) = (i :: u32) div 8"
  by (simp add: word_arith_nat_div unat_div)

lemma bitmap_scan_test_bit: "bitmap_scan_test btmp i m \<longleftrightarrow> bm_bit m btmp (unat i)"
  by (simp add: bitmap_scan_test_def bm_bit_def bit_iff_and_push_bit_not_eq_0 of_nat_unat_div8
      unat_mod)

lemma bytes_distinct:
  assumes "i < 2 ^ 32" and "j < 2 ^ 32"
  shows "bits btmp + of_nat (i div 8) = bits btmp + of_nat (j div 8) \<longleftrightarrow> i div 8 = j div 8"
  using assms by (simp add: of_nat_eq_iff32)

lemma bitmap_set_bits:
  assumes "value = 0 \<or> value = 1"
  shows "\<exists>m'. bitmap_set btmp i value m = Inr m' \<and>
    (\<forall>j<2 ^ 32. bm_bit m' btmp j = (if j = unat i then value = 1 else bm_bit m btmp j)) \<and>
    (\<forall>x. x \<noteq> bits btmp + i div 8 \<longrightarrow> m' x = m x)"
proof -
  let ?p = "bits btmp + i div 8" and ?k = "unat (i mod 8)"
  define m' where "m' = m(?p := if value = 1 then m ?p OR push_bit ?k 1
    else m ?p AND NOT (push_bit ?k 1))"
  have run: "bitmap_set btmp i value m = Inr m'"
    using assms by (auto simp: bitmap_set_def m'_def Let_def)
  have k: "?k = unat i mod 8" by (simp add: unat_mod)
  have "bm_bit m' btmp j = (if j = unat i then value = 1 else bm_bit m btmp j)"
    if j: "j < 2 ^ 32" for j
  proof (cases "j div 8 = unat i div 8")
    case True
    then have p: "bits btmp + of_nat (j div 8) = ?p" by (simp add: of_nat_unat_div8)
    have "j = unat i \<longleftrightarrow> j mod 8 = ?k" using True k by (metis div_mult_mod_eq)
    moreover have "j mod 8 < 8" by simp
    ultimately show ?thesis using assms
      by (auto simp: bm_bit_def p m'_def bit_or_iff bit_and_iff bit_not_iff bit_exp_iff)
  next
    case False
    then have "bits btmp + of_nat (j div 8) \<noteq> ?p"
      using bytes_distinct [OF j, of "unat i"] by (simp add: of_nat_unat_div8)
    then show ?thesis using False by (auto simp: bm_bit_def m'_def)
  qed
  then show ?thesis using run by (auto simp: m'_def)
qed

lemma bitmap_init_bits:
  assumes "bm_wf btmp"
  shows "\<exists>m'. bitmap_init btmp m = Inr m' \<and> (\<forall>i<bm_size btmp. \<not> bm_bit m' btmp i) \<and>
    (\<forall>x. \<not> within x (bits btmp) (unat (btmp_bytes_len btmp)) \<longrightarrow> m' x = m x)"
proof -
  let ?m = "\<lambda>x. if within x (bits btmp) (unat (btmp_bytes_len btmp)) then 0 else m x"
  have "bitmap_init btmp m = Inr ?m"
    using assms memset_loop_eq by (simp add: bitmap_init_def memset_def bm_wf_def)
  moreover have "\<not> bm_bit ?m btmp i" if "i < bm_size btmp" for i
  proof -
    have "i div 8 < unat (btmp_bytes_len btmp)" using that by simp
    then show ?thesis by (simp add: bm_bit_def within_offset)
  qed
  ultimately show ?thesis by auto
qed

section \<open>The scan\<close>

text \<open>\<open>free_run\<close>: \<open>cnt\<close> consecutive free bits from \<open>k\<close> on, inside a bitmap of \<open>n\<close> bits.\<close>

definition free_run :: "(nat \<Rightarrow> bool) \<Rightarrow> nat \<Rightarrow> nat \<Rightarrow> nat \<Rightarrow> bool" where
  "free_run used n cnt k \<longleftrightarrow> k + cnt \<le> n \<and> (\<forall>j<cnt. \<not> used (k + j))"

text \<open>What a first-fit scan promises: the least start of a free run, -1 when there is none.\<close>

definition first_fit :: "(nat \<Rightarrow> bool) \<Rightarrow> nat \<Rightarrow> nat \<Rightarrow> u32" where
  "first_fit used n cnt =
     (if \<exists>k. free_run used n cnt k then of_nat (LEAST k. free_run used n cnt k) else - 1)"

lemma byte_full_iff: "(w :: u8) = 0xff \<longleftrightarrow> (\<forall>k<8. bit w k)"
proof -
  have "(0xff :: u8) = - 1" by simp
  then show ?thesis by (auto simp: bit_eq_iff bit_imp_le_length)
qed

lemma scan_byte_spec:
  assumes "i \<le> btmp_bytes_len btmp"
  shows "i \<le> scan_byte btmp m i \<and> scan_byte btmp m i \<le> btmp_bytes_len btmp \<and>
    (\<forall>j. unat i \<le> j \<and> j < unat (scan_byte btmp m i) \<longrightarrow> m (bits btmp + of_nat j) = 0xff) \<and>
    (scan_byte btmp m i < btmp_bytes_len btmp \<longrightarrow> m (bits btmp + scan_byte btmp m i) \<noteq> 0xff)"
  using assms
proof (induction btmp m i rule: scan_byte.induct)
  case (1 btmp m i)
  show ?case
  proof (cases "m (bits btmp + i) = 0xff \<and> i < btmp_bytes_len btmp")
    case False
    with 1 show ?thesis by (auto simp: scan_byte.simps [of btmp m i])
  next
    case True
    note Suc = unat_Suc_less [OF conjunct2 [OF True]]
    let ?r = "scan_byte btmp m (i + 1)"
    have i: "i + 1 \<le> btmp_bytes_len btmp" "i \<le> i + 1"
      using True by (simp_all add: word_le_nat_alt Suc word_less_nat_alt Suc_leI)
    have ff: "m (bits btmp + of_nat (unat i)) = 0xff" using True by simp
    have r: "scan_byte btmp m i = ?r" using True by (simp add: scan_byte.simps [of btmp m i])
    have IH: "i + 1 \<le> ?r" "?r \<le> btmp_bytes_len btmp"
      "\<forall>j. Suc (unat i) \<le> j \<and> j < unat ?r \<longrightarrow> m (bits btmp + of_nat j) = 0xff"
      "?r < btmp_bytes_len btmp \<longrightarrow> m (bits btmp + ?r) \<noteq> 0xff"
      using "1.IH" [OF True i(1)] unfolding Suc by blast+
    have "i \<le> ?r" using i(2) IH(1) by (rule order_trans)
    with all_from_Suc [of "\<lambda>j. m (bits btmp + of_nat j) = 0xff", OF ff IH(3)] IH(2,4)
    show ?thesis by (simp only: r simp_thms)
  qed
qed

lemma scan_bit_spec:
  "(\<forall>k<n. bit byte k) \<Longrightarrow>
     \<not> bit byte (scan_bit byte n) \<and> (\<forall>k. k < scan_bit byte n \<longrightarrow> bit byte k) \<and> scan_bit byte n \<le> max n 8"
proof (induction byte n rule: scan_bit.induct)
  case (1 byte n)
  show ?case
  proof (cases "bit byte n")
    case True
    then have "n < 8" using bit_imp_le_length [of byte n] by simp
    moreover have "\<forall>k<Suc n. bit byte k" using 1 True by (simp add: less_Suc_eq)
    ultimately show ?thesis using 1 True
      by (simp add: scan_bit.simps [of byte n] bit_iff_and_push_bit_not_eq_0)
  next
    case False
    with 1 show ?thesis
      by (simp add: scan_bit.simps [of byte n] bit_iff_and_push_bit_not_eq_0)
  qed
qed

lemma free_run_extend:
  assumes "free_run used (Suc n) cnt k" and "\<not> free_run used n cnt k"
  shows "k + cnt = Suc n"
  using assms by (auto simp: free_run_def)

text \<open>
  The third loop, from a state in which the \<open>c\<close> bits before \<open>n\<close> are a maximal free run and no
  long enough run ends at \<open>n\<close> or before.
\<close>

lemma scan_run_first_fit:
  assumes "n + l = N" and "N < 2 ^ 31" and "unat cnt = cn" and "c \<le> n" and "c < cn"
    and "\<And>j. n - c \<le> j \<Longrightarrow> j < n \<Longrightarrow> \<not> bm_bit m btmp j"
    and "c < n \<Longrightarrow> bm_bit m btmp (n - c - 1)"
    and "\<And>k. \<not> free_run (bm_bit m btmp) n cn k"
  shows "scan_run btmp m cnt l (of_nat n) (of_nat c) = first_fit (bm_bit m btmp) N cn"
  using assms
proof (induction l arbitrary: n c)
  case 0
  then show ?case by (simp add: first_fit_def)
next
  case (Suc l)
  define c' where "c' = (if \<not> bm_bit m btmp n then Suc c else 0)"
  have n: "unat (of_nat n :: u32) = n" using Suc.prems(1,2) by (simp add: unat_of_nat32)
  have c': "of_nat c' = cnt \<longleftrightarrow> c' = cn" "c' \<le> Suc n"
    using Suc.prems(1-5) by (auto simp: c'_def word_unat_eq_iff unat_of_nat32)
  have cw: "(if \<not> bitmap_scan_test btmp (of_nat n) m then of_nat c + 1 else 0) = (of_nat c' :: u32)"
    by (simp add: bitmap_scan_test_bit n c'_def add.commute)
  have step: "scan_run btmp m cnt (Suc l) (of_nat n) (of_nat c) =
     (if c' = cn then of_nat n - of_nat c' + 1
      else scan_run btmp m cnt l (of_nat (Suc n)) (of_nat c'))"
    by (simp add: cw c'(1) Let_def add.commute)
  have free: "\<not> bm_bit m btmp j" if "Suc n - c' \<le> j" "j < Suc n" for j
    using that Suc.prems(6) by (auto simp: c'_def less_Suc_eq split: if_splits)
  have used: "bm_bit m btmp (Suc n - c' - 1)" if "c' < Suc n"
    using that Suc.prems(7) by (auto simp: c'_def split: if_splits)
  show ?case
  proof (cases "c' = cn")
    case True
    have run: "free_run (bm_bit m btmp) N cn (Suc n - cn)"
      using free True c'(2) Suc.prems(1) by (auto simp: free_run_def)
    have least: "Suc n - cn \<le> k" if "free_run (bm_bit m btmp) N cn k" for k
      using that Suc.prems(8) [of k] by (auto simp: free_run_def)
    have "(LEAST k. free_run (bm_bit m btmp) N cn k) = Suc n - cn"
      by (rule Least_equality) (use run least in auto)
    with run step True c'(2) show ?thesis
      by (auto simp: first_fit_def of_nat_diff)
  next
    case False
    have none: "\<not> free_run (bm_bit m btmp) (Suc n) cn k" for k
    proof
      assume k: "free_run (bm_bit m btmp) (Suc n) cn k"
      with Suc.prems(8) have kn: "k + cn = Suc n" by (blast intro: free_run_extend)
      have "c' < cn" using False Suc.prems(5) by (auto simp: c'_def)
      then have "c' < Suc n" and "Suc n - c' - 1 = k + (cn - c' - 1)" and "cn - c' - 1 < cn"
        using kn by auto
      with k used show False by (simp add: free_run_def)
    qed
    have "c' < cn" using False Suc.prems(5) by (auto simp: c'_def)
    with step False show ?thesis
      using Suc.IH [of "Suc n" c'] Suc.prems(1-3) c'(2) free used none by simp
  qed
qed

lemma bm_bit_byte: "k < 8 \<Longrightarrow> bm_bit m btmp (8 * j + k) = bit (m (bits btmp + of_nat j)) k"
  by (simp add: bm_bit_def)

lemma bytes_full:
  assumes "\<forall>j. j < n \<longrightarrow> m (bits btmp + of_nat j) = 0xff" and "i < 8 * n"
  shows "bm_bit m btmp i"
proof -
  have "i div 8 < n" using assms(2) by simp
  with assms(1) have "m (bits btmp + of_nat (i div 8)) = 0xff" by blast
  moreover have "i mod 8 < 8" by simp
  ultimately show ?thesis unfolding bm_bit_def using byte_full_iff by blast
qed

text \<open>The first two loops find the first free bit, if there is one.\<close>

lemma scan_first_free:
  assumes "bm_wf btmp" and "\<exists>i<bm_size btmp. \<not> bm_bit m btmp i"
  defines "r \<equiv> scan_byte btmp m 0"
  defines "f \<equiv> 8 * unat r + scan_bit (m (bits btmp + r)) 0"
  shows "r < btmp_bytes_len btmp" and "r * 8 + of_nat (scan_bit (m (bits btmp + r)) 0) = of_nat f"
    and "f < bm_size btmp" and "\<not> bm_bit m btmp f" and "\<And>i. i < f \<Longrightarrow> bm_bit m btmp i"
proof -
  let ?byte = "m (bits btmp + r)"
  have r: "r \<le> btmp_bytes_len btmp" "\<forall>j. j < unat r \<longrightarrow> m (bits btmp + of_nat j) = 0xff"
    "r < btmp_bytes_len btmp \<longrightarrow> ?byte \<noteq> 0xff"
    using scan_byte_spec [of 0 btmp m] unfolding r_def by auto
  show rl: "r < btmp_bytes_len btmp"
  proof (rule ccontr)
    assume "\<not> ?thesis"
    then have "r = btmp_bytes_len btmp" using r(1) by simp
    then show False using assms(2) bytes_full [OF r(2)] by auto
  qed
  define k where "k = scan_bit ?byte 0"
  have k: "\<not> bit ?byte k" "\<forall>j. j < k \<longrightarrow> bit ?byte j"
    using scan_bit_spec [of 0 ?byte] by (auto simp: k_def)
  have k8: "k < 8"
  proof (rule ccontr)
    assume "\<not> ?thesis"
    then have "?byte = 0xff" using k(2) byte_full_iff by auto
    then show False using r(3) rl by simp
  qed
  have f: "f = 8 * unat r + k" by (simp add: f_def k_def)
  show "r * 8 + of_nat (scan_bit ?byte 0) = of_nat f" by (simp add: f k_def mult.commute)
  have "unat r < unat (btmp_bytes_len btmp)" using rl by (simp add: word_less_nat_alt)
  then show "f < bm_size btmp" using f k8 by simp
  show "\<not> bm_bit m btmp f" using k(1) k8 by (simp add: f bm_bit_byte)
  fix i assume i: "i < f"
  show "bm_bit m btmp i"
  proof (cases "i < 8 * unat r")
    case True
    then show ?thesis by (rule bytes_full [OF r(2)])
  next
    case False
    then obtain j where "i = 8 * unat r + j" "j < k" using i f
      by (metis le_Suc_ex linorder_not_less nat_add_left_cancel_less)
    then show ?thesis using k(2) k8 by (simp add: bm_bit_byte)
  qed
qed

section \<open>Main properties\<close>

lemma bitmap_scan_eq:
  assumes "bm_wf btmp" and "0 < cnt"
  shows "bitmap_scan btmp cnt m =
    (if \<exists>i<bm_size btmp. \<not> bm_bit m btmp i
     then Inr (first_fit (bm_bit m btmp) (bm_size btmp) (unat cnt))
     else Inl (ASSERT ''free_byte_idx < btmp->btmp_bytes_len''))"
proof (cases "\<exists>i<bm_size btmp. \<not> bm_bit m btmp i")
  case False
  have "\<not> scan_byte btmp m 0 < btmp_bytes_len btmp"
  proof
    let ?r = "scan_byte btmp m 0"
    assume r: "?r < btmp_bytes_len btmp"
    then have "8 * unat ?r + k < bm_size btmp" if "k < 8" for k
      using that by (simp add: word_less_nat_alt)
    then have "\<forall>k<8. bit (m (bits btmp + ?r)) k"
      using False bm_bit_byte [of _ m btmp "unat ?r"] by auto
    then show False using scan_byte_spec [of 0 btmp m] r byte_full_iff by auto
  qed
  then show ?thesis using False by (simp add: bitmap_scan_def Let_def)
next
  case True
  note free = scan_first_free [OF assms(1) True]
  let ?r = "scan_byte btmp m 0"
  define f where "f = 8 * unat ?r + scan_bit (m (bits btmp + ?r)) 0"
  note f = free [folded f_def]
  let ?N = "bm_size btmp"
  have N: "?N < 2 ^ 31" using assms(1) by (simp add: bm_wf_def)
  show ?thesis
  proof (cases "cnt = 1")
    case True
    have "(LEAST k. free_run (bm_bit m btmp) ?N 1 k) = f"
      using f(3-5) by (intro Least_equality) (auto simp: free_run_def not_less [symmetric])
    moreover have "free_run (bm_bit m btmp) ?N 1 f" using f(3,4) by (simp add: free_run_def)
    ultimately show ?thesis
      using \<open>cnt = 1\<close> f(1,2) \<open>\<exists>i<?N. _ i\<close> by (auto simp: bitmap_scan_def Let_def first_fit_def)
  next
    case False
    have cn: "1 < unat cnt" using False assms(2)
      by (metis less_one linorder_neqE_nat unat_1 unat_eq_zero word_neq_0_conv word_unat_eq_iff)
    have fw: "unat (of_nat f :: u32) = f" using f(3) N by (simp add: unat_of_nat32)
    have left: "unat (btmp_bytes_len btmp * 8 - of_nat f - 1) = ?N - f - 1"
    proof -
      have "btmp_bytes_len btmp * 8 = of_nat ?N" by (simp add: mult.commute)
      then have "btmp_bytes_len btmp * 8 - of_nat f - 1 = of_nat (?N - f - 1)"
        using f(3) by (simp add: of_nat_diff)
      then show ?thesis using N by (simp add: unat_of_nat32)
    qed
    have "scan_run btmp m cnt (?N - f - 1) (of_nat (Suc f)) (of_nat 1) =
        first_fit (bm_bit m btmp) ?N (unat cnt)"
    proof (rule scan_run_first_fit)
      show "\<not> free_run (bm_bit m btmp) (Suc f) (unat cnt) k" for k
        using cn f(5) [of k] by (auto simp: free_run_def intro!: exI [of _ 0])
    qed (use f N cn in \<open>auto simp: less_Suc_eq le_less\<close>)
    moreover have "\<not> btmp_bytes_len btmp \<le> ?r" using f(1) by simp
    ultimately show ?thesis using False f(1,2) True left
      by (simp add: bitmap_scan_def Let_def add.commute)
  qed
qed

text \<open>
  C5: a complete description of \<open>bitmap_scan\<close>. If some bit of the bitmap is free,
  the scan returns the least start of \<open>cnt\<close> consecutive free bits, or -1 if there is no such run.
  If every bit is taken, the assertion before the \<^verbatim>\<open>return -1\<close> stops the kernel: the -1 the
  comment promises for a full bitmap is never returned.
\<close>

theorem bitmap_scan_first_fit:
  assumes "bm_wf btmp" and "0 < cnt"
  shows "bitmap_scan btmp cnt m =
    (if \<exists>i<bm_size btmp. \<not> bm_bit m btmp i
     then Inr (first_fit (bm_bit m btmp) (bm_size btmp) (unat cnt))
     else Inl (ASSERT ''free_byte_idx < btmp->btmp_bytes_len''))"
  using assms by (rule bitmap_scan_eq)

theorem bitmap_scan_first_fit_witness:
  "bitmap_scan \<lparr>btmp_bytes_len = 2, bits = 16\<rparr> 3 ((\<lambda>_. 0)(16 := 0x0b)) =
     Inr (first_fit (bm_bit ((\<lambda>_. 0)(16 := 0x0b)) \<lparr>btmp_bytes_len = 2, bits = 16\<rparr>) 16 3)"
proof -
  let ?b = "\<lparr>btmp_bytes_len = 2, bits = 16\<rparr>" and ?m = "(\<lambda>_. 0)(16 := 0x0b) :: mem"
  have "\<exists>i<bm_size ?b. \<not> bm_bit ?m ?b i"
    by (rule exI [of _ 2]) (simp add: bm_bit_def bit_numeral_rec)
  then show ?thesis
    using bitmap_scan_first_fit [of ?b 3 ?m] by (simp add: bm_wf_def)
qed

text \<open>
  \<open>bitmap_set\<close> with value 0 or 1 returns, makes the addressed bit test as that
  value, leaves every other bit as it was, and touches one byte of memory.
\<close>

theorem bitmap_set_test:
  assumes "value = 0 \<or> value = 1"
  shows "\<exists>m'. bitmap_set btmp i value m = Inr m' \<and>
    (\<forall>j. bitmap_scan_test btmp j m' =
       (if j = i then value = 1 else bitmap_scan_test btmp j m)) \<and>
    (\<forall>x. x \<noteq> bits btmp + i div 8 \<longrightarrow> m' x = m x)"
proof -
  obtain m' where m': "bitmap_set btmp i value m = Inr m'"
    "\<forall>j<2 ^ 32. bm_bit m' btmp j = (if j = unat i then value = 1 else bm_bit m btmp j)"
    "\<forall>x. x \<noteq> bits btmp + i div 8 \<longrightarrow> m' x = m x"
    using bitmap_set_bits [OF assms] by blast
  have "bitmap_scan_test btmp j m' = (if j = i then value = 1 else bitmap_scan_test btmp j m)" for j
    using m'(2) unat_less_2p32 [of j]
    by (simp add: bitmap_scan_test_bit word_unat_eq_iff del: unat_less_2p32)
  then show ?thesis using m'(1,3) by blast
qed

theorem bitmap_set_test_witness:
  "\<exists>m'. bitmap_set \<lparr>btmp_bytes_len = 2, bits = 16\<rparr> 9 1 (\<lambda>_. 0) = Inr m' \<and>
     bitmap_scan_test \<lparr>btmp_bytes_len = 2, bits = 16\<rparr> 9 m'"
  using bitmap_set_test [of 1 "\<lparr>btmp_bytes_len = 2, bits = 16\<rparr>" 9 "\<lambda>_. 0"] by auto

end
