(* ===== verification/Interrupt.thy ===== *)
theory Interrupt
  imports Prelude
begin

text \<open>
  \<^verbatim>\<open>kernel/interrupt.c\<close>: the interrupt flag. The processor state starts with the register
  EFLAGS; the states of the other components extend this record.
\<close>

record cpu =
  eflags :: u32

datatype intr_status = INT_OFF | INT_ON

definition EFLAGS_IF :: u32 where "EFLAGS_IF = 0x00000200"

text \<open>The instructions \<^verbatim>\<open>sti\<close> and \<^verbatim>\<open>cli\<close>.\<close>

definition sti :: "'a cpu_scheme \<Rightarrow> 'a cpu_scheme" where
  "sti s = s\<lparr>eflags := eflags s OR EFLAGS_IF\<rparr>"

definition cli :: "'a cpu_scheme \<Rightarrow> 'a cpu_scheme" where
  "cli s = s\<lparr>eflags := eflags s AND NOT EFLAGS_IF\<rparr>"

definition get_intr_status :: "'a cpu_scheme \<Rightarrow> intr_status" where
  "get_intr_status s = (if eflags s AND EFLAGS_IF \<noteq> 0 then INT_ON else INT_OFF)"

definition enable_intr :: "'a cpu_scheme \<Rightarrow> intr_status \<times> 'a cpu_scheme" where
  "enable_intr s =
     (if get_intr_status s = INT_ON then (INT_ON, s) else (INT_OFF, sti s))"

definition disable_intr :: "'a cpu_scheme \<Rightarrow> intr_status \<times> 'a cpu_scheme" where
  "disable_intr s =
     (if get_intr_status s = INT_ON then (INT_ON, cli s) else (INT_OFF, s))"

definition set_intr_status :: "intr_status \<Rightarrow> 'a cpu_scheme \<Rightarrow> intr_status \<times> 'a cpu_scheme" where
  "set_intr_status status s = (if status = INT_ON then enable_intr s else disable_intr s)"

text \<open>
  The bracket \<^verbatim>\<open>old = disable_intr(); ...; set_intr_status(old)\<close> around a section that returns
  without giving up the processor.
\<close>

definition with_intr_off :: "('a cpu_scheme \<Rightarrow> 'a cpu_scheme) \<Rightarrow> 'a cpu_scheme \<Rightarrow> 'a cpu_scheme" where
  "with_intr_off body s =
     (let (status, s1) = disable_intr s in snd (set_intr_status status (body s1)))"

section \<open>Properties\<close>

lemma EFLAGS_IF_bit: "e AND EFLAGS_IF \<noteq> 0 \<longleftrightarrow> bit e 9"
proof -
  have "EFLAGS_IF = push_bit 9 1" by (simp add: EFLAGS_IF_def)
  then show ?thesis by (simp only: bit_iff_and_push_bit_not_eq_0)
qed

lemma bit_EFLAGS_IF: "bit EFLAGS_IF n \<longleftrightarrow> n = 9"
proof -
  have eq: "EFLAGS_IF = 2 ^ 9" by (simp add: EFLAGS_IF_def)
  show ?thesis unfolding eq bit_exp_iff by auto
qed

lemma get_intr_status_iff: "get_intr_status s = INT_ON \<longleftrightarrow> bit (eflags s) 9"
  by (simp add: get_intr_status_def EFLAGS_IF_bit)

lemma get_intr_status_cli [simp]: "get_intr_status (cli s) = INT_OFF"
  using get_intr_status_iff [of "cli s"]
  by (cases "get_intr_status (cli s)")
    (auto simp: cli_def bit_and_iff bit_not_iff bit_EFLAGS_IF)

lemma get_intr_status_sti [simp]: "get_intr_status (sti s) = INT_ON"
  by (simp add: get_intr_status_iff sti_def bit_or_iff bit_EFLAGS_IF)

lemma get_intr_status_disable [simp]: "get_intr_status (snd (disable_intr s)) = INT_OFF"
  by (cases "get_intr_status s") (simp_all add: disable_intr_def)

lemma get_intr_status_enable [simp]: "get_intr_status (snd (enable_intr s)) = INT_ON"
  by (cases "get_intr_status s") (simp_all add: enable_intr_def)

lemma get_intr_status_set [simp]: "get_intr_status (snd (set_intr_status st s)) = st"
  by (cases st) (simp_all add: set_intr_status_def)

lemma disable_intr_off: "get_intr_status s = INT_OFF \<Longrightarrow> disable_intr s = (INT_OFF, s)"
  by (simp add: disable_intr_def)

lemma eflags_restored:
  "get_intr_status s = INT_ON \<Longrightarrow> (eflags s AND NOT EFLAGS_IF) OR EFLAGS_IF = eflags s"
  by (rule bit_word_eqI) (auto simp: get_intr_status_iff bit_or_iff bit_and_iff bit_not_iff bit_EFLAGS_IF)

lemma set_intr_status_off:
  "get_intr_status s = INT_OFF \<Longrightarrow>
     set_intr_status st s = (INT_OFF, if st = INT_ON then sti s else s)"
  by (simp add: set_intr_status_def enable_intr_def disable_intr_def)

text \<open>
  A section that does not touch EFLAGS itself runs with interrupts off and leaves EFLAGS as it
  found it: the bracket nests.
\<close>

lemma with_intr_off_eq:
  assumes "\<And>s e. body (s\<lparr>eflags := e\<rparr>) = (body s)\<lparr>eflags := e\<rparr>"
    and "\<And>s. eflags (body s) = eflags s"
  shows "with_intr_off body s = body s"
proof (cases "get_intr_status s")
  case INT_OFF
  moreover have "get_intr_status (body s) = get_intr_status s"
    using assms(2) by (simp add: get_intr_status_def)
  ultimately show ?thesis
    by (simp add: with_intr_off_def disable_intr_off set_intr_status_off)
next
  case INT_ON
  have "get_intr_status (body (cli s)) = get_intr_status (cli s)"
    using assms(2) by (simp add: get_intr_status_def)
  then have "with_intr_off body s = sti (body (cli s))"
    using INT_ON by (simp add: with_intr_off_def disable_intr_def set_intr_status_off)
  also have "\<dots> = (body s)\<lparr>eflags := eflags s\<rparr>"
    using assms eflags_restored [OF INT_ON] by (simp add: sti_def cli_def)
  also have "\<dots> = body s" using assms(2) [of s] by (metis cpu.surjective cpu.update_convs(1))
  finally show ?thesis .
qed

end
