(* ===== verification/Idt.thy ===== *)
theory Idt
  imports Interrupt
begin

text \<open>
  \<^verbatim>\<open>kernel/interrupt.c\<close>: the interrupt descriptor table, the table of handlers behind it and the
  programming of the two interrupt controllers. \<^verbatim>\<open>intr_entry_table\<close> and \<^verbatim>\<open>syscall_handler\<close> are
  assembly (\<^verbatim>\<open>kernel/kernel.S\<close>); their addresses, the address of \<^verbatim>\<open>general_intr_handler\<close> and the address
  of the table are parameters. Port writes are recorded in the order in which they happen.
\<close>

section \<open>State and routines\<close>

record gate_desc =
  func_offset_low_word :: u16
  selector :: u16
  dcount :: u8
  attribute :: u8
  func_offset_high_word :: u16

record irq_state =
  idt :: "gate_desc list"
  idt_table :: "addr list"
  intr_name :: "string list"
  idtr :: "u16 \<times> addr"
  out_log :: "(u16 \<times> u8) list"

abbreviation (input) IDT_DESC_CNT :: nat where "IDT_DESC_CNT \<equiv> 0x81"

definition PIC_M_CTRL :: u16 where "PIC_M_CTRL = 0x20"
definition PIC_M_DATA :: u16 where "PIC_M_DATA = 0x21"
definition PIC_S_CTRL :: u16 where "PIC_S_CTRL = 0xa0"
definition PIC_S_DATA :: u16 where "PIC_S_DATA = 0xa1"

definition SELECTOR_K_CODE :: u16 where
  "SELECTOR_K_CODE = push_bit 3 1 + push_bit 2 0 + 0"

definition IDT_DESC_ATTR_DPL0 :: u8 where
  "IDT_DESC_ATTR_DPL0 = push_bit 7 1 + push_bit 5 0 + 0xE"

definition IDT_DESC_ATTR_DPL3 :: u8 where
  "IDT_DESC_ATTR_DPL3 = push_bit 7 1 + push_bit 5 3 + 0xE"

definition outb :: "u16 \<Rightarrow> u8 \<Rightarrow> irq_state \<Rightarrow> irq_state" where
  "outb port data s = s\<lparr>out_log := out_log s @ [(port, data)]\<rparr>"

text \<open>The index is not checked against the length of the table, 0x81; an update beyond it is
  outside of what the model describes.\<close>

definition register_handler :: "u8 \<Rightarrow> addr \<Rightarrow> irq_state \<Rightarrow> irq_state" where
  "register_handler vec_nr function s = s\<lparr>idt_table := (idt_table s)[unat vec_nr := function]\<rparr>"

definition pic_init :: "irq_state \<Rightarrow> irq_state" where
  "pic_init s = fold (\<lambda>(port, data). outb port data)
     [(PIC_M_CTRL, 0x11), (PIC_M_DATA, 0x20), (PIC_M_DATA, 0x04), (PIC_M_DATA, 0x01),
      (PIC_S_CTRL, 0x11), (PIC_S_DATA, 0x28), (PIC_S_DATA, 0x02), (PIC_S_DATA, 0x01),
      (PIC_M_DATA, 0xf8), (PIC_S_DATA, 0xbf)] s"

definition make_idt_desc :: "nat \<Rightarrow> u8 \<Rightarrow> addr \<Rightarrow> irq_state \<Rightarrow> irq_state" where
  "make_idt_desc i attr function s = s\<lparr>idt := (idt s)[i :=
     \<lparr>func_offset_low_word = ucast (function AND 0x0000FFFF),
      selector = SELECTOR_K_CODE, dcount = 0, attribute = attr,
      func_offset_high_word = ucast (drop_bit 16 (function AND 0xFFFF0000))\<rparr>]\<rparr>"

definition idt_desc_init :: "(nat \<Rightarrow> addr) \<Rightarrow> addr \<Rightarrow> irq_state \<Rightarrow> irq_state" where
  "idt_desc_init intr_entry_table syscall_handler s =
     make_idt_desc 0x80 IDT_DESC_ATTR_DPL3 syscall_handler
      (fold (\<lambda>i. make_idt_desc i IDT_DESC_ATTR_DPL0 (intr_entry_table i)) [0..<IDT_DESC_CNT] s)"

text \<open>A vector that nobody registered: the two spurious interrupts are ignored, everything else
  prints a message and spins.\<close>

definition general_intr_handler :: "u8 \<Rightarrow> unit res" where
  "general_intr_handler vec_nr = (if vec_nr = 0x27 \<or> vec_nr = 0x2f then Inr () else Inl LOOP)"

definition exception_names :: "(nat \<times> string) list" where
  "exception_names =
     [(0, ''#DE Devide Error''), (1, ''#DB Debug Exception''), (2, ''NMI Interrupt''),
      (3, ''#BP Breakpoint Exception''), (4, ''#OF Overflow Exception''),
      (5, ''#BR BOUND Range Exceeded Exception''), (6, ''#UD Invalid Opcode Exception''),
      (7, ''#NM Device Not Available Exception''), (8, ''#DF Double Fault Exception''),
      (9, ''Coprocessor Segment Overrun''), (10, ''#TS Invalid TSS Exception''),
      (11, ''#NP Segment Not Present''), (12, ''#SS Stack Fault Exception''),
      (13, ''#GP General Protection Exception''), (14, ''#PF Page-Fault Exception''),
      (16, ''#MF x87 FPU Floating-Point Error''), (17, ''#AC Alignment Check Exception''),
      (18, ''#MC Machine-Check Exception''), (19, ''#XF SIMD Floating-Point Exception'')]"

definition exception_init :: "addr \<Rightarrow> irq_state \<Rightarrow> irq_state" where
  "exception_init general s =
     (let s1 = fold (\<lambda>i s. s\<lparr>idt_table := (idt_table s)[i := general],
                           intr_name := (intr_name s)[i := ''Unknown'']\<rparr>) [0..<IDT_DESC_CNT] s
      in fold (\<lambda>(i, name) s. s\<lparr>intr_name := (intr_name s)[i := name]\<rparr>) exception_names s1)"

definition idt_init :: "(nat \<Rightarrow> addr) \<Rightarrow> addr \<Rightarrow> addr \<Rightarrow> addr \<Rightarrow> irq_state \<Rightarrow> irq_state" where
  "idt_init intr_entry_table syscall_handler general idt_addr s =
     (let s1 = pic_init (exception_init general (idt_desc_init intr_entry_table syscall_handler s))
      in s1\<lparr>idtr := (8 * 0x81 - 1, idt_addr)\<rparr>)"

section \<open>Gates\<close>

text \<open>What the processor reads in a gate: the entry point and the privilege level of callers.\<close>

definition gate_offset :: "gate_desc \<Rightarrow> addr" where
  "gate_offset d = push_bit 16 (ucast (func_offset_high_word d)) OR ucast (func_offset_low_word d)"

definition gate_dpl :: "gate_desc \<Rightarrow> u8" where
  "gate_dpl d = drop_bit 5 (attribute d) AND 3"

definition irq_ok :: "irq_state \<Rightarrow> bool" where
  "irq_ok s \<longleftrightarrow> length (idt s) = IDT_DESC_CNT \<and> length (idt_table s) = IDT_DESC_CNT \<and>
     length (intr_name s) = IDT_DESC_CNT"

lemma gate_offset_split:
  "push_bit 16 (ucast (ucast (drop_bit 16 (f AND 0xFFFF0000)) :: u16)) OR
     ucast (ucast (f AND 0x0000FFFF) :: u16) = (f :: addr)"
proof -
  have m: "(0xFFFF0000 :: addr) = NOT (mask 16)" "(0x0000FFFF :: addr) = mask 16"
    by (simp_all add: mask_eq_exp_minus_1)
  show ?thesis unfolding m
    by (rule bit_word_eqI)
      (auto simp: bit_or_iff bit_push_bit_iff bit_unsigned_iff bit_drop_bit_eq bit_and_iff bit_not_iff
        bit_mask_iff)
qed

lemma make_idt_desc_gate:
  assumes "i < length (idt s)"
  shows "gate_offset (idt (make_idt_desc i attr f s) ! i) = f"
    and "attribute (idt (make_idt_desc i attr f s) ! i) = attr"
    and "selector (idt (make_idt_desc i attr f s) ! i) = 8"
  using assms gate_offset_split [of f]
  by (simp_all add: make_idt_desc_def gate_offset_def SELECTOR_K_CODE_def)

lemma make_idt_desc_other [simp]:
  "j \<noteq> i \<Longrightarrow> idt (make_idt_desc i attr f s) ! j = idt s ! j"
  "length (idt (make_idt_desc i attr f s)) = length (idt s)"
  "idt_table (make_idt_desc i attr f s) = idt_table s" "intr_name (make_idt_desc i attr f s) = intr_name s"
  "out_log (make_idt_desc i attr f s) = out_log s"
  by (simp_all add: make_idt_desc_def)

lemma idt_desc_loop:
  assumes "n \<le> length (idt s)"
  shows "let s' = fold (\<lambda>i. make_idt_desc i attr (e i)) [0..<n] s in
    (\<forall>i<n. gate_offset (idt s' ! i) = e i \<and> attribute (idt s' ! i) = attr \<and> selector (idt s' ! i) = 8) \<and>
    length (idt s') = length (idt s) \<and> idt_table s' = idt_table s \<and> intr_name s' = intr_name s \<and>
    out_log s' = out_log s"
  using assms
proof (induction n)
  case (Suc n)
  then show ?case
    by (auto simp: Let_def less_Suc_eq make_idt_desc_gate)
qed simp

lemma handlers_loop:
  assumes "n \<le> length (idt_table s)" and "n \<le> length (intr_name s)"
  shows "let s' = fold (\<lambda>i s. s\<lparr>idt_table := (idt_table s)[i := g], intr_name := (intr_name s)[i := u]\<rparr>) [0..<n] s in
    (\<forall>i<n. idt_table s' ! i = g \<and> intr_name s' ! i = u) \<and> length (idt_table s') = length (idt_table s) \<and>
    length (intr_name s') = length (intr_name s) \<and> idt s' = idt s \<and> out_log s' = out_log s"
  using assms
proof (induction n)
  case (Suc n)
  then show ?case by (auto simp: Let_def less_Suc_eq nth_list_update)
qed simp

lemma names_fold:
  "let s' = fold (\<lambda>(i, name) s. s\<lparr>intr_name := (intr_name s)[i := name]\<rparr>) ns s in
    length (intr_name s') = length (intr_name s) \<and> idt_table s' = idt_table s \<and> idt s' = idt s \<and>
    out_log s' = out_log s"
  by (induction ns arbitrary: s) (auto simp: Let_def)

lemma exception_init_spec:
  assumes "irq_ok s"
  shows "let s' = exception_init g s in (\<forall>i<IDT_DESC_CNT. idt_table s' ! i = g) \<and>
    length (idt_table s') = IDT_DESC_CNT \<and> length (intr_name s') = IDT_DESC_CNT \<and> idt s' = idt s \<and>
    out_log s' = out_log s"
proof -
  let ?s1 = "fold (\<lambda>i s. s\<lparr>idt_table := (idt_table s)[i := g], intr_name := (intr_name s)[i := ''Unknown'']\<rparr>)
     [0..<IDT_DESC_CNT] s"
  show ?thesis
    using handlers_loop [where n = IDT_DESC_CNT and s = s and g = g and u = "''Unknown''"] names_fold [of exception_names ?s1] assms
    unfolding exception_init_def irq_ok_def Let_def by simp
qed

lemma pic_init_log:
  "out_log (pic_init s) = out_log s @ [(0x20, 0x11), (0x21, 0x20), (0x21, 0x04), (0x21, 0x01),
     (0xa0, 0x11), (0xa1, 0x28), (0xa1, 0x02), (0xa1, 0x01), (0x21, 0xf8), (0xa1, 0xbf)]"
  "idt (pic_init s) = idt s" "idt_table (pic_init s) = idt_table s" "intr_name (pic_init s) = intr_name s"
  by (simp_all add: pic_init_def outb_def PIC_M_CTRL_def PIC_M_DATA_def PIC_S_CTRL_def PIC_S_DATA_def)

section \<open>Claims\<close>

text \<open>
  C39: after \<open>idt_init\<close> the gate of every vector below 0x80 leads to its entry of \<^verbatim>\<open>intr_entry_table\<close>
  and is callable from ring 0 only, gate 0x80 leads to the system call handler and is callable from
  ring 3, every vector has the general handler until another one is registered, and
  \<open>register_handler\<close> then changes exactly the vector it is given.
\<close>

theorem idt_init_gates:
  assumes "irq_ok s"
  shows "let s' = idt_init entry sysc general a s in
    (\<forall>i<0x80. gate_offset (idt s' ! i) = entry i \<and> gate_dpl (idt s' ! i) = 0 \<and> selector (idt s' ! i) = 8) \<and>
    gate_offset (idt s' ! 0x80) = sysc \<and> gate_dpl (idt s' ! 0x80) = 3 \<and>
    (\<forall>i<0x81. idt_table s' ! i = general) \<and> irq_ok s' \<and> idtr s' = (0x407, a) \<and>
    (\<forall>vec f i. i < 0x81 \<longrightarrow> idt_table (register_handler vec f s') ! i = (if i = unat vec then f else general))"
proof -
  let ?s0 = "fold (\<lambda>i. make_idt_desc i IDT_DESC_ATTR_DPL0 (entry i)) [0..<IDT_DESC_CNT] s"
  let ?s1 = "idt_desc_init entry sysc s"
  let ?s2 = "exception_init general ?s1"
  have s0: "\<forall>i<IDT_DESC_CNT. gate_offset (idt ?s0 ! i) = entry i \<and> attribute (idt ?s0 ! i) = IDT_DESC_ATTR_DPL0 \<and>
      selector (idt ?s0 ! i) = 8" "length (idt ?s0) = IDT_DESC_CNT" "idt_table ?s0 = idt_table s"
      "intr_name ?s0 = intr_name s"
    using idt_desc_loop [of IDT_DESC_CNT s IDT_DESC_ATTR_DPL0 entry] assms by (simp_all add: Let_def irq_ok_def)
  have s1: "\<forall>i<0x80. gate_offset (idt ?s1 ! i) = entry i \<and> attribute (idt ?s1 ! i) = IDT_DESC_ATTR_DPL0 \<and>
      selector (idt ?s1 ! i) = 8" "gate_offset (idt ?s1 ! 0x80) = sysc"
      "attribute (idt ?s1 ! 0x80) = IDT_DESC_ATTR_DPL3" "irq_ok ?s1"
    using s0 assms by (simp_all add: idt_desc_init_def make_idt_desc_gate irq_ok_def)
  have s2: "\<forall>i<IDT_DESC_CNT. idt_table ?s2 ! i = general" "length (idt_table ?s2) = IDT_DESC_CNT"
      "length (intr_name ?s2) = IDT_DESC_CNT" "idt ?s2 = idt ?s1"
    using exception_init_spec [OF s1(4), of general] by (simp_all add: Let_def)
  have a: "drop_bit 5 IDT_DESC_ATTR_DPL0 AND 3 = 0" "drop_bit 5 IDT_DESC_ATTR_DPL3 AND 3 = 3"
    by (simp_all add: IDT_DESC_ATTR_DPL0_def IDT_DESC_ATTR_DPL3_def)
  show ?thesis using s1 s2
    by (simp add: Let_def idt_init_def pic_init_log gate_dpl_def a irq_ok_def register_handler_def nth_list_update)
qed

definition sample_irq :: irq_state where
  "sample_irq = \<lparr>idt = replicate 0x81 \<lparr>func_offset_low_word = 0, selector = 0, dcount = 0, attribute = 0,
     func_offset_high_word = 0\<rparr>, idt_table = replicate 0x81 0, intr_name = replicate 0x81 [],
     idtr = (0, 0), out_log = []\<rparr>"

theorem idt_init_gates_witness:
  "let s' = idt_init (\<lambda>i. 0xc0001500 + of_nat i) 0xc0001234 0xc0002000 0xc0007000 sample_irq in
     gate_offset (idt s' ! 0x21) = 0xc0001521 \<and> gate_dpl (idt s' ! 0x80) = 3 \<and>
     idt_table (register_handler 0x20 0xc0003000 s') ! 0x20 = 0xc0003000"
proof -
  have "irq_ok sample_irq" by (simp add: irq_ok_def sample_irq_def)
  from idt_init_gates [OF this, of "\<lambda>i. 0xc0001500 + of_nat i" "0xc0001234" "0xc0002000" "0xc0007000"]
  show ?thesis by (auto simp: Let_def)
qed

end
