(* ===== verification/Klist.thy ===== *)
theory Klist
  imports Interrupt
begin

text \<open>
  \<^verbatim>\<open>lib/kernel/list.c\<close>: the intrusive doubly linked lists that hold threads, free memory blocks,
  partitions and open inodes. \<open>nodes\<close> maps the address of every \<^verbatim>\<open>struct list_elem\<close> to its two
  pointers. A \<^verbatim>\<open>struct list\<close> at address \<open>l\<close> is its head node at \<open>l\<close> and its tail node at
  \<open>l + 8\<close>. The abstraction \<open>dlist ns l xs\<close> says that the list at \<open>l\<close> links the nodes \<open>xs\<close>.
\<close>

section \<open>The routines\<close>

record list_elem =
  front :: addr
  nxt :: addr

record lists = cpu +
  nodes :: "addr \<Rightarrow> list_elem"

type_synonym node_store = "addr \<Rightarrow> list_elem"

abbreviation (input) head_of :: "addr \<Rightarrow> addr" where "head_of plist \<equiv> plist"
abbreviation (input) tail_of :: "addr \<Rightarrow> addr" where "tail_of plist \<equiv> plist + 8"

definition set_front :: "addr \<Rightarrow> addr \<Rightarrow> node_store \<Rightarrow> node_store" where
  "set_front a v ns = ns(a := (ns a)\<lparr>front := v\<rparr>)"

definition set_nxt :: "addr \<Rightarrow> addr \<Rightarrow> node_store \<Rightarrow> node_store" where
  "set_nxt a v ns = ns(a := (ns a)\<lparr>nxt := v\<rparr>)"

definition list_init :: "addr \<Rightarrow> 'a lists_scheme \<Rightarrow> 'a lists_scheme" where
  "list_init plist s = s\<lparr>nodes :=
     set_nxt (tail_of plist) NULL
      (set_front (tail_of plist) (head_of plist)
       (set_nxt (head_of plist) (tail_of plist)
        (set_front (head_of plist) NULL (nodes s))))\<rparr>"

definition insert_before_nodes :: "addr \<Rightarrow> addr \<Rightarrow> node_store \<Rightarrow> node_store" where
  "insert_before_nodes before elem ns =
     (let ns1 = set_front elem (front (ns before)) ns;
          ns2 = set_nxt (front (ns1 elem)) elem ns1;
          ns3 = set_nxt elem before ns2
      in set_front before elem ns3)"

definition list_insert_before :: "addr \<Rightarrow> addr \<Rightarrow> 'a lists_scheme \<Rightarrow> 'a lists_scheme" where
  "list_insert_before before elem =
     with_intr_off (\<lambda>s. s\<lparr>nodes := insert_before_nodes before elem (nodes s)\<rparr>)"

definition list_push :: "addr \<Rightarrow> addr \<Rightarrow> 'a lists_scheme \<Rightarrow> 'a lists_scheme" where
  "list_push plist elem s = list_insert_before (nxt (nodes s (head_of plist))) elem s"

definition append_nodes :: "addr \<Rightarrow> addr \<Rightarrow> node_store \<Rightarrow> node_store" where
  "append_nodes plist elem ns =
     (let ns1 = set_front elem (front (ns (tail_of plist))) ns;
          ns2 = set_nxt (front (ns1 elem)) elem ns1;
          ns3 = set_nxt elem (tail_of plist) ns2
      in set_front (tail_of plist) elem ns3)"

definition list_append :: "addr \<Rightarrow> addr \<Rightarrow> 'a lists_scheme \<Rightarrow> 'a lists_scheme" where
  "list_append plist elem =
     with_intr_off (\<lambda>s. s\<lparr>nodes := append_nodes plist elem (nodes s)\<rparr>)"

definition remove_nodes :: "addr \<Rightarrow> node_store \<Rightarrow> node_store" where
  "remove_nodes elem ns =
     (let ns1 = set_nxt (front (ns elem)) (nxt (ns elem)) ns
      in set_front (nxt (ns1 elem)) (front (ns1 elem)) ns1)"

definition list_remove :: "addr \<Rightarrow> 'a lists_scheme \<Rightarrow> 'a lists_scheme" where
  "list_remove elem = with_intr_off (\<lambda>s. s\<lparr>nodes := remove_nodes elem (nodes s)\<rparr>)"

definition list_pop :: "addr \<Rightarrow> 'a lists_scheme \<Rightarrow> addr \<times> 'a lists_scheme" where
  "list_pop plist s = (let p = nxt (nodes s (head_of plist)) in (p, list_remove p s))"

definition list_empty :: "addr \<Rightarrow> 'a lists_scheme \<Rightarrow> bool" where
  "list_empty plist s \<longleftrightarrow> nxt (nodes s (head_of plist)) = tail_of plist"

text \<open>The loops over a list end only if the chain of \<open>nxt\<close> pointers reaches the tail.\<close>

partial_function (option) search_loop :: "node_store \<Rightarrow> addr \<Rightarrow> addr \<Rightarrow> addr \<Rightarrow> bool option" where
  "search_loop ns tail target item =
     (if item = tail then Some False
      else if item = target then Some True
      else search_loop ns tail target (nxt (ns item)))"

definition list_search :: "addr \<Rightarrow> addr \<Rightarrow> 'a lists_scheme \<Rightarrow> bool res" where
  "list_search plist target s =
     (if list_empty plist s then Inr False
      else of_loop (search_loop (nodes s) (tail_of plist) target (nxt (nodes s (head_of plist)))))"

text \<open>The callback of \<open>list_traversal\<close> may change the state and may fail to return.\<close>

partial_function (option) traversal_loop ::
    "(addr \<Rightarrow> u32 \<Rightarrow> 'a lists_scheme \<Rightarrow> (bool \<times> 'a lists_scheme) res) \<Rightarrow> u32 \<Rightarrow> addr \<Rightarrow> addr \<Rightarrow>
     'a lists_scheme \<Rightarrow> (addr \<times> 'a lists_scheme) res option" where
  "traversal_loop func arg tail elem s =
     (if elem = tail then Some (Inr (NULL, s))
      else case func elem arg s of
             Inl e \<Rightarrow> Some (Inl e)
           | Inr r \<Rightarrow> if fst r then Some (Inr (elem, snd r))
                      else traversal_loop func arg tail (nxt (nodes (snd r) elem)) (snd r))"

definition list_traversal ::
    "addr \<Rightarrow> (addr \<Rightarrow> u32 \<Rightarrow> 'a lists_scheme \<Rightarrow> (bool \<times> 'a lists_scheme) res) \<Rightarrow> u32 \<Rightarrow>
     'a lists_scheme \<Rightarrow> (addr \<times> 'a lists_scheme) res" where
  "list_traversal plist func arg s =
     (if list_empty plist s then Inr (NULL, s)
      else res_bind (of_loop (traversal_loop func arg (tail_of plist)
             (nxt (nodes s (head_of plist))) s)) (\<lambda>r. r))"

text \<open>\<open>list_len\<close> counts in a \<^verbatim>\<open>uint32_t\<close>.\<close>

partial_function (option) len_loop :: "node_store \<Rightarrow> addr \<Rightarrow> addr \<Rightarrow> u32 \<Rightarrow> u32 option" where
  "len_loop ns tail ptr cnt =
     (if ptr = tail then Some cnt else len_loop ns tail (nxt (ns ptr)) (cnt + 1))"

definition list_len :: "addr \<Rightarrow> 'a lists_scheme \<Rightarrow> u32 res" where
  "list_len plist s =
     of_loop (len_loop (nodes s) (tail_of plist) (nxt (nodes s (head_of plist))) 0)"

section \<open>Segments and lists\<close>

fun dseg :: "node_store \<Rightarrow> addr \<Rightarrow> addr list \<Rightarrow> addr \<Rightarrow> bool" where
  "dseg ns a [] b = (nxt (ns a) = b \<and> front (ns b) = a)"
| "dseg ns a (x # xs) b = (nxt (ns a) = x \<and> front (ns x) = a \<and> dseg ns x xs b)"

definition list_cells :: "addr \<Rightarrow> addr list \<Rightarrow> addr list" where
  "list_cells l xs = head_of l # xs @ [tail_of l]"

definition dlist :: "node_store \<Rightarrow> addr \<Rightarrow> addr list \<Rightarrow> bool" where
  "dlist ns l xs \<longleftrightarrow> dseg ns (head_of l) xs (tail_of l) \<and> distinct (list_cells l xs)"

lemma set_list_cells [simp]: "set (list_cells l xs) = {l, l + 8} \<union> set xs"
  by (auto simp: list_cells_def)

lemma distinct_list_cells [simp]:
  "distinct (list_cells l xs) \<longleftrightarrow> distinct xs \<and> l \<notin> set xs \<and> l + 8 \<notin> set xs"
proof -
  have "l \<noteq> l + 8" by simp
  then show ?thesis by (auto simp: list_cells_def)
qed

lemma set_front_simps [simp]:
  "front (set_front a v ns b) = (if b = a then v else front (ns b))"
  "nxt (set_front a v ns b) = nxt (ns b)"
  by (simp_all add: set_front_def)

lemma set_nxt_simps [simp]:
  "front (set_nxt a v ns b) = front (ns b)"
  "nxt (set_nxt a v ns b) = (if b = a then v else nxt (ns b))"
  by (simp_all add: set_nxt_def)

lemma set_front_other: "b \<noteq> a \<Longrightarrow> set_front a v ns b = ns b"
  and set_nxt_other: "b \<noteq> a \<Longrightarrow> set_nxt a v ns b = ns b"
  by (simp_all add: set_front_def set_nxt_def)

lemma dseg_append:
  "dseg ns a (xs @ y # ys) b \<longleftrightarrow> dseg ns a xs y \<and> dseg ns y ys b"
  by (induction xs arbitrary: a) auto

lemma dseg_cong:
  assumes "\<And>x. x \<in> insert a (set xs) \<Longrightarrow> nxt (ns' x) = nxt (ns x)"
    and "\<And>x. x \<in> insert b (set xs) \<Longrightarrow> front (ns' x) = front (ns x)"
  shows "dseg ns' a xs b = dseg ns a xs b"
  using assms by (induction xs arbitrary: a) auto

lemma dseg_last:
  "dseg ns a xs b \<Longrightarrow> front (ns b) = last (a # xs) \<and> nxt (ns (last (a # xs))) = b"
  by (induction xs arbitrary: a) auto

lemma dseg_first: "dseg ns a xs b \<Longrightarrow> nxt (ns a) = hd (xs @ [b]) \<and> front (ns (hd (xs @ [b]))) = a"
  by (cases xs) auto

text \<open>Lists whose cells are untouched stay as they are.\<close>

lemma dlist_cong:
  assumes "\<And>x. x \<in> set (list_cells l xs) \<Longrightarrow> ns' x = ns x"
  shows "dlist ns' l xs = dlist ns l xs"
proof -
  have "dseg ns' l xs (l + 8) = dseg ns l xs (l + 8)"
    by (rule dseg_cong) (use assms in auto)
  then show ?thesis by (simp add: dlist_def)
qed

lemma dlist_unique: "dlist ns l xs \<Longrightarrow> dlist ns l ys \<Longrightarrow> xs = ys"
proof -
  have "dseg ns a xs b \<Longrightarrow> dseg ns a ys b \<Longrightarrow> b \<notin> set xs \<Longrightarrow> b \<notin> set ys \<Longrightarrow> xs = ys" for a b
    by (induction xs arbitrary: a ys; case_tac ys) auto
  then show "dlist ns l xs \<Longrightarrow> dlist ns l ys \<Longrightarrow> xs = ys" by (auto simp: dlist_def)
qed

lemma dseg_distinct_end:
  "dseg ns a xs b \<Longrightarrow> distinct (a # xs @ [b]) \<Longrightarrow> front (ns b) \<in> insert a (set xs)"
  using dseg_last [of ns a xs b] by (auto split: if_splits dest: last_in_set)

text \<open>The four writes of an insertion add the element at the end of the segment before \<open>b\<close>.\<close>

lemma dseg_insert_before:
  assumes "dseg ns a xs b" and "distinct (a # xs @ [b])" and "e \<notin> insert a (insert b (set xs))"
  shows "dseg (insert_before_nodes b e ns) a (xs @ [e]) b"
  using assms
proof (induction xs arbitrary: a)
  case Nil
  then show ?case by (auto simp: insert_before_nodes_def Let_def)
next
  case (Cons x xs)
  have last: "front (ns b) \<in> insert x (set xs)"
    using Cons.prems by (intro dseg_distinct_end) auto
  have "dseg (insert_before_nodes b e ns) x (xs @ [e]) b" using Cons by auto
  moreover have "nxt (insert_before_nodes b e ns a) = nxt (ns a)"
    using Cons.prems last by (auto simp: insert_before_nodes_def Let_def)
  moreover have "front (insert_before_nodes b e ns x) = front (ns x)"
    using Cons.prems by (auto simp: insert_before_nodes_def Let_def)
  ultimately show ?case using Cons.prems by simp
qed

lemma insert_before_nodes_other:
  assumes "x \<notin> {front (ns b), b, e}" and "b \<noteq> e"
  shows "insert_before_nodes b e ns x = ns x"
  using assms by (auto simp: insert_before_nodes_def Let_def set_front_other set_nxt_other)

lemma dseg_insert_after:
  assumes "dseg ns b ys c" and "dseg ns a xs b" and "distinct (a # xs @ [b] @ ys @ [c])"
    and "e \<notin> set (a # xs @ [b] @ ys @ [c])"
  shows "dseg (insert_before_nodes b e ns) b ys c"
proof -
  have "front (ns b) \<in> insert a (set xs)" using assms by (intro dseg_distinct_end) auto
  then have "dseg (insert_before_nodes b e ns) b ys c = dseg ns b ys c"
    using assms(3,4) by (intro dseg_cong) (auto simp: insert_before_nodes_def Let_def)
  then show ?thesis using assms(1) by simp
qed

section \<open>The routines on lists\<close>

lemma dlist_front_tail: "dlist ns l xs \<Longrightarrow> front (ns (l + 8)) = last (l # xs)"
  and dlist_nxt_head: "dlist ns l xs \<Longrightarrow> nxt (ns l) = hd (xs @ [l + 8])"
  by (auto simp: dlist_def dest: dseg_last dseg_first)

lemma append_nodes_eq: "append_nodes l e ns = insert_before_nodes (l + 8) e ns"
  by (simp add: append_nodes_def insert_before_nodes_def)

lemma dlist_insert_before:
  assumes "dlist ns l (xs @ ys)" and "e \<notin> set (list_cells l (xs @ ys))"
  shows "dlist (insert_before_nodes (hd (ys @ [l + 8])) e ns) l (xs @ e # ys)"
proof (cases ys)
  case Nil
  then show ?thesis using assms dseg_insert_before [of ns l xs "l + 8" e]
    by (auto simp: dlist_def list_cells_def)
next
  case (Cons y ys')
  with assms have seg: "dseg ns l xs y" "dseg ns y ys' (l + 8)"
    by (simp_all add: dlist_def dseg_append)
  have dist: "distinct (l # xs @ [y] @ ys' @ [l + 8])" and e: "e \<notin> set (l # xs @ [y] @ ys' @ [l + 8])"
    using assms Cons by (auto simp: dlist_def)
  have "dseg (insert_before_nodes y e ns) l (xs @ [e]) y"
    using dseg_insert_before [OF seg(1), of e] dist e by auto
  moreover have "dseg (insert_before_nodes y e ns) y ys' (l + 8)"
    using dseg_insert_after [OF seg(2,1) dist e] .
  ultimately have "dseg (insert_before_nodes y e ns) l ((xs @ [e]) @ y # ys') (l + 8)"
    by (simp only: dseg_append simp_thms)
  then show ?thesis using dist e Cons by (auto simp: dlist_def)
qed

lemma remove_nodes_simps:
  assumes "front (ns e) \<noteq> e"
  shows "nxt (remove_nodes e ns x) = (if x = front (ns e) then nxt (ns e) else nxt (ns x))"
    and "front (remove_nodes e ns x) = (if x = nxt (ns e) then front (ns e) else front (ns x))"
  using assms by (simp_all add: remove_nodes_def Let_def)

lemma dseg_remove:
  assumes "dseg ns a xs e" and "dseg ns e ys c" and "distinct (a # xs @ [e] @ ys @ [c])"
  shows "dseg (remove_nodes e ns) a (xs @ ys) c"
  using assms
proof (induction xs arbitrary: a)
  case Nil
  then have ne: "front (ns e) \<noteq> e" and fr: "front (ns e) = a" by auto
  show ?case
  proof (cases ys)
    case Nil
    then show ?thesis using Nil.prems fr ne by (auto simp: remove_nodes_simps [where ns = ns and e = e, OF ne])
  next
    case (Cons y ys')
    have "dseg (remove_nodes e ns) y ys' c = dseg ns y ys' c"
      using Cons Nil.prems fr by (intro dseg_cong) (auto simp: remove_nodes_simps [where ns = ns and e = e, OF ne])
    then show ?thesis using Cons Nil.prems fr by (auto simp: remove_nodes_simps [where ns = ns and e = e, OF ne])
  qed
next
  case (Cons x xs)
  have f: "front (ns e) \<in> insert x (set xs)" using Cons.prems by (intro dseg_distinct_end) auto
  then have ne: "front (ns e) \<noteq> e" using Cons.prems by auto
  have n: "nxt (ns e) \<in> set (ys @ [c])" using Cons.prems(2) by (cases ys) auto
  have "dseg (remove_nodes e ns) x (xs @ ys) c" using Cons by auto
  moreover have "nxt (remove_nodes e ns a) = nxt (ns a)" "front (remove_nodes e ns x) = front (ns x)"
    using f n Cons.prems by (auto simp: remove_nodes_simps [where ns = ns and e = e, OF ne])
  ultimately show ?case using Cons.prems(1) by simp
qed

lemma dlist_remove:
  assumes "dlist ns l (xs @ e # ys)"
  shows "dlist (remove_nodes e ns) l (xs @ ys)"
  using assms dseg_remove [of ns l xs e ys "l + 8"]
  by (auto simp: dlist_def dseg_append)

lemma remove_nodes_other:
  "x \<noteq> front (ns e) \<Longrightarrow> x \<noteq> nxt (ns e) \<Longrightarrow> front (ns e) \<noteq> e \<Longrightarrow> remove_nodes e ns x = ns x"
  by (simp add: remove_nodes_def Let_def set_front_other set_nxt_other)

text \<open>The neighbours of a node of a list are cells of the list.\<close>

lemma dlist_neighbours:
  assumes "dlist ns l (xs @ e # ys)"
  shows "front (ns e) \<in> set (list_cells l xs)" and "nxt (ns e) \<in> set (list_cells l ys)"
    and "front (ns e) \<noteq> e"
proof -
  have seg: "dseg ns l xs e" "dseg ns e ys (l + 8)" and d: "distinct (list_cells l (xs @ e # ys))"
    using assms by (simp_all add: dlist_def dseg_append)
  have f: "front (ns e) \<in> insert l (set xs)" using seg d by (intro dseg_distinct_end) auto
  then show "front (ns e) \<in> set (list_cells l xs)" "front (ns e) \<noteq> e" using d by auto
  show "nxt (ns e) \<in> set (list_cells l ys)" using seg(2) by (cases ys) auto
qed

text \<open>EFLAGS and everything outside \<open>nodes\<close> is as before after each routine.\<close>

lemma list_ops_nodes:
  "list_insert_before b e s = s\<lparr>nodes := insert_before_nodes b e (nodes s)\<rparr>"
  "list_append l e s = s\<lparr>nodes := append_nodes l e (nodes s)\<rparr>"
  "list_remove e s = s\<lparr>nodes := remove_nodes e (nodes s)\<rparr>"
  unfolding list_insert_before_def list_append_def list_remove_def
  by (rule with_intr_off_eq; simp)+

lemma list_push_nodes:
  "list_push l e s = s\<lparr>nodes := insert_before_nodes (nxt (nodes s l)) e (nodes s)\<rparr>"
  by (simp add: list_push_def list_ops_nodes)

lemma list_pop_nodes:
  "list_pop l s = (nxt (nodes s l), s\<lparr>nodes := remove_nodes (nxt (nodes s l)) (nodes s)\<rparr>)"
  by (simp add: list_pop_def list_ops_nodes Let_def)

lemma dlist_distinct:
  "dlist ns l xs \<Longrightarrow> distinct xs"
  "dlist ns l xs \<Longrightarrow> l \<notin> set xs"
  "dlist ns l xs \<Longrightarrow> l + 8 \<notin> set xs"
  by (auto simp: dlist_def)

lemma dlist_init: "dlist (nodes (list_init l s)) l []"
  by (simp add: list_init_def dlist_def list_cells_def)

lemma dlist_append:
  "dlist (nodes s) l xs \<Longrightarrow> e \<notin> set (list_cells l xs) \<Longrightarrow> dlist (nodes (list_append l e s)) l (xs @ [e])"
  using dlist_insert_before [of "nodes s" l xs "[]" e] by (simp add: list_ops_nodes append_nodes_eq)

lemma dlist_push:
  "dlist (nodes s) l xs \<Longrightarrow> e \<notin> set (list_cells l xs) \<Longrightarrow> dlist (nodes (list_push l e s)) l (e # xs)"
  using dlist_insert_before [of "nodes s" l "[]" xs e] by (simp add: list_push_nodes dlist_nxt_head)

lemma dlist_list_remove:
  "dlist (nodes s) l (xs @ e # ys) \<Longrightarrow> dlist (nodes (list_remove e s)) l (xs @ ys)"
  by (simp add: list_ops_nodes dlist_remove)

lemma list_pop_head: "dlist (nodes s) l (x # xs) \<Longrightarrow> list_pop l s = (x, list_remove x s)"
  by (simp add: list_pop_def Let_def dlist_nxt_head)

lemma dlist_pop:
  "dlist (nodes s) l (x # xs) \<Longrightarrow>
     fst (list_pop l s) = x \<and> dlist (nodes (snd (list_pop l s))) l xs"
  using dlist_list_remove [of s l "[]" x xs] by (simp add: list_pop_head)

lemma list_empty_iff: "dlist (nodes s) l xs \<Longrightarrow> list_empty l s \<longleftrightarrow> xs = []"
  by (cases xs) (auto simp: list_empty_def dlist_def)

lemma search_loop_eq:
  assumes "dseg ns a xs b" and "b \<notin> set xs"
  shows "search_loop ns b t (nxt (ns a)) = Some (t \<in> set xs)"
  using assms
proof (induction xs arbitrary: a)
  case Nil
  then show ?case by (simp add: search_loop.simps)
next
  case (Cons x xs)
  then show ?case by (subst search_loop.simps) auto
qed

lemma list_search_eq: "dlist (nodes s) l xs \<Longrightarrow> list_search l t s = Inr (t \<in> set xs)"
  using search_loop_eq [of "nodes s" l xs "l + 8" t]
  by (auto simp: list_search_def list_empty_iff) (simp_all add: dlist_def)

lemma len_loop_eq:
  assumes "dseg ns a xs b" and "b \<notin> set xs"
  shows "len_loop ns b (nxt (ns a)) c = Some (c + of_nat (length xs))"
  using assms
proof (induction xs arbitrary: a c)
  case Nil
  then show ?case by (simp add: len_loop.simps)
next
  case (Cons x xs)
  then show ?case by (subst len_loop.simps) (auto simp: algebra_simps)
qed

lemma list_len_eq: "dlist (nodes s) l xs \<Longrightarrow> list_len l s = Inr (of_nat (length xs))"
  using len_loop_eq [of "nodes s" l xs "l + 8" 0] by (simp add: list_len_def dlist_def)

lemma traversal_loop_eq:
  assumes "dseg (nodes s) a xs b" and "b \<notin> set xs"
    and "\<And>x. x \<in> set xs \<Longrightarrow> f x arg s = Inr (P x, s)"
  shows "traversal_loop f arg b (nxt (nodes s a)) s =
    Some (Inr (case find P xs of None \<Rightarrow> NULL | Some x \<Rightarrow> x, s))"
  using assms
proof (induction xs arbitrary: a)
  case Nil
  then show ?case by (simp add: traversal_loop.simps)
next
  case (Cons x xs)
  then show ?case by (subst traversal_loop.simps) auto
qed

text \<open>With a callback that only looks, \<open>list_traversal\<close> finds the first element it accepts.\<close>

lemma list_traversal_find:
  assumes "dlist (nodes s) l xs" and "\<And>x. x \<in> set xs \<Longrightarrow> f x arg s = Inr (P x, s)"
  shows "list_traversal l f arg s = Inr (case find P xs of None \<Rightarrow> NULL | Some x \<Rightarrow> x, s)"
proof (cases "xs = []")
  case True
  then show ?thesis using assms(1) by (simp add: list_traversal_def list_empty_iff)
next
  case False
  have "traversal_loop f arg (l + 8) (nxt (nodes s l)) s =
      Some (Inr (case find P xs of None \<Rightarrow> NULL | Some x \<Rightarrow> x, s))"
    by (rule traversal_loop_eq) (use assms in \<open>auto simp: dlist_def\<close>)
  then show ?thesis using False assms(1) by (simp add: list_traversal_def list_empty_iff)
qed

text \<open>What the writers leave alone: every cell outside the list and the element.\<close>

lemma list_init_other: "x \<notin> {l, l + 8} \<Longrightarrow> nodes (list_init l s) x = nodes s x"
  by (simp add: list_init_def set_front_other set_nxt_other)

lemma list_append_other:
  assumes "dlist (nodes s) l xs" and "e \<noteq> l + 8" and "x \<notin> set (list_cells l xs)" and "x \<noteq> e"
  shows "nodes (list_append l e s) x = nodes s x"
proof -
  have "front (nodes s (l + 8)) \<in> set (list_cells l xs)"
    using dlist_front_tail [OF assms(1)] last_in_set [of "l # xs"] by auto
  then show ?thesis using assms(2-)
    by (auto simp: list_ops_nodes append_nodes_eq intro!: insert_before_nodes_other)
qed

lemma list_push_other:
  assumes "dlist (nodes s) l xs" and "e \<notin> set (list_cells l xs)" and "x \<notin> set (list_cells l xs)" and "x \<noteq> e"
  shows "nodes (list_push l e s) x = nodes s x"
proof -
  have "nxt (nodes s l) = hd (xs @ [l + 8])" and "front (nodes s (hd (xs @ [l + 8]))) = l"
    using assms(1) dseg_first [of "nodes s" l xs "l + 8"] by (simp_all add: dlist_def)
  moreover have "hd (xs @ [l + 8]) \<in> set (list_cells l xs)" by (cases xs) auto
  ultimately show ?thesis using assms(2-)
    by (auto simp: list_push_nodes intro!: insert_before_nodes_other)
qed

lemma list_remove_other:
  assumes "dlist (nodes s) l (xs @ e # ys)" and "x \<notin> set (list_cells l (xs @ ys))"
  shows "nodes (list_remove e s) x = nodes s x"
  using dlist_neighbours [OF assms(1)] assms(2)
  by (auto simp: list_ops_nodes intro!: remove_nodes_other)

section \<open>The contract of the lists\<close>

text \<open>
  What the rest of the kernel relies on: \<open>rep s l xs\<close> says that in the state \<open>s\<close> the list at \<open>l\<close>
  holds \<open>xs\<close>; \<open>cells l xs\<close> are the addresses that the representation occupies.
\<close>

locale intrusive_list =
  fixes rep :: "'s \<Rightarrow> addr \<Rightarrow> addr list \<Rightarrow> bool"
    and cells :: "addr \<Rightarrow> addr list \<Rightarrow> addr set"
    and init :: "addr \<Rightarrow> 's \<Rightarrow> 's"
    and push :: "addr \<Rightarrow> addr \<Rightarrow> 's \<Rightarrow> 's"
    and append :: "addr \<Rightarrow> addr \<Rightarrow> 's \<Rightarrow> 's"
    and remove :: "addr \<Rightarrow> 's \<Rightarrow> 's"
    and pop :: "addr \<Rightarrow> 's \<Rightarrow> addr \<times> 's"
  assumes cells_append: "cells l (xs @ ys) = cells l xs \<union> set ys"
    and cells_rotate: "cells l (x # xs) = cells l (xs @ [x])"
    and rep_distinct: "rep s l xs \<Longrightarrow> distinct xs"
    and rep_fresh: "rep s l (x # xs) \<Longrightarrow> x \<notin> cells l xs"
    and rep_init: "rep (init l s) l []"
    and rep_push: "rep s l xs \<Longrightarrow> e \<notin> cells l xs \<Longrightarrow> rep (push l e s) l (e # xs)"
    and rep_append: "rep s l xs \<Longrightarrow> e \<notin> cells l xs \<Longrightarrow> rep (append l e s) l (xs @ [e])"
    and rep_remove: "rep s l (xs @ e # ys) \<Longrightarrow> rep (remove e s) l (xs @ ys)"
    and pop_head: "rep s l (x # xs) \<Longrightarrow> pop l s = (x, remove x s)"
    and frame_push: "rep s l xs \<Longrightarrow> e \<notin> cells l xs \<Longrightarrow> rep s m ys \<Longrightarrow>
      cells l (xs @ [e]) \<inter> cells m ys = {} \<Longrightarrow> rep (push l e s) m ys"
    and frame_append: "rep s l xs \<Longrightarrow> e \<notin> cells l xs \<Longrightarrow> rep s m ys \<Longrightarrow>
      cells l (xs @ [e]) \<inter> cells m ys = {} \<Longrightarrow> rep (append l e s) m ys"
    and frame_remove: "rep s l (xs @ e # zs) \<Longrightarrow> rep s m ys \<Longrightarrow>
      cells l (xs @ e # zs) \<inter> cells m ys = {} \<Longrightarrow> rep (remove e s) m ys"
begin

lemma rep_pop: "rep s l (x # xs) \<Longrightarrow> rep (snd (pop l s)) l xs"
  using rep_remove [of s l "[]" x xs] by (simp add: pop_head)

lemma push_pop: "rep s l xs \<Longrightarrow> e \<notin> cells l xs \<Longrightarrow>
    fst (pop l (push l e s)) = e \<and> rep (snd (pop l (push l e s))) l xs"
  using pop_head [OF rep_push] rep_pop [OF rep_push] by simp

text \<open>Taking the first element and queueing it again rotates the list.\<close>

lemma rotate_list:
  assumes "rep s l (x # xs)"
  shows "rep (append l x (snd (pop l s))) l (xs @ [x])"
  using rep_append [OF rep_pop [OF assms] rep_fresh [OF assms]] .

text \<open>Queueing an element that is not in the list, then taking the first one.\<close>

lemma append_pop:
  assumes "rep s l xs" and "e \<notin> cells l xs"
  shows "fst (pop l (append l e s)) = hd (xs @ [e])"
    and "rep (snd (pop l (append l e s))) l (tl (xs @ [e]))"
  using rep_append [OF assms] pop_head rep_pop by (cases xs; fastforce)+

text \<open>Moving the first element of one list to the end of another one.\<close>

lemma move_list:
  assumes "rep s l (x # xs)" and "rep s m ys" and "cells l (x # xs) \<inter> cells m ys = {}"
  shows "rep (append m x (snd (pop l s))) m (ys @ [x]) \<and> rep (append m x (snd (pop l s))) l xs"
proof -
  let ?s = "snd (pop l s)"
  have x: "x \<in> cells l (x # xs)" "x \<notin> cells l xs" "cells l xs \<subseteq> cells l (x # xs)"
    using rep_fresh [OF assms(1)] cells_append [of l xs "[x]"] by (auto simp: cells_rotate)
  have m: "rep ?s m ys" using frame_remove [of s l "[]" x xs m ys] assms by (simp add: pop_head)
  moreover have "x \<notin> cells m ys" using x assms(3) by auto
  moreover have "cells m (ys @ [x]) \<inter> cells l xs = {}"
    using x assms(3) by (auto simp: cells_append)
  ultimately show ?thesis using rep_append frame_append rep_pop [OF assms(1)] by blast
qed

end

interpretation kl: intrusive_list "\<lambda>s. dlist (nodes s)" "\<lambda>l xs. set (list_cells l xs)"
  list_init list_push list_append list_remove list_pop
proof (unfold_locales, goal_cases)
  case (10 s l xs e m ys)
  have "dlist (nodes (list_push l e s)) m ys = dlist (nodes s) m ys"
    by (rule dlist_cong, rule list_push_other [OF 10(1,2)]) (use 10(4) in auto)
  then show ?case using 10(3) by simp
next
  case (11 s l xs e m ys)
  have "dlist (nodes (list_append l e s)) m ys = dlist (nodes s) m ys"
    by (rule dlist_cong, rule list_append_other [OF 11(1)]) (use 11(2,4) in auto)
  then show ?case using 11(3) by simp
next
  case (12 s l xs e zs m ys)
  have "dlist (nodes (list_remove e s)) m ys = dlist (nodes s) m ys"
    by (rule dlist_cong, rule list_remove_other [OF 12(1)]) (use 12(3) in auto)
  then show ?case using 12(2) by simp
qed (auto simp: dlist_init dlist_push dlist_append dlist_list_remove list_pop_head
    dest: dlist_distinct)


section \<open>Claims\<close>



end
