(* ===== verification/Paging.thy ===== *)
theory Paging
  imports Klist Lib_String
begin

text \<open>
  The machine below the kernel and the part of \<^verbatim>\<open>kernel/memory.c\<close> that reads and writes page
  tables. Page directories and page tables live in physical memory (\<open>pmem\<close>, one 32-bit word per
  aligned physical address); every access of the kernel to them goes through a virtual address
  that the memory management unit translates (\<open>mmu\<close>), so an access to an unmapped page is a page
  fault. Buffers and bitmaps are bytes at kernel virtual addresses (\<open>mem\<close>); the kernel half of
  the address space is the same in every page directory, so \<open>mem\<close> and the stores of kernel objects
  do not depend on \<open>cr3\<close>.
\<close>

record machine = lists +
  esp :: u32
  cr3 :: u32
  mem :: mem
  pmem :: "addr \<Rightarrow> u32"

section \<open>The memory management unit\<close>

definition PDE_IDX :: "u32 \<Rightarrow> u32" where
  "PDE_IDX addr = drop_bit 22 (addr AND 0xffc00000)"

definition PTE_IDX :: "u32 \<Rightarrow> u32" where
  "PTE_IDX addr = drop_bit 12 (addr AND 0x003ff000)"

definition frame_of :: "u32 \<Rightarrow> u32" where
  "frame_of entry = entry AND 0xfffff000"

definition present :: "u32 \<Rightarrow> bool" where
  "present entry \<longleftrightarrow> entry AND 1 \<noteq> 0"

text \<open>The physical addresses of the directory entry and of the table entry for \<open>v\<close>.\<close>

definition pde_at :: "u32 \<Rightarrow> u32 \<Rightarrow> addr" where
  "pde_at pd v = frame_of pd + PDE_IDX v * 4"

definition pte_at :: "u32 \<Rightarrow> (addr \<Rightarrow> u32) \<Rightarrow> u32 \<Rightarrow> addr" where
  "pte_at pd pm v = frame_of (pm (pde_at pd v)) + PTE_IDX v * 4"

definition mmu :: "u32 \<Rightarrow> (addr \<Rightarrow> u32) \<Rightarrow> addr \<Rightarrow> addr option" where
  "mmu pd pm v =
     (if present (pm (pde_at pd v)) \<and> present (pm (pte_at pd pm v))
      then Some (frame_of (pm (pte_at pd pm v)) + (v AND 0xfff)) else None)"

text \<open>Word accesses of the kernel to page tables.\<close>

definition vread :: "addr \<Rightarrow> 'a machine_scheme \<Rightarrow> u32 res" where
  "vread v s = (case mmu (cr3 s) (pmem s) v of
     None \<Rightarrow> Inl (PAGE_FAULT v) | Some p \<Rightarrow> Inr (pmem s p))"

definition vwrite :: "addr \<Rightarrow> u32 \<Rightarrow> 'a machine_scheme \<Rightarrow> 'a machine_scheme res" where
  "vwrite v x s = (case mmu (cr3 s) (pmem s) v of
     None \<Rightarrow> Inl (PAGE_FAULT v) | Some p \<Rightarrow> Inr (s\<lparr>pmem := (pmem s)(p := x)\<rparr>))"

section \<open>Page tables in memory.c\<close>

definition pte_ptr :: "u32 \<Rightarrow> addr" where
  "pte_ptr vaddr = 0xffc00000 + drop_bit 10 (vaddr AND 0xffc00000) + PTE_IDX vaddr * 4"

definition pde_ptr :: "u32 \<Rightarrow> addr" where
  "pde_ptr vaddr = 0xfffff000 + PDE_IDX vaddr * 4"

definition addr_v2p :: "u32 \<Rightarrow> 'a machine_scheme \<Rightarrow> u32 res" where
  "addr_v2p vaddr s =
     res_bind (vread (pte_ptr vaddr) s) (\<lambda>pte. Inr ((pte AND 0xfffff000) + (vaddr AND 0x00000fff)))"

text \<open>The \<^verbatim>\<open>invlpg\<close> that follows the write acts on the TLB only, which is not modelled.\<close>

definition page_table_pte_remove :: "u32 \<Rightarrow> 'a machine_scheme \<Rightarrow> 'a machine_scheme res" where
  "page_table_pte_remove vaddr s =
     res_bind (vread (pte_ptr vaddr) s) (\<lambda>pte. vwrite (pte_ptr vaddr) (pte AND NOT 1) s)"

section \<open>Indices and offsets\<close>

lemma PDE_IDX_eq: "PDE_IDX v = drop_bit 22 v"
proof -
  have "drop_bit 22 (0xffc00000 :: u32) = mask 10" by (simp add: mask_eq_exp_minus_1)
  then have "PDE_IDX v = take_bit 10 (drop_bit 22 v)"
    by (simp only: PDE_IDX_def drop_bit_and take_bit_eq_mask)
  also have "\<dots> = drop_bit 22 v"
    by (rule bit_word_eqI, use bit_imp_le_length [of v] in \<open>fastforce simp: bit_take_bit_iff bit_drop_bit_eq\<close>)
  finally show ?thesis .
qed

lemma PTE_IDX_eq: "PTE_IDX v = take_bit 10 (drop_bit 12 v)"
proof -
  have "drop_bit 12 (0x003ff000 :: u32) = mask 10" by (simp add: mask_eq_exp_minus_1)
  then show ?thesis by (simp only: PTE_IDX_def drop_bit_and take_bit_eq_mask)
qed

lemma page_offset_eq: "v AND 0xfff = take_bit 12 (v :: u32)"
proof -
  have "(0xfff :: u32) = mask 12" by (simp add: mask_eq_exp_minus_1)
  then show ?thesis by (simp only: take_bit_eq_mask)
qed

lemma unat_PDE_IDX: "unat (PDE_IDX v) = unat v div 4194304"
  by (simp add: PDE_IDX_eq drop_bit_eq_div unat_div)

lemma unat_PTE_IDX: "unat (PTE_IDX v) = unat v div 4096 mod 1024"
  by (simp add: PTE_IDX_eq drop_bit_eq_div take_bit_eq_mod unat_div unat_mod)

lemma unat_page_offset: "unat (v AND 0xfff :: u32) = unat v mod 4096"
  by (simp only: page_offset_eq take_bit_eq_mod) (simp add: unat_mod)

lemma frame_of_eq: "frame_of x = x - take_bit 12 x"
proof -
  have m: "(0xfffff000 :: u32) = NOT (mask 12)" by (simp add: mask_eq_exp_minus_1)
  have "frame_of x + take_bit 12 x = frame_of x OR take_bit 12 x"
    by (rule disjunctive_add)
      (auto simp: frame_of_def m bit_and_iff bit_take_bit_iff bit_not_iff bit_mask_iff)
  also have "\<dots> = x"
    by (rule bit_word_eqI)
      (auto simp: frame_of_def m bit_and_iff bit_or_iff bit_take_bit_iff bit_not_iff bit_mask_iff)
  finally show ?thesis by (simp add: algebra_simps)
qed

lemma unat_frame_of: "unat (frame_of x) = unat x div 4096 * 4096"
proof -
  have "take_bit 12 x \<le> x" by (simp add: take_bit_eq_mod word_less_eq_iff_unsigned word_le_nat_alt unat_mod)
  then have "unat (frame_of x) = unat x - unat x mod 4096"
    by (simp add: frame_of_eq unat_sub take_bit_eq_mod unat_mod)
  then show ?thesis by (simp add: minus_mod_eq_div_mult)
qed

lemma PDE_IDX_less: "unat (PDE_IDX v) < 1024"
  and PTE_IDX_less: "unat (PTE_IDX v) < 1024"
proof -
  have "unat v < 1024 * 4194304" using unat_less_2p32 [of v] by linarith
  then show "unat (PDE_IDX v) < 1024" unfolding unat_PDE_IDX by (rule less_mult_imp_div_less)
  show "unat (PTE_IDX v) < 1024" by (simp add: unat_PTE_IDX)
qed

lemma unat_idx4: "unat i < 1024 \<Longrightarrow> unat (i * 4 :: u32) = unat i * 4"
  by (simp add: unat_word_ariths)

lemma table_part_eq: "drop_bit 10 (v AND 0xffc00000) = PDE_IDX v * (4096 :: u32)"
proof -
  have m: "(0xffc00000 :: u32) = NOT (mask 22)" by (simp add: mask_eq_exp_minus_1)
  have "PDE_IDX v * 4096 = push_bit 12 (drop_bit 22 v)"
    by (simp add: PDE_IDX_eq push_bit_eq_mult)
  moreover have "drop_bit 10 (v AND 0xffc00000) = push_bit 12 (drop_bit 22 v)"
    by (rule bit_word_eqI)
      (auto simp: m bit_drop_bit_eq bit_push_bit_iff bit_and_iff bit_not_iff bit_mask_iff
         dest: bit_imp_le_length)
  ultimately show ?thesis by simp
qed

lemma unat_pte_ptr:
  "unat (pte_ptr v) = 0xffc00000 + unat (PDE_IDX v) * 4096 + unat (PTE_IDX v) * 4"
proof -
  have "unat (PDE_IDX v * 4096) = unat (PDE_IDX v) * 4096"
    using PDE_IDX_less [of v] by (simp add: unat_word_ariths)
  then show ?thesis using PDE_IDX_less [of v] PTE_IDX_less [of v] unat_idx4 [of "PTE_IDX v"]
    unfolding pte_ptr_def table_part_eq by (simp add: unat_word_ariths)
qed

lemma unat_pde_ptr: "unat (pde_ptr v) = 0xfffff000 + unat (PDE_IDX v) * 4"
  using PDE_IDX_less [of v] unat_idx4 [of "PDE_IDX v"] by (simp add: pde_ptr_def unat_word_ariths)

lemma word_of_unat: "unat (x :: u32) = unat y \<Longrightarrow> x = y"
  by (simp add: word_unat_eq_iff)

lemma mod_add_multiple: "(n :: nat) mod m = 0 \<Longrightarrow> a < m \<Longrightarrow> (n + a) mod m = a"
  by (subst mod_add_left_eq [symmetric]) simp

text \<open>The address of a table entry: its directory index is 1023, its table index the directory
  index of \<open>v\<close>, its offset the byte offset of the entry of \<open>v\<close>.\<close>

lemma pte_ptr_parts:
  "PDE_IDX (pte_ptr v) = 1023" "PTE_IDX (pte_ptr v) = PDE_IDX v"
  "pte_ptr v AND 0xfff = PTE_IDX v * 4"
proof -
  let ?a = "unat (PDE_IDX v)" and ?b = "unat (PTE_IDX v)"
  have ab: "?a < 1024" "?b < 1024" by (rule PDE_IDX_less PTE_IDX_less)+
  have "unat (PDE_IDX (pte_ptr v)) = 1023" using ab by (simp add: unat_PDE_IDX [of "pte_ptr v"] unat_pte_ptr)
  then show "PDE_IDX (pte_ptr v) = 1023" by (intro word_of_unat) simp
  have "unat (pte_ptr v) div 4096 = 1047552 + ?a" using ab by (simp add: unat_pte_ptr)
  then have "unat (PTE_IDX (pte_ptr v)) = ?a" using ab by (simp add: unat_PTE_IDX [of "pte_ptr v"] mod_add_multiple)
  then show "PTE_IDX (pte_ptr v) = PDE_IDX v" by (rule word_of_unat)
  have "unat (pte_ptr v) mod 4096 = ?b * 4"
    using ab mod_add_multiple [of "4290772992 + ?a * 4096" 4096 "?b * 4"]
    by (simp add: unat_pte_ptr mod_add_multiple)
  then have "unat (pte_ptr v AND 0xfff) = unat (PTE_IDX v * 4)"
    using unat_idx4 [OF ab(2)] by (simp add: unat_page_offset)
  then show "pte_ptr v AND 0xfff = PTE_IDX v * 4" by (rule word_of_unat)
qed

lemma pde_ptr_parts:
  "PDE_IDX (pde_ptr v) = 1023" "PTE_IDX (pde_ptr v) = 1023" "pde_ptr v AND 0xfff = PDE_IDX v * 4"
proof -
  let ?a = "unat (PDE_IDX v)"
  have a: "?a < 1024" by (rule PDE_IDX_less)
  have d: "unat (pde_ptr v) div 4096 = 1048575" "unat (pde_ptr v) mod 4096 = ?a * 4"
    "unat (pde_ptr v) div 4194304 = 1023"
    using a by (simp_all add: unat_pde_ptr mod_add_multiple)
  then have "unat (PDE_IDX (pde_ptr v)) = 1023" by (simp add: unat_PDE_IDX [of "pde_ptr v"])
  then show "PDE_IDX (pde_ptr v) = 1023" by (intro word_of_unat) simp
  have "unat (PTE_IDX (pde_ptr v)) = 1023" using d by (simp add: unat_PTE_IDX [of "pde_ptr v"])
  then show "PTE_IDX (pde_ptr v) = 1023" by (intro word_of_unat) simp
  have "unat (pde_ptr v AND 0xfff) = unat (PDE_IDX v * 4)"
    using d unat_idx4 [OF a] by (simp add: unat_page_offset)
  then show "pde_ptr v AND 0xfff = PDE_IDX v * 4" by (rule word_of_unat)
qed

section \<open>The recursive directory entry\<close>

text \<open>
  The last entry of a page directory points to the directory itself, so that the last 4 MB of
  the address space show the page tables and the last page the directory.
\<close>

definition recursive_pd :: "u32 \<Rightarrow> (addr \<Rightarrow> u32) \<Rightarrow> bool" where
  "recursive_pd pd pm \<longleftrightarrow> present (pm (frame_of pd + 1023 * 4)) \<and>
     frame_of (pm (frame_of pd + 1023 * 4)) = frame_of pd"

lemma mmu_pde_ptr: "recursive_pd pd pm \<Longrightarrow> mmu pd pm (pde_ptr v) = Some (pde_at pd v)"
  by (simp add: mmu_def pte_at_def pde_at_def [of pd "pde_ptr v"] pde_ptr_parts recursive_pd_def)
    (simp add: pde_at_def)

lemma mmu_pte_ptr:
  "recursive_pd pd pm \<Longrightarrow> present (pm (pde_at pd v)) \<Longrightarrow> mmu pd pm (pte_ptr v) = Some (pte_at pd pm v)"
  by (simp add: mmu_def pte_at_def [of pd pm "pte_ptr v"] pde_at_def [of pd "pte_ptr v"]
      pte_ptr_parts recursive_pd_def)
    (simp add: pte_at_def pde_at_def)

lemma mmu_pte_ptr_unmapped:
  "recursive_pd pd pm \<Longrightarrow> \<not> present (pm (pde_at pd v)) \<Longrightarrow> mmu pd pm (pte_ptr v) = None"
  by (simp add: mmu_def pte_at_def [of pd pm "pte_ptr v"] pde_at_def [of pd "pte_ptr v"]
      pte_ptr_parts recursive_pd_def)
    (simp add: pde_at_def)

lemma addr_v2p_mmu:
  assumes "recursive_pd (cr3 s) (pmem s)" and "mmu (cr3 s) (pmem s) v = Some p"
  shows "addr_v2p v s = Inr p"
  using assms mmu_pte_ptr [of "cr3 s" "pmem s" v]
  by (auto simp: addr_v2p_def vread_def mmu_def frame_of_def split: if_splits)

section \<open>Writing an entry\<close>

lemma unat_entry:
  assumes "unat i < 1024"
  shows "unat (frame_of f + i * 4) = unat f div 4096 * 4096 + unat i * 4"
proof -
  have "unat f div 4096 < 1048576"
    using unat_less_2p32 [of f] by (intro less_mult_imp_div_less) linarith
  then have "unat (frame_of f) + unat (i * 4) < 4294967296"
    using assms unat_idx4 [OF assms] by (simp add: unat_frame_of)
  then show ?thesis using unat_idx4 [OF assms] by (simp add: unat_word_ariths unat_frame_of)
qed

lemma entry_eq_iff:
  assumes "unat i < 1024" and "unat j < 1024"
  shows "frame_of f + i * 4 = frame_of g + j * 4 \<longleftrightarrow> frame_of f = frame_of g \<and> i = j"
proof
  assume "frame_of f + i * 4 = frame_of g + j * 4"
  then have eq: "unat f div 4096 * 4096 + unat i * 4 = unat g div 4096 * 4096 + unat j * 4"
    using unat_entry [OF assms(1), of f] unat_entry [OF assms(2), of g] by simp
  have "(unat f div 4096 * 4096 + unat i * 4) div 4096 = unat f div 4096"
    "(unat g div 4096 * 4096 + unat j * 4) div 4096 = unat g div 4096" using assms by simp_all
  then have "unat f div 4096 = unat g div 4096" using eq by simp
  moreover from this have "unat i = unat j" using eq by simp
  ultimately show "frame_of f = frame_of g \<and> i = j"
    by (auto intro: word_of_unat simp: unat_frame_of)
qed simp

lemma frame_of_idem [simp]: "frame_of (frame_of x) = frame_of x"
  by (simp add: frame_of_def)

lemma pde_at_eq_iff: "pde_at pd v = pde_at pd w \<longleftrightarrow> PDE_IDX v = PDE_IDX w"
  unfolding pde_at_def by (subst entry_eq_iff) (simp_all add: PDE_IDX_less)

lemma pte_not_pde:
  "frame_of (pm (pde_at pd v)) \<noteq> frame_of pd \<Longrightarrow> pte_at pd pm v \<noteq> pde_at pd w"
  unfolding pte_at_def pde_at_def [of pd w] by (subst entry_eq_iff) (simp_all add: PDE_IDX_less PTE_IDX_less)

text \<open>
  An entry of a page table that is not the directory: the translation of exactly those addresses
  changes whose table entry it is. (The directory of this kernel maps its first 4 MB twice, so
  there can be two such pages.)
\<close>

lemma mmu_write_pte:
  assumes "frame_of (pm (pde_at pd v)) \<noteq> frame_of pd"
  shows "mmu pd (pm(pte_at pd pm v := x)) w =
    (if pte_at pd pm w = pte_at pd pm v
     then if present (pm (pde_at pd w)) \<and> present x then Some (frame_of x + (w AND 0xfff)) else None
     else mmu pd pm w)"
proof -
  let ?pm = "pm(pte_at pd pm v := x)"
  have d: "?pm (pde_at pd w) = pm (pde_at pd w)" using pte_not_pde [of pm pd v w, OF assms] by auto
  then have "pte_at pd ?pm w = pte_at pd pm w" by (simp add: pte_at_def)
  with d show ?thesis by (simp add: mmu_def)
qed

lemma recursive_pd_write_pte:
  assumes "frame_of (pm (pde_at pd v)) \<noteq> frame_of pd" and "recursive_pd pd pm"
  shows "recursive_pd pd (pm(pte_at pd pm v := x))"
proof -
  have "pde_at pd 0xffc00000 = frame_of pd + 1023 * 4" by (simp add: pde_at_def PDE_IDX_def)
  then have "pte_at pd pm v \<noteq> frame_of pd + 1023 * 4" using pte_not_pde [of pm pd v, OF assms(1)] by metis
  then show ?thesis using assms(2) by (auto simp: recursive_pd_def)
qed

lemma vread_pte:
  "recursive_pd (cr3 s) (pmem s) \<Longrightarrow> present (pmem s (pde_at (cr3 s) v)) \<Longrightarrow>
     vread (pte_ptr v) s = Inr (pmem s (pte_at (cr3 s) (pmem s) v))"
  by (simp add: vread_def mmu_pte_ptr)

lemma vwrite_pte:
  "recursive_pd (cr3 s) (pmem s) \<Longrightarrow> present (pmem s (pde_at (cr3 s) v)) \<Longrightarrow>
     vwrite (pte_ptr v) x s = Inr (s\<lparr>pmem := (pmem s)(pte_at (cr3 s) (pmem s) v := x)\<rparr>)"
  by (simp add: vwrite_def mmu_pte_ptr)

lemma vread_pde:
  "recursive_pd (cr3 s) (pmem s) \<Longrightarrow> vread (pde_ptr v) s = Inr (pmem s (pde_at (cr3 s) v))"
  by (simp add: vread_def mmu_pde_ptr)

lemma vwrite_pde:
  "recursive_pd (cr3 s) (pmem s) \<Longrightarrow>
     vwrite (pde_ptr v) x s = Inr (s\<lparr>pmem := (pmem s)(pde_at (cr3 s) v := x)\<rparr>)"
  by (simp add: vwrite_def mmu_pde_ptr)

lemma present_bit: "present x \<longleftrightarrow> bit x 0"
  by (simp add: present_def and_one_eq bit_0 odd_iff_mod_2_eq_one)

lemma page_table_pte_remove_eq:
  assumes "recursive_pd (cr3 s) (pmem s)" and "present (pmem s (pde_at (cr3 s) v))"
  shows "page_table_pte_remove v s = Inr (s\<lparr>pmem := (pmem s)(pte_at (cr3 s) (pmem s) v :=
     pmem s (pte_at (cr3 s) (pmem s) v) AND NOT 1)\<rparr>)"
  using assms by (simp add: page_table_pte_remove_def vread_pte vwrite_pte)

lemma not_present_cleared: "\<not> present (x AND NOT 1)"
  by (simp only: present_bit bit_and_iff bit_not_iff bit_1_iff) simp

section \<open>Claims\<close>

text \<open>
  C37: with the recursive directory entry in place, \<open>addr_v2p\<close> returns exactly the physical address
  that the memory management unit gives for a mapped virtual address.
\<close>

theorem addr_v2p_is_translation:
  assumes "recursive_pd (cr3 s) (pmem s)" and "mmu (cr3 s) (pmem s) v = Some p"
  shows "addr_v2p v s = Inr p"
  using assms by (rule addr_v2p_mmu)

text \<open>A directory at 0x100000 with one table, at 0x101000, for the kernel's first 4 MB.\<close>

definition sample_pmem :: "addr \<Rightarrow> u32" where
  "sample_pmem = (\<lambda>_. 0)(0x100c00 := 0x101007, 0x100ffc := 0x100007, 0x101400 := 0x200007)"

definition sample_machine :: machine where
  "sample_machine = \<lparr>eflags = 0, nodes = (\<lambda>_. \<lparr>front = 0, nxt = 0\<rparr>), esp = 0xc009efe0, cr3 = 0x100000,
     mem = (\<lambda>_. 0), pmem = sample_pmem\<rparr>"

lemmas sample_machine_simps = sample_machine_def sample_pmem_def recursive_pd_def mmu_def pde_at_def
  pte_at_def frame_of_def present_def PDE_IDX_def PTE_IDX_def

theorem addr_v2p_is_translation_witness: "addr_v2p 0xc0100123 sample_machine = Inr 0x200123"
  by (rule addr_v2p_is_translation) (simp_all add: sample_machine_simps)

text \<open>
  C38: \<open>page_table_pte_remove\<close> on an address whose table is present, and is not the directory,
  succeeds; afterwards the page is not mapped, every address with another table entry is translated
  as before, and the recursive entry still holds.
\<close>

theorem page_table_pte_remove_unmaps:
  assumes "recursive_pd (cr3 s) (pmem s)" and "present (pmem s (pde_at (cr3 s) v))"
    and "frame_of (pmem s (pde_at (cr3 s) v)) \<noteq> frame_of (cr3 s)"
  shows "\<exists>s'. page_table_pte_remove v s = Inr s' \<and> mmu (cr3 s') (pmem s') v = None \<and>
    (\<forall>w. pte_at (cr3 s) (pmem s) w \<noteq> pte_at (cr3 s) (pmem s) v \<longrightarrow>
       mmu (cr3 s') (pmem s') w = mmu (cr3 s) (pmem s) w) \<and>
    recursive_pd (cr3 s') (pmem s')"
  using assms not_present_cleared [of "pmem s (pte_at (cr3 s) (pmem s) v)"]
  by (intro exI [of _ "s\<lparr>pmem := (pmem s)(pte_at (cr3 s) (pmem s) v :=
     pmem s (pte_at (cr3 s) (pmem s) v) AND NOT 1)\<rparr>"])
    (auto simp: page_table_pte_remove_eq mmu_write_pte recursive_pd_write_pte)

theorem page_table_pte_remove_unmaps_witness:
  "\<exists>s'. page_table_pte_remove 0xc0100000 sample_machine = Inr s' \<and>
     mmu (cr3 s') (pmem s') 0xc0100000 = None"
proof -
  have "recursive_pd (cr3 sample_machine) (pmem sample_machine)"
    "present (pmem sample_machine (pde_at (cr3 sample_machine) 0xc0100000))"
    "frame_of (pmem sample_machine (pde_at (cr3 sample_machine) 0xc0100000)) \<noteq> frame_of (cr3 sample_machine)"
    by (simp_all add: sample_machine_simps)
  from page_table_pte_remove_unmaps [OF this] show ?thesis by blast
qed

end
