(* ===== verification/Thread.thy ===== *)
theory Thread
  imports Paging Bitmap
begin

text \<open>
  \<^verbatim>\<open>thread/thread.c\<close>, the scheduler: the process control blocks, the ready list, switching,
  blocking, waking and yielding; with \<^verbatim>\<open>process_activate\<close> of \<^verbatim>\<open>userprog/process.c\<close> and
  \<^verbatim>\<open>update_tss_esp\<close> of \<^verbatim>\<open>userprog/tss.c\<close>, which it calls. A process control block occupies the page
  that the kernel stack of its thread ends in, so the running thread is the page of \<open>esp\<close>. Its
  scalar fields are in the store \<open>tasks\<close>, its two list nodes in \<open>nodes\<close>, its name in \<open>mem\<close>. The
  addresses of the global objects (\<open>thread_ready_list\<close> and so on) are fixed by the linker and are
  parts of the state that nothing changes.
\<close>

section \<open>Process control blocks\<close>

datatype task_status =
  TASK_RUNNING | TASK_READY | TASK_BLOCKED | TASK_WAITING | TASK_HANGING | TASK_DIED

record virtual_addr =
  vaddr_bitmap :: bitmap
  vaddr_start :: u32

record task_struct =
  self_kstack :: u32
  pid :: "16 word"
  status :: task_status
  priority :: u8
  ticks :: u8
  elapsed_ticks :: u32
  fd_table :: "u32 list"
  pgdir :: addr
  userprog_vaddr :: virtual_addr
  cwd_inode_nr :: u32
  stack_magic :: u32

text \<open>Offsets of the parts of \<^verbatim>\<open>struct task_struct\<close> that are not in the record.\<close>

abbreviation (input) task_name :: "addr \<Rightarrow> addr" where "task_name t \<equiv> t + 12"

definition general_tag :: "addr \<Rightarrow> addr" where "general_tag t = t + 68"

definition all_list_tag :: "addr \<Rightarrow> addr" where "all_list_tag t = t + 76"

text \<open>\<^verbatim>\<open>elem2entry(e, struct task_struct, general_tag)\<close>\<close>

definition task_of_tag :: "addr \<Rightarrow> addr" where "task_of_tag e = e - 68"

record threads = machine +
  tasks :: "addr \<Rightarrow> task_struct"
  thread_ready_list :: addr
  thread_all_list :: addr
  main_thread :: addr
  idle_thread :: addr
  thread_tag :: addr
  tss_esp0 :: u32

definition upd_task :: "addr \<Rightarrow> (task_struct \<Rightarrow> task_struct) \<Rightarrow> 'a threads_scheme \<Rightarrow> 'a threads_scheme" where
  "upd_task t f s = s\<lparr>tasks := (tasks s)(t := f (tasks s t))\<rparr>"

abbreviation set_status :: "addr \<Rightarrow> task_status \<Rightarrow> 'a threads_scheme \<Rightarrow> 'a threads_scheme" where
  "set_status t st \<equiv> upd_task t (\<lambda>r. r\<lparr>status := st\<rparr>)"

abbreviation task_status_of :: "'a threads_scheme \<Rightarrow> addr \<Rightarrow> task_status" where
  "task_status_of s t \<equiv> status (tasks s t)"

definition running_thread :: "'a threads_scheme \<Rightarrow> addr" where
  "running_thread s = esp s AND 0xfffff000"

section \<open>Activating a thread\<close>

definition page_dir_activate :: "addr \<Rightarrow> 'a threads_scheme \<Rightarrow> 'a threads_scheme res" where
  "page_dir_activate p_thread s =
     (if pgdir (tasks s p_thread) \<noteq> NULL
      then res_bind (addr_v2p (pgdir (tasks s p_thread)) s) (\<lambda>p. Inr (s\<lparr>cr3 := p\<rparr>))
      else Inr (s\<lparr>cr3 := 0x100000\<rparr>))"

definition update_tss_esp :: "addr \<Rightarrow> 'a threads_scheme \<Rightarrow> 'a threads_scheme" where
  "update_tss_esp pthread s = s\<lparr>tss_esp0 := pthread + PG_SIZE\<rparr>"

definition process_activate :: "addr \<Rightarrow> 'a threads_scheme \<Rightarrow> 'a threads_scheme res" where
  "process_activate p_thread s =
     assertion (p_thread \<noteq> NULL) ''p_thread!=NULL''
      (res_bind (page_dir_activate p_thread s) (\<lambda>s1.
         Inr (if pgdir (tasks s1 p_thread) \<noteq> NULL then update_tss_esp p_thread s1 else s1)))"

section \<open>Switching\<close>

text \<open>
  \<^verbatim>\<open>switch_to\<close> is assembly (\<^verbatim>\<open>thread/switch.S\<close>): the call pushes the return address and the routine
  four registers (20 bytes), then it saves \<open>esp\<close> in the old block, loads it from the new one and
  pops the same 20 bytes. The old thread goes on from here when it is switched to again.
\<close>

definition switch_to :: "addr \<Rightarrow> addr \<Rightarrow> 'a threads_scheme \<Rightarrow> ('a threads_scheme, unit) kop" where
  "switch_to cur next s =
     (let s1 = upd_task cur (\<lambda>r. r\<lparr>self_kstack := esp s - 20\<rparr>) s
      in Block (s1\<lparr>esp := self_kstack (tasks s1 next) + 20\<rparr>) (\<lambda>s'. Done () s'))"

section \<open>Waking, scheduling, blocking, yielding\<close>

definition blocked_status :: "task_status \<Rightarrow> bool" where
  "blocked_status st \<longleftrightarrow> st = TASK_HANGING \<or> st = TASK_BLOCKED \<or> st = TASK_WAITING"

definition thread_unblock :: "addr \<Rightarrow> 'a threads_scheme \<Rightarrow> 'a threads_scheme res" where
  "thread_unblock pthread s =
     (let (old_status, s1) = disable_intr s in
      assertion (blocked_status (task_status_of s1 pthread)) ''pthread->status''
       (res_bind
         (if task_status_of s1 pthread \<noteq> TASK_READY
          then res_bind (list_search (thread_ready_list s1) (general_tag pthread) s1) (\<lambda>found.
                 assertion (\<not> found) ''!list_search(&thread_ready_list, &pthread->general_tag)''
                  (res_bind (list_search (thread_ready_list s1) (general_tag pthread) s1) (\<lambda>again.
                     if again then Inl (PANIC ''thread_unblock: blocked thread in ready_list'')
                     else Inr (set_status pthread TASK_READY
                            (list_push (thread_ready_list s1) (general_tag pthread) s1)))))
          else Inr s1)
         (\<lambda>s2. Inr (snd (set_intr_status old_status s2)))))"

text \<open>The part of \<open>schedule\<close> before the switch: it chooses and activates the next thread.\<close>

definition schedule_requeue :: "addr \<Rightarrow> 'a threads_scheme \<Rightarrow> 'a threads_scheme res" where
  "schedule_requeue cur s =
     (if task_status_of s cur = TASK_RUNNING
      then res_bind (list_search (thread_ready_list s) (general_tag cur) s) (\<lambda>found.
             assertion (\<not> found) ''!list_search(&thread_ready_list, &cur_thread->general_tag)''
              (Inr (set_status cur TASK_READY
                (upd_task cur (\<lambda>r. r\<lparr>ticks := priority r\<rparr>)
                  (list_append (thread_ready_list s) (general_tag cur) s)))))
      else Inr s)"

definition schedule_pop :: "'a threads_scheme \<Rightarrow> (addr \<times> 'a threads_scheme) res" where
  "schedule_pop s =
     (let (tag, s1) = list_pop (thread_ready_list s) (s\<lparr>thread_tag := NULL\<rparr>);
          s2 = s1\<lparr>thread_tag := tag\<rparr>;
          task = task_of_tag (thread_tag s2);
          s3 = set_status task TASK_RUNNING s2
      in res_bind (process_activate task s3) (\<lambda>s4. Inr (task, s4)))"

definition schedule_next :: "'a threads_scheme \<Rightarrow> (addr \<times> 'a threads_scheme) res" where
  "schedule_next s =
     res_bind (if list_empty (thread_ready_list s) s then thread_unblock (idle_thread s) s else Inr s)
      schedule_pop"

definition schedule :: "'a threads_scheme \<Rightarrow> ('a threads_scheme, unit) kop" where
  "schedule s =
     kassert (get_intr_status s = INT_OFF) ''get_intr_status() == INT_OFF''
      (let cur_thread = running_thread s in
       kbind (klift_val (res_bind (schedule_requeue cur_thread s) schedule_next))
        (\<lambda>task s1. switch_to cur_thread task s1))"

definition thread_block :: "task_status \<Rightarrow> 'a threads_scheme \<Rightarrow> ('a threads_scheme, unit) kop" where
  "thread_block stat s =
     kassert (blocked_status stat) ''stat''
      (let (old_status, s1) = disable_intr s;
           cur_thread = running_thread s1
       in kbind (schedule (set_status cur_thread stat s1))
            (\<lambda>_ s2. Done () (snd (set_intr_status old_status s2))))"

definition thread_yield :: "'a threads_scheme \<Rightarrow> ('a threads_scheme, unit) kop" where
  "thread_yield s =
     (let cur = running_thread s;
          (old_status, s1) = disable_intr s
      in kbind (klift (res_bind (list_search (thread_ready_list s1) (general_tag cur) s1) (\<lambda>found.
                  assertion (\<not> found) ''!list_search(&thread_ready_list, &cur->general_tag)''
                   (Inr (set_status cur TASK_READY
                     (list_append (thread_ready_list s1) (general_tag cur) s1))))))
           (\<lambda>_ s2. kbind (schedule s2) (\<lambda>_ s3. Done () (snd (set_intr_status old_status s3)))))"

text \<open>The idle thread: it blocks itself; when it is run again it enables interrupts and halts.\<close>

definition idle_step :: "'a threads_scheme \<Rightarrow> ('a threads_scheme, unit) kop" where
  "idle_step s = kbind (thread_block TASK_BLOCKED s) (\<lambda>_ s1. Done () (sti s1))"

section \<open>The scheduling invariant\<close>

text \<open>
  \<open>space_ok pd s\<close>: the directory at \<open>pd\<close> has its recursive entry and maps the kernel half as the
  kernel's own directory, at 0x100000, does.
\<close>

definition space_ok :: "u32 \<Rightarrow> (addr \<Rightarrow> u32) \<Rightarrow> bool" where
  "space_ok pd pm \<longleftrightarrow> recursive_pd pd pm \<and>
     (\<forall>v. 0xc0000000 \<le> v \<and> v < 0xffc00000 \<longrightarrow> mmu pd pm v = mmu 0x100000 pm v)"

definition task_space_ok :: "'a threads_scheme \<Rightarrow> addr \<Rightarrow> bool" where
  "task_space_ok s t \<longleftrightarrow> pgdir (tasks s t) = NULL \<or>
     0xc0000000 \<le> pgdir (tasks s t) \<and> pgdir (tasks s t) < 0xffc00000 \<and>
     (\<exists>p. mmu 0x100000 (pmem s) (pgdir (tasks s t)) = Some p \<and> space_ok p (pmem s))"

definition kstack_ok :: "'a threads_scheme \<Rightarrow> addr \<Rightarrow> bool" where
  "kstack_ok s t \<longleftrightarrow> (self_kstack (tasks s t) + 20) AND 0xfffff000 = t"

text \<open>The ready list holds the threads \<open>rs\<close> in this order.\<close>

definition ready_list :: "'a threads_scheme \<Rightarrow> addr list \<Rightarrow> bool" where
  "ready_list s rs \<longleftrightarrow> dlist (nodes s) (thread_ready_list s) (map general_tag rs)"

text \<open>
  \<open>sched_wf s T rs\<close>, for the set \<open>T\<close> of all threads: the ready list holds exactly the threads whose
  status is \<^verbatim>\<open>TASK_READY\<close>, no thread but the current one is \<^verbatim>\<open>TASK_RUNNING\<close>, none is dead, the
  saved stack pointer of every other thread points into its own block, and every address space
  shares the kernel half.
\<close>

definition sched_wf :: "'a threads_scheme \<Rightarrow> addr set \<Rightarrow> addr list \<Rightarrow> bool" where
  "sched_wf s T rs \<longleftrightarrow>
     ready_list s rs \<and> set rs \<subseteq> T \<and> running_thread s \<in> T \<and> idle_thread s \<in> T \<and>
     NULL \<notin> T \<and> {thread_ready_list s, thread_ready_list s + 8} \<inter> general_tag ` T = {} \<and>
     (\<forall>t\<in>T. t \<in> set rs \<longleftrightarrow> task_status_of s t = TASK_READY) \<and>
     (\<forall>t\<in>T. task_status_of s t \<noteq> TASK_DIED) \<and>
     (\<forall>t\<in>T. t \<noteq> running_thread s \<longrightarrow> task_status_of s t \<noteq> TASK_RUNNING \<and> kstack_ok s t) \<and>
     space_ok 0x100000 (pmem s) \<and> space_ok (cr3 s) (pmem s) \<and> (\<forall>t\<in>T. task_space_ok s t)"

text \<open>Between scheduling points the current thread is the one that is \<^verbatim>\<open>TASK_RUNNING\<close>.\<close>

definition sched_inv :: "'a threads_scheme \<Rightarrow> addr set \<Rightarrow> addr list \<Rightarrow> bool" where
  "sched_inv s T rs \<longleftrightarrow> sched_wf s T rs \<and> task_status_of s (running_thread s) = TASK_RUNNING"

section \<open>Lemmas\<close>

lemma general_tag_inj [simp]: "general_tag t = general_tag u \<longleftrightarrow> t = u"
  by (simp add: general_tag_def)

lemma task_of_general_tag [simp]: "task_of_tag (general_tag t) = t"
  by (simp add: task_of_tag_def general_tag_def)

lemma general_tag_mem [simp]: "general_tag t \<in> general_tag ` A \<longleftrightarrow> t \<in> A"
  by auto

lemma upd_task_simps [simp]:
  "tasks (upd_task t f s) u = (if u = t then f (tasks s t) else tasks s u)"
  "nodes (upd_task t f s) = nodes s" "eflags (upd_task t f s) = eflags s" "esp (upd_task t f s) = esp s"
  "cr3 (upd_task t f s) = cr3 s" "mem (upd_task t f s) = mem s" "pmem (upd_task t f s) = pmem s"
  "thread_ready_list (upd_task t f s) = thread_ready_list s"
  "thread_all_list (upd_task t f s) = thread_all_list s"
  "idle_thread (upd_task t f s) = idle_thread s" "main_thread (upd_task t f s) = main_thread s"
  "thread_tag (upd_task t f s) = thread_tag s" "tss_esp0 (upd_task t f s) = tss_esp0 s"
  "threads.more (upd_task t f s) = threads.more s"
  by (simp_all add: upd_task_def)

lemma running_thread_cong: "esp s' = esp s \<Longrightarrow> running_thread s' = running_thread s"
  by (simp add: running_thread_def)

lemma get_intr_status_cong: "eflags s' = eflags s \<Longrightarrow> get_intr_status s' = get_intr_status s"
  by (simp add: get_intr_status_def)

text \<open>What a step of the scheduler may change, and what it leaves alone.\<close>

definition sched_frame :: "'a threads_scheme \<Rightarrow> 'a threads_scheme \<Rightarrow> bool" where
  "sched_frame s s' \<longleftrightarrow> eflags s' = eflags s \<and> mem s' = mem s \<and> pmem s' = pmem s \<and>
     thread_ready_list s' = thread_ready_list s \<and> thread_all_list s' = thread_all_list s \<and>
     main_thread s' = main_thread s \<and> idle_thread s' = idle_thread s \<and>
     threads.more s' = threads.more s \<and>
     (\<forall>t. pgdir (tasks s' t) = pgdir (tasks s t))"

lemma sched_frame_refl [simp]: "sched_frame s s"
  by (simp add: sched_frame_def)

lemma sched_frame_trans: "sched_frame s s' \<Longrightarrow> sched_frame s' s'' \<Longrightarrow> sched_frame s s''"
  by (simp add: sched_frame_def)

lemma task_space_ok_frame: "sched_frame s s' \<Longrightarrow> task_space_ok s' t = task_space_ok s t"
  by (simp add: sched_frame_def task_space_ok_def)

lemma ready_search:
  "ready_list s rs \<Longrightarrow> list_search (thread_ready_list s) (general_tag t) s = Inr (t \<in> set rs)"
  by (simp add: ready_list_def list_search_eq)

text \<open>Waking a blocked thread puts it first in the ready list.\<close>

lemma thread_unblock_eq:
  assumes "ready_list s rs" and "t \<notin> set rs" and "blocked_status (task_status_of s t)"
  shows "thread_unblock t s =
    Inr (set_status t TASK_READY (list_push (thread_ready_list s) (general_tag t) s))"
proof -
  let ?body = "\<lambda>s. set_status t TASK_READY (list_push (thread_ready_list s) (general_tag t) s)"
  obtain old s1 where d: "disable_intr s = (old, s1)" by (cases "disable_intr s")
  have s1: "nodes s1 = nodes s" "tasks s1 = tasks s" "thread_ready_list s1 = thread_ready_list s"
    using d by (auto simp: disable_intr_def cli_def split: if_splits)
  have rl: "ready_list s1 rs" using assms(1) by (simp add: ready_list_def s1)
  have "thread_unblock t s = Inr (with_intr_off ?body s)"
    using assms(2,3) ready_search [OF rl, of t] by (auto simp: thread_unblock_def with_intr_off_def d s1 blocked_status_def)
  also have "with_intr_off ?body s = ?body s"
    by (rule with_intr_off_eq) (simp_all add: list_push_nodes upd_task_def)
  finally show ?thesis .
qed

lemma sched_wfD:
  assumes "sched_wf s T rs"
  shows "ready_list s rs" "set rs \<subseteq> T" "running_thread s \<in> T" "idle_thread s \<in> T" "NULL \<notin> T"
    "t \<in> T \<Longrightarrow> general_tag t \<noteq> thread_ready_list s" "t \<in> T \<Longrightarrow> general_tag t \<noteq> thread_ready_list s + 8"
    "t \<in> T \<Longrightarrow> t \<in> set rs \<longleftrightarrow> task_status_of s t = TASK_READY"
    "t \<in> T \<Longrightarrow> task_status_of s t \<noteq> TASK_DIED"
    "t \<in> T \<Longrightarrow> t \<noteq> running_thread s \<Longrightarrow> task_status_of s t \<noteq> TASK_RUNNING"
    "t \<in> T \<Longrightarrow> t \<noteq> running_thread s \<Longrightarrow> kstack_ok s t"
    "space_ok 0x100000 (pmem s)" "space_ok (cr3 s) (pmem s)" "t \<in> T \<Longrightarrow> task_space_ok s t"
  using assms unfolding sched_wf_def by blast+

lemma sched_wfI:
  assumes "ready_list s rs" "set rs \<subseteq> T" "running_thread s \<in> T" "idle_thread s \<in> T" "NULL \<notin> T"
    "\<And>t. t \<in> T \<Longrightarrow> general_tag t \<noteq> thread_ready_list s"
    "\<And>t. t \<in> T \<Longrightarrow> general_tag t \<noteq> thread_ready_list s + 8"
    "\<And>t. t \<in> T \<Longrightarrow> t \<in> set rs \<longleftrightarrow> task_status_of s t = TASK_READY"
    "\<And>t. t \<in> T \<Longrightarrow> task_status_of s t \<noteq> TASK_DIED"
    "\<And>t. t \<in> T \<Longrightarrow> t \<noteq> running_thread s \<Longrightarrow> task_status_of s t \<noteq> TASK_RUNNING"
    "\<And>t. t \<in> T \<Longrightarrow> t \<noteq> running_thread s \<Longrightarrow> kstack_ok s t"
    "space_ok 0x100000 (pmem s)" "space_ok (cr3 s) (pmem s)" "\<And>t. t \<in> T \<Longrightarrow> task_space_ok s t"
  shows "sched_wf s T rs"
proof -
  have "thread_ready_list s \<notin> general_tag ` T" "thread_ready_list s + 8 \<notin> general_tag ` T"
    using assms(6,7) by (metis imageE)+
  then have "{thread_ready_list s, thread_ready_list s + 8} \<inter> general_tag ` T = {}" by simp
  then show ?thesis unfolding sched_wf_def
    by (intro conjI ballI impI) (simp_all only: assms simp_thms)
qed

lemma ready_list_append:
  assumes "sched_wf s T rs" and "t \<in> T" and "t \<notin> set rs"
  shows "dlist (nodes (list_append (thread_ready_list s) (general_tag t) s)) (thread_ready_list s)
    (map general_tag (rs @ [t]))"
  using assms(3) sched_wfD(1,6,7) [OF assms(1)] assms(2)
  by (auto simp: ready_list_def intro!: kl.rep_append)

lemma ready_list_push:
  assumes "sched_wf s T rs" and "t \<in> T" and "t \<notin> set rs"
  shows "dlist (nodes (list_push (thread_ready_list s) (general_tag t) s)) (thread_ready_list s)
    (map general_tag (t # rs))"
  using assms(3) sched_wfD(1,6,7) [OF assms(1)] assms(2)
  by (auto simp: ready_list_def intro!: kl.rep_push)

text \<open>The nodes of everything but the ready list and the threads \<open>ts\<close> stay as they are.\<close>

definition nodes_frame :: "'a threads_scheme \<Rightarrow> 'a threads_scheme \<Rightarrow> addr set \<Rightarrow> bool" where
  "nodes_frame s s' ts \<longleftrightarrow>
     (\<forall>x. x \<notin> {thread_ready_list s, thread_ready_list s + 8} \<union> general_tag ` ts \<longrightarrow> nodes s' x = nodes s x)"

lemma nodes_frame_trans:
  "nodes_frame s s' A \<Longrightarrow> nodes_frame s' s'' B \<Longrightarrow> thread_ready_list s' = thread_ready_list s \<Longrightarrow>
     nodes_frame s s'' (A \<union> B)"
  by (simp add: nodes_frame_def image_Un)

lemma list_append_fields [simp]:
  "tasks (list_append l e s) = tasks s" "esp (list_append l e s) = esp s"
  "cr3 (list_append l e s) = cr3 s" "mem (list_append l e s) = mem s" "pmem (list_append l e s) = pmem s"
  "eflags (list_append l e s) = eflags s"
  "thread_ready_list (list_append l e s) = thread_ready_list s"
  "thread_all_list (list_append l e s) = thread_all_list s"
  "idle_thread (list_append l e s) = idle_thread s" "main_thread (list_append l e s) = main_thread s"
  "tss_esp0 (list_append l e s) = tss_esp0 s" "threads.more (list_append l e s) = threads.more s"
  by (simp_all add: list_ops_nodes)

lemma list_push_fields [simp]:
  "tasks (list_push l e s) = tasks s" "esp (list_push l e s) = esp s"
  "cr3 (list_push l e s) = cr3 s" "mem (list_push l e s) = mem s" "pmem (list_push l e s) = pmem s"
  "eflags (list_push l e s) = eflags s"
  "thread_ready_list (list_push l e s) = thread_ready_list s"
  "thread_all_list (list_push l e s) = thread_all_list s"
  "idle_thread (list_push l e s) = idle_thread s" "main_thread (list_push l e s) = main_thread s"
  "tss_esp0 (list_push l e s) = tss_esp0 s" "threads.more (list_push l e s) = threads.more s"
  by (simp_all add: list_push_nodes)

lemma list_remove_fields [simp]:
  "tasks (list_remove e s) = tasks s" "esp (list_remove e s) = esp s"
  "cr3 (list_remove e s) = cr3 s" "mem (list_remove e s) = mem s" "pmem (list_remove e s) = pmem s"
  "eflags (list_remove e s) = eflags s"
  "thread_ready_list (list_remove e s) = thread_ready_list s"
  "thread_all_list (list_remove e s) = thread_all_list s"
  "idle_thread (list_remove e s) = idle_thread s" "main_thread (list_remove e s) = main_thread s"
  "tss_esp0 (list_remove e s) = tss_esp0 s" "threads.more (list_remove e s) = threads.more s"
  by (simp_all add: list_ops_nodes)

text \<open>Making a thread ready, at either end of the list, keeps the invariant.\<close>

lemma sched_wf_ready:
  assumes wf: "sched_wf s T rs" and t: "t \<in> T" "t \<notin> set rs"
    and s': "sched_frame s s'" "esp s' = esp s" "cr3 s' = cr3 s"
    and dl: "dlist (nodes s') (thread_ready_list s) (map general_tag rs')" "set rs' = insert t (set rs)"
    and ts: "\<And>u. u \<noteq> t \<Longrightarrow> tasks s' u = tasks s u"
    and st: "task_status_of s' t = TASK_READY" "self_kstack (tasks s' t) = self_kstack (tasks s t)"
  shows "sched_wf s' T rs'"
proof -
  have f: "pmem s' = pmem s" "thread_ready_list s' = thread_ready_list s" "idle_thread s' = idle_thread s"
    using s'(1) by (simp_all add: sched_frame_def)
  have r: "running_thread s' = running_thread s" using s'(2) by (rule running_thread_cong)
  have k: "kstack_ok s' u = kstack_ok s u" for u
    using ts [of u] st(2) by (cases "u = t") (simp_all add: kstack_ok_def)
  have sts: "task_status_of s' u = (if u = t then TASK_READY else task_status_of s u)" for u
    using ts [of u] st(1) by simp
  note w = sched_wfD [OF wf]
  show ?thesis
  proof (rule sched_wfI, goal_cases)
    case 1
    then show ?case using dl(1) by (simp add: ready_list_def f)
  next
    case 2
    then show ?case using dl(2) t(1) w(2) by simp
  next
    case (8 u)
    then show ?case using dl(2) w(8) [OF 8] sts [of u] by simp
  next
    case (14 u)
    then show ?case using w(14) [OF 14] task_space_ok_frame [OF s'(1)] by simp
  qed (use w in \<open>simp_all add: f r k sts s'\<close>)
qed

section \<open>Choosing the next thread\<close>

text \<open>The queue \<open>schedule\<close> takes the first thread of: the ready list, with the current thread
  behind it if that is still running, or the idle thread if there is none.\<close>

definition requeued :: "'a threads_scheme \<Rightarrow> addr list \<Rightarrow> addr list" where
  "requeued s rs =
     (if task_status_of s (running_thread s) = TASK_RUNNING then rs @ [running_thread s] else rs)"

definition candidates :: "'a threads_scheme \<Rightarrow> addr list \<Rightarrow> addr list" where
  "candidates s rs = (if requeued s rs = [] then [idle_thread s] else requeued s rs)"

lemma schedule_requeue_spec:
  assumes wf: "sched_wf s T rs"
  obtains s1 where "schedule_requeue (running_thread s) s = Inr s1" and "sched_wf s1 T (requeued s rs)"
    and "sched_frame s s1" and "esp s1 = esp s" and "cr3 s1 = cr3 s"
    and "nodes_frame s s1 (set (requeued s rs))"
    and "\<And>t. task_status_of s1 t = (if t = running_thread s \<and> task_status_of s t = TASK_RUNNING
             then TASK_READY else task_status_of s t)"
    and "\<And>t. self_kstack (tasks s1 t) = self_kstack (tasks s t)"
proof (cases "task_status_of s (running_thread s) = TASK_RUNNING")
  case False
  show ?thesis
    by (rule that [of s]) (use wf False in \<open>auto simp: schedule_requeue_def requeued_def nodes_frame_def\<close>)
next
  case True
  let ?c = "running_thread s"
  let ?s1 = "set_status ?c TASK_READY (upd_task ?c (\<lambda>r. r\<lparr>ticks := priority r\<rparr>)
      (list_append (thread_ready_list s) (general_tag ?c) s))"
  note w = sched_wfD [OF wf]
  have nin: "?c \<notin> set rs" using w(8) [OF w(3)] True by simp
  have eq: "schedule_requeue ?c s = Inr ?s1"
    using True nin by (simp add: schedule_requeue_def ready_search [OF w(1)])
  have fr: "sched_frame s ?s1" by (simp add: sched_frame_def)
  have "sched_wf ?s1 T (rs @ [?c])"
    by (rule sched_wf_ready [OF wf w(3) nin fr])
      (use ready_list_append [OF wf w(3) nin] in simp_all)
  moreover have "nodes_frame s ?s1 (set (rs @ [?c]))"
    using w(1) w(7) [OF w(3)]
    by (auto simp: nodes_frame_def ready_list_def intro!: list_append_other)
  ultimately show ?thesis using that [OF eq] fr True by (simp add: requeued_def)
qed

text \<open>Activation cannot fault, because every address space maps the page directories.\<close>

lemma process_activate_spec:
  assumes "space_ok 0x100000 (pmem s)" "space_ok (cr3 s) (pmem s)" "task_space_ok s t" "t \<noteq> NULL"
  obtains c e where "process_activate t s = Inr (s\<lparr>cr3 := c, tss_esp0 := e\<rparr>)" and "space_ok c (pmem s)"
proof (cases "pgdir (tasks s t) = NULL")
  case True
  then have "process_activate t s = Inr (s\<lparr>cr3 := 0x100000, tss_esp0 := tss_esp0 s\<rparr>)"
    using assms(4) by (simp add: process_activate_def page_dir_activate_def)
  then show ?thesis using that assms(1) by blast
next
  case False
  then obtain p where p: "mmu 0x100000 (pmem s) (pgdir (tasks s t)) = Some p" "space_ok p (pmem s)"
    and k: "0xc0000000 \<le> pgdir (tasks s t)" "pgdir (tasks s t) < 0xffc00000"
    using assms(3) by (auto simp: task_space_ok_def)
  have "addr_v2p (pgdir (tasks s t)) s = Inr p"
    using assms(2) k p(1) by (intro addr_v2p_mmu) (simp_all add: space_ok_def)
  then have "process_activate t s = Inr (s\<lparr>cr3 := p, tss_esp0 := t + PG_SIZE\<rparr>)"
    using False assms(4) by (simp add: process_activate_def page_dir_activate_def update_tss_esp_def)
  then show ?thesis using that p(2) by blast
qed

lemma schedule_idle_spec:
  assumes wf: "sched_wf s T rs" and cur: "task_status_of s (running_thread s) \<noteq> TASK_RUNNING"
  defines "cs \<equiv> if rs = [] then [idle_thread s] else rs"
  obtains s1 where
    "(if list_empty (thread_ready_list s) s then thread_unblock (idle_thread s) s else Inr s) = Inr s1"
    and "sched_wf s1 T cs" and "sched_frame s s1" and "esp s1 = esp s" and "cr3 s1 = cr3 s"
    and "nodes_frame s s1 (set cs)"
    and "\<And>t. task_status_of s1 t = (if rs = [] \<and> t = idle_thread s then TASK_READY else task_status_of s t)"
    and "\<And>t. self_kstack (tasks s1 t) = self_kstack (tasks s t)"
proof -
  note w = sched_wfD [OF wf]
  have empty: "list_empty (thread_ready_list s) s \<longleftrightarrow> rs = []"
    using w(1) by (simp add: ready_list_def list_empty_iff)
  show ?thesis
  proof (cases "rs = []")
    case False
    show ?thesis by (rule that [of s]) (use wf False empty in \<open>auto simp: cs_def nodes_frame_def\<close>)
  next
    case True
    let ?i = "idle_thread s"
    let ?s1 = "set_status ?i TASK_READY (list_push (thread_ready_list s) (general_tag ?i) s)"
    have nin: "?i \<notin> set rs" using True by simp
    have "blocked_status (task_status_of s ?i)"
      using w(8,9,10) [OF w(4)] nin cur
      by (cases "task_status_of s ?i"; cases "?i = running_thread s") (auto simp: blocked_status_def)
    then have eq: "thread_unblock ?i s = Inr ?s1" by (rule thread_unblock_eq [OF w(1) nin])
    have fr: "sched_frame s ?s1" by (simp add: sched_frame_def)
    have "sched_wf ?s1 T (?i # rs)"
      by (rule sched_wf_ready [OF wf w(4) nin fr])
        (use ready_list_push [OF wf w(4) nin] in simp_all)
    moreover have "nodes_frame s ?s1 (set (?i # rs))"
      using w(1) w(6,7) [OF w(4)] nin
      by (auto simp: nodes_frame_def ready_list_def intro!: list_push_other)
    ultimately show ?thesis using eq fr True empty by (intro that [of ?s1]) (simp_all add: cs_def)
  qed
qed

text \<open>After the switch: the first candidate runs, the others are the ready list.\<close>

lemma sched_inv_switched:
  assumes wf: "sched_wf s T (n # rs)" and cur: "task_status_of s (running_thread s) \<noteq> TASK_RUNNING"
    and fr: "sched_frame s s'" and c: "space_ok (cr3 s') (pmem s)"
    and dl: "dlist (nodes s') (thread_ready_list s) (map general_tag rs)"
    and st: "\<And>t. task_status_of s' t = (if t = n then TASK_RUNNING else task_status_of s t)"
    and ks: "\<And>t. self_kstack (tasks s' t) =
        (if t = running_thread s then esp s - 20 else self_kstack (tasks s t))"
    and e: "esp s' = self_kstack (tasks s' n) + 20"
  shows "sched_inv s' T rs \<and> running_thread s' = n"
proof -
  note w = sched_wfD [OF wf]
  have f: "pmem s' = pmem s" "thread_ready_list s' = thread_ready_list s" "idle_thread s' = idle_thread s"
    using fr by (simp_all add: sched_frame_def)
  have n: "n \<in> T" "n \<notin> set rs" using w(1,2) dlist_distinct(1) [of "nodes s" "thread_ready_list s" "map general_tag (n # rs)"]
    by (auto simp: ready_list_def)
  have kst: "kstack_ok s' t" if "t \<in> T" for t
    using w(11) [OF that] by (cases "t = running_thread s") (simp_all add: kstack_ok_def ks running_thread_def)
  have r: "running_thread s' = n" using kst [OF n(1)] e by (simp add: running_thread_def kstack_ok_def)
  have "sched_wf s' T rs"
  proof (rule sched_wfI, goal_cases)
    case 1
    then show ?case using dl by (simp add: ready_list_def f)
  next
    case 2
    then show ?case using w(2) by simp
  next
    case (8 t)
    then show ?case using w(8) [OF 8] n(2) by (auto simp: st)
  next
    case (10 t)
    then show ?case using w(10) [of t] cur by (auto simp: st r)
  next
    case (14 t)
    then show ?case using w(14) [OF 14] task_space_ok_frame [OF fr] by simp
  qed (use w n c in \<open>simp_all add: f r kst st\<close>)
  then show ?thesis by (simp add: sched_inv_def r st)
qed

text \<open>The state in which the chosen thread runs.\<close>

definition switched :: "'a threads_scheme \<Rightarrow> 'a threads_scheme \<Rightarrow> addr set \<Rightarrow> addr list \<Rightarrow> bool" where
  "switched s s' T cs \<longleftrightarrow> sched_inv s' T (tl cs) \<and> running_thread s' = hd cs \<and>
     sched_frame s s' \<and> nodes_frame s s' (set cs) \<and>
     (\<forall>t. task_status_of s' t =
        (if t = hd cs then TASK_RUNNING
         else if t = running_thread s \<and> task_status_of s t = TASK_RUNNING then TASK_READY
         else task_status_of s t))"

lemma switched_intr: "switched s s' T cs \<Longrightarrow> get_intr_status s' = get_intr_status s"
  by (simp add: switched_def sched_frame_def get_intr_status_def)

lemma schedule_pop_spec:
  assumes wf: "sched_wf s T (n # rs)" and cur: "task_status_of s (running_thread s) \<noteq> TASK_RUNNING"
  obtains s2 s' where "schedule_pop s = Inr (n, s2)"
    and "switch_to (running_thread s) n s2 = Block s' (\<lambda>s'. Done () s')"
    and "sched_inv s' T rs" and "running_thread s' = n" and "sched_frame s s'"
    and "nodes_frame s s' (set (n # rs))"
    and "\<And>t. task_status_of s' t = (if t = n then TASK_RUNNING else task_status_of s t)"
proof -
  note w = sched_wfD [OF wf]
  let ?tag = "general_tag n"
  let ?s0 = "s\<lparr>thread_tag := NULL\<rparr>"
  let ?s4 = "set_status n TASK_RUNNING ((list_remove ?tag ?s0)\<lparr>thread_tag := ?tag\<rparr>)"
  have dl: "dlist (nodes ?s0) (thread_ready_list s) (?tag # map general_tag rs)"
    using w(1) by (simp add: ready_list_def)
  have n: "n \<in> T" "n \<noteq> NULL" using w(2,5) by auto
  have "task_space_ok ?s4 n" using w(14) [OF n(1)] by (simp add: task_space_ok_def)
  moreover have "space_ok 0x100000 (pmem ?s4)" "space_ok (cr3 ?s4) (pmem ?s4)"
    using w(12,13) by simp_all
  ultimately obtain c e where pa: "process_activate n ?s4 = Inr (?s4\<lparr>cr3 := c, tss_esp0 := e\<rparr>)"
    and c: "space_ok c (pmem ?s4)"
    using process_activate_spec n(2) by metis
  define s2 where "s2 = ?s4\<lparr>cr3 := c, tss_esp0 := e\<rparr>"
  define s1 where "s1 = upd_task (running_thread s) (\<lambda>r. r\<lparr>self_kstack := esp s - 20\<rparr>) s2"
  define s' where "s' = s1\<lparr>esp := self_kstack (tasks s1 n) + 20\<rparr>"
  have sw: "switch_to (running_thread s) n s2 = Block s' (\<lambda>s'. Done () s')"
    by (simp add: switch_to_def s'_def s1_def s2_def)
  have fr: "sched_frame s s'" by (simp add: sched_frame_def s'_def s1_def s2_def)
  have st: "task_status_of s' t = (if t = n then TASK_RUNNING else task_status_of s t)" for t
    by (simp add: s'_def s1_def s2_def)
  have nd: "nodes s' = nodes (list_remove ?tag ?s0)" by (simp add: s'_def s1_def s2_def)
  have "dlist (nodes s') (thread_ready_list s) (map general_tag rs)"
    using kl.rep_remove [of ?s0 "thread_ready_list s" "[]" ?tag "map general_tag rs"] dl
    by (simp add: nd)
  then have inv: "sched_inv s' T rs \<and> running_thread s' = n"
    using c by (intro sched_inv_switched [OF wf cur fr]) (simp_all add: st, simp_all add: s'_def s1_def s2_def)
  have "nodes_frame s s' (set (n # rs))"
    using list_remove_other [of ?s0 "thread_ready_list s" "[]" ?tag "map general_tag rs"] dl
    by (auto simp: nodes_frame_def nd)
  moreover have "process_activate n ?s4 = Inr s2" using pa by (simp add: s2_def)
  ultimately show ?thesis using that [of s2 s'] sw inv fr st kl.pop_head [of ?s0, OF dl]
    by (simp add: schedule_pop_def Let_def)
qed

lemma schedule_spec:
  assumes wf: "sched_wf s T rs" and off: "get_intr_status s = INT_OFF"
  obtains s' where "schedule s = Block s' (\<lambda>s'. Done () s')" and "switched s s' T (candidates s rs)"
proof -
  obtain s1 where s1: "schedule_requeue (running_thread s) s = Inr s1" "sched_wf s1 T (requeued s rs)"
    "sched_frame s s1" "esp s1 = esp s" "nodes_frame s s1 (set (requeued s rs))"
    and st1: "\<And>t. task_status_of s1 t = (if t = running_thread s \<and> task_status_of s t = TASK_RUNNING
             then TASK_READY else task_status_of s t)"
    using schedule_requeue_spec [OF wf] by metis
  have r1: "running_thread s1 = running_thread s" using s1(4) by (rule running_thread_cong)
  have id: "idle_thread s1 = idle_thread s" "thread_ready_list s1 = thread_ready_list s"
    using s1(3) by (simp_all add: sched_frame_def)
  have c1: "task_status_of s1 (running_thread s1) \<noteq> TASK_RUNNING" by (simp add: st1 r1)
  obtain s2 where s2: "(if list_empty (thread_ready_list s1) s1 then thread_unblock (idle_thread s1) s1
        else Inr s1) = Inr s2"
    "sched_wf s2 T (candidates s rs)" "sched_frame s1 s2" "esp s2 = esp s1"
    "nodes_frame s1 s2 (set (candidates s rs))"
    and st2: "\<And>t. task_status_of s2 t = (if requeued s rs = [] \<and> t = idle_thread s then TASK_READY
             else task_status_of s1 t)"
    using schedule_idle_spec [OF s1(2) c1] unfolding candidates_def id(1) by metis
  obtain n cs where cs: "candidates s rs = n # cs" by (cases "candidates s rs") (auto simp: candidates_def split: if_splits)
  have r2: "running_thread s2 = running_thread s" using s2(4) r1 running_thread_cong by metis
  have c2: "task_status_of s2 (running_thread s2) \<noteq> TASK_RUNNING" using c1 by (simp add: st2 r1 r2)
  have sn: "schedule_next s1 = schedule_pop s2" using s2(1) by (simp add: schedule_next_def)
  obtain s3 s' where s3: "schedule_pop s2 = Inr (n, s3)"
    and s': "switch_to (running_thread s) n s3 = Block s' (\<lambda>s'. Done () s')" "sched_inv s' T cs"
    "running_thread s' = n" "sched_frame s2 s'" "nodes_frame s2 s' (set (n # cs))"
    and st3: "\<And>t. task_status_of s' t = (if t = n then TASK_RUNNING else task_status_of s2 t)"
    using schedule_pop_spec [OF s2(2) [unfolded cs] c2] unfolding r2 by metis
  have "schedule s = Block s' (\<lambda>s'. Done () s')"
    using off s1(1) s3 s'(1) by (simp add: schedule_def Let_def sn)
  moreover have "sched_frame s s'" using s1(3) s2(3) s'(4) sched_frame_trans by metis
  moreover have "nodes_frame s s' (set (n # cs))"
  proof -
    have "thread_ready_list s2 = thread_ready_list s" using s2(3) id(2) by (simp add: sched_frame_def)
    then have "nodes_frame s s' (set (requeued s rs) \<union> (set (n # cs) \<union> set (n # cs)))"
      using nodes_frame_trans s1(5) s2(5) s'(5) id(2) cs by metis
    moreover have "set (requeued s rs) \<subseteq> set (n # cs)" using cs by (simp add: candidates_def split: if_splits)
    ultimately show ?thesis by (simp only: Un_absorb Un_absorb1)
  qed
  moreover have "n = idle_thread s" if "requeued s rs = []" using that cs by (simp add: candidates_def)
  then have "task_status_of s' t = (if t = n then TASK_RUNNING
         else if t = running_thread s \<and> task_status_of s t = TASK_RUNNING then TASK_READY
         else task_status_of s t)" for t by (auto simp: st3 st2 st1)
  ultimately show ?thesis using s'(2,3) by (intro that [of s']) (simp_all add: switched_def cs)
qed

section \<open>Blocking and yielding\<close>

lemma disable_intr_fields:
  assumes "disable_intr s = (old, s1)"
  shows "s1 = s\<lparr>eflags := eflags s1\<rparr>" "get_intr_status s1 = INT_OFF" "old = get_intr_status s"
proof -
  show "s1 = s\<lparr>eflags := eflags s1\<rparr>" "old = get_intr_status s"
    using assms by (auto simp: disable_intr_def cli_def split: if_splits intro: intr_status.exhaust)
      (metis intr_status.exhaust)
  show "get_intr_status s1 = INT_OFF" using assms get_intr_status_disable [of s] by simp
qed

lemma sched_wf_eflags: "sched_wf (s\<lparr>eflags := e\<rparr>) T rs = sched_wf s T rs"
  by (simp add: sched_wf_def ready_list_def running_thread_def kstack_ok_def task_space_ok_def)

text \<open>A thread that is not ready may take any blocked status.\<close>

lemma sched_wf_block:
  assumes wf: "sched_wf s T rs" and "running_thread s \<notin> set rs" and "blocked_status st"
  shows "sched_wf (set_status (running_thread s) st s) T rs"
proof -
  let ?c = "running_thread s" and ?s = "set_status (running_thread s) st s"
  note w = sched_wfD [OF wf]
  have r: "running_thread ?s = ?c" by (simp add: running_thread_def)
  have fr: "sched_frame s ?s" by (simp add: sched_frame_def)
  show ?thesis
  proof (rule sched_wfI, goal_cases)
    case 1
    then show ?case using w(1) by (simp add: ready_list_def)
  next
    case (11 t)
    then show ?case using w(11) [OF 11(1)] by (simp add: r kstack_ok_def)
  next
    case (14 t)
    then show ?case using w(14) [OF 14] task_space_ok_frame [OF fr] by simp
  qed (use w assms(2,3) in \<open>auto simp: r blocked_status_def\<close>)
qed

lemma sched_inv_not_ready: "sched_inv s T rs \<Longrightarrow> running_thread s \<notin> set rs"
  using sched_wfD(3) [of s T rs] sched_wfD(8) [of s T rs "running_thread s"]
  by (auto simp: sched_inv_def)

text \<open>
  After the status change, \<open>thread_block\<close> runs the first ready thread, or the idle thread; when
  the blocked thread is resumed it only restores the interrupt status.
\<close>

lemma thread_block_spec:
  assumes inv: "sched_inv s T rs" and st: "blocked_status st"
  obtains s' where
    "thread_block st s = Block s' (\<lambda>s2. Done () (snd (set_intr_status (get_intr_status s) s2)))"
    and "switched (set_status (running_thread s) st (snd (disable_intr s))) s' T
           (if rs = [] then [idle_thread s] else rs)"
    and "get_intr_status s' = INT_OFF"
proof -
  obtain old s1 where d: "disable_intr s = (old, s1)" by (cases "disable_intr s")
  note f = disable_intr_fields [OF d]
  have r: "running_thread s1 = running_thread s" by (subst f(1)) (simp add: running_thread_def)
  have wf1: "sched_wf s1 T rs" using inv by (subst f(1)) (simp add: sched_wf_eflags sched_inv_def)
  let ?s2 = "set_status (running_thread s1) st s1"
  have wf2: "sched_wf ?s2 T rs" using sched_wf_block [OF wf1 _ st] sched_inv_not_ready [OF inv] r by simp
  have off: "get_intr_status ?s2 = INT_OFF" using f(2) by (simp add: get_intr_status_def)
  obtain s' where s': "schedule ?s2 = Block s' (\<lambda>s'. Done () s')" "switched ?s2 s' T (candidates ?s2 rs)"
    using schedule_spec [OF wf2 off] .
  have "idle_thread s1 = idle_thread s" by (subst f(1)) simp
  moreover have "task_status_of ?s2 (running_thread ?s2) \<noteq> TASK_RUNNING"
    using st by (auto simp: running_thread_def blocked_status_def)
  ultimately have c: "candidates ?s2 rs = (if rs = [] then [idle_thread s] else rs)"
    by (simp add: candidates_def requeued_def)
  have "get_intr_status s' = INT_OFF"
    using switched_intr [OF s'(2)] off by simp
  moreover have "thread_block st s = Block s' (\<lambda>s2. Done () (snd (set_intr_status (get_intr_status s) s2)))"
    using s'(1) st f(3) by (simp add: thread_block_def d)
  ultimately show ?thesis using that s'(2) c by (simp add: d r)
qed

lemma thread_yield_spec:
  assumes inv: "sched_inv s T rs"
  obtains s' where
    "thread_yield s = Block s' (\<lambda>s2. Done () (snd (set_intr_status (get_intr_status s) s2)))"
    and "sched_inv s' T (tl (rs @ [running_thread s]))"
    and "running_thread s' = hd (rs @ [running_thread s])"
    and "get_intr_status s' = INT_OFF"
    and "switched (set_status (running_thread s) TASK_READY
           (list_append (thread_ready_list s) (general_tag (running_thread s)) (snd (disable_intr s))))
           s' T (rs @ [running_thread s])"
proof -
  obtain old s1 where d: "disable_intr s = (old, s1)" by (cases "disable_intr s")
  note f = disable_intr_fields [OF d]
  let ?c = "running_thread s"
  have r: "running_thread s1 = ?c" by (subst f(1)) (simp add: running_thread_def)
  have wf1: "sched_wf s1 T rs" using inv by (subst f(1)) (simp add: sched_wf_eflags sched_inv_def)
  note w = sched_wfD [OF wf1]
  have nin: "?c \<notin> set rs" and c: "?c \<in> T" using sched_inv_not_ready [OF inv] w(3) r by simp_all
  let ?s2 = "set_status ?c TASK_READY (list_append (thread_ready_list s1) (general_tag ?c) s1)"
  have wf2: "sched_wf ?s2 T (rs @ [?c])"
    by (rule sched_wf_ready [OF wf1 c nin])
      (use ready_list_append [OF wf1 c nin] in \<open>simp_all add: sched_frame_def\<close>)
  have off: "get_intr_status ?s2 = INT_OFF" using f(2) by (simp add: get_intr_status_def)
  obtain s' where s': "schedule ?s2 = Block s' (\<lambda>s'. Done () s')" "switched ?s2 s' T (candidates ?s2 (rs @ [?c]))"
    using schedule_spec [OF wf2 off] .
  have "running_thread ?s2 = ?c" using r by (simp add: running_thread_def)
  then have cs: "candidates ?s2 (rs @ [?c]) = rs @ [?c]" by (simp add: candidates_def requeued_def)
  have "thread_yield s = Block s' (\<lambda>s2. Done () (snd (set_intr_status (get_intr_status s) s2)))"
    using s'(1) f(3) nin ready_search [OF w(1)] by (simp add: thread_yield_def d Let_def)
  moreover have "get_intr_status s' = INT_OFF"
    using switched_intr [OF s'(2)] off by simp
  moreover have "thread_ready_list s1 = thread_ready_list s" by (subst f(1)) simp
  then have sw: "switched (set_status ?c TASK_READY
      (list_append (thread_ready_list s) (general_tag ?c) (snd (disable_intr s)))) s' T (rs @ [?c])"
    using s'(2) [unfolded cs] by (simp add: d)
  moreover note s'(2) [unfolded cs switched_def]
  ultimately show ?thesis using that [of s'] by blast
qed

section \<open>The system of threads\<close>

text \<open>
  One step of the system: the running thread yields, blocks, wakes a thread, is preempted by the
  timer (the interrupt gate has cleared IF), or changes its interrupt status, as a thread does that
  has just been resumed.
\<close>

inductive sched_step :: "addr set \<Rightarrow> 'a threads_scheme \<Rightarrow> 'a threads_scheme \<Rightarrow> bool" for T where
  yield: "thread_yield s = Block s' k \<Longrightarrow> sched_step T s s'"
| block: "thread_block st s = Block s' k \<Longrightarrow> sched_step T s s'"
| unblock: "t \<in> T \<Longrightarrow> thread_unblock t s = Inr s' \<Longrightarrow> sched_step T s s'"
| preempt: "schedule (cli s) = Block s' k \<Longrightarrow> sched_step T s s'"
| intr: "sched_step T s (snd (set_intr_status st s))"

lemma thread_block_Block_status: "thread_block st s = Block s' k \<Longrightarrow> blocked_status st"
  by (auto simp: thread_block_def kassert_def split: if_splits)

lemma set_intr_status_fields:
  "snd (set_intr_status st s) = s\<lparr>eflags := eflags (snd (set_intr_status st s))\<rparr>"
  by (simp add: set_intr_status_def enable_intr_def disable_intr_def sti_def cli_def)

lemma sched_inv_eflags: "sched_inv (s\<lparr>eflags := e\<rparr>) T rs = sched_inv s T rs"
  by (simp add: sched_inv_def sched_wf_eflags running_thread_def)

lemma sched_inv_set_intr: "sched_inv (snd (set_intr_status st s)) T rs = sched_inv s T rs"
  by (subst set_intr_status_fields) (rule sched_inv_eflags)

lemma thread_unblock_blocked: "thread_unblock t s = Inr s' \<Longrightarrow> blocked_status (task_status_of s t)"
  by (auto simp: thread_unblock_def disable_intr_def cli_def assertion_def split: if_splits)

lemma sched_inv_unblock:
  assumes inv: "sched_inv s T rs" and t: "t \<in> T" and st: "blocked_status (task_status_of s t)"
  obtains s' where "thread_unblock t s = Inr s'" and "sched_inv s' T (t # rs)"
    and "running_thread s' = running_thread s"
proof -
  let ?s = "set_status t TASK_READY (list_push (thread_ready_list s) (general_tag t) s)"
  have wf: "sched_wf s T rs" and run: "task_status_of s (running_thread s) = TASK_RUNNING"
    using inv by (simp_all add: sched_inv_def)
  have nin: "t \<notin> set rs" using sched_wfD(8) [OF wf t] st by (auto simp: blocked_status_def)
  have eq: "thread_unblock t s = Inr ?s" by (rule thread_unblock_eq [OF sched_wfD(1) [OF wf] nin st])
  have "sched_wf ?s T (t # rs)"
    by (rule sched_wf_ready [OF wf t nin])
      (use ready_list_push [OF wf t nin] in \<open>simp_all add: sched_frame_def\<close>)
  moreover have "running_thread ?s = running_thread s" by (simp add: running_thread_def)
  moreover have "t \<noteq> running_thread s" using st run by (auto simp: blocked_status_def)
  ultimately show ?thesis using that [OF eq] run by (simp add: sched_inv_def)
qed

lemma schedule_preempt_spec:
  assumes inv: "sched_inv s T rs"
  obtains s' where "schedule (cli s) = Block s' (\<lambda>s'. Done () s')"
    and "switched (cli s) s' T (rs @ [running_thread s])"
proof -
  have wf: "sched_wf (cli s) T rs" using inv by (simp add: cli_def sched_wf_eflags sched_inv_def)
  have "running_thread (cli s) = running_thread s" "tasks (cli s) = tasks s"
    by (simp_all add: running_thread_def cli_def)
  then have "candidates (cli s) rs = rs @ [running_thread s]"
    using inv by (simp add: candidates_def requeued_def sched_inv_def)
  then show ?thesis using that schedule_spec [OF wf get_intr_status_cli] by metis
qed

lemma sched_step_inv:
  assumes "sched_step T s s'" and inv: "sched_inv s T rs"
  shows "\<exists>rs'. sched_inv s' T rs'"
  using assms(1)
proof cases
  case (yield k)
  then show ?thesis using thread_yield_spec [OF inv] by (metis kop.inject(3))
next
  case (block st k)
  then show ?thesis
    using thread_block_spec [OF inv thread_block_Block_status [OF block]] kop.inject(3)
    unfolding switched_def by metis
next
  case (unblock t)
  then show ?thesis using sched_inv_unblock [OF inv unblock(1) thread_unblock_blocked [OF unblock(2)]]
    by (metis sum.inject(2))
next
  case (preempt k)
  then show ?thesis using schedule_preempt_spec [OF inv] kop.inject(3) unfolding switched_def by metis
next
  case (intr st)
  then show ?thesis using inv sched_inv_set_intr by metis
qed

lemma sched_steps_inv:
  "(sched_step T)\<^sup>*\<^sup>* s s' \<Longrightarrow> \<exists>rs. sched_inv s T rs \<Longrightarrow> \<exists>rs'. sched_inv s' T rs'"
  by (induction rule: rtranclp_induct) (auto dest: sched_step_inv)

text \<open>\<open>n\<close> times: the running thread sets some interrupt status and yields.\<close>

fun yields :: "nat \<Rightarrow> intr_status \<Rightarrow> 'a threads_scheme \<Rightarrow> 'a threads_scheme option" where
  "yields 0 st s = Some s"
| "yields (Suc n) st s =
     (case thread_yield (snd (set_intr_status st s)) of Block s' k \<Rightarrow> yields n st s' | _ \<Rightarrow> None)"

lemma yields_rotate:
  assumes "sched_inv s T rs"
  shows "\<exists>s'. yields n st s = Some s' \<and> sched_inv s' T (tl (rotate n (running_thread s # rs))) \<and>
    running_thread s' = hd (rotate n (running_thread s # rs))"
  using assms
proof (induction n arbitrary: s rs)
  case 0
  then show ?case by simp
next
  case (Suc n)
  let ?s = "snd (set_intr_status st s)"
  have r: "running_thread ?s = running_thread s"
    by (rule running_thread_cong) (subst set_intr_status_fields, simp)
  obtain s' k where s': "thread_yield ?s = Block s' k" "sched_inv s' T (tl (rs @ [running_thread s]))"
    "running_thread s' = hd (rs @ [running_thread s])"
    using thread_yield_spec [of ?s T rs] Suc.prems unfolding sched_inv_set_intr r by metis
  have "running_thread s' # tl (rs @ [running_thread s]) = rotate1 (running_thread s # rs)"
    using s'(3) by (cases rs) simp_all
  then show ?case using Suc.IH [OF s'(2)] s'(1) by (simp add: rotate1_rotate_swap)
qed

section \<open>Claims\<close>

text \<open>A sample system: the main thread runs, thread A is ready, the idle thread is blocked.\<close>

definition sample_task :: "addr \<Rightarrow> task_status \<Rightarrow> task_struct" where
  "sample_task t st = \<lparr>self_kstack = t + 0xe50, pid = 1, status = st, priority = 31, ticks = 5,
     elapsed_ticks = 0, fd_table = [0, 1, 2], pgdir = NULL,
     userprog_vaddr = \<lparr>vaddr_bitmap = \<lparr>btmp_bytes_len = 0, bits = 0\<rparr>, vaddr_start = 0\<rparr>,
     cwd_inode_nr = 0, stack_magic = 0x19870916\<rparr>"

definition sample_threads :: threads where
  "sample_threads =
     list_append 0xc0005000 (general_tag 0xc0101000) (list_init 0xc0005000
      \<lparr>eflags = 0x202, nodes = (\<lambda>_. \<lparr>front = 0, nxt = 0\<rparr>), esp = 0xc009efe0, cr3 = 0x100000,
       mem = (\<lambda>_. 0), pmem = sample_pmem,
       tasks = (\<lambda>t. sample_task t (if t = 0xc009e000 then TASK_RUNNING
                  else if t = 0xc0101000 then TASK_READY else TASK_BLOCKED)),
       thread_ready_list = 0xc0005000, thread_all_list = 0xc0005010, main_thread = 0xc009e000,
       idle_thread = 0xc0100000, thread_tag = NULL, tss_esp0 = 0\<rparr>)"

abbreviation (input) sample_T :: "addr set" where
  "sample_T \<equiv> {0xc009e000, 0xc0100000, 0xc0101000}"

lemma sample_threads_fields [simp]:
  "tasks sample_threads = (\<lambda>t. sample_task t (if t = 0xc009e000 then TASK_RUNNING
     else if t = 0xc0101000 then TASK_READY else TASK_BLOCKED))"
  "esp sample_threads = 0xc009efe0" "cr3 sample_threads = 0x100000" "pmem sample_threads = sample_pmem"
  "thread_ready_list sample_threads = 0xc0005000" "idle_thread sample_threads = 0xc0100000"
  "running_thread sample_threads = 0xc009e000"
  by (simp_all add: sample_threads_def list_init_def running_thread_def)

lemma sample_ready_list: "ready_list sample_threads [0xc0101000]"
proof -
  have "dlist (nodes sample_threads) 0xc0005000 ([] @ [general_tag 0xc0101000])"
    unfolding sample_threads_def by (intro dlist_append dlist_init) (simp add: general_tag_def)
  then show ?thesis by (simp add: ready_list_def)
qed

lemma sample_space: "space_ok 0x100000 sample_pmem"
  by (simp add: space_ok_def recursive_pd_def sample_pmem_def frame_of_def present_def)

lemma sample_sched_inv: "sched_inv sample_threads sample_T [0xc0101000]"
proof -
  have "sched_wf sample_threads sample_T [0xc0101000]"
    by (rule sched_wfI)
      (auto simp: sample_ready_list sample_space sample_task_def general_tag_def kstack_ok_def task_space_ok_def)
  then show ?thesis by (simp add: sched_inv_def sample_task_def)
qed

text \<open>
  C3: scheduling is safe and fair. With interrupts off and the scheduling invariant in force,
  \<open>schedule\<close> never fails an assertion, panics or faults: it switches to the first thread of the
  ready list, counting the current thread, if it is still running, as last, and taking the idle
  thread if there is none; the others stay in the ready list in their order, the invariant holds
  again and the switched-out thread resumes with nothing left to do.
\<close>

theorem schedule_first_candidate:
  assumes "sched_wf s T rs" and "get_intr_status s = INT_OFF"
  shows "\<exists>s'. schedule s = Block s' (\<lambda>s'. Done () s') \<and>
    running_thread s' = hd (candidates s rs) \<and> sched_inv s' T (tl (candidates s rs)) \<and>
    eflags s' = eflags s \<and> mem s' = mem s \<and> threads.more s' = threads.more s"
  using schedule_spec [OF assms] unfolding switched_def sched_frame_def by metis

theorem schedule_first_candidate_witness:
  "\<exists>s'. schedule (cli sample_threads) = Block s' (\<lambda>s'. Done () s') \<and>
     running_thread s' = 0xc0101000 \<and> sched_inv s' sample_T [0xc009e000]"
proof -
  have wf: "sched_wf (cli sample_threads) sample_T [0xc0101000]"
    using sample_sched_inv by (simp add: sched_inv_def cli_def sched_wf_eflags)
  have "running_thread (cli sample_threads) = 0xc009e000" "tasks (cli sample_threads) = tasks sample_threads"
    by (simp_all add: running_thread_def cli_def)
  then have "candidates (cli sample_threads) [0xc0101000] = [0xc0101000, 0xc009e000]"
    by (simp add: candidates_def requeued_def sample_task_def)
  then show ?thesis using schedule_first_candidate [OF wf get_intr_status_cli] by auto
qed



text \<open>
  C30: yielding is round-robin. If the running thread and \<open>n - 1\<close> successors yield in turn, the
  thread that runs then is the \<open>n\<close>-th of the cycle that starts with the running thread and goes
  through the ready list, so no ready thread waits for more than one round.
\<close>

theorem yield_round_robin:
  assumes "sched_inv s T rs"
  shows "\<exists>s'. yields n st s = Some s' \<and>
    running_thread s' = (running_thread s # rs) ! (n mod Suc (length rs)) \<and>
    sched_inv s' T (tl (rotate n (running_thread s # rs)))"
  using yields_rotate [OF assms, of n st] by (auto simp: hd_rotate_conv_nth)

theorem yield_round_robin_witness:
  "\<exists>s'. yields 3 INT_ON sample_threads = Some s' \<and> running_thread s' = 0xc0101000"
proof -
  have "(3 :: nat) mod Suc (length [0xc0101000 :: addr]) = 1" by (simp add: mod_Suc eval_nat_numeral)
  then show ?thesis using yield_round_robin [OF sample_sched_inv, of 3 INT_ON] by auto
qed

end
