(* ===== verification/Sync.thy ===== *)
theory Sync
  imports Thread
begin

text \<open>
  \<^verbatim>\<open>thread/sync.c\<close>: semaphores and recursive locks. A semaphore at \<open>a\<close> has its value at \<open>a\<close> and the
  list of its waiters at \<open>a + 4\<close>; a lock at \<open>l\<close> has its holder at \<open>l\<close>, its semaphore at \<open>l + 4\<close> and
  its repeat count at \<open>l + 24\<close>. Waiting is a loop that blocks the thread and tests again when it is
  resumed. The last part is a system of threads that take and release one lock.
\<close>

record sync = threads +
  sema_value :: "addr \<Rightarrow> u8"
  lock_holder :: "addr \<Rightarrow> addr"
  holder_repeat_nr :: "addr \<Rightarrow> u32"

abbreviation (input) sema_waiters :: "addr \<Rightarrow> addr" where "sema_waiters sema \<equiv> sema + 4"
abbreviation (input) lock_sema :: "addr \<Rightarrow> addr" where "lock_sema plock \<equiv> plock + 4"

definition set_sema :: "addr \<Rightarrow> u8 \<Rightarrow> 'a sync_scheme \<Rightarrow> 'a sync_scheme" where
  "set_sema sema v s = s\<lparr>sema_value := (sema_value s)(sema := v)\<rparr>"

definition set_holder :: "addr \<Rightarrow> addr \<Rightarrow> 'a sync_scheme \<Rightarrow> 'a sync_scheme" where
  "set_holder plock t s = s\<lparr>lock_holder := (lock_holder s)(plock := t)\<rparr>"

definition set_repeat :: "addr \<Rightarrow> u32 \<Rightarrow> 'a sync_scheme \<Rightarrow> 'a sync_scheme" where
  "set_repeat plock n s = s\<lparr>holder_repeat_nr := (holder_repeat_nr s)(plock := n)\<rparr>"

section \<open>The routines\<close>

definition sema_init :: "addr \<Rightarrow> u8 \<Rightarrow> 'a sync_scheme \<Rightarrow> 'a sync_scheme" where
  "sema_init sema v s = list_init (sema_waiters sema) (set_sema sema v s)"

definition lock_init :: "addr \<Rightarrow> 'a sync_scheme \<Rightarrow> 'a sync_scheme" where
  "lock_init plock s = set_repeat plock 0 (sema_init (lock_sema plock) 1 (set_holder plock NULL s))"

text \<open>One round of the wait loop of \<open>sema_down\<close>.\<close>

definition sema_wait :: "addr \<Rightarrow> 'a sync_scheme \<Rightarrow> ('a sync_scheme, unit) kop" where
  "sema_wait sema s =
     kbind (klift (res_bind (list_search (sema_waiters sema) (general_tag (running_thread s)) s) (\<lambda>found.
         assertion (\<not> found) ''!list_search(&sema->waiters, &running_thread()->general_tag)''
          (res_bind (list_search (sema_waiters sema) (general_tag (running_thread s)) s) (\<lambda>again.
             if again then Inl (PANIC ''sema_down: there is running thread in waiters'')
             else Inr (list_append (sema_waiters sema) (general_tag (running_thread s)) s))))))
      (\<lambda>_. thread_block TASK_BLOCKED)"

definition sema_take :: "addr \<Rightarrow> intr_status \<Rightarrow> 'a sync_scheme \<Rightarrow> ('a sync_scheme, unit) kop" where
  "sema_take sema old_status s =
     (let s1 = set_sema sema (sema_value s sema - 1) s in
      kassert (sema_value s1 sema = 0) ''sema->value==0''
       (Done () (snd (set_intr_status old_status s1))))"

definition sema_down :: "addr \<Rightarrow> 'a sync_scheme \<Rightarrow> ('a sync_scheme, unit) kop" where
  "sema_down sema s =
     (let (old_status, s1) = disable_intr s in
      kbind (kwhile (\<lambda>s. sema_value s sema = 0) (sema_wait sema) s1) (\<lambda>_. sema_take sema old_status))"

definition sema_up :: "addr \<Rightarrow> 'a sync_scheme \<Rightarrow> 'a sync_scheme res" where
  "sema_up sema s =
     (let (old_status, s1) = disable_intr s in
      assertion (sema_value s1 sema = 0) ''sema->value == 0''
       (res_bind
         (if \<not> list_empty (sema_waiters sema) s1
          then let (tag, s2) = list_pop (sema_waiters sema) s1 in thread_unblock (task_of_tag tag) s2
          else Inr s1)
         (\<lambda>s3. let s4 = set_sema sema (sema_value s3 sema + 1) s3 in
            assertion (sema_value s4 sema = 1) ''sema->value==1''
             (Inr (snd (set_intr_status old_status s4))))))"

text \<open>What \<open>lock_acquire\<close> does once it has the semaphore.\<close>

definition lock_taken :: "addr \<Rightarrow> 'a sync_scheme \<Rightarrow> ('a sync_scheme, unit) kop" where
  "lock_taken plock s =
     (let s1 = set_holder plock (running_thread s) s in
      kassert (holder_repeat_nr s1 plock = 0) ''plock->holder_repeat_nr == 0''
       (Done () (set_repeat plock 1 s1)))"

definition lock_acquire :: "addr \<Rightarrow> 'a sync_scheme \<Rightarrow> ('a sync_scheme, unit) kop" where
  "lock_acquire plock s =
     kassert (plock \<noteq> NULL) ''plock!=NULL''
      (if lock_holder s plock = running_thread s
       then Done () (set_repeat plock (holder_repeat_nr s plock + 1) s)
       else kbind (sema_down (lock_sema plock) s) (\<lambda>_. lock_taken plock))"

definition lock_release :: "addr \<Rightarrow> 'a sync_scheme \<Rightarrow> 'a sync_scheme res" where
  "lock_release plock s =
     assertion (lock_holder s plock = running_thread s) ''plock->holder == running_thread()''
      (if holder_repeat_nr s plock > 1
       then Inr (set_repeat plock (holder_repeat_nr s plock - 1) s)
       else assertion (holder_repeat_nr s plock = 1) ''plock->holder_repeat_nr == 1''
             (sema_up (lock_sema plock) (set_repeat plock 0 (set_holder plock NULL s))))"

section \<open>Lemmas\<close>

lemma set_sync_simps [simp]:
  "sema_value (set_sema a v s) b = (if b = a then v else sema_value s b)"
  "sema_value (set_holder l t s) = sema_value s"
  "sema_value (set_repeat l n s) = sema_value s"
  "lock_holder (set_sema a v s) = lock_holder s"
  "lock_holder (set_holder l t s) m = (if m = l then t else lock_holder s m)"
  "lock_holder (set_repeat l n s) = lock_holder s"
  "holder_repeat_nr (set_sema a v s) = holder_repeat_nr s"
  "holder_repeat_nr (set_holder l t s) = holder_repeat_nr s"
  "holder_repeat_nr (set_repeat l n s) m = (if m = l then n else holder_repeat_nr s m)"
  by (simp_all add: set_sema_def set_holder_def set_repeat_def)

lemma sync_more_simps [simp]:
  "sync.more (set_sema a v s) = sync.more s" "sync.more (set_holder l t s) = sync.more s"
  "sync.more (set_repeat l n s) = sync.more s"
  by (simp_all add: set_sema_def set_holder_def set_repeat_def)

lemma running_thread_sync [simp]:
  "running_thread (set_sema a v s) = running_thread s"
  "running_thread (set_holder l t s) = running_thread s"
  "running_thread (set_repeat l n s) = running_thread s"
  by (simp_all add: set_sema_def set_holder_def set_repeat_def running_thread_def)

lemma sync_fields [simp]:
  "nodes (set_sema a v s) = nodes s" "nodes (set_holder l t s) = nodes s" "nodes (set_repeat l n s) = nodes s"
  "tasks (set_sema a v s) = tasks s" "tasks (set_holder l t s) = tasks s" "tasks (set_repeat l n s) = tasks s"
  "eflags (set_sema a v s) = eflags s" "eflags (set_holder l t s) = eflags s"
  "eflags (set_repeat l n s) = eflags s"
  "idle_thread (set_sema a v s) = idle_thread s" "idle_thread (set_holder l t s) = idle_thread s"
  "idle_thread (set_repeat l n s) = idle_thread s"
  "thread_ready_list (set_sema a v s) = thread_ready_list s"
  "thread_ready_list (set_holder l t s) = thread_ready_list s"
  "thread_ready_list (set_repeat l n s) = thread_ready_list s"
  by (simp_all add: set_sema_def set_holder_def set_repeat_def)

text \<open>The scheduling invariant does not look at semaphores, nor at nodes of other lists.\<close>

lemma sched_inv_sync [simp]:
  "sched_inv (set_sema a v s) T rs = sched_inv s T rs"
  "sched_inv (set_holder l t s) T rs = sched_inv s T rs"
  "sched_inv (set_repeat l n s) T rs = sched_inv s T rs"
  by (simp_all add: sched_inv_def sched_wf_def ready_list_def running_thread_def kstack_ok_def
      task_space_ok_def set_sema_def set_holder_def set_repeat_def)

lemma sched_inv_nodes:
  assumes "sched_inv s T rs" and "dlist ns (thread_ready_list s) (map general_tag rs)"
  shows "sched_inv (s\<lparr>nodes := ns\<rparr>) T rs"
  using assms by (simp add: sched_inv_def sched_wf_def ready_list_def running_thread_def kstack_ok_def
      task_space_ok_def)

section \<open>The waiters of a semaphore\<close>

text \<open>The waiters \<open>ws\<close> of the semaphore \<open>m\<close>: blocked threads of \<open>T\<close>, not the idle thread.\<close>

definition waiters_ok :: "'a sync_scheme \<Rightarrow> addr set \<Rightarrow> addr \<Rightarrow> addr list \<Rightarrow> bool" where
  "waiters_ok s T m ws \<longleftrightarrow> dlist (nodes s) (m + 4) (map general_tag ws) \<and>
     set ws \<subseteq> T - {idle_thread s} \<and> (\<forall>w\<in>set ws. task_status_of s w = TASK_BLOCKED) \<and>
     {m + 4, m + 12} \<inter> ({thread_ready_list s, thread_ready_list s + 8} \<union> general_tag ` T) = {}"

lemma waiters_okD:
  assumes "waiters_ok s T m ws"
  shows "dlist (nodes s) (m + 4) (map general_tag ws)" "set ws \<subseteq> T" "idle_thread s \<notin> set ws"
    "w \<in> set ws \<Longrightarrow> task_status_of s w = TASK_BLOCKED"
    "{m + 4, m + 12} \<inter> ({thread_ready_list s, thread_ready_list s + 8} \<union> general_tag ` T) = {}"
    "t \<in> T \<Longrightarrow> general_tag t \<noteq> m + 4" "t \<in> T \<Longrightarrow> general_tag t \<noteq> m + 12"
  using assms unfolding waiters_ok_def by blast+

lemma waiters_ok_sync [simp]:
  "waiters_ok (set_sema a v s) T m ws = waiters_ok s T m ws"
  "waiters_ok (set_holder l t s) T m ws = waiters_ok s T m ws"
  "waiters_ok (set_repeat l n s) T m ws = waiters_ok s T m ws"
  "waiters_ok (s\<lparr>eflags := e\<rparr>) T m ws = waiters_ok s T m ws"
  by (simp_all add: waiters_ok_def)

lemma waiters_ok_intr [simp]: "waiters_ok (snd (set_intr_status st s)) T m ws = waiters_ok s T m ws"
  by (subst set_intr_status_fields) simp

lemma waiters_not_ready:
  assumes "sched_inv s T rs" and "waiters_ok s T m ws"
  shows "set ws \<inter> set rs = {}" "running_thread s \<notin> set ws"
proof -
  show "set ws \<inter> set rs = {}"
    using waiters_okD(2,4) [OF assms(2)] assms(1) sched_wfD(8) [of s T rs]
    by (fastforce simp: sched_inv_def)
  show "running_thread s \<notin> set ws"
    using waiters_okD(4) [OF assms(2)] assms(1) by (auto simp: sched_inv_def)
qed

lemma disjoint_unions:
  "A \<inter> (C \<union> D) = {} \<Longrightarrow> C \<inter> B = {} \<Longrightarrow> B \<inter> D = {} \<Longrightarrow> (A \<union> B) \<inter> (C \<union> D) = {}"
  by blast

lemma disjoint_subset: "A \<inter> B = {} \<Longrightarrow> A' \<subseteq> A \<Longrightarrow> B' \<subseteq> B \<Longrightarrow> A' \<inter> B' = {}"
  by blast

lemma waiter_cells:
  "set (list_cells (m + 4) (map general_tag ws)) = {m + 4, m + 12} \<union> general_tag ` set ws"
  by (simp add: add.assoc)

text \<open>The two lists share no cell.\<close>

lemma waiters_ready_disjoint:
  assumes "sched_inv s T rs" and "waiters_ok s T m ws"
  shows "set (list_cells (m + 4) (map general_tag ws)) \<inter>
    set (list_cells (thread_ready_list s) (map general_tag rs)) = {}"
proof -
  have wf: "sched_wf s T rs" using assms(1) by (simp add: sched_inv_def)
  note w = waiters_okD [OF assms(2)]
  have r: "{thread_ready_list s, thread_ready_list s + 8} \<inter> general_tag ` T = {}"
    using wf by (simp add: sched_wf_def)
  show ?thesis unfolding waiter_cells
    unfolding set_list_cells set_map
  proof (rule disjoint_unions)
    show "{m + 4, m + 12} \<inter> ({thread_ready_list s, thread_ready_list s + 8} \<union> general_tag ` set rs) = {}"
      by (rule disjoint_subset [OF w(5)]) (use sched_wfD(2) [OF wf] in auto)
    show "{thread_ready_list s, thread_ready_list s + 8} \<inter> general_tag ` set ws = {}"
      by (rule disjoint_subset [OF r]) (use w(2) in auto)
    show "general_tag ` set ws \<inter> general_tag ` set rs = {}"
      using waiters_not_ready(1) [OF assms] by auto
  qed
qed

text \<open>Scheduling does not disturb the waiters.\<close>

lemma waiters_ok_switched:
  assumes "waiters_ok s T m ws" and "switched s s' T cs" and "set cs \<subseteq> T" and "set ws \<inter> set cs = {}"
    and "\<And>w. w \<in> set ws \<Longrightarrow> w \<noteq> running_thread s \<or> task_status_of s w \<noteq> TASK_RUNNING"
    and "cs \<noteq> []" and "{thread_ready_list s, thread_ready_list s + 8} \<inter> general_tag ` T = {}"
  shows "waiters_ok s' T m ws"
proof -
  note w = waiters_okD [OF assms(1)]
  have f: "thread_ready_list s' = thread_ready_list s" "idle_thread s' = idle_thread s"
    and nf: "nodes_frame s s' (set cs)"
    and st: "\<And>t. task_status_of s' t = (if t = hd cs then TASK_RUNNING
         else if t = running_thread s \<and> task_status_of s t = TASK_RUNNING then TASK_READY
         else task_status_of s t)"
    using assms(2) by (simp_all add: switched_def sched_frame_def)
  have disj: "set (list_cells (m + 4) (map general_tag ws)) \<inter>
      ({thread_ready_list s, thread_ready_list s + 8} \<union> general_tag ` set cs) = {}"
    unfolding waiter_cells
  proof (rule disjoint_unions)
    show "{m + 4, m + 12} \<inter> ({thread_ready_list s, thread_ready_list s + 8} \<union> general_tag ` set cs) = {}"
      by (rule disjoint_subset [OF w(5)]) (use assms(3) in auto)
    show "{thread_ready_list s, thread_ready_list s + 8} \<inter> general_tag ` set ws = {}"
      by (rule disjoint_subset [OF assms(7)]) (use w(2) in auto)
    show "general_tag ` set ws \<inter> general_tag ` set cs = {}" using assms(4) by auto
  qed
  have "dlist (nodes s') (m + 4) (map general_tag ws) = dlist (nodes s) (m + 4) (map general_tag ws)"
    by (rule dlist_cong) (use nf disj in \<open>unfold nodes_frame_def, blast\<close>)
  moreover have "task_status_of s' t = TASK_BLOCKED" if "t \<in> set ws" for t
  proof -
    have "t \<noteq> hd cs" using that assms(4,6) by (cases cs) auto
    then show ?thesis using st [of t] w(4) [OF that] by simp
  qed
  ultimately show ?thesis using w unfolding waiters_ok_def f by blast
qed

lemma more_sync:
  assumes "threads.more s' = threads.more (s :: 'a sync_scheme)"
  shows "sema_value s' = sema_value s" "lock_holder s' = lock_holder s"
    "holder_repeat_nr s' = holder_repeat_nr s" "sync.more s' = sync.more s"
  using assms by (cases s; cases s'; simp)+

lemma candidates_subset:
  assumes "sched_wf s T rs"
  shows "set (if rs = [] then [idle_thread s] else rs) \<subseteq> T"
  using sched_wfD(2,4) [OF assms] by auto

text \<open>One round of waiting: the thread joins the end of the queue and another one runs.\<close>

lemma sema_wait_spec:
  assumes inv: "sched_inv s T rs" and ok: "waiters_ok s T m ws" and off: "get_intr_status s = INT_OFF"
    and ni: "running_thread s \<noteq> idle_thread s"
  defines "cs \<equiv> if rs = [] then [idle_thread s] else rs"
  obtains s' where "sema_wait m s = Block s' (\<lambda>s2. Done () (snd (set_intr_status INT_OFF s2)))"
    and "sched_inv s' T (tl cs)" and "running_thread s' = hd cs"
    and "waiters_ok s' T m (ws @ [running_thread s])" and "get_intr_status s' = INT_OFF"
    and "threads.more s' = threads.more s" and "idle_thread s' = idle_thread s" and "mem s' = mem s"
proof -
  let ?c = "running_thread s" and ?l = "m + 4"
  let ?s1 = "list_append ?l (general_tag ?c) s"
  have wf: "sched_wf s T rs" using inv by (simp add: sched_inv_def)
  note w = waiters_okD [OF ok]
  have cT: "?c \<in> T" using sched_wfD(3) [OF wf] .
  have nw: "?c \<notin> set ws" and nr: "?c \<notin> set rs"
    using waiters_not_ready(2) [OF inv ok] sched_inv_not_ready [OF inv] by simp_all
  have rT: "{thread_ready_list s, thread_ready_list s + 8} \<inter> general_tag ` T = {}"
    using wf by (simp add: sched_wf_def)
  have fresh: "general_tag ?c \<notin> set (list_cells ?l (map general_tag ws))"
    using w(6,7) [OF cT] nw unfolding waiter_cells by auto
  have search: "list_search ?l (general_tag ?c) s = Inr False"
    using list_search_eq [OF w(1)] nw by auto
  have "list_cells ?l (map general_tag ws @ [general_tag ?c]) = list_cells ?l (map general_tag (ws @ [?c]))" by simp
  moreover have "set (list_cells ?l (map general_tag (ws @ [?c]))) \<inter>
      set (list_cells (thread_ready_list s) (map general_tag rs)) = {}"
    using waiters_ready_disjoint [OF inv ok] cT nr rT unfolding waiter_cells set_list_cells set_map by auto
  ultimately have "dlist (nodes ?s1) (thread_ready_list s) (map general_tag rs)"
    using kl.frame_append [OF w(1) fresh] sched_wfD(1) [OF wf] unfolding ready_list_def by simp
  then have inv1: "sched_inv ?s1 T rs"
    using sched_inv_nodes [OF inv, of "nodes ?s1"] by (simp add: list_ops_nodes)
  have b: "blocked_status TASK_BLOCKED" by (simp add: blocked_status_def)
  have f: "running_thread ?s1 = ?c" "get_intr_status ?s1 = INT_OFF" "idle_thread ?s1 = idle_thread s"
    using off by (simp_all add: running_thread_def get_intr_status_def)
  let ?s2 = "set_status ?c TASK_BLOCKED ?s1"
  obtain s' where s': "thread_block TASK_BLOCKED ?s1 =
      Block s' (\<lambda>s2. Done () (snd (set_intr_status INT_OFF s2)))"
    "switched ?s2 s' T cs" "get_intr_status s' = INT_OFF"
    using thread_block_spec [OF inv1 b] disable_intr_off [OF f(2)] unfolding f cs_def by (metis snd_conv)
  have wok2: "waiters_ok ?s2 T m (ws @ [?c])"
    using kl.rep_append [OF w(1) fresh] w(2-5) cT ni by (simp add: waiters_ok_def subset_Diff_insert)
  have "waiters_ok s' T m (ws @ [?c])"
  proof (rule waiters_ok_switched [OF wok2 s'(2)])
    show "set cs \<subseteq> T" unfolding cs_def by (rule candidates_subset [OF wf])
    show "set (ws @ [?c]) \<inter> set cs = {}"
      using waiters_not_ready(1) [OF inv ok] nr ni w(3) by (auto simp: cs_def)
    show "cs \<noteq> []" by (simp add: cs_def)
  qed (use rT in \<open>auto simp: running_thread_def dest: w(4)\<close>)
  moreover have "sema_wait m s = Block s' (\<lambda>s2. Done () (snd (set_intr_status INT_OFF s2)))"
    using s'(1) search by (simp add: sema_wait_def)
  moreover have "threads.more s' = threads.more s" "idle_thread s' = idle_thread s"
    "sched_inv s' T (tl cs)" "running_thread s' = hd cs" "mem s' = mem s"
    using s'(2) by (simp_all add: switched_def sched_frame_def)
  ultimately show ?thesis using that s'(3) by blast
qed

section \<open>Taking and releasing a lock\<close>

text \<open>
  The state of a lock: free, or held by a thread of \<open>T\<close>.
\<close>

definition lock_state_ok :: "'a sync_scheme \<Rightarrow> addr set \<Rightarrow> addr \<Rightarrow> bool" where
  "lock_state_ok s T L \<longleftrightarrow>
     (if lock_holder s L = NULL then sema_value s (L + 4) = 1 \<and> holder_repeat_nr s L = 0
      else sema_value s (L + 4) = 0 \<and> holder_repeat_nr s L \<ge> 1 \<and> lock_holder s L \<in> T)"

definition lock_inv :: "'a sync_scheme \<Rightarrow> addr set \<Rightarrow> addr \<Rightarrow> addr list \<Rightarrow> addr list \<Rightarrow> bool" where
  "lock_inv s T L rs ws \<longleftrightarrow> sched_inv s T rs \<and> waiters_ok s T (L + 4) ws \<and> lock_state_ok s T L"

text \<open>What a thread does in \<open>lock_acquire\<close> from the wait loop on.\<close>

definition acquire_from :: "addr \<Rightarrow> intr_status \<Rightarrow> 'a sync_scheme \<Rightarrow> ('a sync_scheme, unit) kop" where
  "acquire_from L old s =
     kbind (kbind (kwhile (\<lambda>s. sema_value s (L + 4) = 0) (sema_wait (L + 4)) s)
       (\<lambda>_. sema_take (L + 4) old)) (\<lambda>_. lock_taken L)"

definition acquire_resumed :: "addr \<Rightarrow> intr_status \<Rightarrow> 'a sync_scheme \<Rightarrow> ('a sync_scheme, unit) kop" where
  "acquire_resumed L old s = acquire_from L old (snd (set_intr_status INT_OFF s))"

lemma lock_state_ok_cong:
  assumes "threads.more s' = threads.more s"
  shows "lock_state_ok s' T L = lock_state_ok s T L"
  by (simp add: lock_state_ok_def more_sync [OF assms])

lemma threads_more_intr [simp]:
  "threads.more (snd (set_intr_status st s)) = threads.more (s :: 'a sync_scheme)"
  by (subst set_intr_status_fields) simp

lemma running_thread_intr [simp]: "running_thread (snd (set_intr_status st s)) = running_thread s"
  by (rule running_thread_cong) (subst set_intr_status_fields, simp)

lemma idle_thread_intr [simp]: "idle_thread (snd (set_intr_status st s)) = idle_thread s"
  by (subst set_intr_status_fields) simp

lemma lock_acquire_eq:
  assumes "L \<noteq> NULL" and "lock_holder s L \<noteq> running_thread s"
  shows "lock_acquire L s = acquire_from L (get_intr_status s) (snd (disable_intr s))"
proof -
  obtain old s1 where d: "disable_intr s = (old, s1)" by (cases "disable_intr s")
  then show ?thesis using assms disable_intr_fields(3) [OF d]
    by (simp add: lock_acquire_def sema_down_def acquire_from_def)
qed

text \<open>A free lock is taken at once.\<close>

lemma acquire_from_free:
  assumes "lock_inv s T L rs ws" and "lock_holder s L = NULL"
  obtains s' where "acquire_from L old s = Done () s'" and "lock_inv s' T L rs ws"
    and "lock_holder s' L = running_thread s" and "holder_repeat_nr s' L = 1"
    and "running_thread s' = running_thread s" and "idle_thread s' = idle_thread s"
    and "get_intr_status s' = old" and "sync.more s' = sync.more s"
proof -
  have v: "sema_value s (L + 4) = 1" "holder_repeat_nr s L = 0" and inv: "sched_inv s T rs"
    and ok: "waiters_ok s T (L + 4) ws"
    using assms by (simp_all add: lock_inv_def lock_state_ok_def)
  let ?s1 = "snd (set_intr_status old (set_sema (L + 4) 0 s))"
  let ?s2 = "set_repeat L 1 (set_holder L (running_thread s) ?s1)"
  have wf: "sched_wf s T rs" using inv by (simp add: sched_inv_def)
  have c: "running_thread s \<in> T" "running_thread s \<noteq> NULL" using sched_wfD(3,5) [OF wf] by auto
  have r: "holder_repeat_nr ?s1 = holder_repeat_nr s" "sema_value ?s1 (L + 4) = 0"
    using more_sync [OF threads_more_intr, of old "set_sema (L + 4) 0 s"] by simp_all
  have "acquire_from L old s = Done () ?s2"
    using v r by (subst acquire_from_def, subst kwhile_unfold)
      (simp add: sema_take_def lock_taken_def Let_def)
  moreover have "lock_inv ?s2 T L rs ws"
    using inv ok c r by (simp add: lock_inv_def lock_state_ok_def sched_inv_set_intr)
  moreover have "get_intr_status ?s2 = old"
    using get_intr_status_set [of old "set_sema (L + 4) 0 s"] by (simp add: get_intr_status_def)
  moreover have "sync.more ?s2 = sync.more s"
    using more_sync(4) [OF threads_more_intr, of old "set_sema (L + 4) 0 s"] by simp
  ultimately show ?thesis by (intro that [of ?s2]) simp_all
qed

text \<open>A lock that is held makes the thread wait.\<close>

lemma acquire_from_held:
  assumes inv: "lock_inv s T L rs ws" and h: "lock_holder s L \<noteq> NULL"
    and off: "get_intr_status s = INT_OFF" and ni: "running_thread s \<noteq> idle_thread s"
  obtains s' where "acquire_from L old s = Block s' (acquire_resumed L old)"
    and "lock_inv s' T L (tl (if rs = [] then [idle_thread s] else rs)) (ws @ [running_thread s])"
    and "running_thread s' = hd (if rs = [] then [idle_thread s] else rs)"
    and "get_intr_status s' = INT_OFF" and "threads.more s' = threads.more s"
    and "idle_thread s' = idle_thread s"
proof -
  have v: "sema_value s (L + 4) = 0" and sinv: "sched_inv s T rs"
    and ok: "waiters_ok s T (L + 4) ws" and lk: "lock_state_ok s T L"
    using inv h by (simp_all add: lock_inv_def lock_state_ok_def)
  obtain s' where s': "sema_wait (L + 4) s = Block s' (\<lambda>s2. Done () (snd (set_intr_status INT_OFF s2)))"
    "sched_inv s' T (tl (if rs = [] then [idle_thread s] else rs))"
    "running_thread s' = hd (if rs = [] then [idle_thread s] else rs)"
    "waiters_ok s' T (L + 4) (ws @ [running_thread s])" "get_intr_status s' = INT_OFF"
    "threads.more s' = threads.more s" "idle_thread s' = idle_thread s"
    using sema_wait_spec [OF sinv ok off ni] by metis
  have "acquire_from L old s = Block s' (acquire_resumed L old)"
    using v s'(1)
    by (subst acquire_from_def, subst kwhile_unfold) (simp add: acquire_resumed_def acquire_from_def fun_eq_iff)
  then show ?thesis using that [of s'] s' lk by (simp add: lock_inv_def lock_state_ok_cong [OF s'(6)])
qed

text \<open>Taking the first waiter out of the queue, and making it ready.\<close>

lemma waiters_pop:
  assumes inv: "sched_inv s T rs" and ok: "waiters_ok s T m (w # ws)"
  shows "list_pop (m + 4) s = (general_tag w, list_remove (general_tag w) s)"
    and "sched_inv (list_remove (general_tag w) s) T rs"
    and "waiters_ok (list_remove (general_tag w) s) T m ws"
proof -
  note w = waiters_okD [OF ok]
  have dl: "dlist (nodes s) (m + 4) ([] @ general_tag w # map general_tag ws)" using w(1) by simp
  show "list_pop (m + 4) s = (general_tag w, list_remove (general_tag w) s)"
    using kl.pop_head [of s] dl by simp
  have wf: "sched_wf s T rs" using inv by (simp add: sched_inv_def)
  have "dlist (nodes (list_remove (general_tag w) s)) (thread_ready_list s) (map general_tag rs)"
    using kl.frame_remove [of s, OF dl] sched_wfD(1) [OF wf] waiters_ready_disjoint [OF inv ok]
    unfolding ready_list_def by simp
  then show "sched_inv (list_remove (general_tag w) s) T rs"
    using sched_inv_nodes [OF inv, of "nodes (list_remove (general_tag w) s)"] by (simp add: list_ops_nodes)
  show "waiters_ok (list_remove (general_tag w) s) T m ws"
    using kl.rep_remove [of s, OF dl] w(2-5) by (simp add: waiters_ok_def subset_Diff_insert)
qed

lemma waiters_ok_unblock:
  assumes inv: "sched_inv s T rs" and ok: "waiters_ok s T m ws" and t: "t \<in> T" "t \<notin> set ws" "t \<notin> set rs"
  shows "waiters_ok (set_status t TASK_READY (list_push (thread_ready_list s) (general_tag t) s)) T m ws"
proof -
  have wf: "sched_wf s T rs" using inv by (simp add: sched_inv_def)
  note w = waiters_okD [OF ok]
  let ?rl = "thread_ready_list s"
  have dl: "dlist (nodes s) ?rl (map general_tag rs)" using sched_wfD(1) [OF wf] by (simp add: ready_list_def)
  have fresh: "general_tag t \<notin> set (list_cells ?rl (map general_tag rs))"
    using sched_wfD(6,7) [OF wf t(1)] t(3) by auto
  have "general_tag t \<notin> set (list_cells (m + 4) (map general_tag ws))"
    using w(6,7) [OF t(1)] t(2) unfolding waiter_cells by auto
  then have "set (list_cells ?rl (map general_tag rs @ [general_tag t])) \<inter>
      set (list_cells (m + 4) (map general_tag ws)) = {}"
    using waiters_ready_disjoint [OF inv ok] by (auto simp: set_list_cells)
  then have "dlist (nodes (list_push ?rl (general_tag t) s)) (m + 4) (map general_tag ws)"
    using kl.frame_push [of s, OF dl fresh] w(1) by blast
  then show ?thesis using w(2-5) t(2) by (auto simp: waiters_ok_def)
qed

lemma sema_up_spec:
  assumes inv: "sched_inv s T rs" and ok: "waiters_ok s T m ws" and v: "sema_value s m = 0"
  obtains s' where "sema_up m s = Inr s'" and "sched_inv s' T (take 1 ws @ rs)"
    and "waiters_ok s' T m (drop 1 ws)" and "sema_value s' = (sema_value s)(m := 1)"
    and "lock_holder s' = lock_holder s" and "holder_repeat_nr s' = holder_repeat_nr s"
    and "running_thread s' = running_thread s" and "idle_thread s' = idle_thread s"
    and "get_intr_status s' = get_intr_status s" and "sync.more s' = sync.more s"
proof -
  obtain old s1 where d: "disable_intr s = (old, s1)" by (cases "disable_intr s")
  note f = disable_intr_fields [OF d]
  have s1: "sched_inv s1 T rs" "waiters_ok s1 T m ws"
    using inv ok by (subst f(1), simp add: sched_inv_eflags)+
  have m1: "threads.more s1 = threads.more s" "running_thread s1 = running_thread s"
    "idle_thread s1 = idle_thread s"
    by (subst f(1), simp add: running_thread_def)+
  have empty: "list_empty (m + 4) s1 \<longleftrightarrow> ws = []"
    using list_empty_iff [OF waiters_okD(1) [OF s1(2)]] by simp
  obtain s3 where s3: "(if \<not> list_empty (m + 4) s1 then let (tag, s2) = list_pop (m + 4) s1
        in thread_unblock (task_of_tag tag) s2 else Inr s1) = Inr s3"
    "sched_inv s3 T (take 1 ws @ rs)" "waiters_ok s3 T m (drop 1 ws)" "threads.more s3 = threads.more s1"
    "running_thread s3 = running_thread s1" "idle_thread s3 = idle_thread s1"
  proof (cases ws)
    case Nil
    then show ?thesis using that [of s1] s1 empty by simp
  next
    case (Cons w ws')
    let ?s2 = "list_remove (general_tag w) s1"
    let ?s3 = "set_status w TASK_READY (list_push (thread_ready_list ?s2) (general_tag w) ?s2)"
    have ok1: "waiters_ok s1 T m (w # ws')" using s1(2) Cons by simp
    note p = waiters_pop [OF s1(1) ok1]
    have w: "w \<in> T" "task_status_of ?s2 w = TASK_BLOCKED" "w \<notin> set ws'" "w \<notin> set rs"
      using waiters_okD(2,4) [OF ok1] waiters_not_ready(1) [OF s1(1) ok1]
        dlist_distinct(1) [OF waiters_okD(1) [OF ok1]] by auto
    have b: "blocked_status (task_status_of ?s2 w)" by (simp add: w(2) [simplified] blocked_status_def)
    have rl: "ready_list ?s2 rs" using p(2) sched_wfD(1) by (auto simp: sched_inv_def)
    have eq: "thread_unblock w ?s2 = Inr ?s3" by (rule thread_unblock_eq [OF rl w(4) b])
    have "sched_inv ?s3 T (w # rs)" using sched_inv_unblock [OF p(2) w(1) b] eq by (metis sum.inject(2))
    moreover have "waiters_ok ?s3 T m ws'" by (rule waiters_ok_unblock [OF p(2,3) w(1,3,4)])
    moreover have "running_thread ?s3 = running_thread s1" by (simp add: running_thread_def)
    ultimately show ?thesis using that [of ?s3] eq p(1) empty Cons by simp
  qed
  let ?s4 = "set_sema m 1 s3"
  let ?s' = "snd (set_intr_status old ?s4)"
  have v1: "sema_value s3 = sema_value s"
    using more_sync(1) [OF s3(4)] more_sync(1) [OF m1(1)] by simp
  have "sema_up m s = Inr ?s'"
    using s3(1) v v1 more_sync(1) [OF m1(1)] by (simp add: sema_up_def d Let_def)
  moreover have "sema_value ?s' = (sema_value s)(m := 1)"
    using v1 more_sync(1) [OF threads_more_intr, of old ?s4] by (simp add: fun_eq_iff)
  moreover have "lock_holder ?s' = lock_holder s" "holder_repeat_nr ?s' = holder_repeat_nr s"
    "sync.more ?s' = sync.more s"
    using more_sync(2,3,4) [OF threads_more_intr, of old ?s4] more_sync(2,3,4) [OF s3(4)]
      more_sync(2,3,4) [OF m1(1)] by simp_all
  moreover have "get_intr_status ?s' = get_intr_status s" using f(3) by simp
  ultimately show ?thesis using s3 m1
    by (intro that [of ?s']) (simp_all add: sched_inv_set_intr)
qed

section \<open>Other threads at work\<close>

text \<open>Yielding, being preempted and blocking elsewhere keep the lock and its waiters.\<close>

lemma waiters_ok_append:
  assumes inv: "sched_inv s T rs" and ok: "waiters_ok s T m ws"
  defines "c \<equiv> running_thread s"
  shows "waiters_ok (set_status c TASK_READY (list_append (thread_ready_list s) (general_tag c) s)) T m ws"
proof -
  have wf: "sched_wf s T rs" using inv by (simp add: sched_inv_def)
  note w = waiters_okD [OF ok]
  let ?rl = "thread_ready_list s"
  have t: "c \<in> T" "c \<notin> set ws" "c \<notin> set rs"
    using sched_wfD(3) [OF wf] waiters_not_ready(2) [OF inv ok] sched_inv_not_ready [OF inv]
    by (simp_all add: c_def)
  have dl: "dlist (nodes s) ?rl (map general_tag rs)" using sched_wfD(1) [OF wf] by (simp add: ready_list_def)
  have fresh: "general_tag c \<notin> set (list_cells ?rl (map general_tag rs))"
    using sched_wfD(6,7) [OF wf t(1)] t(3) by auto
  have "general_tag c \<notin> set (list_cells (m + 4) (map general_tag ws))"
    using w(6,7) [OF t(1)] t(2) unfolding waiter_cells by auto
  then have "set (list_cells ?rl (map general_tag rs @ [general_tag c])) \<inter>
      set (list_cells (m + 4) (map general_tag ws)) = {}"
    using waiters_ready_disjoint [OF inv ok] by (auto simp: set_list_cells)
  then have "dlist (nodes (list_append ?rl (general_tag c) s)) (m + 4) (map general_tag ws)"
    using kl.frame_append [of s, OF dl fresh] w(1) by blast
  then show ?thesis using w(2-5) t(2) by (auto simp: waiters_ok_def)
qed

lemma lock_inv_switched:
  assumes inv: "lock_inv s T L rs ws" and sw: "switched s0 s' T cs" and ok: "waiters_ok s0 T (L + 4) ws"
    and eq: "threads.more s0 = threads.more s" "thread_ready_list s0 = thread_ready_list s"
      "running_thread s0 = running_thread s" "idle_thread s0 = idle_thread s"
    and cs: "set cs \<subseteq> set rs \<union> {running_thread s, idle_thread s}" "cs \<noteq> []"
  shows "lock_inv s' T L (tl cs) ws" and "running_thread s' = hd cs"
    and "threads.more s' = threads.more s" and "idle_thread s' = idle_thread s"
proof -
  have sinv: "sched_inv s T rs" and ok0: "waiters_ok s T (L + 4) ws" and lk: "lock_state_ok s T L"
    using inv by (simp_all add: lock_inv_def)
  have wf: "sched_wf s T rs" using sinv by (simp add: sched_inv_def)
  have s': "sched_inv s' T (tl cs)" "running_thread s' = hd cs" "sched_frame s0 s'"
    using sw by (simp_all add: switched_def)
  then show "running_thread s' = hd cs" by simp
  show m: "threads.more s' = threads.more s" and "idle_thread s' = idle_thread s"
    using s'(3) eq by (simp_all add: sched_frame_def)
  have "waiters_ok s' T (L + 4) ws"
  proof (rule waiters_ok_switched [OF ok sw _ _ _ cs(2)])
    show "set cs \<subseteq> T" using cs(1) sched_wfD(2,3,4) [OF wf] by auto
    show "set ws \<inter> set cs = {}"
      using cs(1) waiters_not_ready [OF sinv ok0] waiters_okD(3) [OF ok0] by auto
    show "{thread_ready_list s0, thread_ready_list s0 + 8} \<inter> general_tag ` T = {}"
      using wf by (simp add: sched_wf_def eq)
  qed (use waiters_okD(4) [OF ok] in simp)
  then show "lock_inv s' T L (tl cs) ws"
    using s'(1) lk lock_state_ok_cong [OF m] by (simp add: lock_inv_def)
qed

lemma lock_inv_eflags: "lock_inv (s\<lparr>eflags := e\<rparr>) T L rs ws = lock_inv s T L rs ws"
  by (simp add: lock_inv_def sched_inv_eflags lock_state_ok_def)

lemma lock_inv_disable: "lock_inv (snd (disable_intr s)) T L rs ws = lock_inv s T L rs ws"
  by (simp add: disable_intr_def cli_def lock_inv_eflags)

lemma disable_intr_simps [simp]:
  "running_thread (snd (disable_intr s)) = running_thread s"
  "idle_thread (snd (disable_intr s)) = idle_thread s"
  "thread_ready_list (snd (disable_intr s)) = thread_ready_list s"
  "threads.more (snd (disable_intr s)) = threads.more s"
  "tasks (snd (disable_intr s)) = tasks s"
  by (simp_all add: disable_intr_def cli_def running_thread_def)

lemma lock_inv_yield:
  assumes inv: "lock_inv s T L rs ws"
  obtains s' where
    "thread_yield s = Block s' (\<lambda>s2. Done () (snd (set_intr_status (get_intr_status s) s2)))"
    and "lock_inv s' T L (tl (rs @ [running_thread s])) ws"
    and "running_thread s' = hd (rs @ [running_thread s])" and "get_intr_status s' = INT_OFF"
    and "threads.more s' = threads.more s" and "idle_thread s' = idle_thread s"
proof -
  let ?d = "snd (disable_intr s)"
  let ?s0 = "set_status (running_thread s) TASK_READY
      (list_append (thread_ready_list s) (general_tag (running_thread s)) ?d)"
  have invd: "lock_inv ?d T L rs ws" using inv lock_inv_disable by blast
  have sinv: "sched_inv s T rs" using inv by (simp add: lock_inv_def)
  obtain s' where s': "thread_yield s = Block s' (\<lambda>s2. Done () (snd (set_intr_status (get_intr_status s) s2)))"
    "get_intr_status s' = INT_OFF" "switched ?s0 s' T (rs @ [running_thread s])"
    using thread_yield_spec [OF sinv] by metis
  have ok: "waiters_ok ?s0 T (L + 4) ws" using waiters_ok_append [of ?d T rs "L + 4" ws] invd
    by (simp add: lock_inv_def)
  have eq: "threads.more ?s0 = threads.more s" "thread_ready_list ?s0 = thread_ready_list s"
    "running_thread ?s0 = running_thread s" "idle_thread ?s0 = idle_thread s"
    by (simp_all add: disable_intr_def cli_def running_thread_def)
  have "set (rs @ [running_thread s]) \<subseteq> set rs \<union> {running_thread s, idle_thread s}" by auto
  from lock_inv_switched [OF inv s'(3) ok eq this] show ?thesis using s'(1,2) that [of s'] by blast
qed

lemma lock_inv_preempt:
  assumes inv: "lock_inv s T L rs ws"
  obtains s' where "schedule (cli s) = Block s' (\<lambda>s2. Done () s2)"
    and "lock_inv s' T L (tl (rs @ [running_thread s])) ws"
    and "running_thread s' = hd (rs @ [running_thread s])" and "get_intr_status s' = INT_OFF"
    and "threads.more s' = threads.more s" and "idle_thread s' = idle_thread s"
proof -
  have sinv: "sched_inv s T rs" using inv by (simp add: lock_inv_def)
  obtain s' where s': "schedule (cli s) = Block s' (\<lambda>s2. Done () s2)"
    "switched (cli s) s' T (rs @ [running_thread s])"
    using schedule_preempt_spec [OF sinv] by metis
  have ok: "waiters_ok (cli s) T (L + 4) ws" using inv by (simp add: lock_inv_def cli_def)
  have eq: "threads.more (cli s) = threads.more s" "thread_ready_list (cli s) = thread_ready_list s"
    "running_thread (cli s) = running_thread s" "idle_thread (cli s) = idle_thread s"
    by (simp_all add: cli_def running_thread_def)
  have "set (rs @ [running_thread s]) \<subseteq> set rs \<union> {running_thread s, idle_thread s}" by auto
  from lock_inv_switched [OF inv s'(2) ok eq this]
  show ?thesis using s'(1) switched_intr [OF s'(2)] that [of s'] by simp
qed

lemma lock_inv_block:
  assumes inv: "lock_inv s T L rs ws" and st: "blocked_status st"
  obtains s' where
    "thread_block st s = Block s' (\<lambda>s2. Done () (snd (set_intr_status (get_intr_status s) s2)))"
    and "lock_inv s' T L (tl (if rs = [] then [idle_thread s] else rs)) ws"
    and "running_thread s' = hd (if rs = [] then [idle_thread s] else rs)"
    and "get_intr_status s' = INT_OFF"
    and "threads.more s' = threads.more s" and "idle_thread s' = idle_thread s"
proof -
  let ?d = "snd (disable_intr s)" and ?cs = "if rs = [] then [idle_thread s] else rs"
  let ?s0 = "set_status (running_thread s) st ?d"
  have sinv: "sched_inv s T rs" and ok: "waiters_ok s T (L + 4) ws" using inv by (simp_all add: lock_inv_def)
  obtain s' where s': "thread_block st s = Block s' (\<lambda>s2. Done () (snd (set_intr_status (get_intr_status s) s2)))"
    "get_intr_status s' = INT_OFF" "switched ?s0 s' T ?cs"
    using thread_block_spec [OF sinv st] by metis
  have "waiters_ok ?d T (L + 4) ws" using inv lock_inv_disable [of s T L rs ws] by (simp add: lock_inv_def)
  then have ok0: "waiters_ok ?s0 T (L + 4) ws"
    using waiters_not_ready(2) [OF sinv ok] by (auto simp: waiters_ok_def)
  have eq: "threads.more ?s0 = threads.more s" "thread_ready_list ?s0 = thread_ready_list s"
    "running_thread ?s0 = running_thread s" "idle_thread ?s0 = idle_thread s"
    by (simp_all add: disable_intr_def cli_def running_thread_def)
  have cs: "set ?cs \<subseteq> set rs \<union> {running_thread s, idle_thread s}" "?cs \<noteq> []" by auto
  from lock_inv_switched [OF inv s'(3) ok0 eq cs] show ?thesis using s'(1,2) that [of s'] by blast
qed

lemma lock_inv_unblock:
  assumes inv: "lock_inv s T L rs ws" and t: "t \<in> T" "t \<notin> set ws" and st: "blocked_status (task_status_of s t)"
  obtains s' where "thread_unblock t s = Inr s'" and "lock_inv s' T L (t # rs) ws"
    and "running_thread s' = running_thread s" and "eflags s' = eflags s"
    and "threads.more s' = threads.more s" and "idle_thread s' = idle_thread s"
proof -
  have sinv: "sched_inv s T rs" and ok: "waiters_ok s T (L + 4) ws" and lk: "lock_state_ok s T L"
    using inv by (simp_all add: lock_inv_def)
  have wf: "sched_wf s T rs" using sinv by (simp add: sched_inv_def)
  let ?s = "set_status t TASK_READY (list_push (thread_ready_list s) (general_tag t) s)"
  have nin: "t \<notin> set rs" using sched_wfD(8) [OF wf t(1)] st by (auto simp: blocked_status_def)
  have eq: "thread_unblock t s = Inr ?s" by (rule thread_unblock_eq [OF sched_wfD(1) [OF wf] nin st])
  have "sched_inv ?s T (t # rs)" using sched_inv_unblock [OF sinv t(1) st] eq by (metis sum.inject(2))
  moreover have "lock_state_ok ?s T L" using lk lock_state_ok_cong [of ?s s] by simp
  ultimately have "lock_inv ?s T L (t # rs) ws"
    using waiters_ok_unblock [OF sinv ok t nin] by (simp add: lock_inv_def)
  then show ?thesis using that [OF eq] by (simp add: running_thread_def)
qed

text \<open>Releasing: the last release frees the lock and makes the first waiter the next to run.\<close>

lemma lock_release_spec:
  assumes inv: "lock_inv s T L rs ws" and h: "lock_holder s L = running_thread s"
  defines "n \<equiv> holder_repeat_nr s L"
  obtains s' where "lock_release L s = Inr s'"
    and "lock_inv s' T L (if n = 1 then take 1 ws @ rs else rs) (if n = 1 then drop 1 ws else ws)"
    and "lock_holder s' L = (if n = 1 then NULL else running_thread s)"
    and "holder_repeat_nr s' L = n - 1"
    and "running_thread s' = running_thread s" and "idle_thread s' = idle_thread s"
    and "get_intr_status s' = get_intr_status s" and "sync.more s' = sync.more s"
proof -
  have sinv: "sched_inv s T rs" and ok: "waiters_ok s T (L + 4) ws" and lk: "lock_state_ok s T L"
    using inv by (simp_all add: lock_inv_def)
  have wf: "sched_wf s T rs" using sinv by (simp add: sched_inv_def)
  have c: "running_thread s \<noteq> NULL" using sched_wfD(3,5) [OF wf] by auto
  then have v: "sema_value s (L + 4) = 0" "n \<ge> 1" "running_thread s \<in> T"
    using lk h by (simp_all add: lock_state_ok_def n_def)
  show ?thesis
  proof (cases "n = 1")
    case False
    then have n: "n > 1" using v(2) by simp
    let ?s = "set_repeat L (n - 1) s"
    have "n - 1 \<ge> 1" using n unat_sub [OF v(2)] by (simp add: word_le_nat_alt word_less_nat_alt)
    then have "lock_inv ?s T L rs ws" using sinv ok v h c by (simp add: lock_inv_def lock_state_ok_def)
    moreover have "lock_release L s = Inr ?s" using h n by (simp add: lock_release_def n_def)
    ultimately show ?thesis using False h that [of ?s] by (simp add: get_intr_status_def)
  next
    case True
    let ?s0 = "set_repeat L 0 (set_holder L NULL s)"
    have s0: "sched_inv ?s0 T rs" "waiters_ok ?s0 T (L + 4) ws" "sema_value ?s0 (L + 4) = 0"
      using sinv ok v by simp_all
    obtain s' where s': "sema_up (L + 4) ?s0 = Inr s'" "sched_inv s' T (take 1 ws @ rs)"
      "waiters_ok s' T (L + 4) (drop 1 ws)" "sema_value s' = (sema_value ?s0)(L + 4 := 1)"
      "lock_holder s' = lock_holder ?s0" "holder_repeat_nr s' = holder_repeat_nr ?s0"
      "running_thread s' = running_thread ?s0" "idle_thread s' = idle_thread ?s0"
      "get_intr_status s' = get_intr_status ?s0" "sync.more s' = sync.more ?s0"
      using sema_up_spec [OF s0] .
    have "lock_release L s = Inr s'" using h True s'(1) by (simp add: lock_release_def n_def)
    moreover have "lock_inv s' T L (take 1 ws @ rs) (drop 1 ws)"
      using s' by (simp add: lock_inv_def lock_state_ok_def)
    ultimately show ?thesis using s' True that [of s'] by (simp add: get_intr_status_def)
  qed
qed

section \<open>Without contention\<close>

text \<open>A lock that nobody holds and nobody waits for.\<close>

definition lock_idle :: "addr \<Rightarrow> 'a sync_scheme \<Rightarrow> bool" where
  "lock_idle L s \<longleftrightarrow> L \<noteq> NULL \<and> lock_holder s L \<noteq> running_thread s \<and> sema_value s (L + 4) = 1 \<and>
     holder_repeat_nr s L = 0 \<and> list_empty (L + 4 + 4) s"

definition locked :: "addr \<Rightarrow> 'a sync_scheme \<Rightarrow> 'a sync_scheme" where
  "locked L s = set_repeat L 1 (set_holder L (running_thread s) (set_sema (L + 4) 0 s))"

definition unlocked :: "addr \<Rightarrow> 'a sync_scheme \<Rightarrow> 'a sync_scheme" where
  "unlocked L s = set_sema (L + 4) 1 (set_repeat L 0 (set_holder L NULL s))"

lemma with_intr_off_set_sema: "with_intr_off (set_sema m v) s = set_sema m v s"
  by (rule with_intr_off_eq) (simp_all add: set_sema_def)

lemma sema_down_free:
  assumes "sema_value s m = 1"
  shows "sema_down m s = Done () (set_sema m 0 s)"
proof -
  obtain old s1 where d: "disable_intr s = (old, s1)" by (cases "disable_intr s")
  have v: "sema_value s1 m = 1" using d assms by (auto simp: disable_intr_def cli_def split: if_splits)
  have "sema_down m s = Done () (snd (set_intr_status old (set_sema m 0 s1)))"
    using d v by (simp add: sema_down_def, subst kwhile_unfold) (simp add: sema_take_def Let_def)
  then show ?thesis using d with_intr_off_set_sema [of m 0 s] by (simp add: with_intr_off_def)
qed

lemma sema_up_none:
  assumes "sema_value s m = 0" and "list_empty (m + 4) s"
  shows "sema_up m s = Inr (set_sema m 1 s)"
proof -
  obtain old s1 where d: "disable_intr s = (old, s1)" by (cases "disable_intr s")
  have "sema_value s1 m = 0" "list_empty (m + 4) s1"
    using d assms by (auto simp: disable_intr_def cli_def list_empty_def split: if_splits)
  then show ?thesis using d with_intr_off_set_sema [of m 1 s]
    by (simp add: sema_up_def with_intr_off_def Let_def)
qed

lemma lock_acquire_idle: "lock_idle L s \<Longrightarrow> lock_acquire L s = Done () (locked L s)"
  by (simp add: lock_acquire_def lock_idle_def sema_down_free lock_taken_def locked_def Let_def)

lemma lock_release_idle:
  assumes "lock_holder s L = running_thread s" and "holder_repeat_nr s L = 1" and "sema_value s (L + 4) = 0"
    and "list_empty (L + 4 + 4) s"
  shows "lock_release L s = Inr (unlocked L s)"
  using assms sema_up_none [of "set_repeat L 0 (set_holder L NULL s)" "L + 4"]
  by (simp add: lock_release_def unlocked_def list_empty_def)

end
