(* ===== verification/Lock_System.thy ===== *)
theory Lock_System
  imports Sync
begin

text \<open>
  A system of kernel threads that take and release one lock of \<^verbatim>\<open>thread/sync.c\<close>, in any order and
  any nesting, while other threads yield, are preempted, block and are woken. A configuration is
  the kernel state, the continuation of every thread that was switched out inside an operation, and
  the number of times each thread has taken the lock without releasing it. Operations run with
  interrupts off up to the point where they switch, so a step is what a thread does up to its next
  switch.
\<close>

section \<open>Configurations and steps\<close>

type_synonym 's continuation = "'s \<Rightarrow> ('s, unit) kop"

record 's lock_sys =
  kstate :: 's
  pending :: "addr \<rightharpoonup> bool \<times> 's continuation"
  depth :: "addr \<Rightarrow> nat"

text \<open>
  Thread \<open>t\<close> has run an operation to the result \<open>r\<close>; the flag says whether the operation is
  \<open>lock_acquire\<close>. An operation that halts stops the system.
\<close>

fun settle :: "addr \<Rightarrow> bool \<Rightarrow> 's lock_sys \<Rightarrow> ('s, unit) kop \<Rightarrow> 's lock_sys option" where
  "settle t acq c (Done x s) =
     Some (c\<lparr>kstate := s, pending := (pending c)(t := None),
            depth := if acq then (depth c)(t := Suc (depth c t)) else depth c\<rparr>)"
| "settle t acq c (Block s k) = Some (c\<lparr>kstate := s, pending := (pending c)(t \<mapsto> (acq, k))\<rparr>)"
| "settle t acq c (Halt e) = None"

abbreviation current :: "'a sync_scheme lock_sys \<Rightarrow> addr" where
  "current c \<equiv> running_thread (kstate c)"

inductive lock_step :: "addr \<Rightarrow> addr set \<Rightarrow> 'a sync_scheme lock_sys \<Rightarrow> 'a sync_scheme lock_sys \<Rightarrow> bool"
  for L T where
  acquire: "pending c (current c) = None \<Longrightarrow> current c \<noteq> idle_thread (kstate c) \<Longrightarrow>
     Suc (depth c (current c)) < 2 ^ 32 \<Longrightarrow>
     settle (current c) True c (lock_acquire L (kstate c)) = Some c' \<Longrightarrow> lock_step L T c c'"
| release: "pending c (current c) = None \<Longrightarrow> depth c (current c) > 0 \<Longrightarrow>
     lock_release L (kstate c) = Inr s' \<Longrightarrow>
     lock_step L T c (c\<lparr>kstate := s', depth := (depth c)(current c := depth c (current c) - 1)\<rparr>)"
| resume: "pending c (current c) = Some (acq, k) \<Longrightarrow>
     settle (current c) acq c (k (kstate c)) = Some c' \<Longrightarrow> lock_step L T c c'"
| yield: "pending c (current c) = None \<Longrightarrow>
     settle (current c) False c (thread_yield (kstate c)) = Some c' \<Longrightarrow> lock_step L T c c'"
| preempt: "pending c (current c) = None \<Longrightarrow> get_intr_status (kstate c) = INT_ON \<Longrightarrow>
     settle (current c) False c (kbind (schedule (cli (kstate c)))
       (\<lambda>_ s. Done () (s\<lparr>eflags := eflags (kstate c)\<rparr>))) = Some c' \<Longrightarrow> lock_step L T c c'"
| block: "pending c (current c) = None \<Longrightarrow>
     st = TASK_WAITING \<or> st = TASK_HANGING \<or> st = TASK_BLOCKED \<and> current c = idle_thread (kstate c) \<Longrightarrow>
     settle (current c) False c (thread_block st (kstate c)) = Some c' \<Longrightarrow> lock_step L T c c'"
| unblock: "pending c (current c) = None \<Longrightarrow> t \<in> T \<Longrightarrow>
     task_status_of (kstate c) t \<in> {TASK_WAITING, TASK_HANGING} \<Longrightarrow>
     thread_unblock t (kstate c) = Inr s' \<Longrightarrow> lock_step L T c (c\<lparr>kstate := s'\<rparr>)"
| intr: "pending c (current c) = None \<Longrightarrow>
     lock_step L T c (c\<lparr>kstate := snd (set_intr_status st (kstate c))\<rparr>)"

section \<open>The invariant\<close>

text \<open>
  A thread switched out inside \<open>lock_acquire\<close> continues in its wait loop and holds nothing; any
  other continuation only restores EFLAGS. A thread resumed inside an operation has interrupts off.
\<close>

definition pending_ok :: "addr \<Rightarrow> 'a sync_scheme lock_sys \<Rightarrow> bool" where
  "pending_ok L c \<longleftrightarrow>
     (\<forall>t k. pending c t = Some (True, k) \<longrightarrow>
        t \<noteq> idle_thread (kstate c) \<and> depth c t = 0 \<and> (\<exists>old. k = acquire_resumed L old)) \<and>
     (\<forall>t k. pending c t = Some (False, k) \<longrightarrow> (\<exists>f. k = (\<lambda>s. Done () (s\<lparr>eflags := f s\<rparr>)))) \<and>
     (pending c (current c) \<noteq> None \<longrightarrow> get_intr_status (kstate c) = INT_OFF)"

definition depth_ok :: "addr \<Rightarrow> 'a sync_scheme lock_sys \<Rightarrow> bool" where
  "depth_ok L c \<longleftrightarrow> (\<forall>t. depth c t =
     (if t = lock_holder (kstate c) L \<and> t \<noteq> NULL then unat (holder_repeat_nr (kstate c) L) else 0))"

text \<open>No wake-up is lost: if the lock is free and threads wait for it, a thread that was woken to
  take it is ready or running.\<close>

definition woken :: "'a sync_scheme lock_sys \<Rightarrow> addr list \<Rightarrow> bool" where
  "woken c rs \<longleftrightarrow> (\<exists>t k. pending c t = Some (True, k) \<and> t \<in> insert (current c) (set rs))"

definition lock_sys_inv :: "addr \<Rightarrow> addr set \<Rightarrow> 'a sync_scheme lock_sys \<Rightarrow> addr list \<Rightarrow> addr list \<Rightarrow> bool" where
  "lock_sys_inv L T c rs ws \<longleftrightarrow> L \<noteq> NULL \<and> lock_inv (kstate c) T L rs ws \<and>
     (\<forall>w\<in>set ws. \<exists>k. pending c w = Some (True, k)) \<and>
     pending_ok L c \<and> depth_ok L c \<and> (lock_holder (kstate c) L = NULL \<and> ws \<noteq> [] \<longrightarrow> woken c rs)"

lemma lock_sys_invD:
  assumes "lock_sys_inv L T c rs ws"
  shows "L \<noteq> NULL" "lock_inv (kstate c) T L rs ws" "pending_ok L c" "depth_ok L c"
    "sched_inv (kstate c) T rs" "waiters_ok (kstate c) T (L + 4) ws"
    "current c \<notin> set ws" "current c \<in> T" "current c \<noteq> NULL"
    "w \<in> set ws \<Longrightarrow> \<exists>k. pending c w = Some (True, k)"
proof -
  show "L \<noteq> NULL" and li: "lock_inv (kstate c) T L rs ws" and "pending_ok L c" "depth_ok L c"
    "w \<in> set ws \<Longrightarrow> \<exists>k. pending c w = Some (True, k)"
    using assms unfolding lock_sys_inv_def by blast+
  show si: "sched_inv (kstate c) T rs" and wo: "waiters_ok (kstate c) T (L + 4) ws"
    using li by (simp_all add: lock_inv_def)
  show "current c \<notin> set ws" using waiters_not_ready(2) [OF si wo] .
  have wf: "sched_wf (kstate c) T rs" using si by (simp add: sched_inv_def)
  show "current c \<in> T" "current c \<noteq> NULL" using sched_wfD(3,5) [OF wf] by auto
qed

lemma depth_holder:
  assumes "lock_sys_inv L T c rs ws"
  shows "depth c (current c) > 0 \<longleftrightarrow> lock_holder (kstate c) L = current c"
proof -
  note d = lock_sys_invD [OF assms]
  have "holder_repeat_nr (kstate c) L \<ge> 1" if "lock_holder (kstate c) L = current c"
    using d(2,9) that by (simp add: lock_inv_def lock_state_ok_def)
  then show ?thesis using d(4,9) by (auto simp: depth_ok_def word_le_nat_alt)
qed

text \<open>Switching out between operations.\<close>

lemma lock_sys_inv_switch:
  assumes inv: "lock_sys_inv L T c rs ws" and p: "pending c (current c) = None"
    and s': "lock_inv s' T L rs' ws" "threads.more s' = threads.more (kstate c)"
      "idle_thread s' = idle_thread (kstate c)" "get_intr_status s' = INT_OFF"
    and sub: "set rs \<subseteq> insert (running_thread s') (set rs')"
  shows "lock_sys_inv L T (c\<lparr>kstate := s',
    pending := (pending c)(current c \<mapsto> (False, \<lambda>s. Done () (s\<lparr>eflags := f s\<rparr>)))\<rparr>) rs' ws"
proof -
  note d = lock_sys_invD [OF inv] and m = more_sync [OF s'(2)]
  have "woken (c\<lparr>kstate := s', pending := (pending c)(current c \<mapsto> (False, \<lambda>s. Done () (s\<lparr>eflags := f s\<rparr>)))\<rparr>) rs'"
    if "woken c rs"
  proof -
    obtain t k where t: "pending c t = Some (True, k)" "t \<in> insert (current c) (set rs)"
      using \<open>woken c rs\<close> by (auto simp: woken_def)
    then have "t \<noteq> current c" "t \<in> insert (running_thread s') (set rs')" using p sub by auto
    then show ?thesis using t(1) unfolding woken_def by (intro exI [of _ t] exI [of _ k]) simp
  qed
  moreover have "pending_ok L (c\<lparr>kstate := s',
      pending := (pending c)(current c \<mapsto> (False, \<lambda>s. Done () (s\<lparr>eflags := f s\<rparr>)))\<rparr>)"
    using d(3) s'(3,4) unfolding pending_ok_def by auto
  moreover have "depth_ok L (c\<lparr>kstate := s',
      pending := (pending c)(current c \<mapsto> (False, \<lambda>s. Done () (s\<lparr>eflags := f s\<rparr>)))\<rparr>)"
    using d(4) by (simp add: depth_ok_def m)
  ultimately show ?thesis using inv s'(1) d(7) by (auto simp: lock_sys_inv_def m)
qed

text \<open>Going on, or being resumed, in the wait loop of \<open>lock_acquire\<close>.\<close>

lemma lock_sys_inv_acquire:
  assumes inv: "lock_sys_inv L T c rs ws" and ni: "current c \<noteq> idle_thread (kstate c)"
    and d0: "depth c (current c) = 0"
    and s1: "lock_inv s1 T L rs ws" "running_thread s1 = current c" "threads.more s1 = threads.more (kstate c)"
      "idle_thread s1 = idle_thread (kstate c)" "get_intr_status s1 = INT_OFF"
  shows "\<exists>c' rs' ws'. settle (current c) True c (acquire_from L old s1) = Some c' \<and> lock_sys_inv L T c' rs' ws'"
proof (cases "lock_holder s1 L = NULL")
  case True
  note d = lock_sys_invD [OF inv]
  obtain s' where s': "acquire_from L old s1 = Done () s'" "lock_inv s' T L rs ws"
    "lock_holder s' L = current c" "holder_repeat_nr s' L = 1" "running_thread s' = current c"
    "idle_thread s' = idle_thread (kstate c)"
    using acquire_from_free [OF s1(1) True] s1(2,4) by metis
  let ?c = "c\<lparr>kstate := s', pending := (pending c)(current c := None),
    depth := (depth c)(current c := Suc (depth c (current c)))\<rparr>"
  have hn: "lock_holder (kstate c) L = NULL" using True more_sync(2) [OF s1(3)] by simp
  have "pending_ok L ?c" using d(3) s'(5,6) unfolding pending_ok_def by auto
  moreover have "depth_ok L ?c" using d(4,9) d0 hn s'(3,4) by (auto simp: depth_ok_def)
  moreover have "\<exists>k. pending ?c w = Some (True, k)" if "w \<in> set ws" for w
    using d(10) [OF that] d(7) that by auto
  ultimately have "lock_sys_inv L T ?c rs ws" using d(1,9) s'(2,3) by (simp add: lock_sys_inv_def)
  then show ?thesis using s'(1) by auto
next
  case False
  note d = lock_sys_invD [OF inv]
  have ni1: "running_thread s1 \<noteq> idle_thread s1" using ni s1(2,4) by simp
  obtain s' rs' where s': "acquire_from L old s1 = Block s' (acquire_resumed L old)"
    "lock_inv s' T L rs' (ws @ [current c])" "get_intr_status s' = INT_OFF"
    "threads.more s' = threads.more s1" "idle_thread s' = idle_thread s1"
    using acquire_from_held [OF s1(1) False s1(5) ni1] s1(2) by metis
  note m = more_sync [OF s'(4)] more_sync [OF s1(3)]
  let ?c = "c\<lparr>kstate := s', pending := (pending c)(current c \<mapsto> (True, acquire_resumed L old))\<rparr>"
  have "pending_ok L ?c" using d(3) s'(3,5) s1(4) ni d0 unfolding pending_ok_def by auto
  moreover have "depth_ok L ?c" using d(4) by (simp add: depth_ok_def m)
  moreover have "\<exists>k. pending ?c w = Some (True, k)" if "w \<in> set (ws @ [current c])" for w
    using d(10) [of w] that by auto
  ultimately have "lock_sys_inv L T ?c rs' (ws @ [current c])"
    using d(1) s'(2) False by (simp add: lock_sys_inv_def m)
  then show ?thesis using s'(1) by auto
qed

text \<open>Releasing frees the lock or lowers the repeat count.\<close>

lemma lock_sys_inv_release:
  assumes inv: "lock_sys_inv L T c rs ws" and p: "pending c (current c) = None" and dp: "depth c (current c) > 0"
  obtains s' rs' ws' where "lock_release L (kstate c) = Inr s'"
    and "lock_sys_inv L T (c\<lparr>kstate := s', depth := (depth c)(current c := depth c (current c) - 1)\<rparr>) rs' ws'"
proof -
  note d = lock_sys_invD [OF inv]
  have h: "lock_holder (kstate c) L = current c" using dp depth_holder [OF inv] by simp
  let ?n = "holder_repeat_nr (kstate c) L"
  have n1: "?n \<ge> 1" using d(2,9) h by (simp add: lock_inv_def lock_state_ok_def)
  obtain s' where s': "lock_release L (kstate c) = Inr s'"
    "lock_inv s' T L (if ?n = 1 then take 1 ws @ rs else rs) (if ?n = 1 then drop 1 ws else ws)"
    "lock_holder s' L = (if ?n = 1 then NULL else current c)" "holder_repeat_nr s' L = ?n - 1"
    "running_thread s' = current c" "idle_thread s' = idle_thread (kstate c)"
    "get_intr_status s' = get_intr_status (kstate c)" "sync.more s' = sync.more (kstate c)"
    using lock_release_spec [OF d(2) h] .
  let ?c = "c\<lparr>kstate := s', depth := (depth c)(current c := depth c (current c) - 1)\<rparr>"
  let ?rs = "if ?n = 1 then take 1 ws @ rs else rs" and ?ws = "if ?n = 1 then drop 1 ws else ws"
  have "pending_ok L ?c" using d(3) s'(5,6) p unfolding pending_ok_def by auto
  moreover have "depth_ok L ?c" unfolding depth_ok_def
  proof
    fix t
    have "depth c t = (if t = current c then unat ?n else 0)" "depth c (current c) = unat ?n"
      using d(4,9) h by (simp_all add: depth_ok_def)
    then show "depth ?c t = (if t = lock_holder (kstate ?c) L \<and> t \<noteq> NULL
        then unat (holder_repeat_nr (kstate ?c) L) else 0)"
      using s'(3,4) unat_sub [OF n1] d(9) by (cases "?n = 1") simp_all
  qed
  moreover have "\<exists>k. pending ?c w = Some (True, k)" if "w \<in> set ?ws" for w
    using d(10) [of w] that in_set_dropD [of w 1 ws] by (auto split: if_splits)
  moreover have "woken ?c ?rs" if fr: "lock_holder s' L = NULL" "?ws \<noteq> []"
  proof -
    have n: "?n = 1" using fr(1) s'(3) d(9) by (auto split: if_splits)
    then obtain w ws' where ws: "ws = w # ws'" using fr(2) by (cases ws) auto
    then obtain k where "pending c w = Some (True, k)" using d(10) [of w] by auto
    then show ?thesis using ws n unfolding woken_def by auto
  qed
  ultimately have "lock_sys_inv L T ?c ?rs ?ws" using d(1) s'(2) unfolding lock_sys_inv_def by simp
  then show ?thesis using that s'(1) by blast
qed

lemma lock_sys_inv_same:
  assumes inv: "lock_sys_inv L T c rs ws" and p: "pending c (current c) = None"
    and s': "lock_inv s' T L rs' ws" "threads.more s' = threads.more (kstate c)"
      "running_thread s' = current c" "idle_thread s' = idle_thread (kstate c)" "set rs \<subseteq> set rs'"
  shows "lock_sys_inv L T (c\<lparr>kstate := s'\<rparr>) rs' ws"
proof -
  note d = lock_sys_invD [OF inv] and m = more_sync [OF s'(2)]
  have "pending_ok L (c\<lparr>kstate := s'\<rparr>)" using d(3) p s'(3,4) unfolding pending_ok_def by simp
  moreover have "depth_ok L (c\<lparr>kstate := s'\<rparr>)" using d(4) by (simp add: depth_ok_def m)
  moreover have "woken c rs \<Longrightarrow> woken (c\<lparr>kstate := s'\<rparr>) rs'" using s'(3,5) unfolding woken_def by auto
  ultimately show ?thesis using inv s'(1) by (simp add: lock_sys_inv_def m)
qed

text \<open>Taking the lock never halts: at the first call, in the recursive case, and after waiting.\<close>

lemma lock_acquire_settles:
  assumes inv: "lock_sys_inv L T c rs ws" and p: "pending c (current c) = None"
    and ni: "current c \<noteq> idle_thread (kstate c)" and dp: "Suc (depth c (current c)) < 2 ^ 32"
  shows "\<exists>c' rs' ws'. settle (current c) True c (lock_acquire L (kstate c)) = Some c' \<and> lock_sys_inv L T c' rs' ws'"
proof (cases "lock_holder (kstate c) L = current c")
  case False
  let ?d = "snd (disable_intr (kstate c))"
  note d = lock_sys_invD [OF inv]
  have "depth c (current c) = 0" using False depth_holder [OF inv] by simp
  then show ?thesis unfolding lock_acquire_eq [OF d(1) False]
    by (intro lock_sys_inv_acquire [OF inv ni]) (use d(2) in \<open>simp_all add: lock_inv_disable\<close>)
next
  case True
  note d = lock_sys_invD [OF inv]
  let ?n = "holder_repeat_nr (kstate c) L"
  let ?s = "set_repeat L (?n + 1) (kstate c)"
  have dn: "depth c (current c) = unat ?n" using d(4,9) True by (simp add: depth_ok_def)
  have un: "unat (?n + 1) = Suc (unat ?n)" using dp dn by (simp add: unat_word_ariths)
  then have n1: "?n + 1 \<ge> 1" by (simp add: word_le_nat_alt)
  let ?c = "c\<lparr>kstate := ?s, pending := (pending c)(current c := None),
     depth := (depth c)(current c := Suc (depth c (current c)))\<rparr>"
  have "lock_inv ?s T L rs ws" using d(2,9) True n1 by (simp add: lock_inv_def lock_state_ok_def)
  moreover have "pending_ok L ?c" using d(3) p unfolding pending_ok_def by auto
  moreover have "depth_ok L ?c" using d(4,9) True dn un by (auto simp: depth_ok_def)
  moreover have "\<exists>k. pending ?c w = Some (True, k)" if "w \<in> set ws" for w
    using d(10) [OF that] d(7) that by auto
  ultimately have "lock_sys_inv L T ?c rs ws" using d(1,9) True by (simp add: lock_sys_inv_def)
  moreover have "lock_acquire L (kstate c) = Done () ?s" using d(1) True by (simp add: lock_acquire_def)
  ultimately show ?thesis by auto
qed

lemma resume_settles:
  assumes inv: "lock_sys_inv L T c rs ws" and p: "pending c (current c) = Some (acq, k)"
  shows "\<exists>c' rs' ws'. settle (current c) acq c (k (kstate c)) = Some c' \<and> lock_sys_inv L T c' rs' ws'"
proof (cases acq)
  case True
  note d = lock_sys_invD [OF inv]
  have "pending c (current c) = Some (True, k)" using p True by simp
  then have "\<exists>old. k = acquire_resumed L old" and ni: "current c \<noteq> idle_thread (kstate c)"
    and d0: "depth c (current c) = 0" using d(3) unfolding pending_ok_def by simp_all
  then obtain old where old: "k = acquire_resumed L old" by blast
  let ?s = "snd (set_intr_status INT_OFF (kstate c))"
  have "lock_inv ?s T L rs ws" by (subst set_intr_status_fields) (simp add: lock_inv_eflags d(2))
  then have "\<exists>c' rs' ws'. settle (current c) True c (acquire_from L old ?s) = Some c' \<and>
      lock_sys_inv L T c' rs' ws'"
    by (intro lock_sys_inv_acquire [OF inv ni d0]) simp_all
  then show ?thesis using True old by (simp add: acquire_resumed_def)
next
  case False
  note d = lock_sys_invD [OF inv]
  have "pending c (current c) = Some (False, k)" using p False by simp
  then have "\<exists>f. k = (\<lambda>s. Done () (s\<lparr>eflags := f s\<rparr>))" using d(3) unfolding pending_ok_def by simp
  then obtain f where f: "k = (\<lambda>s. Done () (s\<lparr>eflags := f s\<rparr>))" by blast
  let ?s = "(kstate c)\<lparr>eflags := f (kstate c)\<rparr>"
  let ?c = "c\<lparr>kstate := ?s, pending := (pending c)(current c := None)\<rparr>"
  have r: "running_thread ?s = current c" by (simp add: running_thread_def)
  have "pending_ok L ?c" using d(3) unfolding pending_ok_def by (auto simp: r)
  moreover have "depth_ok L ?c" using d(4) by (simp add: depth_ok_def)
  moreover have "\<exists>k. pending ?c w = Some (True, k)" if "w \<in> set ws" for w
    using d(10) [OF that] d(7) that by auto
  moreover have "woken ?c rs" if wk: "woken c rs"
  proof -
    obtain t k' where t: "pending c t = Some (True, k')" "t \<in> insert (current c) (set rs)"
      using wk by (auto simp: woken_def)
    then have "t \<noteq> current c" using p False by auto
    then show ?thesis using t unfolding woken_def by (intro exI [of _ t] exI [of _ k']) (simp add: r)
  qed
  ultimately have "lock_sys_inv L T ?c rs ws"
    using inv by (simp add: lock_sys_inv_def lock_inv_eflags)
  then show ?thesis using False f by auto
qed

section \<open>Reachable configurations\<close>

lemma set_intr_Done: "(\<lambda>s. Done () (snd (set_intr_status st s))) =
    (\<lambda>s. Done () (s\<lparr>eflags := eflags (snd (set_intr_status st s))\<rparr>))"
  by (rule ext) (subst set_intr_status_fields, rule refl)

lemma set_subset_rotate: "set rs \<subseteq> insert (hd (rs @ [x])) (set (tl (rs @ [x])))"
  by (cases rs) auto

lemma set_subset_next: "set rs \<subseteq> insert (hd (if rs = [] then [i] else rs)) (set (tl (if rs = [] then [i] else rs)))"
  by (cases rs) auto

lemma switch_settles:
  assumes "lock_sys_inv L T c rs ws" and "pending c (current c) = None"
    and "lock_inv s' T L rs' ws" "threads.more s' = threads.more (kstate c)"
      "idle_thread s' = idle_thread (kstate c)" "get_intr_status s' = INT_OFF"
    and "set rs \<subseteq> insert (running_thread s') (set rs')"
    and "m = Block s' (\<lambda>s. Done () (s\<lparr>eflags := f s\<rparr>))"
    and "settle (current c) False c m = Some c'"
  shows "\<exists>rs' ws'. lock_sys_inv L T c' rs' ws'"
  using lock_sys_inv_switch [OF assms(1-7), of f] assms(8,9) by auto

lemma lock_step_inv:
  assumes "lock_step L T c c'" and inv: "lock_sys_inv L T c rs ws"
  shows "\<exists>rs' ws'. lock_sys_inv L T c' rs' ws'"
  using assms(1)
proof cases
  case acquire
  then show ?thesis using lock_acquire_settles [OF inv] by auto
next
  case (release s')
  then show ?thesis using lock_sys_inv_release [OF inv release(2,3)] by (metis sum.inject(2))
next
  case (resume acq k)
  then show ?thesis using resume_settles [OF inv resume(1)] by auto
next
  case yield
  obtain s' where s': "thread_yield (kstate c) =
      Block s' (\<lambda>s2. Done () (snd (set_intr_status (get_intr_status (kstate c)) s2)))"
    "lock_inv s' T L (tl (rs @ [current c])) ws" "running_thread s' = hd (rs @ [current c])"
    "get_intr_status s' = INT_OFF" "threads.more s' = threads.more (kstate c)"
    "idle_thread s' = idle_thread (kstate c)"
    using lock_inv_yield [OF lock_sys_invD(2) [OF inv]] .
  show ?thesis
    by (rule switch_settles [OF inv yield(1) s'(2,5,6,4) _ s'(1) [unfolded set_intr_Done] yield(2)])
      (simp add: s'(3) set_subset_rotate)
next
  case preempt
  obtain s' where s': "schedule (cli (kstate c)) = Block s' (\<lambda>s2. Done () s2)"
    "lock_inv s' T L (tl (rs @ [current c])) ws" "running_thread s' = hd (rs @ [current c])"
    "get_intr_status s' = INT_OFF" "threads.more s' = threads.more (kstate c)"
    "idle_thread s' = idle_thread (kstate c)"
    using lock_inv_preempt [OF lock_sys_invD(2) [OF inv]] .
  show ?thesis
    by (rule switch_settles [OF inv preempt(1) s'(2,5,6,4) _ _ preempt(3)])
      (simp_all add: s'(1,3) set_subset_rotate)
next
  case (block st)
  have st: "blocked_status st" using block(2) by (auto simp: blocked_status_def)
  obtain s' where s': "thread_block st (kstate c) =
      Block s' (\<lambda>s2. Done () (snd (set_intr_status (get_intr_status (kstate c)) s2)))"
    "lock_inv s' T L (tl (if rs = [] then [idle_thread (kstate c)] else rs)) ws"
    "running_thread s' = hd (if rs = [] then [idle_thread (kstate c)] else rs)"
    "get_intr_status s' = INT_OFF" "threads.more s' = threads.more (kstate c)"
    "idle_thread s' = idle_thread (kstate c)"
    using lock_inv_block [OF lock_sys_invD(2) [OF inv] st] .
  show ?thesis
    by (rule switch_settles [OF inv block(1) s'(2,5,6,4) _ s'(1) [unfolded set_intr_Done] block(3)])
      (use set_subset_next [of rs "idle_thread (kstate c)"] in \<open>simp only: s'(3)\<close>)
next
  case (unblock t s')
  have st: "blocked_status (task_status_of (kstate c) t)" using unblock(4) by (auto simp: blocked_status_def)
  have nw: "t \<notin> set ws" using waiters_okD(4) [OF lock_sys_invD(6) [OF inv]] unblock(4) by auto
  obtain s'' where s'': "thread_unblock t (kstate c) = Inr s''" "lock_inv s'' T L (t # rs) ws"
    "running_thread s'' = current c" "eflags s'' = eflags (kstate c)"
    "threads.more s'' = threads.more (kstate c)" "idle_thread s'' = idle_thread (kstate c)"
    using lock_inv_unblock [OF lock_sys_invD(2) [OF inv] unblock(3) nw st] .
  have "set rs \<subseteq> set (t # rs)" by auto
  from lock_sys_inv_same [OF inv unblock(2) s''(2,5,3,6) this] show ?thesis using unblock(1,5) s''(1) by auto
next
  case (intr st)
  let ?s = "snd (set_intr_status st (kstate c))"
  have "lock_inv ?s T L rs ws"
    by (subst set_intr_status_fields) (simp add: lock_inv_eflags lock_sys_invD(2) [OF inv])
  from lock_sys_inv_same [OF inv intr(2) this] show ?thesis using intr(1) by auto
qed

lemma lock_steps_inv:
  "(lock_step L T)\<^sup>*\<^sup>* c c' \<Longrightarrow> lock_sys_inv L T c rs ws \<Longrightarrow> \<exists>rs' ws'. lock_sys_inv L T c' rs' ws'"
  by (induction rule: rtranclp_induct) (auto dest: lock_step_inv)

section \<open>The start\<close>

definition lock_start :: "addr \<Rightarrow> 'a sync_scheme \<Rightarrow> 'a sync_scheme lock_sys" where
  "lock_start L s = \<lparr>kstate = lock_init L s, pending = (\<lambda>_. None), depth = (\<lambda>_. 0)\<rparr>"

text \<open>The waiting list of the lock overlaps neither the ready list nor the nodes of threads.\<close>

definition lock_placed :: "addr \<Rightarrow> addr set \<Rightarrow> 'a threads_scheme \<Rightarrow> bool" where
  "lock_placed L T s \<longleftrightarrow> L \<noteq> NULL \<and>
     {L + 8, L + 16} \<inter> ({thread_ready_list s, thread_ready_list s + 8} \<union> general_tag ` T) = {}"

lemma lock_init_eq:
  "lock_init L s = set_repeat L 0 (set_sema (L + 4) 1 (set_holder L NULL (list_init (L + 4 + 4) s)))"
  by (simp add: lock_init_def sema_init_def list_init_def set_sema_def set_holder_def set_repeat_def)

lemma lock_start_inv:
  assumes inv: "sched_inv s T rs" and pl: "lock_placed L T s"
  shows "lock_sys_inv L T (lock_start L s) rs []"
proof -
  have wf: "sched_wf s T rs" using inv by (simp add: sched_inv_def)
  let ?s = "list_init (L + 4 + 4) s"
  have L: "L + 4 + 4 = L + 8" "L + 4 + 12 = L + 16" "L + 8 + 8 = L + 16" by simp_all
  have dj: "set (list_cells (thread_ready_list s) (map general_tag rs)) \<inter> {L + 8, L + 16} = {}"
    using pl sched_wfD(2) [OF wf] unfolding lock_placed_def by auto
  have "dlist (nodes ?s) (thread_ready_list s) (map general_tag rs)
      = dlist (nodes s) (thread_ready_list s) (map general_tag rs)"
  proof (rule dlist_cong)
    fix x assume "x \<in> set (list_cells (thread_ready_list s) (map general_tag rs))"
    then have "x \<notin> {L + 8, L + 16}" using dj by blast
    then show "nodes ?s x = nodes s x" unfolding L by (intro list_init_other) (simp add: L)
  qed
  then have "sched_inv ?s T rs"
    using sched_inv_nodes [OF inv, of "nodes ?s"] sched_wfD(1) [OF wf]
    by (simp add: ready_list_def list_init_def)
  moreover have "waiters_ok ?s T (L + 4) []"
    using dlist_init [of "L + 4 + 4" s] pl by (simp add: waiters_ok_def lock_placed_def list_init_def L)
  ultimately have "lock_inv (lock_init L s) T L rs []"
    by (simp add: lock_init_eq lock_inv_def lock_state_ok_def)
  moreover have "depth_ok L (lock_start L s)" by (simp add: depth_ok_def lock_start_def lock_init_eq)
  moreover have "pending_ok L (lock_start L s)" by (simp add: pending_ok_def lock_start_def)
  ultimately show ?thesis using pl by (simp add: lock_sys_inv_def lock_start_def lock_placed_def)
qed

section \<open>Claims\<close>




text \<open>The sample system with a lock at 0xc0006000.\<close>

definition sample_sync :: sync where
  "sample_sync = threads.extend sample_threads (sync.fields (\<lambda>_. 0) (\<lambda>_. 0) (\<lambda>_. 0))"

lemma extend_fields [simp]:
  "nodes (threads.extend s m) = nodes s" "tasks (threads.extend s m) = tasks s"
  "esp (threads.extend s m) = esp s" "cr3 (threads.extend s m) = cr3 s" "pmem (threads.extend s m) = pmem s"
  "eflags (threads.extend s m) = eflags s"
  "idle_thread (threads.extend s m) = idle_thread s"
  "thread_ready_list (threads.extend s m) = thread_ready_list s"
  by (simp_all add: threads.extend_def)

lemma sample_sync_inv: "sched_inv sample_sync sample_T [0xc0101000]"
  using sample_sched_inv unfolding sample_sync_def
  by (simp add: sched_inv_def sched_wf_def ready_list_def running_thread_def kstack_ok_def task_space_ok_def)

lemma sample_lock_placed: "lock_placed 0xc0006000 sample_T sample_sync"
  by (simp add: lock_placed_def sample_sync_def general_tag_def)

lemma sample_start:
  "current (lock_start 0xc0006000 sample_sync) = 0xc009e000"
  "idle_thread (kstate (lock_start 0xc0006000 sample_sync)) = 0xc0100000"
  "lock_holder (kstate (lock_start 0xc0006000 sample_sync)) 0xc0006000 = NULL"
  by (simp_all add: lock_start_def lock_init_eq list_init_def sample_sync_def running_thread_def
      set_sema_def set_holder_def set_repeat_def)

text \<open>The main thread takes the lock, and meets no one.\<close>

lemma sample_acquired:
  "\<exists>c. (lock_step 0xc0006000 sample_T)\<^sup>*\<^sup>* (lock_start 0xc0006000 sample_sync) c \<and> depth c 0xc009e000 = 1"
proof -
  let ?c0 = "lock_start 0xc0006000 sample_sync"
  have inv: "lock_sys_inv 0xc0006000 sample_T ?c0 [0xc0101000] []"
    by (rule lock_start_inv [OF sample_sync_inv sample_lock_placed])
  let ?s1 = "snd (disable_intr (kstate ?c0))"
  have free: "lock_holder ?s1 0xc0006000 = NULL"
    using more_sync(2) [OF disable_intr_simps(4), of "kstate ?c0"] sample_start(3) by simp
  have "lock_inv ?s1 sample_T 0xc0006000 [0xc0101000] []"
    using lock_sys_invD(2) [OF inv] lock_inv_disable by blast
  from acquire_from_free [OF this free] obtain s' where
    "acquire_from 0xc0006000 (get_intr_status (kstate ?c0)) ?s1 = Done () s'" by metis
  then have "lock_acquire 0xc0006000 (kstate ?c0) = Done () s'"
    using lock_acquire_eq [of "0xc0006000" "kstate ?c0"] by (simp add: sample_start)
  then have st: "settle (current ?c0) True ?c0 (lock_acquire 0xc0006000 (kstate ?c0)) =
      Some (?c0\<lparr>kstate := s', pending := (pending ?c0)(current ?c0 := None),
        depth := (depth ?c0)(current ?c0 := Suc (depth ?c0 (current ?c0)))\<rparr>)" (is "_ = Some ?c1")
    by simp
  have "lock_step 0xc0006000 sample_T ?c0 ?c1"
    by (rule lock_step.acquire [OF _ _ _ st]) (simp_all add: sample_start, simp_all add: lock_start_def)
  moreover have "depth ?c1 0xc009e000 = 1" unfolding sample_start(1) by (simp add: lock_start_def)
  ultimately show ?thesis by blast
qed




end
