(* ===== verification/Ioqueue.thy ===== *)
theory Ioqueue
  imports Lock_System "HOL-Library.Signed_Division"
begin

text \<open>
  \<^verbatim>\<open>device/ioqueue.c\<close>: the ring buffer between the keyboard interrupt and its readers. The store
  \<open>ioqueues\<close> maps the address of a \<^verbatim>\<open>struct ioqueue\<close> to its fields; its lock, the first member, is at
  the same address. The pure part of the buffer is an instance of the contract of bounded queues;
  the rest is about blocking and waking.
\<close>

section \<open>The buffer\<close>

abbreviation (input) bufsize :: int where "bufsize \<equiv> 64"

record ioqueue =
  producer :: addr
  consumer :: addr
  buf :: "u8 list"
  head :: int
  tail :: int

record ioqs = sync +
  ioqueues :: "addr \<Rightarrow> ioqueue"

definition upd_ioq :: "addr \<Rightarrow> (ioqueue \<Rightarrow> ioqueue) \<Rightarrow> 'a ioqs_scheme \<Rightarrow> 'a ioqs_scheme" where
  "upd_ioq ioq f s = s\<lparr>ioqueues := (ioqueues s)(ioq := f (ioqueues s ioq))\<rparr>"

definition ioqueue_init :: "addr \<Rightarrow> 'a ioqs_scheme \<Rightarrow> 'a ioqs_scheme" where
  "ioqueue_init ioq s =
     upd_ioq ioq (\<lambda>q. q\<lparr>consumer := NULL, producer := NULL, head := 0, tail := 0\<rparr>) (lock_init ioq s)"

definition next_pos :: "int \<Rightarrow> int" where
  "next_pos pos = (pos + 1) smod bufsize"

definition ioq_full :: "addr \<Rightarrow> 'a ioqs_scheme \<Rightarrow> bool res" where
  "ioq_full ioq s =
     assertion (get_intr_status s = INT_OFF) ''get_intr_status() == INT_OFF''
      (Inr (next_pos (head (ioqueues s ioq)) = tail (ioqueues s ioq)))"

definition ioq_empty :: "addr \<Rightarrow> 'a ioqs_scheme \<Rightarrow> bool res" where
  "ioq_empty ioq s =
     assertion (get_intr_status s = INT_OFF) ''get_intr_status() == INT_OFF''
      (Inr (head (ioqueues s ioq) = tail (ioqueues s ioq)))"

section \<open>Waiting and waking\<close>

text \<open>The two pointers \<open>&ioq->producer\<close> and \<open>&ioq->consumer\<close> as parts of the queue.\<close>

datatype waiter = PRODUCER | CONSUMER

definition get_waiter :: "waiter \<Rightarrow> ioqueue \<Rightarrow> addr" where
  "get_waiter w q = (case w of PRODUCER \<Rightarrow> producer q | CONSUMER \<Rightarrow> consumer q)"

definition set_waiter :: "waiter \<Rightarrow> addr \<Rightarrow> ioqueue \<Rightarrow> ioqueue" where
  "set_waiter w t q = (case w of PRODUCER \<Rightarrow> q\<lparr>producer := t\<rparr> | CONSUMER \<Rightarrow> q\<lparr>consumer := t\<rparr>)"

definition ioq_wait :: "addr \<Rightarrow> waiter \<Rightarrow> 'a ioqs_scheme \<Rightarrow> ('a ioqs_scheme, unit) kop" where
  "ioq_wait ioq w s =
     kassert (get_waiter w (ioqueues s ioq) = NULL) ''*waiter==NULL && waiter != NULL''
      (thread_block TASK_BLOCKED (upd_ioq ioq (set_waiter w (running_thread s)) s))"

definition wakeup :: "addr \<Rightarrow> waiter \<Rightarrow> 'a ioqs_scheme \<Rightarrow> 'a ioqs_scheme res" where
  "wakeup ioq w s =
     assertion (get_waiter w (ioqueues s ioq) \<noteq> NULL) ''*waiter != NULL''
      (res_bind (thread_unblock (get_waiter w (ioqueues s ioq)) s)
        (\<lambda>s1. Inr (upd_ioq ioq (set_waiter w NULL) s1)))"

definition wakeup_if_waiting :: "addr \<Rightarrow> waiter \<Rightarrow> 'a ioqs_scheme \<Rightarrow> 'a ioqs_scheme res" where
  "wakeup_if_waiting ioq w s =
     (if get_waiter w (ioqueues s ioq) \<noteq> NULL then wakeup ioq w s else Inr s)"

text \<open>The body of the two wait loops, and a loop whose condition may fail an assertion.\<close>

definition ioq_wait_locked :: "addr \<Rightarrow> waiter \<Rightarrow> 'a ioqs_scheme \<Rightarrow> ('a ioqs_scheme, unit) kop" where
  "ioq_wait_locked ioq w s =
     kbind (lock_acquire ioq s) (\<lambda>_ s1. kbind (ioq_wait ioq w s1) (\<lambda>_ s2. klift (lock_release ioq s2)))"

definition kwhile_res :: "('s \<Rightarrow> bool res) \<Rightarrow> ('s \<Rightarrow> ('s, unit) kop) \<Rightarrow> 's \<Rightarrow> ('s, unit) kop" where
  "kwhile_res c body =
     kwhile (\<lambda>s. c s \<noteq> Inr False) (\<lambda>s. case c s of Inl e \<Rightarrow> Halt e | Inr b \<Rightarrow> body s)"

text \<open>Taking the character at the tail and storing one at the head.\<close>

definition get_buf :: "ioqueue \<Rightarrow> u8 \<times> ioqueue" where
  "get_buf q = (buf q ! nat (tail q), q\<lparr>tail := next_pos (tail q)\<rparr>)"

definition put_buf :: "u8 \<Rightarrow> ioqueue \<Rightarrow> ioqueue" where
  "put_buf byte q = q\<lparr>buf := (buf q)[nat (head q) := byte], head := next_pos (head q)\<rparr>"

definition ioq_getchar :: "addr \<Rightarrow> 'a ioqs_scheme \<Rightarrow> ('a ioqs_scheme, u8) kop" where
  "ioq_getchar ioq s =
     kassert (get_intr_status s = INT_OFF) ''get_intr_status() == INT_OFF''
      (kbind (kwhile_res (ioq_empty ioq) (ioq_wait_locked ioq CONSUMER) s)
        (\<lambda>_ s1. kbind (klift (wakeup_if_waiting ioq PRODUCER (upd_ioq ioq (\<lambda>q. snd (get_buf q)) s1)))
           (\<lambda>_ s2. Done (fst (get_buf (ioqueues s1 ioq))) s2)))"

definition ioq_putchar :: "addr \<Rightarrow> u8 \<Rightarrow> 'a ioqs_scheme \<Rightarrow> ('a ioqs_scheme, unit) kop" where
  "ioq_putchar ioq byte s =
     kassert (get_intr_status s = INT_OFF) ''get_intr_status() == INT_OFF''
      (kbind (kwhile_res (ioq_full ioq) (ioq_wait_locked ioq PRODUCER) s)
        (\<lambda>_ s1. klift (wakeup_if_waiting ioq CONSUMER (upd_ioq ioq (put_buf byte) s1))))"

section \<open>The contract of bounded queues\<close>

locale bounded_queue =
  fixes ok :: "'q \<Rightarrow> bool" and items :: "'q \<Rightarrow> 'c list" and cap :: nat
    and full :: "'q \<Rightarrow> bool" and empty :: "'q \<Rightarrow> bool"
    and put :: "'c \<Rightarrow> 'q \<Rightarrow> 'q" and get :: "'q \<Rightarrow> 'c \<times> 'q"
  assumes full_iff: "ok q \<Longrightarrow> full q \<longleftrightarrow> length (items q) = cap"
    and bounded: "ok q \<Longrightarrow> length (items q) \<le> cap"
    and empty_iff: "ok q \<Longrightarrow> empty q \<longleftrightarrow> items q = []"
    and ok_put: "ok q \<Longrightarrow> ok (put c q)"
    and items_put: "ok q \<Longrightarrow> \<not> full q \<Longrightarrow> items (put c q) = items q @ [c]"
    and ok_get: "ok q \<Longrightarrow> ok (snd (get q))"
    and get_items: "ok q \<Longrightarrow> items q = c # cs \<Longrightarrow> fst (get q) = c \<and> items (snd (get q)) = cs"
begin

text \<open>Storing several characters that fit, and taking several.\<close>

lemma put_many:
  "ok q \<Longrightarrow> length (items q) + length cs \<le> cap \<Longrightarrow>
     ok (fold put cs q) \<and> items (fold put cs q) = items q @ cs"
proof (induction cs arbitrary: q)
  case (Cons c cs)
  have "\<not> full q" using Cons.prems full_iff [of q] by simp
  then have "items (put c q) = items q @ [c]" and "ok (put c q)"
    using Cons.prems items_put ok_put by blast+
  then show ?case using Cons.IH [of "put c q"] Cons.prems by simp
qed simp

fun get_many :: "nat \<Rightarrow> 'q \<Rightarrow> 'c list \<times> 'q" where
  "get_many 0 q = ([], q)"
| "get_many (Suc n) q = (let (c, q1) = get q; (cs, q2) = get_many n q1 in (c # cs, q2))"

lemma get_many_items:
  "ok q \<Longrightarrow> n \<le> length (items q) \<Longrightarrow>
     fst (get_many n q) = take n (items q) \<and> items (snd (get_many n q)) = drop n (items q) \<and>
     ok (snd (get_many n q))"
proof (induction n arbitrary: q)
  case (Suc n)
  then obtain c cs where cs: "items q = c # cs" by (cases "items q") auto
  then have "fst (get q) = c" "items (snd (get q)) = cs" "ok (snd (get q))"
    using Suc.prems get_items ok_get by blast+
  then show ?case using Suc.IH [of "snd (get q)"] Suc.prems cs by (simp add: case_prod_beta)
qed simp

text \<open>First in, first out.\<close>

lemma fifo:
  assumes "ok q" and "items q = []" and "length cs \<le> cap"
  shows "fst (get_many (length cs) (fold put cs q)) = cs"
  using put_many [OF assms(1), of cs] get_many_items [of "fold put cs q" "length cs"] assms by simp

end

definition ioq_ok :: "ioqueue \<Rightarrow> bool" where
  "ioq_ok q \<longleftrightarrow> length (buf q) = 64 \<and> 0 \<le> head q \<and> head q < 64 \<and> 0 \<le> tail q \<and> tail q < 64"

definition ioq_items :: "ioqueue \<Rightarrow> u8 list" where
  "ioq_items q = map (\<lambda>i. buf q ! nat ((tail q + int i) mod 64)) [0..<nat ((head q - tail q) mod 64)]"

definition full_q :: "ioqueue \<Rightarrow> bool" where "full_q q \<longleftrightarrow> next_pos (head q) = tail q"
definition empty_q :: "ioqueue \<Rightarrow> bool" where "empty_q q \<longleftrightarrow> head q = tail q"

lemma next_pos_mod: "0 \<le> p \<Longrightarrow> next_pos p = (p + 1) mod 64"
  by (simp add: next_pos_def smod_mod_positive)

lemma ioq_count_less: "nat ((h - t) mod 64) \<le> 63" for h t :: int
  using pos_mod_bound [of 64 "h - t"] by simp

lemma next_pos_count:
  assumes "0 \<le> h" "h < 64" "0 \<le> t" "t < 64"
  shows "next_pos h = t \<longleftrightarrow> (h - t) mod 64 = (63 :: int)"
proof -
  have "h - t > -64" "h - t < 64" using assms by simp_all
  have "next_pos h = (if h = 63 then 0 else h + 1)" using assms by (simp add: next_pos_mod)
  moreover have "(h - t) mod 64 = (if h \<ge> t then h - t else h - t + 64)"
  proof (cases "h \<ge> t")
    case False
    then have "(h - t + 64) mod 64 = h - t + 64" using assms by (intro mod_pos_pos_trivial) auto
    then show ?thesis using False by simp
  qed (use assms in simp)
  ultimately show ?thesis using assms by auto
qed

lemma mod_count_Suc: "((h + 1) mod 64 - t) mod 64 = ((h - t) mod 64 + 1) mod (64 :: int)"
proof -
  have "((h + 1) mod 64 - t) mod 64 = (h + 1 - t) mod 64" by (rule mod_diff_left_eq)
  also have "h + 1 - t = h - t + 1" by simp
  finally show ?thesis by (simp only: mod_add_left_eq)
qed

lemma mod_count_less: "(h - t) mod 64 \<noteq> 63 \<Longrightarrow> ((h - t) mod 64 + 1) mod 64 = (h - t) mod 64 + (1 :: int)"
  using pos_mod_bound [of 64 "h - t"] pos_mod_sign [of 64 "h - t"] by (intro mod_pos_pos_trivial) auto

lemma mod_count_pred: "(h - (t + 1) mod 64) mod 64 = ((h - t) mod 64 - 1) mod (64 :: int)"
  by (simp add: mod_diff_right_eq mod_diff_left_eq algebra_simps)

lemma mod_count_pos: "(h - t) mod 64 \<noteq> 0 \<Longrightarrow> ((h - t) mod 64 - 1) mod 64 = (h - t) mod 64 - (1 :: int)"
  using pos_mod_bound [of 64 "h - t"] pos_mod_sign [of 64 "h - t"] by (intro mod_pos_pos_trivial) auto

lemma head_position: "0 \<le> h \<Longrightarrow> h < 64 \<Longrightarrow> (t + (h - t) mod 64) mod 64 = (h :: int)"
  by (simp add: mod_add_right_eq)

lemma position_inj:
  assumes "(t + i) mod 64 = (t + j) mod (64 :: int)" and "0 \<le> i" "i < 64" "0 \<le> j" "j < 64"
  shows "i = j"
proof -
  have "((t + i) mod 64 - t) mod 64 = ((t + j) mod 64 - t) mod 64" using assms(1) by simp
  then have "i mod 64 = j mod 64" by (simp add: mod_diff_left_eq)
  then show ?thesis using assms(2-) by simp
qed

lemma items_put_buf:
  assumes "ioq_ok q" and "\<not> full_q q"
  shows "ioq_items (put_buf c q) = ioq_items q @ [c]"
proof -
  let ?h = "head q" and ?t = "tail q" and ?n = "(head q - tail q) mod 64"
  have ok: "length (buf q) = 64" "0 \<le> ?h" "?h < 64" "0 \<le> ?t" "?t < 64"
    using assms(1) by (simp_all add: ioq_ok_def)
  have n63: "?n \<noteq> 63" using assms(2) next_pos_count [OF ok(2-5)] by (simp add: full_q_def)
  have n: "0 \<le> ?n" "?n < 64" by simp_all
  have count: "nat ((next_pos ?h - ?t) mod 64) = Suc (nat ?n)"
    using ok n by (simp add: next_pos_mod mod_count_Suc mod_count_less [OF n63] nat_add_distrib)
  have hn: "(?t + int (nat ?n)) mod 64 = ?h" using head_position [OF ok(2,3), of ?t] n by simp
  have other: "nat ((?t + int i) mod 64) \<noteq> nat ?h" if "i < nat ?n" for i
  proof
    assume "nat ((?t + int i) mod 64) = nat ?h"
    then have "(?t + int i) mod 64 = (?t + int (nat ?n)) mod 64" using ok(2) hn by (simp add: nat_eq_iff)
    moreover have "int i < 64" "int (nat ?n) < 64" using that n by linarith+
    ultimately have "int i = int (nat ?n)" by (intro position_inj [of ?t "int i" "int (nat ?n)"]) simp_all
    then show False using that by simp
  qed
  have "ioq_items (put_buf c q) =
      map (\<lambda>i. (buf q)[nat ?h := c] ! nat ((?t + int i) mod 64)) ([0..<nat ?n] @ [nat ?n])"
    by (simp add: ioq_items_def put_buf_def count)
  also have "\<dots> = ioq_items q @ [c]"
  proof -
    have "map (\<lambda>i. (buf q)[nat ?h := c] ! nat ((?t + int i) mod 64)) [0..<nat ?n] = ioq_items q"
      unfolding ioq_items_def by (rule map_cong [OF refl]) (simp add: other [symmetric])
    moreover have "(buf q)[nat ?h := c] ! nat ((?t + int (nat ?n)) mod 64) = c" using hn ok by simp
    ultimately show ?thesis by simp
  qed
  finally show ?thesis .
qed

lemma items_get_buf:
  assumes "ioq_ok q" and "ioq_items q = c # cs"
  shows "fst (get_buf q) = c \<and> ioq_items (snd (get_buf q)) = cs"
proof -
  let ?h = "head q" and ?t = "tail q" and ?n = "(head q - tail q) mod 64"
  have ok: "0 \<le> ?t" "?t < 64" using assms(1) by (simp_all add: ioq_ok_def)
  have n0: "?n \<noteq> 0" using assms(2) by (auto simp: ioq_items_def)
  then have n: "nat ?n = Suc (nat (?n - 1))" by simp
  have count: "nat ((?h - next_pos ?t) mod 64) = nat (?n - 1)"
    using ok by (simp only: next_pos_mod mod_count_pred mod_count_pos [OF n0])
  have idx: "(next_pos ?t + int i) mod 64 = (?t + int (Suc i)) mod 64" for i
  proof -
    have "(next_pos ?t + int i) mod 64 = (?t + 1 + int i) mod 64" using ok by (simp only: next_pos_mod mod_add_left_eq)
    then show ?thesis by (simp add: add.assoc)
  qed
  have "ioq_items q = buf q ! nat (?t mod 64) # map (\<lambda>i. buf q ! nat ((?t + int (Suc i)) mod 64)) [0..<nat (?n - 1)]"
    by (simp add: ioq_items_def n map_upt_Suc del: upt_Suc of_nat_Suc)
  then show ?thesis using assms(2) ok by (simp add: get_buf_def ioq_items_def count idx del: of_nat_Suc)
qed

lemma next_pos_range: "0 \<le> p \<Longrightarrow> 0 \<le> next_pos p \<and> next_pos p < 64"
  by (simp add: next_pos_mod)

interpretation ioq: bounded_queue ioq_ok ioq_items 63 full_q empty_q put_buf get_buf
proof (unfold_locales, goal_cases)
  case (1 q)
  then have "0 \<le> head q" "head q < 64" "0 \<le> tail q" "tail q < 64" by (simp_all add: ioq_ok_def)
  from next_pos_count [OF this] show ?case
    using pos_mod_sign [of 64 "head q - tail q"] by (simp add: full_q_def ioq_items_def) linarith
next
  case (2 q)
  show ?case using ioq_count_less by (simp add: ioq_items_def)
next
  case (3 q)
  then have r: "\<bar>head q - tail q\<bar> < 64" by (auto simp: ioq_ok_def)
  have "(head q - tail q) mod 64 = 0 \<longleftrightarrow> head q = tail q"
  proof
    assume "(head q - tail q) mod 64 = 0"
    then have "64 dvd head q - tail q" by presburger
    then show "head q = tail q" using r zdvd_imp_le [of 64 "\<bar>head q - tail q\<bar>"] by auto
  qed simp
  then show ?case using pos_mod_sign [of 64 "head q - tail q"]
    by (auto simp: empty_q_def ioq_items_def)
next
  case (5 q c)
  then show ?case by (rule items_put_buf)
next
  case (7 q c cs)
  then show ?case by (rule items_get_buf)
qed (simp_all add: ioq_ok_def put_buf_def get_buf_def next_pos_range)

section \<open>Characters in and out\<close>

lemma kwhile_res_unfold:
  "kwhile_res c body s = (case c s of Inl e \<Rightarrow> Halt e
     | Inr b \<Rightarrow> if b then kbind (body s) (\<lambda>_. kwhile_res c body) else Done () s)"
  unfolding kwhile_res_def by (subst kwhile_unfold) (auto split: sum.split)

lemma upd_ioq_simps [simp]:
  "ioqueues (upd_ioq a f s) b = (if b = a then f (ioqueues s a) else ioqueues s b)"
  "eflags (upd_ioq a f s) = eflags s" "nodes (upd_ioq a f s) = nodes s" "tasks (upd_ioq a f s) = tasks s"
  "esp (upd_ioq a f s) = esp s" "cr3 (upd_ioq a f s) = cr3 s" "pmem (upd_ioq a f s) = pmem s"
  "thread_ready_list (upd_ioq a f s) = thread_ready_list s" "idle_thread (upd_ioq a f s) = idle_thread s"
  "lock_holder (upd_ioq a f s) = lock_holder s" "sema_value (upd_ioq a f s) = sema_value s"
  "holder_repeat_nr (upd_ioq a f s) = holder_repeat_nr s" "ioqs.more (upd_ioq a f s) = ioqs.more s"
  by (simp_all add: upd_ioq_def)

lemma upd_ioq_inv [simp]:
  "running_thread (upd_ioq a f s) = running_thread s"
  "get_intr_status (upd_ioq a f s) = get_intr_status s"
  "sched_inv (upd_ioq a f s) T rs = sched_inv s T rs"
  "waiters_ok (upd_ioq a f s) T m ws = waiters_ok s T m ws"
  "lock_inv (upd_ioq a f s) T L rs ws = lock_inv s T L rs ws"
proof -
  show "running_thread (upd_ioq a f s) = running_thread s"
    "get_intr_status (upd_ioq a f s) = get_intr_status s" 
    by (simp_all add: running_thread_def get_intr_status_def)
  show si: "sched_inv (upd_ioq a f s) T rs = sched_inv s T rs"
    by (simp add: sched_inv_def sched_wf_def ready_list_def running_thread_def kstack_ok_def task_space_ok_def)
  show wo: "waiters_ok (upd_ioq a f s) T m ws = waiters_ok s T m ws" for m by (simp add: waiters_ok_def)
  show "lock_inv (upd_ioq a f s) T L rs ws = lock_inv s T L rs ws"
    by (simp add: lock_inv_def si wo lock_state_ok_def)
qed

lemma get_set_waiter [simp]:
  "get_waiter w (set_waiter w' t q) = (if w = w' then t else get_waiter w q)"
  "get_waiter w (put_buf c q) = get_waiter w q" "get_waiter w (snd (get_buf q)) = get_waiter w q"
  "ioq_items (set_waiter w t q) = ioq_items q" "ioq_ok (set_waiter w t q) = ioq_ok q"
  "head (set_waiter w t q) = head q" "tail (set_waiter w t q) = tail q"
  by (cases w; cases w';
      simp add: get_waiter_def set_waiter_def put_buf_def get_buf_def ioq_items_def ioq_ok_def)+

lemma sync_more_ioq:
  assumes "sync.more s' = sync.more (s :: 'a ioqs_scheme)"
  shows "ioqueues s' = ioqueues s" "ioqs.more s' = ioqs.more s"
  using assms by (cases s; cases s'; simp)+

lemma threads_more_ioq:
  assumes "threads.more s' = threads.more (s :: 'a ioqs_scheme)"
  shows "ioqueues s' = ioqueues s" "lock_holder s' = lock_holder s" "holder_repeat_nr s' = holder_repeat_nr s"
    "ioqs.more s' = ioqs.more s"
  using sync_more_ioq [OF more_sync(4) [OF assms]] more_sync(2,3) [OF assms] by simp_all

text \<open>A registered waiter is a blocked thread of the system.\<close>

definition waiter_ok :: "waiter \<Rightarrow> addr \<Rightarrow> addr set \<Rightarrow> 'a ioqs_scheme \<Rightarrow> bool" where
  "waiter_ok w q T s \<longleftrightarrow> get_waiter w (ioqueues s q) = NULL \<or>
     get_waiter w (ioqueues s q) \<in> T \<and> blocked_status (task_status_of s (get_waiter w (ioqueues s q)))"

definition with_waiter :: "addr \<Rightarrow> addr list \<Rightarrow> addr list" where
  "with_waiter t rs = (if t = NULL then rs else t # rs)"

lemma wakeup_if_waiting_spec:
  assumes inv: "sched_inv s T rs" and ok: "waiter_ok w q T s"
  obtains s' where "wakeup_if_waiting q w s = Inr s'"
    and "sched_inv s' T (with_waiter (get_waiter w (ioqueues s q)) rs)"
    and "ioqueues s' = (ioqueues s)(q := set_waiter w NULL (ioqueues s q))"
    and "running_thread s' = running_thread s" and "eflags s' = eflags s"
    and "lock_holder s' = lock_holder s" and "holder_repeat_nr s' = holder_repeat_nr s"
    and "ioqs.more s' = ioqs.more s"
proof (cases "get_waiter w (ioqueues s q) = NULL")
  case True
  have "set_waiter w NULL (ioqueues s q) = ioqueues s q"
    using True by (cases w) (simp_all add: set_waiter_def get_waiter_def)
  then show ?thesis using that [of s] inv True by (simp add: wakeup_if_waiting_def with_waiter_def)
next
  case False
  let ?t = "get_waiter w (ioqueues s q)"
  have t: "?t \<in> T" "blocked_status (task_status_of s ?t)" using ok False by (simp_all add: waiter_ok_def)
  have wf: "sched_wf s T rs" using inv by (simp add: sched_inv_def)
  have nin: "?t \<notin> set rs" using sched_wfD(8) [OF wf t(1)] t(2) by (auto simp: blocked_status_def)
  let ?s1 = "set_status ?t TASK_READY (list_push (thread_ready_list s) (general_tag ?t) s)"
  have eq: "thread_unblock ?t s = Inr ?s1" by (rule thread_unblock_eq [OF sched_wfD(1) [OF wf] nin t(2)])
  have "sched_inv ?s1 T (?t # rs)" using sched_inv_unblock [OF inv t] eq by (metis sum.inject(2))
  moreover have "ioqueues ?s1 = ioqueues s" "lock_holder ?s1 = lock_holder s"
    "holder_repeat_nr ?s1 = holder_repeat_nr s" "ioqs.more ?s1 = ioqs.more s"
    using threads_more_ioq [of ?s1 s] by simp_all
  ultimately show ?thesis
    using that [of "upd_ioq q (set_waiter w NULL) ?s1"] eq False
    by (simp add: wakeup_if_waiting_def wakeup_def with_waiter_def fun_eq_iff running_thread_def)
qed

lemma ioq_getchar_nonempty:
  assumes inv: "sched_inv s T rs" and off: "get_intr_status s = INT_OFF" and ok: "ioq_ok (ioqueues s q)"
    and items: "ioq_items (ioqueues s q) = c # cs" and w: "waiter_ok PRODUCER q T s"
  obtains s' where "ioq_getchar q s = Done c s'" and "ioq_items (ioqueues s' q) = cs" and "ioq_ok (ioqueues s' q)"
    and "sched_inv s' T (with_waiter (producer (ioqueues s q)) rs)"
    and "producer (ioqueues s' q) = NULL" and "consumer (ioqueues s' q) = consumer (ioqueues s q)"
    and "running_thread s' = running_thread s" and "eflags s' = eflags s"
    and "lock_holder s' = lock_holder s" and "holder_repeat_nr s' = holder_repeat_nr s"
    and "ioqs.more s' = ioqs.more s"
proof -
  let ?s1 = "upd_ioq q (\<lambda>x. snd (get_buf x)) s"
  have empty: "ioq_empty q s = Inr False"
    using ioq.empty_iff [OF ok] items off by (simp add: ioq_empty_def empty_q_def)
  have g: "fst (get_buf (ioqueues s q)) = c" "ioq_items (snd (get_buf (ioqueues s q))) = cs"
    "ioq_ok (snd (get_buf (ioqueues s q)))"
    using ioq.get_items [OF ok items] ioq.ok_get [OF ok] by simp_all
  have i1: "sched_inv ?s1 T rs" and w1: "waiter_ok PRODUCER q T ?s1" using inv w by (simp_all add: waiter_ok_def)
  obtain s' where s': "wakeup_if_waiting q PRODUCER ?s1 = Inr s'"
    "sched_inv s' T (with_waiter (get_waiter PRODUCER (ioqueues ?s1 q)) rs)"
    "ioqueues s' = (ioqueues ?s1)(q := set_waiter PRODUCER NULL (ioqueues ?s1 q))"
    "running_thread s' = running_thread ?s1" "eflags s' = eflags ?s1" "lock_holder s' = lock_holder ?s1"
    "holder_repeat_nr s' = holder_repeat_nr ?s1" "ioqs.more s' = ioqs.more ?s1"
    using wakeup_if_waiting_spec [OF i1 w1] .
  have "ioq_getchar q s = Done c s'"
    using off s'(1) g(1) by (simp add: ioq_getchar_def kwhile_res_unfold empty)
  moreover have "producer (ioqueues s' q) = NULL" "consumer (ioqueues s' q) = consumer (ioqueues s q)"
    "ioq_items (ioqueues s' q) = cs" "ioq_ok (ioqueues s' q)"
    using g by (simp_all add: s'(3), simp_all add: set_waiter_def get_buf_def)
  ultimately show ?thesis using that [of s'] s'(2,4,5,6,7,8) by (simp add: get_waiter_def get_buf_def)
qed

lemma ioq_putchar_not_full:
  assumes inv: "sched_inv s T rs" and off: "get_intr_status s = INT_OFF" and ok: "ioq_ok (ioqueues s q)"
    and nf: "length (ioq_items (ioqueues s q)) < 63" and w: "waiter_ok CONSUMER q T s"
  obtains s' where "ioq_putchar q c s = Done () s'"
    and "ioq_items (ioqueues s' q) = ioq_items (ioqueues s q) @ [c]" and "ioq_ok (ioqueues s' q)"
    and "sched_inv s' T (with_waiter (consumer (ioqueues s q)) rs)"
    and "consumer (ioqueues s' q) = NULL" and "producer (ioqueues s' q) = producer (ioqueues s q)"
    and "running_thread s' = running_thread s" and "eflags s' = eflags s"
    and "lock_holder s' = lock_holder s" and "holder_repeat_nr s' = holder_repeat_nr s"
    and "ioqs.more s' = ioqs.more s"
proof -
  let ?s1 = "upd_ioq q (put_buf c) s"
  have nf': "\<not> full_q (ioqueues s q)" using ioq.full_iff [OF ok] nf by simp
  then have full: "ioq_full q s = Inr False" using off by (simp add: ioq_full_def full_q_def)
  have i1: "sched_inv ?s1 T rs" and w1: "waiter_ok CONSUMER q T ?s1" using inv w by (simp_all add: waiter_ok_def)
  obtain s' where s': "wakeup_if_waiting q CONSUMER ?s1 = Inr s'"
    "sched_inv s' T (with_waiter (get_waiter CONSUMER (ioqueues ?s1 q)) rs)"
    "ioqueues s' = (ioqueues ?s1)(q := set_waiter CONSUMER NULL (ioqueues ?s1 q))"
    "running_thread s' = running_thread ?s1" "eflags s' = eflags ?s1" "lock_holder s' = lock_holder ?s1"
    "holder_repeat_nr s' = holder_repeat_nr ?s1" "ioqs.more s' = ioqs.more ?s1"
    using wakeup_if_waiting_spec [OF i1 w1] .
  have "ioq_putchar q c s = Done () s'"
    using off s'(1) by (simp add: ioq_putchar_def kwhile_res_unfold full)
  moreover have "consumer (ioqueues s' q) = NULL" "producer (ioqueues s' q) = producer (ioqueues s q)"
    "ioq_items (ioqueues s' q) = ioq_items (ioqueues s q) @ [c]" "ioq_ok (ioqueues s' q)"
    using ioq.items_put [OF ok nf'] ioq.ok_put [OF ok]
    by (simp_all add: s'(3), simp_all add: set_waiter_def put_buf_def)
  ultimately show ?thesis using that [of s'] s'(2,4,5,6,7,8) by (simp add: get_waiter_def put_buf_def)
qed

section \<open>A reader waits for a character\<close>

text \<open>The part of \<open>ioq_getchar\<close> that a waiting reader has left when it is resumed.\<close>

definition getchar_resumed :: "addr \<Rightarrow> 'a ioqs_scheme \<Rightarrow> ('a ioqs_scheme, u8) kop" where
  "getchar_resumed q s =
     kbind (kbind (klift (lock_release q (snd (set_intr_status INT_OFF s))))
         (\<lambda>_. kwhile_res (ioq_empty q) (ioq_wait_locked q CONSUMER)))
       (\<lambda>_ s1. kbind (klift (wakeup_if_waiting q PRODUCER (upd_ioq q (\<lambda>q. snd (get_buf q)) s1)))
          (\<lambda>_ s2. Done (fst (get_buf (ioqueues s1 q))) s2))"

lemma ioq_getchar_empty:
  assumes inv: "lock_inv s T q rs ws" and L: "q \<noteq> NULL" and free: "lock_holder s q = NULL"
    and off: "get_intr_status s = INT_OFF" and ok: "ioq_ok (ioqueues s q)"
    and empty: "ioq_items (ioqueues s q) = []" and nc: "consumer (ioqueues s q) = NULL"
  obtains s' where "ioq_getchar q s = Block s' (getchar_resumed q)"
    and "lock_inv s' T q (tl (if rs = [] then [idle_thread s] else rs)) ws"
    and "running_thread s' = hd (if rs = [] then [idle_thread s] else rs)"
    and "get_intr_status s' = INT_OFF" and "lock_holder s' q = running_thread s" and "holder_repeat_nr s' q = 1"
    and "ioqueues s' = (ioqueues s)(q := (ioqueues s q)\<lparr>consumer := running_thread s\<rparr>)"
proof -
  have em: "ioq_empty q s = Inr True" using ioq.empty_iff [OF ok] empty off by (simp add: ioq_empty_def empty_q_def)
  have cur: "running_thread s \<noteq> NULL"
    using inv sched_wfD(3,5) [of s T rs] by (auto simp: lock_inv_def sched_inv_def)
  have dis: "snd (disable_intr s) = s" using disable_intr_off [OF off] by simp
  obtain s1 where s1: "lock_acquire q s = Done () s1" "lock_inv s1 T q rs ws" "lock_holder s1 q = running_thread s"
    "holder_repeat_nr s1 q = 1" "running_thread s1 = running_thread s" "idle_thread s1 = idle_thread s"
    "get_intr_status s1 = INT_OFF" "sync.more s1 = sync.more s"
    using acquire_from_free [OF inv free] lock_acquire_eq [OF L] free cur off dis by metis
  have iq: "ioqueues s1 = ioqueues s" by (rule sync_more_ioq(1) [OF s1(8)])
  let ?s2 = "upd_ioq q (set_waiter CONSUMER (running_thread s1)) s1"
  have inv2: "lock_inv ?s2 T q rs ws" using s1(2) by simp
  have b: "blocked_status TASK_BLOCKED" by (simp add: blocked_status_def)
  obtain s' where s': "thread_block TASK_BLOCKED ?s2 =
      Block s' (\<lambda>x. Done () (snd (set_intr_status (get_intr_status ?s2) x)))"
    "lock_inv s' T q (tl (if rs = [] then [idle_thread ?s2] else rs)) ws"
    "running_thread s' = hd (if rs = [] then [idle_thread ?s2] else rs)"
    "get_intr_status s' = INT_OFF" "threads.more s' = threads.more ?s2" "idle_thread s' = idle_thread ?s2"
    using lock_inv_block [OF inv2 b] .
  have "ioq_getchar q s = Block s' (getchar_resumed q)"
    using off s1(1,7) s'(1) nc iq
    by (simp add: ioq_getchar_def kwhile_res_unfold [of "ioq_empty q" _ s] em ioq_wait_locked_def
        ioq_wait_def get_waiter_def getchar_resumed_def fun_eq_iff)
  moreover have idle: "idle_thread ?s2 = idle_thread s" using s1(6) by simp
  note m = threads_more_ioq [OF s'(5)]
  have "ioqueues s' = (ioqueues s)(q := (ioqueues s q)\<lparr>consumer := running_thread s\<rparr>)"
    by (simp add: m(1) fun_eq_iff iq set_waiter_def s1(5))
  moreover have "lock_holder s' q = running_thread s" "holder_repeat_nr s' q = 1"
    using s1(3,4) by (simp_all add: m(2,3))
  ultimately show ?thesis using s'(2-4) unfolding idle by (intro that [of s'])
qed

lemma getchar_resumed_nonempty:
  assumes inv: "lock_inv s T q rs ws" and h: "lock_holder s q = running_thread s" "holder_repeat_nr s q = 1"
    and off: "get_intr_status s = INT_OFF" and ok: "ioq_ok (ioqueues s q)"
    and items: "ioq_items (ioqueues s q) = c # cs" and np: "producer (ioqueues s q) = NULL"
  obtains s' where "getchar_resumed q s = Done c s'" and "ioq_items (ioqueues s' q) = cs"
    and "lock_holder s' q = NULL" and "running_thread s' = running_thread s"
proof -
  have dis: "snd (set_intr_status INT_OFF s) = s" using set_intr_status_off [OF off] by simp
  let ?n = "holder_repeat_nr s q"
  obtain s1 where r: "lock_release q s = Inr s1"
    "lock_inv s1 T q (if ?n = 1 then take 1 ws @ rs else rs) (if ?n = 1 then drop 1 ws else ws)"
    "lock_holder s1 q = (if ?n = 1 then NULL else running_thread s)" "holder_repeat_nr s1 q = ?n - 1"
    "running_thread s1 = running_thread s" "idle_thread s1 = idle_thread s"
    "get_intr_status s1 = get_intr_status s" "sync.more s1 = sync.more s"
    using lock_release_spec [OF inv h(1)] .
  then have s1: "lock_release q s = Inr s1" "lock_inv s1 T q (take 1 ws @ rs) (drop 1 ws)"
    "lock_holder s1 q = NULL" "running_thread s1 = running_thread s"
    "get_intr_status s1 = INT_OFF" "sync.more s1 = sync.more s"
    using h(2) off by simp_all
  have iq: "ioqueues s1 = ioqueues s" by (rule sync_more_ioq(1) [OF s1(6)])
  have sinv: "sched_inv s1 T (take 1 ws @ rs)" using s1(2) by (simp add: lock_inv_def)
  have "ioq_ok (ioqueues s1 q)" "ioq_items (ioqueues s1 q) = c # cs" "waiter_ok PRODUCER q T s1"
    using ok items np by (simp_all add: iq waiter_ok_def get_waiter_def)
  from ioq_getchar_nonempty [OF sinv s1(5) this] obtain s' where
    s': "ioq_getchar q s1 = Done c s'" "ioq_items (ioqueues s' q) = cs"
    "running_thread s' = running_thread s1" "lock_holder s' = lock_holder s1" by metis
  have "getchar_resumed q s = ioq_getchar q s1"
    using s1(1,5) by (simp add: getchar_resumed_def ioq_getchar_def dis)
  then show ?thesis using that [of s'] s' s1(3,4) by simp
qed

section \<open>Claims\<close>

text \<open>
  C31: the ring buffer is a bounded FIFO of 63 characters. With interrupts off, \<open>ioq_putchar\<close> on a
  queue that holds fewer than 63 characters returns without waiting and the character is the last
  of the queue; \<open>ioq_getchar\<close> on a queue that is not empty returns the first character and takes it
  out; a waiting thread on the other side is woken and is the next to run.
\<close>

theorem ioq_fifo:
  assumes "sched_inv s T rs" and "get_intr_status s = INT_OFF" and "ioq_ok (ioqueues s q)"
    and "waiter_ok CONSUMER q T s" and "waiter_ok PRODUCER q T s"
  shows "length (ioq_items (ioqueues s q)) \<le> 63 \<and>
    (length (ioq_items (ioqueues s q)) < 63 \<longrightarrow>
       (\<exists>s'. ioq_putchar q c s = Done () s' \<and> ioq_ok (ioqueues s' q) \<and>
          ioq_items (ioqueues s' q) = ioq_items (ioqueues s q) @ [c] \<and> consumer (ioqueues s' q) = NULL \<and>
          sched_inv s' T (with_waiter (consumer (ioqueues s q)) rs))) \<and>
    (ioq_items (ioqueues s q) \<noteq> [] \<longrightarrow>
       (\<exists>s'. ioq_getchar q s = Done (hd (ioq_items (ioqueues s q))) s' \<and> ioq_ok (ioqueues s' q) \<and>
          ioq_items (ioqueues s' q) = tl (ioq_items (ioqueues s q)) \<and> producer (ioqueues s' q) = NULL \<and>
          sched_inv s' T (with_waiter (producer (ioqueues s q)) rs)))"
proof (intro conjI impI)
  show "length (ioq_items (ioqueues s q)) \<le> 63" by (rule ioq.bounded [OF assms(3)])
next
  assume "length (ioq_items (ioqueues s q)) < 63"
  from ioq_putchar_not_full [OF assms(1-3) this assms(4)]
  show "\<exists>s'. ioq_putchar q c s = Done () s' \<and> ioq_ok (ioqueues s' q) \<and>
      ioq_items (ioqueues s' q) = ioq_items (ioqueues s q) @ [c] \<and> consumer (ioqueues s' q) = NULL \<and>
      sched_inv s' T (with_waiter (consumer (ioqueues s q)) rs)" by metis
next
  assume "ioq_items (ioqueues s q) \<noteq> []"
  then have "ioq_items (ioqueues s q) = hd (ioq_items (ioqueues s q)) # tl (ioq_items (ioqueues s q))" by simp
  from ioq_getchar_nonempty [OF assms(1-3) this assms(5)]
  show "\<exists>s'. ioq_getchar q s = Done (hd (ioq_items (ioqueues s q))) s' \<and> ioq_ok (ioqueues s' q) \<and>
      ioq_items (ioqueues s' q) = tl (ioq_items (ioqueues s q)) \<and> producer (ioqueues s' q) = NULL \<and>
      sched_inv s' T (with_waiter (producer (ioqueues s q)) rs)" by metis
qed

text \<open>
  C32: a reader of an empty queue blocks, registered as the consumer; a character put meanwhile makes
  the reader the next thread to run; and when it is resumed with the queue untouched, it returns
  that character and has released the lock of the queue.
\<close>

theorem reader_gets_character:
  assumes inv: "lock_inv s T q rs ws" and "q \<noteq> NULL" and "lock_holder s q = NULL"
    and off: "get_intr_status s = INT_OFF" and ok: "ioq_ok (ioqueues s q)"
    and empty: "ioq_items (ioqueues s q) = []" and "consumer (ioqueues s q) = NULL"
    and np: "producer (ioqueues s q) = NULL" and ni: "running_thread s \<noteq> idle_thread s"
  shows "\<exists>s1 s2 rs2. ioq_getchar q s = Block s1 (getchar_resumed q) \<and>
    consumer (ioqueues s1 q) = running_thread s \<and>
    ioq_putchar q c s1 = Done () s2 \<and> sched_inv s2 T (running_thread s # rs2) \<and>
    (\<forall>s3 rs3 ws3. lock_inv s3 T q rs3 ws3 \<and> running_thread s3 = running_thread s \<and>
       get_intr_status s3 = INT_OFF \<and> threads.more s3 = threads.more s2 \<longrightarrow>
       (\<exists>s4. getchar_resumed q s3 = Done c s4 \<and> ioq_items (ioqueues s4 q) = [] \<and> lock_holder s4 q = NULL))"
proof -
  let ?cs = "if rs = [] then [idle_thread s] else rs" and ?c = "running_thread s"
  obtain s1 where s1: "ioq_getchar q s = Block s1 (getchar_resumed q)" "lock_inv s1 T q (tl ?cs) ws"
    "running_thread s1 = hd ?cs" "get_intr_status s1 = INT_OFF" "lock_holder s1 q = ?c"
    "holder_repeat_nr s1 q = 1" "ioqueues s1 = (ioqueues s)(q := (ioqueues s q)\<lparr>consumer := ?c\<rparr>)"
    using ioq_getchar_empty [OF inv assms(2,3) off ok empty assms(7)] .
  have si: "sched_inv s T rs" "sched_inv s1 T (tl ?cs)" using inv s1(2) by (simp_all add: lock_inv_def)
  have wf: "sched_wf s T rs" "sched_wf s1 T (tl ?cs)" using si by (simp_all add: sched_inv_def)
  have cT: "?c \<in> T" "?c \<noteq> NULL" using sched_wfD(3,5) [OF wf(1)] by auto
  have "?c \<notin> set (tl ?cs)" "?c \<noteq> running_thread s1"
    using sched_inv_not_ready [OF si(1)] ni unfolding s1(3) by (cases rs; simp)+
  then have bl: "blocked_status (task_status_of s1 ?c)"
    using sched_wfD(8,9,10) [OF wf(2) cT(1)] by (cases "task_status_of s1 ?c") (auto simp: blocked_status_def)
  have q1: "ioq_ok (ioqueues s1 q)" "ioq_items (ioqueues s1 q) = []" "waiter_ok CONSUMER q T s1"
    "producer (ioqueues s1 q) = NULL" "consumer (ioqueues s1 q) = ?c"
    using ok empty np cT bl by (simp_all add: s1(7) ioq_ok_def ioq_items_def waiter_ok_def get_waiter_def)
  have nf: "length (ioq_items (ioqueues s1 q)) < 63" by (simp add: q1(2))
  obtain s2 where p2: "ioq_putchar q c s1 = Done () s2" "ioq_items (ioqueues s2 q) = ioq_items (ioqueues s1 q) @ [c]"
    "ioq_ok (ioqueues s2 q)" "sched_inv s2 T (with_waiter (consumer (ioqueues s1 q)) (tl ?cs))"
    "consumer (ioqueues s2 q) = NULL" "producer (ioqueues s2 q) = producer (ioqueues s1 q)"
    "running_thread s2 = running_thread s1" "eflags s2 = eflags s1"
    "lock_holder s2 = lock_holder s1" "holder_repeat_nr s2 = holder_repeat_nr s1" "ioqs.more s2 = ioqs.more s1"
    using ioq_putchar_not_full [OF si(2) s1(4) q1(1) nf q1(3)] .
  note s2 = p2(1-4,6,9,10)
  have "\<exists>s4. getchar_resumed q s3 = Done c s4 \<and> ioq_items (ioqueues s4 q) = [] \<and> lock_holder s4 q = NULL"
    if "lock_inv s3 T q rs3 ws3" "running_thread s3 = ?c" "get_intr_status s3 = INT_OFF"
      "threads.more s3 = threads.more s2" for s3 rs3 ws3
  proof -
    note m = threads_more_ioq [OF that(4)]
    have "lock_holder s3 q = running_thread s3" "holder_repeat_nr s3 q = 1" "ioq_ok (ioqueues s3 q)"
      "ioq_items (ioqueues s3 q) = c # []" "producer (ioqueues s3 q) = NULL"
      using m s2 s1(5,6) q1 that(2) by simp_all
    from getchar_resumed_nonempty [OF that(1) this(1,2) that(3) this(3-5)] show ?thesis by metis
  qed
  moreover have "sched_inv s2 T (?c # tl ?cs)" using s2(4) q1(5) cT by (simp add: with_waiter_def)
  ultimately show ?thesis using s1(1) s2(1) q1(5) by blast
qed

text \<open>The sample system with a queue at 0xc0006000.\<close>

definition sample_ioqs :: ioqs where
  "sample_ioqs = cli (ioqueue_init 0xc0006000 (sync.extend sample_sync
     (ioqs.fields (\<lambda>_. \<lparr>producer = 1, consumer = 1, buf = replicate 64 0, head = 5, tail = 7\<rparr>))))"

lemma extend_sync_fields [simp]:
  "nodes (sync.extend s m) = nodes s" "tasks (sync.extend s m) = tasks s"
  "esp (sync.extend s m) = esp s" "cr3 (sync.extend s m) = cr3 s" "pmem (sync.extend s m) = pmem s"
  "idle_thread (sync.extend s m) = idle_thread s"
  "thread_ready_list (sync.extend s m) = thread_ready_list s"
  by (simp_all add: sync.extend_def)

lemma sched_inv_extend_sync: "sched_inv (sync.extend s m) T rs = sched_inv s T rs"
  by (simp add: sched_inv_def sched_wf_def ready_list_def running_thread_def kstack_ok_def task_space_ok_def)

lemma sample_ioqs_fields:
  "ioqueues sample_ioqs 0xc0006000 = \<lparr>producer = NULL, consumer = NULL, buf = replicate 64 0, head = 0, tail = 0\<rparr>"
  "lock_holder sample_ioqs 0xc0006000 = NULL" "running_thread sample_ioqs = 0xc009e000"
  "idle_thread sample_ioqs = 0xc0100000" "get_intr_status sample_ioqs = INT_OFF"
proof -
  show "ioqueues sample_ioqs 0xc0006000 = \<lparr>producer = NULL, consumer = NULL, buf = replicate 64 0, head = 0, tail = 0\<rparr>"
    by (simp add: sample_ioqs_def ioqueue_init_def cli_def lock_init_eq list_init_def set_sema_def
        set_holder_def set_repeat_def sync.extend_def ioqs.fields_def)
  show "lock_holder sample_ioqs 0xc0006000 = NULL" "idle_thread sample_ioqs = 0xc0100000"
    "running_thread sample_ioqs = 0xc009e000"
    by (simp_all add: sample_ioqs_def ioqueue_init_def cli_def lock_init_eq list_init_def set_sema_def
        set_holder_def set_repeat_def sample_sync_def running_thread_def upd_ioq_def)
  show "get_intr_status sample_ioqs = INT_OFF" by (simp add: sample_ioqs_def)
qed

lemma sample_ioqs_inv: "lock_inv sample_ioqs sample_T 0xc0006000 [0xc0101000] []"
proof -
  let ?s = "sync.extend sample_sync
     (ioqs.fields (\<lambda>_. \<lparr>producer = 1, consumer = 1, buf = replicate 64 0, head = 5, tail = 7\<rparr>))"
  have "sched_inv ?s sample_T [0xc0101000]" using sample_sync_inv by (simp only: sched_inv_extend_sync)
  moreover have "lock_placed 0xc0006000 sample_T ?s" using sample_lock_placed by (simp add: lock_placed_def)
  ultimately have "lock_inv (lock_init 0xc0006000 ?s) sample_T 0xc0006000 [0xc0101000] []"
    using lock_sys_invD(2) [OF lock_start_inv] by (fastforce simp: lock_start_def)
  then show ?thesis
    unfolding sample_ioqs_def ioqueue_init_def cli_def lock_inv_eflags upd_ioq_inv .
qed

theorem ioq_fifo_witness:
  "\<exists>s'. ioq_putchar 0xc0006000 0x41 sample_ioqs = Done () s' \<and> ioq_items (ioqueues s' 0xc0006000) = [0x41]"
proof -
  have e: "ioq_items (ioqueues sample_ioqs 0xc0006000) = []" by (simp add: sample_ioqs_fields ioq_items_def)
  have "sched_inv sample_ioqs sample_T [0xc0101000]" using sample_ioqs_inv by (simp add: lock_inv_def)
  moreover have "ioq_ok (ioqueues sample_ioqs 0xc0006000)" "waiter_ok CONSUMER 0xc0006000 sample_T sample_ioqs"
    "waiter_ok PRODUCER 0xc0006000 sample_T sample_ioqs"
    by (simp_all add: ioq_ok_def waiter_ok_def get_waiter_def sample_ioqs_fields)
  ultimately show ?thesis using ioq_fifo [OF _ sample_ioqs_fields(5)] e by fastforce
qed

theorem reader_gets_character_witness:
  "\<exists>s1 s2. ioq_getchar 0xc0006000 sample_ioqs = Block s1 (getchar_resumed 0xc0006000) \<and>
     consumer (ioqueues s1 0xc0006000) = 0xc009e000 \<and> ioq_putchar 0xc0006000 0x41 s1 = Done () s2"
proof -
  have "ioq_ok (ioqueues sample_ioqs 0xc0006000)" "ioq_items (ioqueues sample_ioqs 0xc0006000) = []"
    "consumer (ioqueues sample_ioqs 0xc0006000) = NULL" "producer (ioqueues sample_ioqs 0xc0006000) = NULL"
    "(0xc0006000 :: addr) \<noteq> NULL" "running_thread sample_ioqs \<noteq> idle_thread sample_ioqs"
    by (simp_all add: ioq_ok_def ioq_items_def sample_ioqs_fields)
  from reader_gets_character [OF sample_ioqs_inv this(5) sample_ioqs_fields(2,5) this(1-4,6)]
  show ?thesis unfolding sample_ioqs_fields(3) by blast
qed

end
