(* ===== verification/Timer.thy ===== *)
theory Timer
  imports Ioqueue Idt
begin

text \<open>
  \<^verbatim>\<open>device/timer.c\<close>: the tick counter, the interrupt handler that charges a tick to the running
  thread and preempts it when its slice is used up, sleeping, and the programming of the counter
  chip. \<open>irq\<close> is the state of \<^verbatim>\<open>kernel/interrupt.c\<close>.
\<close>

record timer = ioqs +
  irq :: irq_state
  total_ticks :: u32

definition ticks_to_sleep :: "u32 \<Rightarrow> 'a timer_scheme \<Rightarrow> ('a timer_scheme, unit) kop" where
  "ticks_to_sleep sleep_ticks s =
     (let start_tick = total_ticks s in
      kwhile (\<lambda>s. total_ticks s - start_tick < sleep_ticks) thread_yield s)"

text \<open>\<^verbatim>\<open>mil_seconds_per_intr\<close> is 1000 / 100.\<close>

definition mtime_sleep :: "u32 \<Rightarrow> 'a timer_scheme \<Rightarrow> ('a timer_scheme, unit) kop" where
  "mtime_sleep m_seconds s =
     (let sleep_ticks = DIV_ROUND_UP m_seconds (1000 div 100) in
      kassert (sleep_ticks > 0) ''sleep_ticks > 0'' (ticks_to_sleep sleep_ticks s))"

definition frequency_set :: "u8 \<Rightarrow> u8 \<Rightarrow> u8 \<Rightarrow> u8 \<Rightarrow> u16 \<Rightarrow> irq_state \<Rightarrow> irq_state" where
  "frequency_set counter_port counter_no rwl counter_mode counter_value s =
     outb (ucast counter_port) (ucast (drop_bit 8 counter_value))
      (outb (ucast counter_port) (ucast counter_value)
        (outb 0x43 (push_bit 6 counter_no OR push_bit 4 rwl OR push_bit 1 counter_mode) s))"

definition intr_timer_handler :: "'a timer_scheme \<Rightarrow> ('a timer_scheme, unit) kop" where
  "intr_timer_handler s =
     (let cur_thread = running_thread s in
      kassert (stack_magic (tasks s cur_thread) = 0x19870916) ''cur_thread->stack_magic == 0x19870916''
       (let s1 = s\<lparr>total_ticks := total_ticks s + 1\<rparr>;
            s2 = upd_task cur_thread (\<lambda>r. r\<lparr>elapsed_ticks := elapsed_ticks r + 1\<rparr>) s1
        in if ticks (tasks s2 cur_thread) = 0 then schedule s2
           else Done () (upd_task cur_thread (\<lambda>r. r\<lparr>ticks := ticks r - 1\<rparr>) s2)))"

definition timer_init :: "addr \<Rightarrow> 'a timer_scheme \<Rightarrow> 'a timer_scheme" where
  "timer_init handler s =
     s\<lparr>irq := register_handler 0x20 handler (frequency_set 0x40 0 3 2 (1193180 div 100) (irq s))\<rparr>"

section \<open>Lemmas\<close>

lemma upd_task_sched_inv:
  assumes "\<And>r. status (f r) = status r" "\<And>r. self_kstack (f r) = self_kstack r" "\<And>r. pgdir (f r) = pgdir r"
  shows "sched_inv (upd_task t f s) T rs = sched_inv s T rs"
proof -
  let ?s = "upd_task t f s"
  have e: "task_status_of ?s u = task_status_of s u" "self_kstack (tasks ?s u) = self_kstack (tasks s u)"
    "pgdir (tasks ?s u) = pgdir (tasks s u)" for u
    using assms by simp_all
  show ?thesis
    by (simp add: sched_inv_def sched_wf_def ready_list_def running_thread_def kstack_ok_def task_space_ok_def
        e del: upd_task_simps(1))
qed

lemma timer_fields [simp]:
  "running_thread (s\<lparr>total_ticks := n\<rparr>) = running_thread s"
  "get_intr_status (s\<lparr>total_ticks := n\<rparr>) = get_intr_status s"
  "sched_inv (s\<lparr>total_ticks := n\<rparr>) T rs = sched_inv s T rs"
  "total_ticks (upd_task t f s) = total_ticks s"
  "running_thread (upd_task t f s) = running_thread s"
  "get_intr_status (upd_task t f s) = get_intr_status s"
  by (simp_all add: running_thread_def get_intr_status_def sched_inv_def sched_wf_def ready_list_def
      kstack_ok_def task_space_ok_def upd_task_def)

text \<open>A tick with time left is charged and nothing else happens.\<close>

lemma timer_tick_charged:
  assumes "sched_inv s T rs" and "stack_magic (tasks s (running_thread s)) = 0x19870916"
    and "ticks (tasks s (running_thread s)) \<noteq> 0"
  obtains s' where "intr_timer_handler s = Done () s'" and "sched_inv s' T rs"
    and "running_thread s' = running_thread s" and "total_ticks s' = total_ticks s + 1"
    and "ticks (tasks s' (running_thread s)) = ticks (tasks s (running_thread s)) - 1"
    and "stack_magic (tasks s' (running_thread s)) = 0x19870916" and "get_intr_status s' = get_intr_status s"
proof -
  let ?c = "running_thread s"
  let ?s' = "upd_task ?c (\<lambda>r. r\<lparr>ticks := ticks r - 1\<rparr>)
    (upd_task ?c (\<lambda>r. r\<lparr>elapsed_ticks := elapsed_ticks r + 1\<rparr>) (s\<lparr>total_ticks := total_ticks s + 1\<rparr>))"
  have "intr_timer_handler s = Done () ?s'" using assms(2,3) by (simp add: intr_timer_handler_def Let_def)
  then show ?thesis using assms by (intro that [of ?s']) (simp_all add: upd_task_sched_inv)
qed

lemma timer_tick_preempts:
  assumes inv: "sched_inv s T rs" and "stack_magic (tasks s (running_thread s)) = 0x19870916"
    and "ticks (tasks s (running_thread s)) = 0" and off: "get_intr_status s = INT_OFF"
  obtains s' where "intr_timer_handler s = Block s' (\<lambda>s. Done () s)"
    and "sched_inv s' T (tl (rs @ [running_thread s]))" and "running_thread s' = hd (rs @ [running_thread s])"
proof -
  let ?s1 = "upd_task (running_thread s) (\<lambda>r. r\<lparr>elapsed_ticks := elapsed_ticks r + 1\<rparr>)
    (s\<lparr>total_ticks := total_ticks s + 1\<rparr>)"
  have inv1: "sched_inv ?s1 T rs" using inv by (simp add: upd_task_sched_inv)
  then have wf: "sched_wf ?s1 T rs" and run: "task_status_of ?s1 (running_thread ?s1) = TASK_RUNNING"
    by (simp_all add: sched_inv_def)
  have off1: "get_intr_status ?s1 = INT_OFF" using off by simp
  have c: "candidates ?s1 rs = rs @ [running_thread s]" using run by (simp add: candidates_def requeued_def)
  obtain s' where "schedule ?s1 = Block s' (\<lambda>s. Done () s)" "switched ?s1 s' T (rs @ [running_thread s])"
    using schedule_spec [OF wf off1] unfolding c by blast
  then show ?thesis using that [of s'] assms(2,3) by (simp add: intr_timer_handler_def Let_def switched_def)
qed

text \<open>\<open>n\<close> ticks in a row.\<close>

fun timer_ticks :: "nat \<Rightarrow> 'a timer_scheme \<Rightarrow> 'a timer_scheme option" where
  "timer_ticks 0 s = Some s"
| "timer_ticks (Suc n) s = (case intr_timer_handler s of Done x s' \<Rightarrow> timer_ticks n s' | _ \<Rightarrow> None)"

lemma timer_ticks_charged:
  assumes "sched_inv s T rs" and "stack_magic (tasks s (running_thread s)) = 0x19870916"
    and "n \<le> unat (ticks (tasks s (running_thread s)))"
  shows "\<exists>s'. timer_ticks n s = Some s' \<and> sched_inv s' T rs \<and> running_thread s' = running_thread s \<and>
    total_ticks s' = total_ticks s + of_nat n \<and>
    unat (ticks (tasks s' (running_thread s))) = unat (ticks (tasks s (running_thread s))) - n \<and>
    stack_magic (tasks s' (running_thread s)) = 0x19870916 \<and> get_intr_status s' = get_intr_status s"
  using assms
proof (induction n arbitrary: s)
  case (Suc n)
  let ?c = "running_thread s"
  have nz: "ticks (tasks s ?c) \<noteq> 0" using Suc.prems(3) by auto
  obtain s1 where s1: "intr_timer_handler s = Done () s1" "sched_inv s1 T rs" "running_thread s1 = ?c"
    "total_ticks s1 = total_ticks s + 1" "ticks (tasks s1 ?c) = ticks (tasks s ?c) - 1"
    "stack_magic (tasks s1 ?c) = 0x19870916" "get_intr_status s1 = get_intr_status s"
    using timer_tick_charged [OF Suc.prems(1,2) nz] .
  have u: "unat (ticks (tasks s1 ?c)) = unat (ticks (tasks s ?c)) - 1" using s1(5) nz by (simp add: unat_minus_one)
  have "n \<le> unat (ticks (tasks s1 ?c))" using u Suc.prems(3) by simp
  then obtain s' where "timer_ticks n s1 = Some s'" "sched_inv s' T rs" "running_thread s' = ?c"
    "total_ticks s' = total_ticks s1 + of_nat n" "unat (ticks (tasks s' ?c)) = unat (ticks (tasks s1 ?c)) - n"
    "stack_magic (tasks s' ?c) = 0x19870916" "get_intr_status s' = get_intr_status s1"
    using Suc.IH [OF s1(2)] s1(6) unfolding s1(3) by blast
  then show ?case using s1(1,4,7) unfolding u by (simp add: add.assoc)
qed simp

section \<open>Claims\<close>

text \<open>
  C33: a thread that has \<open>n\<close> ticks left is charged for exactly \<open>n\<close> timer interrupts and keeps the
  processor, and the next one preempts it in favour of the first thread of the ready list (or
  itself, if it is the only one), behind which it is queued.
\<close>

theorem timer_slice:
  assumes "sched_inv s T rs" and "stack_magic (tasks s (running_thread s)) = 0x19870916"
    and "get_intr_status s = INT_OFF" and "n = unat (ticks (tasks s (running_thread s)))"
  shows "\<exists>s' s''. timer_ticks n s = Some s' \<and> running_thread s' = running_thread s \<and>
    total_ticks s' = total_ticks s + of_nat n \<and> sched_inv s' T rs \<and>
    intr_timer_handler s' = Block s'' (\<lambda>s. Done () s) \<and>
    running_thread s'' = hd (rs @ [running_thread s]) \<and> sched_inv s'' T (tl (rs @ [running_thread s]))"
proof -
  let ?c = "running_thread s"
  have "n \<le> unat (ticks (tasks s ?c))" using assms(4) by simp
  then obtain s' where s': "timer_ticks n s = Some s'" "sched_inv s' T rs" "running_thread s' = ?c"
    "total_ticks s' = total_ticks s + of_nat n" "unat (ticks (tasks s' ?c)) = unat (ticks (tasks s ?c)) - n"
    "stack_magic (tasks s' ?c) = 0x19870916" "get_intr_status s' = get_intr_status s"
    using timer_ticks_charged [OF assms(1,2)] by blast
  have "ticks (tasks s' ?c) = 0" using s'(5) assms(4) by (simp add: unat_eq_zero)
  then obtain s'' where "intr_timer_handler s' = Block s'' (\<lambda>s. Done () s)"
    "sched_inv s'' T (tl (rs @ [?c]))" "running_thread s'' = hd (rs @ [?c])"
    using timer_tick_preempts [OF s'(2)] s'(3,6,7) assms(3) by metis
  then show ?thesis using s' by blast
qed

definition sample_timer :: timer where
  "sample_timer = ioqs.extend sample_ioqs (timer.fields sample_irq 7)"

lemma extend_ioqs_fields [simp]:
  "nodes (ioqs.extend s m) = nodes s" "tasks (ioqs.extend s m) = tasks s"
  "esp (ioqs.extend s m) = esp s" "cr3 (ioqs.extend s m) = cr3 s" "pmem (ioqs.extend s m) = pmem s"
  "idle_thread (ioqs.extend s m) = idle_thread s" "eflags (ioqs.extend s m) = eflags s"
  "thread_ready_list (ioqs.extend s m) = thread_ready_list s"
  by (simp_all add: ioqs.extend_def)

lemma sched_inv_extend_ioqs: "sched_inv (ioqs.extend s m) T rs = sched_inv s T rs"
  by (simp add: sched_inv_def sched_wf_def ready_list_def running_thread_def kstack_ok_def task_space_ok_def)

lemma sample_timer_facts:
  "sched_inv sample_timer sample_T [0xc0101000]" "running_thread sample_timer = 0xc009e000"
  "get_intr_status sample_timer = INT_OFF" "tasks sample_timer 0xc009e000 = sample_task 0xc009e000 TASK_RUNNING"
proof -
  show "sched_inv sample_timer sample_T [0xc0101000]"
    using sample_ioqs_inv by (simp add: sample_timer_def sched_inv_extend_ioqs lock_inv_def)
  show "running_thread sample_timer = 0xc009e000" "get_intr_status sample_timer = INT_OFF"
    using sample_ioqs_fields(3,5) by (simp_all add: sample_timer_def running_thread_def get_intr_status_def)
  show "tasks sample_timer 0xc009e000 = sample_task 0xc009e000 TASK_RUNNING"
    by (simp add: sample_timer_def sample_ioqs_def ioqueue_init_def cli_def upd_ioq_def lock_init_eq list_init_def
        set_sema_def set_holder_def set_repeat_def sample_sync_def)
qed

theorem timer_slice_witness:
  "\<exists>s' s''. timer_ticks 5 sample_timer = Some s' \<and> running_thread s' = 0xc009e000 \<and>
     intr_timer_handler s' = Block s'' (\<lambda>s. Done () s) \<and> running_thread s'' = 0xc0101000"
proof -
  have "stack_magic (tasks sample_timer (running_thread sample_timer)) = 0x19870916"
    "5 = unat (ticks (tasks sample_timer (running_thread sample_timer)))"
    by (simp_all add: sample_timer_facts sample_task_def)
  from timer_slice [OF sample_timer_facts(1) this(1) sample_timer_facts(3) this(2)]
  show ?thesis by (auto simp: sample_timer_facts)
qed



end
