(* ===== verification/Keyboard.thy ===== *)
theory Keyboard
  imports Timer
begin

text \<open>
  \<^verbatim>\<open>device/keyboard.c\<close>: the keyboard interrupt handler. The byte that \<^verbatim>\<open>inb(KBD_BUF_PORT)\<close> returns is an
  argument of the handler; the modifier keys are parts of the state; characters go to the ring
  buffer \<open>kbd_buf\<close>.
\<close>

record kbd = timer +
  ctrl_status :: bool
  shift_status :: bool
  alt_status :: bool
  caps_lock_status :: bool
  ext_scancode :: bool
  kbd_buf :: addr

text \<open>The second component is the character with shift.\<close>

definition keymap :: "(u8 \<times> u8) list" where
  "keymap = [
      (0x00, 0x00), (0x1b, 0x1b), (0x31, 0x21), (0x32, 0x40), (0x33, 0x23), (0x34, 0x24),
      (0x35, 0x25), (0x36, 0x5e), (0x37, 0x26), (0x38, 0x2a), (0x39, 0x28), (0x30, 0x29),
      (0x2d, 0x5f), (0x3d, 0x2b), (0x08, 0x08), (0x09, 0x09), (0x71, 0x51), (0x77, 0x57),
      (0x65, 0x45), (0x72, 0x52), (0x74, 0x54), (0x79, 0x59), (0x75, 0x55), (0x69, 0x49),
      (0x6f, 0x4f), (0x70, 0x50), (0x5b, 0x7b), (0x5d, 0x7d), (0x0d, 0x0d), (0x00, 0x00),
      (0x61, 0x41), (0x73, 0x53), (0x64, 0x44), (0x66, 0x46), (0x67, 0x47), (0x68, 0x48),
      (0x6a, 0x4a), (0x6b, 0x4b), (0x6c, 0x4c), (0x3b, 0x3a), (0x27, 0x22), (0x60, 0x7e),
      (0x00, 0x00), (0x5c, 0x7c), (0x7a, 0x5a), (0x78, 0x58), (0x63, 0x43), (0x76, 0x56),
      (0x62, 0x42), (0x6e, 0x4e), (0x6d, 0x4d), (0x2c, 0x3c), (0x2e, 0x3e), (0x2f, 0x3f),
      (0x00, 0x00), (0x2a, 0x2a), (0x00, 0x00), (0x20, 0x20), (0x00, 0x00)]"

abbreviation (input) shift_l_make :: u16 where "shift_l_make \<equiv> 0x2a"
abbreviation (input) shift_r_make :: u16 where "shift_r_make \<equiv> 0x36"
abbreviation (input) alt_l_make :: u16 where "alt_l_make \<equiv> 0x38"
abbreviation (input) alt_r_make :: u16 where "alt_r_make \<equiv> 0xe038"
abbreviation (input) ctrl_l_make :: u16 where "ctrl_l_make \<equiv> 0x1d"
abbreviation (input) ctrl_r_make :: u16 where "ctrl_r_make \<equiv> 0xe01d"
abbreviation (input) caps_lock_make :: u16 where "caps_lock_make \<equiv> 0x3a"

section \<open>The handler\<close>

definition release_modifiers :: "u16 \<Rightarrow> 'a kbd_scheme \<Rightarrow> 'a kbd_scheme" where
  "release_modifiers make_code s =
     (let s1 = if make_code = ctrl_l_make \<or> make_code = ctrl_r_make then s\<lparr>ctrl_status := False\<rparr> else s;
          s2 = if make_code = shift_l_make \<or> make_code = shift_r_make then s1\<lparr>shift_status := False\<rparr> else s1
      in if make_code = alt_l_make \<or> make_code = alt_r_make then s2\<lparr>alt_status := False\<rparr> else s2)"

definition press_modifiers :: "u16 \<Rightarrow> 'a kbd_scheme \<Rightarrow> 'a kbd_scheme" where
  "press_modifiers scancode s =
     (if scancode = ctrl_l_make \<or> scancode = ctrl_r_make then s\<lparr>ctrl_status := True\<rparr>
      else if scancode = shift_l_make \<or> scancode = shift_r_make then s\<lparr>shift_status := True\<rparr>
      else if scancode = alt_l_make \<or> scancode = alt_r_make then s\<lparr>alt_status := True\<rparr>
      else if scancode = caps_lock_make then s\<lparr>caps_lock_status := \<not> caps_lock_status s\<rparr>
      else s)"

text \<open>The keys with two characters that are not letters.\<close>

definition two_chars :: "u16 \<Rightarrow> bool" where
  "two_chars scancode \<longleftrightarrow> scancode < 0x0e \<or> scancode = 0x1a \<or> scancode = 0x1b \<or> scancode = 0x2b \<or>
     (scancode < 0x2a \<and> scancode > 0x26) \<or> (scancode < 0x36 \<and> scancode > 0x32)"

definition shifted :: "u16 \<Rightarrow> bool \<Rightarrow> bool \<Rightarrow> bool" where
  "shifted scancode shift_down_last caps_lock_last =
     (if two_chars scancode then (if shift_down_last then True else False)
      else if shift_down_last \<and> caps_lock_last then False
      else if shift_down_last \<or> caps_lock_last then True
      else False)"

definition store_char :: "u8 \<Rightarrow> 'a kbd_scheme \<Rightarrow> ('a kbd_scheme, unit) kop" where
  "store_char cur_char s =
     (case ioq_full (kbd_buf s) s of
        Inl e \<Rightarrow> Halt e
      | Inr full \<Rightarrow> if \<not> full then ioq_putchar (kbd_buf s) cur_char s else Done () s)"

definition intr_keyboard_handler :: "u8 \<Rightarrow> 'a kbd_scheme \<Rightarrow> ('a kbd_scheme, unit) kop" where
  "intr_keyboard_handler input s =
     (let shift_down_last = shift_status s;
          caps_lock_last = caps_lock_status s;
          code = ucast input :: u16
      in if code = 0xe000 then Done () (s\<lparr>ext_scancode := True\<rparr>)
         else
          let (scancode, s1) =
                if ext_scancode s then (0xe000 OR code, s\<lparr>ext_scancode := False\<rparr>) else (code, s)
          in if scancode AND 0x0080 \<noteq> 0 then Done () (release_modifiers (scancode AND 0xff7f) s1)
             else if (scancode > 0x00 \<and> scancode < 0x3b) \<or> scancode = alt_r_make \<or> scancode = ctrl_r_make then
               let shift = shifted scancode shift_down_last caps_lock_last;
                   low = scancode AND 0x00ff;
                   index = ucast low :: u8;
                   entry = keymap ! unat index;
                   cur_char = if shift then snd entry else fst entry
               in if cur_char \<noteq> 0 then store_char cur_char s1
                  else Done () (press_modifiers low s1)
             else Done () s1)"

definition keyboard_init :: "addr \<Rightarrow> 'a kbd_scheme \<Rightarrow> 'a kbd_scheme" where
  "keyboard_init handler s =
     (let s1 = ioqueue_init (kbd_buf s) s in s1\<lparr>irq := register_handler 0x21 handler (irq s1)\<rparr>)"

section \<open>The table\<close>

definition is_lower :: "u8 \<Rightarrow> bool" where
  "is_lower c \<longleftrightarrow> 0x61 \<le> c \<and> c \<le> 0x7a"

text \<open>The letters are exactly the keys whose two characters differ by case and that \<open>two_chars\<close>
  leaves out; every other key that caps lock could reach has one character.\<close>

definition entry_ok :: "nat \<Rightarrow> bool" where
  "entry_ok i \<longleftrightarrow> (let e = keymap ! i in
     if is_lower (fst e) then \<not> two_chars (of_nat i) \<and> snd e = fst e - 0x20
     else two_chars (of_nat i) \<or> fst e = snd e) \<and> (fst (keymap ! i) = 0 \<longleftrightarrow> snd (keymap ! i) = 0)"

lemma keymap_entries: "list_all entry_ok [0..<59]"
  by (simp add: upt_rec entry_ok_def keymap_def is_lower_def two_chars_def Let_def)

lemma keymap_length [simp]: "length keymap = 59"
  by (simp add: keymap_def)

lemma entry_ok_less: "i < 59 \<Longrightarrow> entry_ok i"
  using keymap_entries by (simp add: list_all_iff)

text \<open>What a key means to the user.\<close>

definition key_char :: "u8 \<Rightarrow> bool \<Rightarrow> bool \<Rightarrow> u8" where
  "key_char code shift caps =
     (let e = keymap ! unat code in
      if is_lower (fst e) then (if shift \<noteq> caps then fst e - 0x20 else fst e)
      else if shift then snd e else fst e)"

lemma shifted_key_char:
  assumes "unat code < 59"
  shows "(if shifted (ucast code) sh ca then snd (keymap ! unat code) else fst (keymap ! unat code)) =
    key_char code sh ca"
proof -
  have "(of_nat (unat code) :: u16) = ucast code" by (simp add: of_nat_unat)
  then show ?thesis using entry_ok_less [OF assms]
    by (auto simp: entry_ok_def key_char_def shifted_def Let_def split: if_splits)
qed

section \<open>Scan codes\<close>

lemma unat_code16: "unat (ucast (code :: u8) :: u16) = unat code"
  using unsigned_less [of code, where ?'a = nat] by (simp add: unsigned_ucast_eq take_bit_nat_eq_self)

lemma code16_less: "(ucast (code :: u8) :: u16) < 0x100"
  using unsigned_less [of code, where ?'a = nat] by (simp add: word_less_nat_alt unat_code16)

lemma code16_not_ext: "(ucast (code :: u8) :: u16) \<noteq> 0xe000" "(ucast code :: u16) \<noteq> 0xe038"
  "(ucast code :: u16) \<noteq> 0xe01d"
  using code16_less [of code] by auto

lemma code16_break: "(ucast (code :: u8) AND 0x0080 :: u16) \<noteq> 0 \<longleftrightarrow> unat code \<ge> 128"
proof -
  have "(0x0080 :: u16) = push_bit 7 1" by simp
  then have "(ucast code AND 0x0080 :: u16) \<noteq> 0 \<longleftrightarrow> bit (ucast code :: u16) 7"
    by (simp only: bit_iff_and_push_bit_not_eq_0)
  also have "\<dots> \<longleftrightarrow> bit (unat code) 7" by (simp add: bit_unsigned_iff)
  also have "\<dots> \<longleftrightarrow> odd (unat code div 128)" by (simp add: bit_iff_odd)
  also have "\<dots> \<longleftrightarrow> unat code \<ge> 128"
  proof -
    have "unat code < 256" using unsigned_less [of code, where ?'a = nat] by simp
    then have "unat code div 128 < 2" by (intro less_mult_imp_div_less) simp
    then have "unat code div 128 = 0 \<or> unat code div 128 = 1" by linarith
    then show ?thesis by (auto simp: div_eq_0_iff)
  qed
  finally show ?thesis .
qed

lemma code16_low: "(ucast (code :: u8) AND 0x00ff :: u16) = ucast code"
proof -
  have m: "(0x00ff :: u16) = mask 8" by (simp add: mask_eq_exp_minus_1)
  show ?thesis unfolding m
    by (rule bit_word_eqI) (auto simp: bit_and_iff bit_mask_iff bit_unsigned_iff dest: bit_imp_le_length)
qed

lemma code8_of_16: "ucast (ucast (code :: u8) :: u16) = code"
  by (rule bit_word_eqI) (simp add: bit_unsigned_iff)

text \<open>The handler without the prefix branch, which no byte reaches.\<close>

lemma handler_make:
  assumes "\<not> ext_scancode s" and "0 < unat code" and "unat code < 59"
  shows "intr_keyboard_handler code s =
    (if key_char code (shift_status s) (caps_lock_status s) \<noteq> 0
     then store_char (key_char code (shift_status s) (caps_lock_status s)) s
     else Done () (press_modifiers (ucast code) s))"
proof -
  have "(ucast code :: u16) > 0" "(ucast code :: u16) < 0x3b"
    using assms(2,3) by (simp_all add: word_less_nat_alt unat_code16)
  moreover have "\<not> (ucast code AND 0x0080 :: u16) \<noteq> 0" using code16_break [of code] assms(3) by simp
  ultimately show ?thesis
    using assms(1) unfolding shifted_key_char [OF assms(3), symmetric]
    by (simp add: intr_keyboard_handler_def Let_def code16_not_ext code16_low code8_of_16)
qed

lemma handler_break:
  assumes "\<not> ext_scancode s" and "unat code \<ge> 128"
  shows "intr_keyboard_handler code s = Done () (release_modifiers (ucast code AND 0xff7f) s)"
  using assms code16_break [of code] by (simp add: intr_keyboard_handler_def Let_def code16_not_ext)

lemma handler_unknown:
  assumes "\<not> ext_scancode s" and "unat code < 128" and "\<not> (0 < unat code \<and> unat code < 59)"
  shows "intr_keyboard_handler code s = Done () s"
proof -
  have "\<not> ((ucast code :: u16) > 0 \<and> (ucast code :: u16) < 0x3b)"
    using assms(3) by (simp add: word_less_nat_alt unat_code16)
  moreover have "\<not> (ucast code AND 0x0080 :: u16) \<noteq> 0" using code16_break [of code] assms(2) by simp
  ultimately show ?thesis using assms(1) by (auto simp: intr_keyboard_handler_def Let_def code16_not_ext)
qed

section \<open>Claims\<close>

lemma kbd_more_fields:
  assumes "timer.more s' = timer.more (s :: 'a kbd_scheme)"
  shows "shift_status s' = shift_status s" "caps_lock_status s' = caps_lock_status s"
    "ctrl_status s' = ctrl_status s" "alt_status s' = alt_status s" "ext_scancode s' = ext_scancode s"
    "kbd_buf s' = kbd_buf s"
  using assms by (cases s; cases s'; simp)+

lemma release_modifiers_inv:
  "sched_inv (release_modifiers m s) T rs = sched_inv s T rs" "ioqueues (release_modifiers m s) = ioqueues s"
  "ext_scancode (release_modifiers m s) = ext_scancode s" "kbd_buf (release_modifiers m s) = kbd_buf s"
  "caps_lock_status (release_modifiers m s) = caps_lock_status s"
  by (simp_all add: release_modifiers_def Let_def sched_inv_def sched_wf_def ready_list_def running_thread_def
      kstack_ok_def task_space_ok_def)

lemma press_modifiers_inv:
  "sched_inv (press_modifiers m s) T rs = sched_inv s T rs" "ioqueues (press_modifiers m s) = ioqueues s"
  "ext_scancode (press_modifiers m s) = ext_scancode s" "kbd_buf (press_modifiers m s) = kbd_buf s"
  by (simp_all add: press_modifiers_def sched_inv_def sched_wf_def ready_list_def running_thread_def
      kstack_ok_def task_space_ok_def)

definition kbd_ok :: "'a kbd_scheme \<Rightarrow> addr set \<Rightarrow> addr list \<Rightarrow> bool" where
  "kbd_ok s T rs \<longleftrightarrow> sched_inv s T rs \<and> get_intr_status s = INT_OFF \<and> \<not> ext_scancode s \<and>
     ioq_ok (ioqueues s (kbd_buf s)) \<and> waiter_ok CONSUMER (kbd_buf s) T s"

abbreviation kbd_items :: "'a kbd_scheme \<Rightarrow> u8 list" where
  "kbd_items s \<equiv> ioq_items (ioqueues s (kbd_buf s))"

lemma ioqs_more_timer:
  assumes "ioqs.more s' = ioqs.more (s :: 'a timer_scheme)"
  shows "timer.more s' = timer.more s"
  using assms by (cases s; cases s'; simp)

lemma store_char_spec:
  assumes "kbd_ok s T rs"
  obtains s' where "store_char c s = Done () s'"
    and "kbd_items s' = (if length (kbd_items s) < 63 then kbd_items s @ [c] else kbd_items s)"
    and "timer.more s' = timer.more s" and "\<exists>rs'. sched_inv s' T rs'"
proof (cases "length (kbd_items s) < 63")
  case True
  let ?q = "kbd_buf s"
  have k: "sched_inv s T rs" "get_intr_status s = INT_OFF" "ioq_ok (ioqueues s ?q)" "waiter_ok CONSUMER ?q T s"
    using assms by (simp_all add: kbd_ok_def)
  have "\<not> full_q (ioqueues s ?q)" using ioq.full_iff [OF k(3)] True by simp
  then have full: "ioq_full ?q s = Inr False" using k(2) by (simp add: ioq_full_def full_q_def)
  obtain s' where s': "ioq_putchar ?q c s = Done () s'" "ioq_items (ioqueues s' ?q) = kbd_items s @ [c]"
    "ioqs.more s' = ioqs.more s" "\<exists>rs'. sched_inv s' T rs'"
    using ioq_putchar_not_full [OF k(1-3) True k(4), of c] by blast
  note m = ioqs_more_timer [OF s'(3)]
  show ?thesis using that [of s'] s' True full m kbd_more_fields(6) [OF m] by (simp add: store_char_def)
next
  case False
  have k: "get_intr_status s = INT_OFF" "ioq_ok (ioqueues s (kbd_buf s))" "sched_inv s T rs"
    using assms by (simp_all add: kbd_ok_def)
  have "full_q (ioqueues s (kbd_buf s))" using ioq.full_iff [OF k(2)] ioq.bounded [OF k(2)] False by simp
  then have "ioq_full (kbd_buf s) s = Inr True" using k(1) by (simp add: ioq_full_def full_q_def)
  then show ?thesis using that [of s] False k(3) by (auto simp: store_char_def)
qed

text \<open>
  C35: a key that has a character stores, if the buffer has room, exactly the character it stands
  for: a letter in upper case if exactly one of shift and caps lock is on, any other key its second
  character if shift is on, whatever caps lock says; the modifiers stay as they are. If the buffer
  is full the key is dropped.
\<close>

theorem keyboard_translates:
  assumes "kbd_ok s T rs" and "0 < unat code" and "unat code < 59" and "fst (keymap ! unat code) \<noteq> 0"
  shows "\<exists>s'. intr_keyboard_handler code s = Done () s' \<and>
    kbd_items s' = (if length (kbd_items s) < 63
      then kbd_items s @ [key_char code (shift_status s) (caps_lock_status s)] else kbd_items s) \<and>
    shift_status s' = shift_status s \<and> caps_lock_status s' = caps_lock_status s"
proof -
  have "key_char code (shift_status s) (caps_lock_status s) \<noteq> 0"
    using entry_ok_less [OF assms(3)] assms(4) shifted_key_char [OF assms(3), of "shift_status s" "caps_lock_status s"]
    by (auto simp: entry_ok_def split: if_splits)
  moreover obtain s' where s': "store_char (key_char code (shift_status s) (caps_lock_status s)) s = Done () s'"
    "kbd_items s' = (if length (kbd_items s) < 63
      then kbd_items s @ [key_char code (shift_status s) (caps_lock_status s)] else kbd_items s)"
    "timer.more s' = timer.more s"
    using store_char_spec [OF assms(1), of "key_char code (shift_status s) (caps_lock_status s)"] by blast
  moreover have "\<not> ext_scancode s" using assms(1) by (simp add: kbd_ok_def)
  ultimately have "intr_keyboard_handler code s = Done () s'" using handler_make [OF _ assms(2,3), of s] by simp
  then show ?thesis using s'(2) kbd_more_fields(1,2) [OF s'(3)] by blast
qed

text \<open>
  C36: the handler accepts every byte. It never blocks, halts or loses the scheduling invariant; the
  buffer grows by at most one character; and the flag for extended scan codes is never set, because
  the byte read from the port is never 0xe000.
\<close>

theorem keyboard_handler_total:
  assumes "kbd_ok s T rs"
  shows "\<exists>s' rs' cs. intr_keyboard_handler code s = Done () s' \<and> sched_inv s' T rs' \<and>
    kbd_items s' = kbd_items s @ cs \<and> length cs \<le> 1 \<and> \<not> ext_scancode s'"
proof -
  have k: "\<not> ext_scancode s" "sched_inv s T rs" using assms by (simp_all add: kbd_ok_def)
  consider "unat code \<ge> 128" | "unat code < 128" "\<not> (0 < unat code \<and> unat code < 59)"
    | "0 < unat code" "unat code < 59" by linarith
  then show ?thesis
  proof cases
    case 1
    then show ?thesis using handler_break [OF k(1) 1] k by (auto simp: release_modifiers_inv)
  next
    case 2
    then show ?thesis using handler_unknown [OF k(1) 2] k by auto
  next
    case 3
    show ?thesis
    proof (cases "key_char code (shift_status s) (caps_lock_status s) = 0")
      case True
      then show ?thesis using handler_make [OF k(1) 3] k by (auto simp: press_modifiers_inv)
    next
      case False
      obtain s' where s': "store_char (key_char code (shift_status s) (caps_lock_status s)) s = Done () s'"
        "kbd_items s' = (if length (kbd_items s) < 63
          then kbd_items s @ [key_char code (shift_status s) (caps_lock_status s)] else kbd_items s)"
        "timer.more s' = timer.more s" "\<exists>rs'. sched_inv s' T rs'"
        using store_char_spec [OF assms] by blast
      have "\<exists>cs. kbd_items s' = kbd_items s @ cs \<and> length cs \<le> 1"
        using s'(2) by (cases "length (kbd_items s) < 63") auto
      then show ?thesis
        using handler_make [OF k(1) 3] False s'(1,4) kbd_more_fields(5) [OF s'(3)] k(1) by auto
    qed
  qed
qed

text \<open>
  The modifier keys. Either shift key is on from its make code to its break code, ctrl and alt
  likewise, and every make code of caps lock inverts the caps lock flag while its break code does
  not; none of them stores a character.
\<close>

theorem keyboard_modifiers:
  assumes "\<not> ext_scancode s"
  shows "(\<forall>code\<in>{0x2a, 0x36}. intr_keyboard_handler code s = Done () (s\<lparr>shift_status := True\<rparr>)) \<and>
    (\<forall>code\<in>{0xaa, 0xb6}. intr_keyboard_handler code s = Done () (s\<lparr>shift_status := False\<rparr>)) \<and>
    intr_keyboard_handler 0x1d s = Done () (s\<lparr>ctrl_status := True\<rparr>) \<and>
    intr_keyboard_handler 0x9d s = Done () (s\<lparr>ctrl_status := False\<rparr>) \<and>
    intr_keyboard_handler 0x38 s = Done () (s\<lparr>alt_status := True\<rparr>) \<and>
    intr_keyboard_handler 0xb8 s = Done () (s\<lparr>alt_status := False\<rparr>) \<and>
    intr_keyboard_handler 0x3a s = Done () (s\<lparr>caps_lock_status := \<not> caps_lock_status s\<rparr>) \<and>
    intr_keyboard_handler 0xba s = Done () s"
  using assms
  by (simp add: handler_make handler_break key_char_def keymap_def is_lower_def press_modifiers_def
      release_modifiers_def Let_def)

definition sample_kbd :: kbd where
  "sample_kbd = timer.extend sample_timer (kbd.fields False True False True False 0xc0006000)"

lemma extend_timer_fields [simp]:
  "nodes (timer.extend s m) = nodes s" "tasks (timer.extend s m) = tasks s"
  "esp (timer.extend s m) = esp s" "cr3 (timer.extend s m) = cr3 s" "pmem (timer.extend s m) = pmem s"
  "idle_thread (timer.extend s m) = idle_thread s" "eflags (timer.extend s m) = eflags s"
  "thread_ready_list (timer.extend s m) = thread_ready_list s" "ioqueues (timer.extend s m) = ioqueues s"
  by (simp_all add: timer.extend_def)

lemma sched_inv_extend_timer: "sched_inv (timer.extend s m) T rs = sched_inv s T rs"
  by (simp add: sched_inv_def sched_wf_def ready_list_def running_thread_def kstack_ok_def task_space_ok_def)

lemma sample_kbd_fields:
  "\<not> ext_scancode sample_kbd" "shift_status sample_kbd" "caps_lock_status sample_kbd" "kbd_buf sample_kbd = 0xc0006000"
  "ioqueues sample_kbd 0xc0006000 = \<lparr>producer = NULL, consumer = NULL, buf = replicate 64 0, head = 0, tail = 0\<rparr>"
proof -
  show "\<not> ext_scancode sample_kbd" "shift_status sample_kbd" "caps_lock_status sample_kbd" "kbd_buf sample_kbd = 0xc0006000"
    by (simp_all add: sample_kbd_def timer.extend_def kbd.fields_def)
  have "ioqueues sample_timer = ioqueues sample_ioqs" by (simp add: sample_timer_def ioqs.extend_def)
  then show "ioqueues sample_kbd 0xc0006000 = \<lparr>producer = NULL, consumer = NULL, buf = replicate 64 0, head = 0, tail = 0\<rparr>"
    by (simp add: sample_kbd_def sample_ioqs_fields)
qed

lemma sample_kbd_ok: "kbd_ok sample_kbd sample_T [0xc0101000]" and sample_kbd_items: "kbd_items sample_kbd = []"
proof -
  have "sched_inv sample_kbd sample_T [0xc0101000]" "get_intr_status sample_kbd = INT_OFF"
    using sample_timer_facts(1,3) by (simp_all add: sample_kbd_def sched_inv_extend_timer get_intr_status_def)
  then show "kbd_ok sample_kbd sample_T [0xc0101000]"
    by (simp add: kbd_ok_def sample_kbd_fields ioq_ok_def waiter_ok_def get_waiter_def)
  show "kbd_items sample_kbd = []" by (simp add: sample_kbd_fields ioq_items_def)
qed

theorem keyboard_translates_witness:
  "\<exists>s'. intr_keyboard_handler 0x1e sample_kbd = Done () s' \<and> kbd_items s' = [0x61]"
proof -
  have "fst (keymap ! unat (0x1e :: u8)) \<noteq> 0" "key_char 0x1e True True = 0x61"
    by (simp_all add: keymap_def key_char_def is_lower_def)
  then show ?thesis
    using keyboard_translates [OF sample_kbd_ok, of "0x1e"] sample_kbd_items sample_kbd_fields(2,3) by auto
qed

theorem keyboard_handler_total_witness:
  "\<exists>s'. intr_keyboard_handler 0xe0 sample_kbd = Done () s' \<and> \<not> ext_scancode s'"
  using keyboard_handler_total [OF sample_kbd_ok, of "0xe0"] by blast

theorem keyboard_modifiers_witness:
  "intr_keyboard_handler 0xaa sample_kbd = Done () (sample_kbd\<lparr>shift_status := False\<rparr>)"
  using keyboard_modifiers [OF sample_kbd_fields(1)] by simp

end
