(* ===== verification/Memory.thy ===== *)
theory Memory
  imports Keyboard
begin

text \<open>
  \<^verbatim>\<open>kernel/memory.c\<close>, the page allocator: two pools of physical frames, the kernel's and each
  process's pool of virtual pages, page-table entries, and the operations that allocate, map,
  unmap and free whole pages. The bitmaps of the pools are in byte memory; the entries of page
  tables and directories are words of physical memory, reached through the directory in \<open>cr3\<close>.
  Output to the screen is left out.
\<close>

section \<open>State\<close>

datatype pool_flags = PF_KERNEL | PF_USER

text \<open>The member \<^verbatim>\<open>lock\<close> is given by its address.\<close>

record pool =
  pool_bitmap :: bitmap
  phy_addr_start :: u32
  pool_size :: u32
  pool_lock :: addr

record mem_block_desc =
  mem_block_size :: u32
  blocks_per_arena :: u32

record arena =
  desc :: addr
  cnt :: u32
  large :: bool

text \<open>
  \<open>block_descs\<close> and \<open>arenas\<close> are typed stores by address, used by the block allocator;
  \<open>k_block_desc\<close> is the address of the kernel's array of descriptors.
\<close>

record kmem = kbd +
  kernel_pool :: pool
  user_pool :: pool
  kernel_vaddr :: virtual_addr
  k_block_desc :: addr
  block_descs :: "addr \<Rightarrow> mem_block_desc"
  arenas :: "addr \<Rightarrow> arena"

abbreviation (input) MEM_BITMAP_BASE :: addr where "MEM_BITMAP_BASE \<equiv> 0xc009a000"
abbreviation (input) K_HEAP_START :: addr where "K_HEAP_START \<equiv> 0xc0100000"

definition upd_mem :: "(mem \<Rightarrow> mem res) \<Rightarrow> 'a machine_scheme \<Rightarrow> 'a machine_scheme res" where
  "upd_mem f s = res_bind (f (mem s)) (\<lambda>m. Inr (s\<lparr>mem := m\<rparr>))"

section \<open>Virtual pages\<close>

text \<open>\<^verbatim>\<open>while(cnt < pg_cnt) bitmap_set(btmp, bit_idx_start + cnt++, value)\<close>\<close>

primrec bitmap_set_loop :: "bitmap \<Rightarrow> u8 \<Rightarrow> nat \<Rightarrow> u32 \<Rightarrow> mem \<Rightarrow> mem res" where
  "bitmap_set_loop btmp value 0 bit_idx m = Inr m"
| "bitmap_set_loop btmp value (Suc n) bit_idx m =
     res_bind (bitmap_set btmp bit_idx value m) (bitmap_set_loop btmp value n (bit_idx + 1))"

text \<open>The pool of virtual pages that \<open>pf\<close> stands for in the running thread.\<close>

definition vaddr_pool :: "pool_flags \<Rightarrow> 'a kmem_scheme \<Rightarrow> virtual_addr" where
  "vaddr_pool pf s =
     (if pf = PF_KERNEL then kernel_vaddr s else userprog_vaddr (tasks s (running_thread s)))"

definition vaddr_get :: "pool_flags \<Rightarrow> u32 \<Rightarrow> 'a kmem_scheme \<Rightarrow> (addr \<times> 'a kmem_scheme) res" where
  "vaddr_get pf pg_cnt s =
     (let va = vaddr_pool pf s; btmp = vaddr_bitmap va in
      res_bind (bitmap_scan btmp pg_cnt (mem s)) (\<lambda>bit_idx_start.
        if bit_idx_start = - 1 then Inr (NULL, s)
        else res_bind (upd_mem (bitmap_set_loop btmp 1 (unat pg_cnt) bit_idx_start) s) (\<lambda>s1.
          let vaddr = vaddr_start va + bit_idx_start * PG_SIZE in
          if pf = PF_KERNEL then Inr (vaddr, s1)
          else assertion (vaddr < 0xc0000000 - PG_SIZE) ''(uint32_t)vaddr_start < (0xc0000000 - PG_SIZE)''
                (Inr (vaddr, s1)))))"

definition vaddr_remove :: "pool_flags \<Rightarrow> addr \<Rightarrow> u32 \<Rightarrow> 'a kmem_scheme \<Rightarrow> 'a kmem_scheme res" where
  "vaddr_remove pf vaddr pg_cnt s =
     (let va = vaddr_pool pf s; bit_idx = (vaddr - vaddr_start va) div PG_SIZE
      in upd_mem (bitmap_set_loop (vaddr_bitmap va) 0 (unat pg_cnt) bit_idx) s)"

section \<open>Physical frames\<close>

definition the_pool :: "pool_flags \<Rightarrow> 'a kmem_scheme \<Rightarrow> pool" where
  "the_pool pf s = (if pf = PF_KERNEL then kernel_pool s else user_pool s)"

definition palloc :: "pool \<Rightarrow> 'a kmem_scheme \<Rightarrow> (addr \<times> 'a kmem_scheme) res" where
  "palloc m_pool s =
     res_bind (bitmap_scan (pool_bitmap m_pool) 1 (mem s)) (\<lambda>bit_idx.
       if bit_idx = - 1 then Inr (NULL, s)
       else res_bind (upd_mem (bitmap_set (pool_bitmap m_pool) bit_idx 1) s) (\<lambda>s1.
         Inr (bit_idx * PG_SIZE + phy_addr_start m_pool, s1)))"

definition pfree :: "u32 \<Rightarrow> 'a kmem_scheme \<Rightarrow> 'a kmem_scheme res" where
  "pfree pg_phy_addr s =
     (let mem_pool = if pg_phy_addr \<ge> phy_addr_start (user_pool s) then user_pool s else kernel_pool s;
          bit_idx = (pg_phy_addr - phy_addr_start mem_pool) div PG_SIZE
      in upd_mem (bitmap_set (pool_bitmap mem_pool) bit_idx 0) s)"

section \<open>Mapping a page\<close>

text \<open>\<open>memset\<close> of \<open>4 * n\<close> bytes of a page table, as the words it clears.\<close>

primrec clear_words :: "nat \<Rightarrow> addr \<Rightarrow> 'a machine_scheme \<Rightarrow> 'a machine_scheme res" where
  "clear_words 0 a s = Inr s"
| "clear_words (Suc n) a s = res_bind (vwrite a 0 s) (clear_words n (a + 4))"

text \<open>\<open>PG_US_U | PG_RW_W | PG_P_1\<close> is 7.\<close>

definition page_table_add :: "addr \<Rightarrow> addr \<Rightarrow> 'a kmem_scheme \<Rightarrow> 'a kmem_scheme res" where
  "page_table_add vaddr phyaddr s =
     (let pde = pde_ptr vaddr; pte = pte_ptr vaddr in
      res_bind (vread pde s) (\<lambda>d.
        if d AND 1 \<noteq> 0
        then res_bind (vread pte s) (\<lambda>e.
               assertion (\<not> e AND 1 \<noteq> 0) ''!(*pte & 0x00000001)''
                (if \<not> e AND 1 \<noteq> 0 then vwrite pte (phyaddr OR 7) s else Inl (PANIC ''pte repeat'')))
        else res_bind (palloc (kernel_pool s) s) (\<lambda>(pde_phyaddr, s1).
             res_bind (vwrite pde (pde_phyaddr OR 7) s1) (\<lambda>s2.
             res_bind (clear_words 1024 (pte AND 0xfffff000) s2) (\<lambda>s3.
             res_bind (vread pte s3) (\<lambda>e.
               assertion (\<not> e AND 1 \<noteq> 0) ''!(*pte & 0x00000001)'' (vwrite pte (phyaddr OR 7) s3)))))))"

section \<open>Allocating and freeing pages\<close>

text \<open>The loop of \<open>malloc_page\<close>; the flag is false when it left with \<^verbatim>\<open>return NULL\<close>.\<close>

primrec malloc_loop :: "pool \<Rightarrow> nat \<Rightarrow> addr \<Rightarrow> 'a kmem_scheme \<Rightarrow> (bool \<times> 'a kmem_scheme) res" where
  "malloc_loop m_pool 0 vaddr s = Inr (True, s)"
| "malloc_loop m_pool (Suc n) vaddr s =
     res_bind (palloc m_pool s) (\<lambda>(phy_addr, s1).
       if phy_addr = NULL then Inr (False, s1)
       else res_bind (page_table_add vaddr phy_addr s1) (malloc_loop m_pool n (vaddr + PG_SIZE)))"

definition malloc_page :: "pool_flags \<Rightarrow> u32 \<Rightarrow> 'a kmem_scheme \<Rightarrow> (addr \<times> 'a kmem_scheme) res" where
  "malloc_page pf pg_cnt s =
     assertion (pg_cnt > 0 \<and> pg_cnt < 3840) ''pg_cnt > 0 && pg_cnt < 3840''
      (res_bind (vaddr_get pf pg_cnt s) (\<lambda>(vaddr_start, s1).
        if vaddr_start = NULL then Inr (NULL, s1)
        else res_bind (malloc_loop (the_pool pf s1) (unat pg_cnt) vaddr_start s1) (\<lambda>(ok, s2).
               Inr (if ok then vaddr_start else NULL, s2))))"

text \<open>
  The two loops of \<open>mfree_page\<close>, for pages of the user pool and of the kernel pool, differ only in
  their assertion.
\<close>

primrec mfree_loop :: "(u32 \<Rightarrow> bool) \<Rightarrow> string \<Rightarrow> nat \<Rightarrow> addr \<Rightarrow> 'a kmem_scheme \<Rightarrow> 'a kmem_scheme res" where
  "mfree_loop ok msg 0 vaddr s = Inr s"
| "mfree_loop ok msg (Suc n) vaddr s =
     (let vaddr' = vaddr + PG_SIZE in
      res_bind (addr_v2p vaddr' s) (\<lambda>pg_phy_addr.
        assertion (ok pg_phy_addr \<and> pg_phy_addr mod PG_SIZE = 0) msg
         (res_bind (pfree pg_phy_addr s) (\<lambda>s1.
          res_bind (page_table_pte_remove vaddr' s1) (mfree_loop ok msg n vaddr')))))"

definition mfree_page :: "pool_flags \<Rightarrow> addr \<Rightarrow> u32 \<Rightarrow> 'a kmem_scheme \<Rightarrow> 'a kmem_scheme res" where
  "mfree_page pf vaddr pg_cnt s =
     assertion (pg_cnt > 0 \<and> vaddr mod PG_SIZE = 0) ''(pg_cnt > 0) && (vaddr % PG_SIZE == 0)''
      (res_bind (addr_v2p vaddr s) (\<lambda>pg_phy_addr.
        assertion (pg_phy_addr \<ge> 0x102000 \<and> pg_phy_addr mod PG_SIZE = 0)
          ''( pg_phy_addr >= 0x102000 && (pg_phy_addr % PG_SIZE) == 0 )''
         (res_bind
           (if pg_phy_addr \<ge> phy_addr_start (user_pool s)
            then mfree_loop (\<lambda>p. p \<ge> phy_addr_start (user_pool s))
                   ''(pg_phy_addr >= user_pool.phy_addr_start) && (pg_phy_addr % PG_SIZE) == 0''
                   (unat pg_cnt) (vaddr - PG_SIZE) s
            else mfree_loop (\<lambda>p. p \<ge> phy_addr_start (kernel_pool s) \<and> p < phy_addr_start (user_pool s))
                   ''(pg_phy_addr >= kernel_pool.phy_addr_start) && (pg_phy_addr % PG_SIZE) == 0 && (pg_phy_addr < user_pool.phy_addr_start)''
                   (unat pg_cnt) (vaddr - PG_SIZE) s)
           (vaddr_remove pf vaddr pg_cnt))))"

section \<open>Pages under the lock of their pool\<close>

text \<open>
  \<open>memset(a, 0, n)\<close> on fresh memory: the bytes are cleared, and with them the objects of the typed
  stores that begin there. A zero byte pattern is \<^verbatim>\<open>TASK_RUNNING\<close> as a \<^verbatim>\<open>task_status\<close>.
\<close>

definition zero_task :: task_struct where
  "zero_task = \<lparr>self_kstack = 0, pid = 0, status = TASK_RUNNING, priority = 0, ticks = 0, elapsed_ticks = 0,
     fd_table = replicate 8 0, pgdir = 0,
     userprog_vaddr = \<lparr>vaddr_bitmap = \<lparr>btmp_bytes_len = 0, bits = 0\<rparr>, vaddr_start = 0\<rparr>,
     cwd_inode_nr = 0, stack_magic = 0\<rparr>"

definition zero_ioqueue :: ioqueue where
  "zero_ioqueue = \<lparr>producer = 0, consumer = 0, buf = replicate 64 0, head = 0, tail = 0\<rparr>"

definition zero_in :: "addr \<Rightarrow> nat \<Rightarrow> 'b \<Rightarrow> (addr \<Rightarrow> 'b) \<Rightarrow> addr \<Rightarrow> 'b" where
  "zero_in a n z f = (\<lambda>x. if within x a n then z else f x)"

definition zero_objects :: "addr \<Rightarrow> nat \<Rightarrow> 'a kmem_scheme \<Rightarrow> 'a kmem_scheme" where
  "zero_objects a n s = s\<lparr>
     nodes := zero_in a n \<lparr>front = 0, nxt = 0\<rparr> (nodes s),
     tasks := zero_in a n zero_task (tasks s),
     sema_value := zero_in a n 0 (sema_value s),
     lock_holder := zero_in a n 0 (lock_holder s),
     holder_repeat_nr := zero_in a n 0 (holder_repeat_nr s),
     ioqueues := zero_in a n zero_ioqueue (ioqueues s),
     block_descs := zero_in a n \<lparr>mem_block_size = 0, blocks_per_arena = 0\<rparr> (block_descs s),
     arenas := zero_in a n \<lparr>desc = 0, cnt = 0, large = False\<rparr> (arenas s)\<rparr>"

definition zero_memory :: "addr \<Rightarrow> u32 \<Rightarrow> 'a kmem_scheme \<Rightarrow> 'a kmem_scheme res" where
  "zero_memory a n s =
     res_bind (upd_mem (memset a 0 n) s) (\<lambda>s1. Inr (zero_objects a (unat n) s1))"

text \<open>
  A page that is cleared as a whole may become a page directory, so its words in physical memory
  are cleared as well.
\<close>

definition zero_pages :: "addr \<Rightarrow> u32 \<Rightarrow> 'a kmem_scheme \<Rightarrow> 'a kmem_scheme res" where
  "zero_pages vaddr pg_cnt s =
     res_bind (zero_memory vaddr (pg_cnt * PG_SIZE) s) (clear_words (1024 * unat pg_cnt) vaddr)"

definition get_kernel_pages :: "u32 \<Rightarrow> 'a kmem_scheme \<Rightarrow> ('a kmem_scheme, addr) kop" where
  "get_kernel_pages pg_cnt s =
     kbind (lock_acquire (pool_lock (kernel_pool s)) s) (\<lambda>_ s1.
     kbind (klift_val (malloc_page PF_KERNEL pg_cnt s1)) (\<lambda>vaddr_start s2.
     kbind (klift (if vaddr_start \<noteq> NULL then zero_pages vaddr_start pg_cnt s2 else Inr s2)) (\<lambda>_ s3.
     kbind (klift (lock_release (pool_lock (kernel_pool s3)) s3)) (\<lambda>_ s4. Done vaddr_start s4))))"

definition get_user_pages :: "u32 \<Rightarrow> 'a kmem_scheme \<Rightarrow> ('a kmem_scheme, addr) kop" where
  "get_user_pages pg_cnt s =
     kbind (lock_acquire (pool_lock (user_pool s)) s) (\<lambda>_ s1.
     kbind (klift_val (malloc_page PF_USER pg_cnt s1)) (\<lambda>vaddr_start s2.
     kbind (klift (if vaddr_start \<noteq> NULL then zero_pages vaddr_start pg_cnt s2
                   else Inl (PANIC ''malloc_user_page error''))) (\<lambda>_ s3.
     kbind (klift (lock_release (pool_lock (user_pool s3)) s3)) (\<lambda>_ s4. Done vaddr_start s4))))"

text \<open>The part of \<open>get_a_page\<close> that marks the virtual page.\<close>

definition reserve_vaddr :: "pool_flags \<Rightarrow> addr \<Rightarrow> 'a kmem_scheme \<Rightarrow> 'a kmem_scheme res" where
  "reserve_vaddr pf vaddr s =
     (let cur_task = tasks s (running_thread s) in
      if pgdir cur_task \<noteq> NULL \<and> pf = PF_USER
      then let bit_idx = (vaddr - vaddr_start (userprog_vaddr cur_task)) div PG_SIZE
           in assertion (bit_idx > 0) ''bit_idx > 0''
                (upd_mem (bitmap_set (vaddr_bitmap (userprog_vaddr cur_task)) bit_idx 1) s)
      else if pgdir cur_task = NULL \<and> pf = PF_KERNEL
      then let bit_idx = (vaddr - vaddr_start (kernel_vaddr s)) div PG_SIZE
           in assertion (bit_idx > 0) ''bit_idx > 0''
                (upd_mem (bitmap_set (vaddr_bitmap (kernel_vaddr s)) bit_idx 1) s)
      else Inl (PANIC ''Error in get_a_page, because fail to alloc memory in pool.''))"

text \<open>What \<open>get_a_page\<close> does between acquiring and releasing the lock.\<close>

definition map_a_page :: "pool_flags \<Rightarrow> addr \<Rightarrow> 'a kmem_scheme \<Rightarrow> 'a kmem_scheme res" where
  "map_a_page pf vaddr s =
     res_bind (reserve_vaddr pf vaddr s) (\<lambda>s1.
     res_bind (palloc (the_pool pf s1) s1) (\<lambda>(phy_addr, s2).
       if phy_addr = NULL then Inl (PANIC ''FAIL to alloc physic memory.'')
       else page_table_add vaddr phy_addr s2))"

definition get_a_page :: "pool_flags \<Rightarrow> addr \<Rightarrow> 'a kmem_scheme \<Rightarrow> ('a kmem_scheme, addr) kop" where
  "get_a_page pf vaddr s =
     (let lck = pool_lock (the_pool pf s) in
      kbind (lock_acquire lck s) (\<lambda>_ s1.
      kbind (klift (map_a_page pf vaddr s1)) (\<lambda>_ s2.
      kbind (klift (lock_release lck s2)) (\<lambda>_ s3. Done vaddr s3))))"

section \<open>Initialisation\<close>

text \<open>The sizes that \<open>mem_pool_init\<close> computes; the page counts are \<^verbatim>\<open>uint16_t\<close>.\<close>

definition all_free_pages :: "u32 \<Rightarrow> u16" where
  "all_free_pages all_mem =
     (let page_table_size = PG_SIZE * 256; used_mem = page_table_size + 0x100000; free_mem = all_mem - used_mem
      in ucast (free_mem div PG_SIZE))"

definition kernel_free_pages :: "u32 \<Rightarrow> u16" where
  "kernel_free_pages all_mem = all_free_pages all_mem div 2"

definition user_free_pages :: "u32 \<Rightarrow> u16" where
  "user_free_pages all_mem = all_free_pages all_mem - kernel_free_pages all_mem"

definition mem_pool_layout :: "u32 \<Rightarrow> 'a kmem_scheme \<Rightarrow> 'a kmem_scheme" where
  "mem_pool_layout all_mem s =
     (let used_mem = PG_SIZE * 256 + 0x100000;
          kfp = ucast (kernel_free_pages all_mem) :: u32; ufp = ucast (user_free_pages all_mem) :: u32;
          kbm_length = kfp div 8; ubm_length = ufp div 8;
          kp_start = used_mem; up_start = kp_start + kfp * PG_SIZE
      in s\<lparr>kernel_pool := (kernel_pool s)\<lparr>phy_addr_start := kp_start, pool_size := kfp * PG_SIZE,
              pool_bitmap := \<lparr>btmp_bytes_len = kbm_length, bits = MEM_BITMAP_BASE\<rparr>\<rparr>,
           user_pool := (user_pool s)\<lparr>phy_addr_start := up_start, pool_size := ufp * PG_SIZE,
              pool_bitmap := \<lparr>btmp_bytes_len = ubm_length, bits = MEM_BITMAP_BASE + kbm_length\<rparr>\<rparr>\<rparr>)"

definition mem_pool_init :: "u32 \<Rightarrow> 'a kmem_scheme \<Rightarrow> 'a kmem_scheme res" where
  "mem_pool_init all_mem s =
     (let s1 = mem_pool_layout all_mem s;
          kbm_length = btmp_bytes_len (pool_bitmap (kernel_pool s1));
          ubm_length = btmp_bytes_len (pool_bitmap (user_pool s1)) in
      res_bind (upd_mem (bitmap_init (pool_bitmap (kernel_pool s1))) s1) (\<lambda>s2.
      res_bind (upd_mem (bitmap_init (pool_bitmap (user_pool s2))) s2) (\<lambda>s3.
        let s4 = lock_init (pool_lock (user_pool s3)) (lock_init (pool_lock (kernel_pool s3)) s3);
            s5 = s4\<lparr>kernel_vaddr := \<lparr>vaddr_bitmap = \<lparr>btmp_bytes_len = kbm_length,
                        bits = MEM_BITMAP_BASE + kbm_length + ubm_length\<rparr>, vaddr_start = K_HEAP_START\<rparr>\<rparr>
        in upd_mem (bitmap_init (vaddr_bitmap (kernel_vaddr s5))) s5)))"

text \<open>
  An entry of a descriptor array is 24 bytes; its free list is at offset 8. \<^verbatim>\<open>DESC_INT\<close> is 7 and
  \<^verbatim>\<open>sizeof(struct arena)\<close> is 12.
\<close>

abbreviation (input) desc_at :: "addr \<Rightarrow> u32 \<Rightarrow> addr" where "desc_at desc_array i \<equiv> desc_array + i * 24"
abbreviation (input) free_list :: "addr \<Rightarrow> addr" where "free_list d \<equiv> d + 8"

primrec block_desc_loop :: "nat \<Rightarrow> addr \<Rightarrow> u32 \<Rightarrow> 'a kmem_scheme \<Rightarrow> 'a kmem_scheme" where
  "block_desc_loop 0 d block_size s = s"
| "block_desc_loop (Suc n) d block_size s =
     block_desc_loop n (d + 24) (block_size * 2)
      (list_init (free_list d) (s\<lparr>block_descs := (block_descs s)
         (d := \<lparr>mem_block_size = block_size, blocks_per_arena = (PG_SIZE - 12) div block_size\<rparr>)\<rparr>))"

definition block_desc_init :: "addr \<Rightarrow> 'a kmem_scheme \<Rightarrow> 'a kmem_scheme" where
  "block_desc_init desc_array s = block_desc_loop 7 desc_array 16 s"

text \<open>The loader left the size of the memory at 0xb00.\<close>

definition mem_init :: "'a kmem_scheme \<Rightarrow> 'a kmem_scheme res" where
  "mem_init s =
     res_bind (mem_pool_init (load_u32 0xb00 (mem s)) s) (\<lambda>s1. Inr (block_desc_init (k_block_desc s1) s1))"

end
