(* ===== verification/Page_Map.thy ===== *)
theory Page_Map
  imports Memory
begin

text \<open>
  What the page tables of all address spaces have to satisfy so that physical frames are not
  shared by accident, and the three changes the allocator makes to them: entering a page,
  installing a new table, removing a page. \<open>D\<close> is the set of page directories in use (the kernel's
  and one for each process), \<open>F\<close> the set of free frames.
\<close>

section \<open>The invariant of the page tables\<close>

definition table_of :: "(addr \<Rightarrow> u32) \<Rightarrow> addr \<Rightarrow> u32 \<Rightarrow> addr" where
  "table_of pm pd v = frame_of (pm (pde_at pd v))"

text \<open>The directory entry for \<open>v\<close> is present and is not the recursive one.\<close>

definition has_table :: "(addr \<Rightarrow> u32) \<Rightarrow> addr \<Rightarrow> u32 \<Rightarrow> bool" where
  "has_table pm pd v \<longleftrightarrow> present (pm (pde_at pd v)) \<and> PDE_IDX v \<noteq> 1023"

text \<open>The frame \<open>f\<close> is what the directory \<open>pd\<close> maps the page of \<open>v\<close> to.\<close>

definition maps_to :: "(addr \<Rightarrow> u32) \<Rightarrow> addr \<Rightarrow> u32 \<Rightarrow> addr \<Rightarrow> bool" where
  "maps_to pm pd v f \<longleftrightarrow> has_table pm pd v \<and> present (pm (pte_at pd pm v)) \<and> frame_of (pm (pte_at pd pm v)) = f"

definition tables :: "addr set \<Rightarrow> (addr \<Rightarrow> u32) \<Rightarrow> addr set" where
  "tables D pm = {table_of pm pd v | pd v. pd \<in> D \<and> has_table pm pd v}"

text \<open>
  Directories are page aligned and recursive; directories and tables are not free and no directory
  is a table; a mapped frame is neither free nor a table; a frame is mapped through one table entry
  only; a table belongs to one directory index (index 0 of the kernel's directory, an alias, apart)
  and, below the kernel half, to one directory.
\<close>

definition maps_ok :: "addr set \<Rightarrow> addr set \<Rightarrow> (addr \<Rightarrow> u32) \<Rightarrow> bool" where
  "maps_ok D F pm \<longleftrightarrow>
     (\<forall>pd\<in>D. frame_of pd = pd \<and> recursive_pd pd pm) \<and>
     D \<inter> F = {} \<and> tables D pm \<inter> (D \<union> F) = {} \<and>
     (\<forall>pd\<in>D. \<forall>v f. maps_to pm pd v f \<longrightarrow> f \<notin> F \<union> tables D pm) \<and>
     (\<forall>pd\<in>D. \<forall>pd'\<in>D. \<forall>v w f. maps_to pm pd v f \<and> maps_to pm pd' w f \<longrightarrow>
        pte_at pd pm v = pte_at pd' pm w) \<and>
     (\<forall>pd\<in>D. \<forall>pd'\<in>D. \<forall>v w. has_table pm pd v \<and> has_table pm pd' w \<and> PDE_IDX v \<noteq> 0 \<and> PDE_IDX w \<noteq> 0 \<and>
        table_of pm pd v = table_of pm pd' w \<longrightarrow> PDE_IDX v = PDE_IDX w \<and> (pd = pd' \<or> 768 \<le> PDE_IDX v))"

lemma maps_okD:
  assumes "maps_ok D F pm"
  shows "pd \<in> D \<Longrightarrow> frame_of pd = pd" "pd \<in> D \<Longrightarrow> recursive_pd pd pm" "pd \<in> D \<Longrightarrow> pd \<notin> F"
    "pd \<in> D \<Longrightarrow> has_table pm pd v \<Longrightarrow> table_of pm pd v \<notin> D \<union> F"
    "pd \<in> D \<Longrightarrow> maps_to pm pd v f \<Longrightarrow> f \<notin> F \<union> tables D pm"
    "pd \<in> D \<Longrightarrow> pd' \<in> D \<Longrightarrow> maps_to pm pd v f \<Longrightarrow> maps_to pm pd' w f \<Longrightarrow> pte_at pd pm v = pte_at pd' pm w"
    "pd \<in> D \<Longrightarrow> pd' \<in> D \<Longrightarrow> has_table pm pd v \<Longrightarrow> has_table pm pd' w \<Longrightarrow> PDE_IDX v \<noteq> 0 \<Longrightarrow> PDE_IDX w \<noteq> 0 \<Longrightarrow>
       table_of pm pd v = table_of pm pd' w \<Longrightarrow> PDE_IDX v = PDE_IDX w \<and> (pd = pd' \<or> 768 \<le> PDE_IDX v)"
proof -
  show "pd \<in> D \<Longrightarrow> has_table pm pd v \<Longrightarrow> table_of pm pd v \<notin> D \<union> F"
    using assms unfolding maps_ok_def tables_def by blast
qed (use assms in \<open>unfold maps_ok_def, blast+\<close>)

lemma maps_okI:
  assumes "\<And>pd. pd \<in> D \<Longrightarrow> frame_of pd = pd" and "\<And>pd. pd \<in> D \<Longrightarrow> recursive_pd pd pm"
    and "D \<inter> F = {}" and "tables D pm \<inter> (D \<union> F) = {}"
    and "\<And>pd v f. pd \<in> D \<Longrightarrow> maps_to pm pd v f \<Longrightarrow> f \<notin> F \<union> tables D pm"
    and "\<And>pd pd' v w f. pd \<in> D \<Longrightarrow> pd' \<in> D \<Longrightarrow> maps_to pm pd v f \<Longrightarrow> maps_to pm pd' w f \<Longrightarrow>
      pte_at pd pm v = pte_at pd' pm w"
    and "\<And>pd pd' v w. pd \<in> D \<Longrightarrow> pd' \<in> D \<Longrightarrow> has_table pm pd v \<Longrightarrow> has_table pm pd' w \<Longrightarrow>
      PDE_IDX v \<noteq> 0 \<Longrightarrow> PDE_IDX w \<noteq> 0 \<Longrightarrow> table_of pm pd v = table_of pm pd' w \<Longrightarrow>
      PDE_IDX v = PDE_IDX w \<and> (pd = pd' \<or> 768 \<le> PDE_IDX v)"
  shows "maps_ok D F pm"
  unfolding maps_ok_def using assms by blast

lemma mmu_maps_to:
  "PDE_IDX v \<noteq> 1023 \<Longrightarrow> mmu pd pm v = Some p \<longleftrightarrow> (\<exists>f. maps_to pm pd v f \<and> p = f + (v AND 0xfff))"
  by (auto simp: mmu_def maps_to_def has_table_def)

lemma mmu_None_maps_to: "PDE_IDX v \<noteq> 1023 \<Longrightarrow> mmu pd pm v = None \<longleftrightarrow> (\<forall>f. \<not> maps_to pm pd v f)"
  by (auto simp: mmu_def maps_to_def has_table_def)

section \<open>Frames of entries\<close>

lemma frame_of_entry: "unat i < 1024 \<Longrightarrow> frame_of (frame_of f + i * 4) = frame_of f"
  by (rule word_of_unat) (simp add: unat_frame_of unat_entry)

lemma frame_of_pde_at [simp]: "frame_of (pde_at pd v) = frame_of pd"
  by (simp add: pde_at_def frame_of_entry PDE_IDX_less)

lemma frame_of_pte_at [simp]: "frame_of (pte_at pd pm v) = table_of pm pd v"
  by (simp add: pte_at_def table_of_def frame_of_entry PTE_IDX_less)

lemma frame_of_recursive [simp]: "frame_of (frame_of pd + 4092) = frame_of pd"
  using frame_of_entry [of 1023 pd] by simp

lemma pte_at_eq_iff:
  "pte_at pd pm v = pte_at pd' pm w \<longleftrightarrow> table_of pm pd v = table_of pm pd' w \<and> PTE_IDX v = PTE_IDX w"
  unfolding pte_at_def table_of_def by (rule entry_eq_iff [OF PTE_IDX_less PTE_IDX_less])

lemma frame_of_attr:
  assumes "frame_of f = f"
  shows "frame_of (f OR 7) = f" and "present (f OR 7)"
proof -
  have m: "(0xfffff000 :: u32) = NOT (mask 12)" by (simp add: mask_eq_exp_minus_1)
  have "frame_of (f OR 7) = frame_of f OR frame_of 7"
    by (simp add: frame_of_def bit.conj_disj_distrib2)
  also have "\<dots> = f" using assms by (simp add: frame_of_def)
  finally show "frame_of (f OR 7) = f" .
  show "present (f OR 7)" by (simp add: present_bit bit_or_iff bit_numeral_rec)
qed

lemma PDE_IDX_eq_page:
  "PDE_IDX v = PDE_IDX w \<Longrightarrow> PTE_IDX v = PTE_IDX w \<Longrightarrow> frame_of v = frame_of w"
proof -
  assume *: "PDE_IDX v = PDE_IDX w" "PTE_IDX v = PTE_IDX w"
  have "unat v div 4096 = unat v div 4194304 * 1024 + unat v div 4096 mod 1024" for v :: u32
    using div_mult_mod_eq [of "unat v div 4096" 1024] by (simp add: div_mult2_eq [symmetric])
  from this [of v] this [of w] have "unat v div 4096 = unat w div 4096"
    using * unat_PDE_IDX [of v] unat_PDE_IDX [of w] unat_PTE_IDX [of v] unat_PTE_IDX [of w] by simp
  then show ?thesis by (intro word_of_unat) (simp add: unat_frame_of)
qed

lemma mmu_maps_frame:
  assumes "PDE_IDX v \<noteq> 1023" and "mmu pd pm v = Some p"
  shows "maps_to pm pd v (frame_of p)"
proof -
  obtain f where f: "maps_to pm pd v f" "p = f + (v AND 0xfff)" using assms mmu_maps_to by blast
  have "frame_of f = f" using f(1) by (auto simp: maps_to_def)
  then obtain q where q: "unat f = q * 4096" by (metis unat_frame_of)
  have "q < 1048576" using unat_less_2p32 [of f] unfolding q by linarith
  moreover have r: "unat (v AND 0xfff) < 4096" by (simp add: unat_page_offset)
  ultimately have "unat p = q * 4096 + unat (v AND 0xfff)" unfolding f(2) by (simp add: unat_word_ariths q)
  then have "unat (frame_of p) = unat f" using r by (simp add: unat_frame_of q)
  then have "frame_of p = f" by (rule word_of_unat)
  then show ?thesis using f(1) by simp
qed

section \<open>Entering a page\<close>

text \<open>A table that is not a directory: its entries are no directory entries.\<close>

lemma pte_write_pde:
  assumes "maps_ok D F pm" and "pd \<in> D" "pd' \<in> D" and "has_table pm pd v"
  shows "(pm(pte_at pd pm v := x)) (pde_at pd' w) = pm (pde_at pd' w)"
proof -
  have "table_of pm pd v \<noteq> frame_of pd'" using maps_okD(1,4) [OF assms(1)] assms(2-) by auto
  then have "pte_at pd pm v \<noteq> pde_at pd' w" by (metis frame_of_pde_at frame_of_pte_at)
  then show ?thesis by simp
qed

lemma pte_write_simps:
  assumes "maps_ok D F pm" and "pd \<in> D" "pd' \<in> D" and "has_table pm pd v"
  shows "has_table (pm(pte_at pd pm v := x)) pd' w = has_table pm pd' w"
    and "table_of (pm(pte_at pd pm v := x)) pd' w = table_of pm pd' w"
    and "pte_at pd' (pm(pte_at pd pm v := x)) w = pte_at pd' pm w"
    and "recursive_pd pd' (pm(pte_at pd pm v := x)) = recursive_pd pd' pm"
    and "maps_to (pm(pte_at pd pm v := x)) pd' w f \<longleftrightarrow>
      (if pte_at pd' pm w = pte_at pd pm v then has_table pm pd' w \<and> present x \<and> frame_of x = f
       else maps_to pm pd' w f)"
proof -
  note w = pte_write_pde [OF assms, of x]
  show t: "has_table (pm(pte_at pd pm v := x)) pd' w = has_table pm pd' w"
    and "table_of (pm(pte_at pd pm v := x)) pd' w = table_of pm pd' w"
    and p: "pte_at pd' (pm(pte_at pd pm v := x)) w = pte_at pd' pm w"
    unfolding has_table_def table_of_def pte_at_def [of pd'] using w by simp_all
  show "maps_to (pm(pte_at pd pm v := x)) pd' w f \<longleftrightarrow>
      (if pte_at pd' pm w = pte_at pd pm v then has_table pm pd' w \<and> present x \<and> frame_of x = f
       else maps_to pm pd' w f)"
    unfolding maps_to_def t p by simp
  have "pde_at pd' 0xffc00000 = frame_of pd' + 1023 * 4" by (simp add: pde_at_def PDE_IDX_def)
  then show "recursive_pd pd' (pm(pte_at pd pm v := x)) = recursive_pd pd' pm"
    using w [of "0xffc00000"] by (simp add: recursive_pd_def)
qed

lemma tables_pte_write:
  assumes "maps_ok D F pm" and "pd \<in> D" and "has_table pm pd v"
  shows "tables D (pm(pte_at pd pm v := x)) = tables D pm"
  unfolding tables_def
  by (intro Collect_cong ex_cong1) (use pte_write_simps(1,2) [OF assms(1,2) _ assms(3)] in auto)

lemma maps_ok_enter:
  assumes ok: "maps_ok D F pm" and pd: "pd \<in> D" and t: "has_table pm pd v" and f: "f \<in> F" "frame_of f = f"
  shows "maps_ok D (F - {f}) (pm(pte_at pd pm v := f OR 7))"
proof -
  let ?pm = "pm(pte_at pd pm v := f OR 7)"
  note w = pte_write_simps [OF ok pd _ t, of _ "f OR 7"]
  note tb = tables_pte_write [OF ok pd t, of "f OR 7"]
  note fr = frame_of_attr [OF f(2)]
  have ft: "f \<notin> tables D pm" using ok f(1) unfolding maps_ok_def by blast
  have free: "g \<notin> (F - {f}) \<union> tables D pm" if "pd' \<in> D" "maps_to ?pm pd' u g" for pd' u g
    using that w(5) [OF that(1)] maps_okD(5) [OF ok that(1)] fr ft by (auto split: if_splits)
  have one: "pte_at pd1 pm u = pte_at pd2 pm u'"
    if "pd1 \<in> D" "pd2 \<in> D" "maps_to ?pm pd1 u g" "maps_to ?pm pd2 u' g" for pd1 pd2 u u' g
  proof -
    have new: "g = f" if "pd' \<in> D" "maps_to ?pm pd' x g" "pte_at pd' pm x = pte_at pd pm v" for pd' x
      using that w(5) [OF that(1)] fr by simp
    have old: "maps_to pm pd' x g \<and> g \<noteq> f" if "pd' \<in> D" "maps_to ?pm pd' x g" "pte_at pd' pm x \<noteq> pte_at pd pm v" for pd' x
      using that w(5) [OF that(1)] maps_okD(5) [OF ok that(1)] f(1) by auto
    show ?thesis
    proof (cases "g = f")
      case True
      then have "pte_at pd1 pm u = pte_at pd pm v" "pte_at pd2 pm u' = pte_at pd pm v"
        using old [OF that(1,3)] old [OF that(2,4)] by blast+
      then show ?thesis by simp
    next
      case False
      then have "maps_to pm pd1 u g" "maps_to pm pd2 u' g"
        using new [OF that(1,3)] new [OF that(2,4)] old [OF that(1,3)] old [OF that(2,4)] by blast+
      then show ?thesis by (rule maps_okD(6) [OF ok that(1,2)])
    qed
  qed
  show ?thesis
  proof (rule maps_okI, unfold tb)
    show "D \<inter> (F - {f}) = {}" "tables D pm \<inter> (D \<union> (F - {f})) = {}"
      using ok unfolding maps_ok_def by blast+
    show "PDE_IDX u = PDE_IDX u' \<and> (pd1 = pd2 \<or> 768 \<le> PDE_IDX u)"
      if "pd1 \<in> D" "pd2 \<in> D" "has_table ?pm pd1 u" "has_table ?pm pd2 u'" "PDE_IDX u \<noteq> 0" "PDE_IDX u' \<noteq> 0"
        "table_of ?pm pd1 u = table_of ?pm pd2 u'" for pd1 pd2 u u'
      using maps_okD(7) [OF ok that(1,2)] that(3-) unfolding w(1,2) [OF that(1)] w(1,2) [OF that(2)] by blast
    show "pte_at pd1 ?pm u = pte_at pd2 ?pm u'"
      if "pd1 \<in> D" "pd2 \<in> D" "maps_to ?pm pd1 u g" "maps_to ?pm pd2 u' g" for pd1 pd2 u u' g
      using one [OF that] unfolding w(3) [OF that(1)] w(3) [OF that(2)] .
    show "recursive_pd pd' ?pm" if "pd' \<in> D" for pd' using w(4) [OF that] maps_okD(2) [OF ok that] by blast
  qed (use free maps_okD(1) [OF ok] in \<open>blast+\<close>)
qed

section \<open>Installing a table\<close>

text \<open>
  A fresh frame \<open>f\<close>, cleared, becomes the table of \<open>v\<close>: \<open>pm'\<close> differs from \<open>pm\<close> only in the directory
  entry of \<open>v\<close> and inside \<open>f\<close>, where all words are zero.
\<close>

definition table_installed :: "(addr \<Rightarrow> u32) \<Rightarrow> addr \<Rightarrow> u32 \<Rightarrow> addr \<Rightarrow> (addr \<Rightarrow> u32) \<Rightarrow> bool" where
  "table_installed pm pd v f pm' \<longleftrightarrow> pm' (pde_at pd v) = f OR 7 \<and>
     (\<forall>i. unat i < 1024 \<longrightarrow> pm' (f + i * 4) = 0) \<and>
     (\<forall>x. frame_of x \<noteq> f \<and> x \<noteq> pde_at pd v \<longrightarrow> pm' x = pm x)"

lemma install_simps:
  assumes ok: "maps_ok D F pm" and pd: "pd \<in> D" and v: "\<not> has_table pm pd v" "PDE_IDX v \<noteq> 1023"
    and f: "f \<in> F" "frame_of f = f" and pm': "table_installed pm pd v f pm'" and pd': "pd' \<in> D"
  shows "has_table pm' pd' w \<longleftrightarrow> has_table pm pd' w \<or> pd' = pd \<and> PDE_IDX w = PDE_IDX v" (is ?A)
    and "table_of pm' pd' w = (if pd' = pd \<and> PDE_IDX w = PDE_IDX v then f else table_of pm pd' w)" (is ?B)
    and "maps_to pm' pd' w g = maps_to pm pd' w g" (is ?C)
    and "maps_to pm pd' w g \<Longrightarrow> pte_at pd' pm' w = pte_at pd' pm w" (is "_ \<Longrightarrow> ?D")
    and "recursive_pd pd' pm'" (is ?E)
proof -
  note fr = frame_of_attr [OF f(2)]
  have al: "frame_of pd' = pd'" "frame_of pd = pd" using maps_okD(1) [OF ok] pd pd' by auto
  have nf: "pd' \<noteq> f" "pd \<noteq> f" using maps_okD(3) [OF ok] pd pd' f(1) by auto
  have same: "pd' = pd \<and> PDE_IDX w = PDE_IDX v \<longleftrightarrow> pde_at pd' w = pde_at pd v" for w
    using al pde_at_eq_iff [of pd w v] by (metis frame_of_pde_at)
  have pde: "pm' (pde_at pd' w) = (if pd' = pd \<and> PDE_IDX w = PDE_IDX v then f OR 7 else pm (pde_at pd' w))" for w
    using pm' same [of w] al nf unfolding table_installed_def by auto
  show A: ?A using pde [of w] fr v by (auto simp: has_table_def)
  show B: ?B using pde [of w] fr by (simp add: table_of_def)
  have new: "\<not> has_table pm pd' w" if "pd' = pd \<and> PDE_IDX w = PDE_IDX v"
    using that v same [of w] by (auto simp: has_table_def)
  have old: "pm' (pte_at pd' pm w) = pm (pte_at pd' pm w)" if "has_table pm pd' w"
  proof -
    have "table_of pm pd' w \<notin> D \<union> F" using maps_okD(4) [OF ok pd' that] .
    then have "frame_of (pte_at pd' pm w) \<noteq> f" "pte_at pd' pm w \<noteq> pde_at pd v"
      using f(1) pd al by (auto dest: arg_cong [of _ _ frame_of])
    then show ?thesis using pm' by (simp add: table_installed_def)
  qed
  have pte: "pte_at pd' pm' w = pte_at pd' pm w" if "has_table pm pd' w"
    using new that pde [of w] by (auto simp: pte_at_def)
  have zero: "pm' (pte_at pd' pm' w) = 0" if "pd' = pd \<and> PDE_IDX w = PDE_IDX v"
    using that pde [of w] fr pm' PTE_IDX_less [of w] by (simp add: pte_at_def table_installed_def)
  show ?C using A new old pte zero unfolding maps_to_def by (auto simp: present_def)
  show ?D if "maps_to pm pd' w g" using that pte by (simp add: maps_to_def)
  have "pde_at pd' 0xffc00000 = frame_of pd' + 1023 * 4" "PDE_IDX 0xffc00000 = 1023"
    by (simp_all add: pde_at_def PDE_IDX_def)
  then show ?E using pde [of "0xffc00000"] v(2) maps_okD(2) [OF ok pd'] by (auto simp: recursive_pd_def)
qed

lemma maps_ok_install:
  assumes ok: "maps_ok D F pm" and pd: "pd \<in> D" and v: "\<not> has_table pm pd v" "PDE_IDX v \<noteq> 1023"
    and f: "f \<in> F" "frame_of f = f" and pm': "table_installed pm pd v f pm'"
  shows "maps_ok D (F - {f}) pm'"
proof -
  note i = install_simps [OF ok pd v f pm']
  have tb: "tables D pm' \<subseteq> insert f (tables D pm)"
  proof
    fix t assume "t \<in> tables D pm'"
    then obtain pd' u where "pd' \<in> D" "has_table pm' pd' u" "t = table_of pm' pd' u" by (auto simp: tables_def)
    then have "t = f \<or> has_table pm pd' u \<and> t = table_of pm pd' u" using i(1,2) [OF \<open>pd' \<in> D\<close>] by auto
    then show "t \<in> insert f (tables D pm)" using \<open>pd' \<in> D\<close> by (auto simp: tables_def)
  qed
  have tables: "tables D pm \<inter> (D \<union> F) = {}" "D \<inter> F = {}" using ok unfolding maps_ok_def by blast+
  have old: "table_of pm pd' u \<noteq> f" if "pd' \<in> D" "has_table pm pd' u" for pd' u
    using maps_okD(4) [OF ok that] f(1) by auto
  have share: "PDE_IDX u = PDE_IDX u' \<and> (pd1 = pd2 \<or> 768 \<le> PDE_IDX u)"
    if "pd1 \<in> D" "pd2 \<in> D" "has_table pm' pd1 u" "has_table pm' pd2 u'" "PDE_IDX u \<noteq> 0" "PDE_IDX u' \<noteq> 0"
      "table_of pm' pd1 u = table_of pm' pd2 u'" for pd1 pd2 u u'
  proof (cases "pd1 = pd \<and> PDE_IDX u = PDE_IDX v")
    case True
    then have "pd2 = pd \<and> PDE_IDX u' = PDE_IDX v"
      using that i(1,2) [OF that(1)] i(1,2) [OF that(2)] old [OF that(2), of u'] by (auto split: if_splits)
    then show ?thesis using True by simp
  next
    case False
    then have n2: "\<not> (pd2 = pd \<and> PDE_IDX u' = PDE_IDX v)"
      using that i(1,2) [OF that(1)] i(1,2) [OF that(2)] old [OF that(1), of u] by (auto split: if_splits)
    have "has_table pm pd1 u" "has_table pm pd2 u'" using that(3,4) False n2 i(1) that(1,2) by blast+
    moreover have "table_of pm pd1 u = table_of pm pd2 u'" using that(7) False n2 i(2) [OF that(1)] i(2) [OF that(2)] by simp
    ultimately show ?thesis using maps_okD(7) [OF ok that(1,2)] that(5,6) by blast
  qed
  show ?thesis
  proof (rule maps_okI)
    show "D \<inter> (F - {f}) = {}" using tables by blast
    show "tables D pm' \<inter> (D \<union> (F - {f})) = {}" using tb tables f(1) by blast
    show "g \<notin> F - {f} \<union> tables D pm'" if "pd' \<in> D" "maps_to pm' pd' u g" for pd' u g
      using that i(3) [OF that(1)] maps_okD(5) [OF ok that(1)] tb f(1) by blast
    show "pte_at pd1 pm' u = pte_at pd2 pm' u'"
      if "pd1 \<in> D" "pd2 \<in> D" "maps_to pm' pd1 u g" "maps_to pm' pd2 u' g" for pd1 pd2 u u' g
      using that i(3,4) [OF that(1)] i(3,4) [OF that(2)] maps_okD(6) [OF ok that(1,2)] by metis
  qed (use share i(5) maps_okD(1) [OF ok] in \<open>blast+\<close>)
qed

section \<open>Removing a page\<close>

lemma maps_ok_remove:
  assumes ok: "maps_ok D F pm" and pd: "pd \<in> D" and m: "maps_to pm pd v f" and f: "f \<notin> D"
  shows "maps_ok D (insert f F) (pm(pte_at pd pm v := pm (pte_at pd pm v) AND NOT 1))"
proof -
  let ?x = "pm (pte_at pd pm v) AND NOT 1"
  let ?pm = "pm(pte_at pd pm v := ?x)"
  have t: "has_table pm pd v" using m by (simp add: maps_to_def)
  note w = pte_write_simps [OF ok pd _ t, of _ ?x]
  note tb = tables_pte_write [OF ok pd t, of ?x]
  have gone: "maps_to pm pd' u g \<and> pte_at pd' pm u \<noteq> pte_at pd pm v" if "pd' \<in> D" "maps_to ?pm pd' u g" for pd' u g
    using that w(5) [OF that(1)] not_present_cleared by (auto split: if_splits)
  have free: "g \<notin> insert f F \<union> tables D pm" if "pd' \<in> D" "maps_to ?pm pd' u g" for pd' u g
    using gone [OF that] maps_okD(5) [OF ok that(1)] maps_okD(6) [OF ok that(1) pd _ m] by blast
  have ft: "f \<notin> tables D pm" using maps_okD(5) [OF ok pd m] by blast
  show ?thesis
  proof (rule maps_okI, unfold tb)
    show "D \<inter> insert f F = {}" "tables D pm \<inter> (D \<union> insert f F) = {}"
      using ok f ft unfolding maps_ok_def by blast+
    show "PDE_IDX u = PDE_IDX u' \<and> (pd1 = pd2 \<or> 768 \<le> PDE_IDX u)"
      if "pd1 \<in> D" "pd2 \<in> D" "has_table ?pm pd1 u" "has_table ?pm pd2 u'" "PDE_IDX u \<noteq> 0" "PDE_IDX u' \<noteq> 0"
        "table_of ?pm pd1 u = table_of ?pm pd2 u'" for pd1 pd2 u u'
      using maps_okD(7) [OF ok that(1,2)] that(3-) unfolding w(1,2) [OF that(1)] w(1,2) [OF that(2)] by blast
    show "pte_at pd1 ?pm u = pte_at pd2 ?pm u'"
      if "pd1 \<in> D" "pd2 \<in> D" "maps_to ?pm pd1 u g" "maps_to ?pm pd2 u' g" for pd1 pd2 u u' g
      using maps_okD(6) [OF ok that(1,2)] gone [OF that(1,3)] gone [OF that(2,4)]
      unfolding w(3) [OF that(1)] w(3) [OF that(2)] by blast
    show "recursive_pd pd' ?pm" if "pd' \<in> D" for pd' using w(4) [OF that] maps_okD(2) [OF ok that] by blast
  qed (use free maps_okD(1) [OF ok] in \<open>blast+\<close>)
qed

text \<open>Removing leaves every other table entry's page where it is.\<close>

lemma maps_to_remove:
  assumes "maps_ok D F pm" and "pd \<in> D" "pd' \<in> D" and "has_table pm pd v"
  shows "maps_to (pm(pte_at pd pm v := pm (pte_at pd pm v) AND NOT 1)) pd' w f \<longleftrightarrow>
    maps_to pm pd' w f \<and> pte_at pd' pm w \<noteq> pte_at pd pm v"
  using pte_write_simps(5) [OF assms] not_present_cleared by auto

section \<open>Isolation\<close>

text \<open>
  Below the kernel half two directories never map the same frame (the first 4 MB, which the
  kernel's own directory uses as an alias, apart).
\<close>

definition user_page :: "u32 \<Rightarrow> bool" where
  "user_page v \<longleftrightarrow> 0x400000 \<le> v \<and> v < 0xc0000000"

lemma user_page_PDE: "user_page v \<Longrightarrow> PDE_IDX v \<noteq> 0 \<and> PDE_IDX v < 768"
proof -
  assume v: "user_page v"
  then have "4194304 \<le> unat v" "unat v < 3221225472"
    by (simp_all add: user_page_def word_le_nat_alt word_less_nat_alt)
  then have "1 \<le> unat (PDE_IDX v)" "unat (PDE_IDX v) < 768" by (simp_all add: unat_PDE_IDX)
  then show ?thesis by (auto simp: word_less_nat_alt)
qed

lemma maps_ok_isolated:
  assumes ok: "maps_ok D F pm" and D: "pd \<in> D" "pd' \<in> D" and u: "user_page v" "user_page w"
    and m: "maps_to pm pd v f" "maps_to pm pd' w f"
  shows "pd = pd' \<and> frame_of v = frame_of w"
proof -
  have "table_of pm pd v = table_of pm pd' w \<and> PTE_IDX v = PTE_IDX w"
    using maps_okD(6) [OF ok D m] by (simp add: pte_at_eq_iff)
  moreover have "has_table pm pd v" "has_table pm pd' w" using m by (simp_all add: maps_to_def)
  ultimately show ?thesis using maps_okD(7) [OF ok D] user_page_PDE u PDE_IDX_eq_page by (meson linorder_not_le)
qed

end
