(* ===== verification/Page_Alloc.thy ===== *)
theory Page_Alloc
  imports Page_Map
begin

text \<open>
  The page allocator keeps its bitmaps and the page tables of all address spaces in agreement:
  \<open>malloc_page\<close> and \<open>mfree_page\<close> preserve the invariant \<open>alloc_inv\<close>, from which the isolation of
  processes follows. \<open>D\<close> is the set of directories, \<open>A\<close> pairs each directory with the pools of virtual
  pages it uses (the kernel's and its own).
\<close>

section \<open>Pools as sets of frames and pages\<close>

definition page_at :: "virtual_addr \<Rightarrow> nat \<Rightarrow> addr" where
  "page_at va i = vaddr_start va + of_nat i * PG_SIZE"

definition frame_no :: "pool \<Rightarrow> nat \<Rightarrow> addr" where
  "frame_no p i = phy_addr_start p + of_nat i * PG_SIZE"

abbreviation pool_bits :: "pool \<Rightarrow> nat" where "pool_bits p \<equiv> bm_size (pool_bitmap p)"
abbreviation va_bits :: "virtual_addr \<Rightarrow> nat" where "va_bits va \<equiv> bm_size (vaddr_bitmap va)"

definition pool_wf :: "pool \<Rightarrow> bool" where
  "pool_wf p \<longleftrightarrow> bm_wf (pool_bitmap p) \<and> unat (phy_addr_start p) mod 4096 = 0 \<and>
     0x102000 \<le> unat (phy_addr_start p) \<and> unat (phy_addr_start p) + 4096 * pool_bits p \<le> 2 ^ 32"

definition va_wf :: "virtual_addr \<Rightarrow> bool" where
  "va_wf va \<longleftrightarrow> bm_wf (vaddr_bitmap va) \<and> unat (vaddr_start va) mod 4096 = 0 \<and>
     0x400000 \<le> unat (vaddr_start va) \<and> unat (vaddr_start va) + 4096 * va_bits va \<le> 0xffc00000"

definition pool_frames :: "pool \<Rightarrow> addr set" where
  "pool_frames p = frame_no p ` {..<pool_bits p}"

definition free_frames :: "mem \<Rightarrow> pool \<Rightarrow> addr set" where
  "free_frames m p = frame_no p ` {i. i < pool_bits p \<and> \<not> bm_bit m (pool_bitmap p) i}"

definition separate :: "bitmap \<Rightarrow> bitmap \<Rightarrow> bool" where
  "separate b c \<longleftrightarrow> disjoint_regions (bits b) (unat (btmp_bytes_len b)) (bits c) (unat (btmp_bytes_len c))"

text \<open>Memory that changes at most in the bytes of one bitmap.\<close>

definition changed_in :: "bitmap \<Rightarrow> mem \<Rightarrow> mem \<Rightarrow> bool" where
  "changed_in b m m' \<longleftrightarrow> (\<forall>x. \<not> within x (bits b) (unat (btmp_bytes_len b)) \<longrightarrow> m' x = m x)"

lemma changed_in_refl [simp]: "changed_in b m m"
  by (simp add: changed_in_def)

lemma changed_in_trans: "changed_in b m m' \<Longrightarrow> changed_in b m' m'' \<Longrightarrow> changed_in b m m''"
  by (simp add: changed_in_def)

lemma separate_sym: "separate b c \<longleftrightarrow> separate c b"
  unfolding separate_def by (blast intro: disjoint_regions_sym)

lemma bm_bit_separate:
  assumes "separate b c" and "changed_in b m m'" and "i < bm_size c"
  shows "bm_bit m' c i = bm_bit m c i"
proof -
  have "within (bits c + of_nat (i div 8)) (bits c) (unat (btmp_bytes_len c))"
    using assms(3) by (intro within_offset) simp
  then have "\<not> within (bits c + of_nat (i div 8)) (bits b) (unat (btmp_bytes_len b))"
    using assms(1) disjoint_regionsD unfolding separate_def by blast
  then show ?thesis using assms(2) by (simp add: bm_bit_def changed_in_def)
qed

lemma bitmap_set_spec:
  assumes "bm_wf b" and "i < bm_size b" and "v = 0 \<or> v = 1"
  shows "\<exists>m'. bitmap_set b (of_nat i) v m = Inr m' \<and> changed_in b m m' \<and>
    (\<forall>j<bm_size b. bm_bit m' b j = (if j = i then v = 1 else bm_bit m b j))"
proof -
  have i: "unat (of_nat i :: u32) = i" and lim: "bm_size b < 2 ^ 32"
    using assms(1,2) by (simp_all add: bm_wf_def unat_of_nat32)
  obtain m' where m': "bitmap_set b (of_nat i) v m = Inr m'"
    "\<forall>j<2 ^ 32. bm_bit m' b j = (if j = i then v = 1 else bm_bit m b j)"
    "\<forall>x. x \<noteq> bits b + of_nat i div 8 \<longrightarrow> m' x = m x"
    using bitmap_set_bits [OF assms(3), of b "of_nat i" m] unfolding i by blast
  have "(of_nat i :: u32) div 8 = of_nat (i div 8)" using of_nat_unat_div8 [of "of_nat i"] i by simp
  then have "within (bits b + of_nat i div 8) (bits b) (unat (btmp_bytes_len b))"
    using assms(2) within_offset [of "i div 8"] by simp
  then have "changed_in b m m'" using m'(3) unfolding changed_in_def by metis
  then show ?thesis using m'(1,2) lim by auto
qed

lemma bitmap_set_loop_spec:
  assumes "bm_wf b" and "k + n \<le> bm_size b" and "v = 0 \<or> v = 1"
  shows "\<exists>m'. bitmap_set_loop b v n (of_nat k) m = Inr m' \<and> changed_in b m m' \<and>
    (\<forall>j<bm_size b. bm_bit m' b j = (if k \<le> j \<and> j < k + n then v = 1 else bm_bit m b j))"
  using assms(2)
proof (induction n arbitrary: k m)
  case 0
  then show ?case by auto
next
  case (Suc n)
  obtain m1 where m1: "bitmap_set b (of_nat k) v m = Inr m1" "changed_in b m m1"
    "\<forall>j<bm_size b. bm_bit m1 b j = (if j = k then v = 1 else bm_bit m b j)"
    using bitmap_set_spec [OF assms(1) _ assms(3), of k m] Suc.prems by auto
  obtain m' where m': "bitmap_set_loop b v n (of_nat (Suc k)) m1 = Inr m'" "changed_in b m1 m'"
    "\<forall>j<bm_size b. bm_bit m' b j = (if Suc k \<le> j \<and> j < Suc k + n then v = 1 else bm_bit m1 b j)"
    using Suc.IH [of "Suc k" m1] Suc.prems by auto
  have "bitmap_set_loop b v (Suc n) (of_nat k) m = Inr m'"
    using m1(1) m'(1) by (simp add: add.commute)
  moreover have "changed_in b m m'" using m1(2) m'(2) by (rule changed_in_trans)
  moreover have "bm_bit m' b j = (if k \<le> j \<and> j < k + Suc n then v = 1 else bm_bit m b j)" if "j < bm_size b" for j
    using m'(3) m1(3) that by auto
  ultimately show ?case by blast
qed

lemma first_fit_cases:
  assumes "N < 2 ^ 31"
  shows "first_fit used N n = - 1 \<and> (\<nexists>k. free_run used N n k) \<or>
    (\<exists>k. first_fit used N n = of_nat k \<and> free_run used N n k \<and> (of_nat k :: u32) \<noteq> - 1)"
proof (cases "\<exists>k. free_run used N n k")
  case True
  define k where "k = (LEAST k. free_run used N n k)"
  have k: "free_run used N n k" unfolding k_def by (rule LeastI_ex [OF True])
  then have "k < 2 ^ 31" using assms by (simp add: free_run_def)
  then have "unat (of_nat k :: u32) < 2 ^ 31" by (simp add: unat_of_nat32)
  moreover have "unat (- 1 :: u32) = 2 ^ 32 - 1" by (simp add: unsigned_minus_1_eq_mask mask_eq_exp_minus_1)
  ultimately have "(of_nat k :: u32) \<noteq> - 1" by auto
  then show ?thesis using True k by (auto simp: first_fit_def k_def)
qed (simp add: first_fit_def)

section \<open>Arithmetic of frames and pages\<close>

lemma unat_block:
  assumes "unat a + 4096 * N \<le> 2 ^ 32" and "i < N"
  shows "unat (a + of_nat i * 4096 :: u32) = unat a + 4096 * i"
proof -
  have "a + of_nat i * 4096 = a + of_nat (4096 * i)" by (simp add: mult.commute)
  moreover have "unat a + 4096 * i < 2 ^ 32" using assms by linarith
  ultimately show ?thesis by (simp only: unat_add_of_nat)
qed

lemma unat_frame_no: "pool_wf p \<Longrightarrow> i < pool_bits p \<Longrightarrow> unat (frame_no p i) = unat (phy_addr_start p) + 4096 * i"
  unfolding frame_no_def by (rule unat_block [of _ "pool_bits p"]) (simp_all add: pool_wf_def)

lemma unat_page_at: "va_wf va \<Longrightarrow> i < va_bits va \<Longrightarrow> unat (page_at va i) = unat (vaddr_start va) + 4096 * i"
  unfolding page_at_def by (rule unat_block [of _ "va_bits va"]) (simp_all add: va_wf_def)

lemma frame_of_aligned: "unat x mod 4096 = 0 \<Longrightarrow> frame_of x = x"
  by (intro word_of_unat) (simp add: unat_frame_of div_mult_mod_eq [of "unat x" 4096, simplified] mod_eq_0_iff_dvd)

lemma frame_no_props:
  assumes "pool_wf p" and "i < pool_bits p"
  shows "frame_of (frame_no p i) = frame_no p i" "frame_no p i \<noteq> 0"
    "j < pool_bits p \<Longrightarrow> frame_no p j = frame_no p i \<longleftrightarrow> j = i"
proof -
  note u = unat_frame_no [OF assms]
  have s: "unat (phy_addr_start p) mod 4096 = 0" "unat (phy_addr_start p) > 0" using assms(1) by (auto simp: pool_wf_def)
  show "frame_of (frame_no p i) = frame_no p i" by (rule frame_of_aligned) (use u s in simp)
  show "frame_no p i \<noteq> 0" using u s by auto
  show "j < pool_bits p \<Longrightarrow> frame_no p j = frame_no p i \<longleftrightarrow> j = i"
    using u unat_frame_no [OF assms(1), of j] by (auto simp: word_unat_eq_iff)
qed

lemma page_at_props:
  assumes "va_wf va" and "i < va_bits va"
  shows "frame_of (page_at va i) = page_at va i" "page_at va i \<noteq> 0" "PDE_IDX (page_at va i) \<noteq> 0"
    "PDE_IDX (page_at va i) \<noteq> 1023"
    "j < va_bits va \<Longrightarrow> page_at va j = page_at va i \<longleftrightarrow> j = i"
proof -
  note u = unat_page_at [OF assms]
  have s: "unat (vaddr_start va) mod 4096 = 0" "0x400000 \<le> unat (vaddr_start va)"
    "unat (vaddr_start va) + 4096 * va_bits va \<le> 0xffc00000" using assms(1) by (auto simp: va_wf_def)
  show "frame_of (page_at va i) = page_at va i" by (rule frame_of_aligned) (use u s in simp)
  show "page_at va i \<noteq> 0" using u s by auto
  have "unat (PDE_IDX (page_at va i)) \<noteq> 0" "unat (PDE_IDX (page_at va i)) < 1023"
    unfolding unat_PDE_IDX u using s assms(2) by auto
  then show "PDE_IDX (page_at va i) \<noteq> 0" "PDE_IDX (page_at va i) \<noteq> 1023" by auto
  show "j < va_bits va \<Longrightarrow> page_at va j = page_at va i \<longleftrightarrow> j = i"
    using u unat_page_at [OF assms(1), of j] by (auto simp: word_unat_eq_iff)
qed

lemma page_at_Suc: "page_at va k + 4096 = page_at va (Suc k)"
  by (simp add: page_at_def algebra_simps)

section \<open>Physical frames\<close>

lemma palloc_spec:
  assumes "pool_wf p"
  shows "palloc p s = Inr (f, s') \<Longrightarrow>
      \<exists>m'. s' = s\<lparr>mem := m'\<rparr> \<and> changed_in (pool_bitmap p) (mem s) m' \<and> f \<in> free_frames (mem s) p \<and>
        free_frames m' p = free_frames (mem s) p - {f}"
    and "free_frames (mem s) p \<noteq> {} \<Longrightarrow> \<exists>f s'. palloc p s = Inr (f, s')"
proof -
  let ?b = "pool_bitmap p" and ?m = "mem s"
  have wf: "bm_wf ?b" and N: "pool_bits p < 2 ^ 31" using assms by (simp_all add: pool_wf_def bm_wf_def)
  have run: "\<exists>f m'. palloc p s = Inr (f, s\<lparr>mem := m'\<rparr>) \<and> changed_in ?b ?m m' \<and> f \<in> free_frames ?m p \<and>
      free_frames m' p = free_frames ?m p - {f}" if "\<exists>i<pool_bits p. \<not> bm_bit ?m ?b i"
  proof -
    have "free_run (bm_bit ?m ?b) (pool_bits p) 1 i" if "i < pool_bits p" "\<not> bm_bit ?m ?b i" for i
      using that by (simp add: free_run_def)
    then obtain k where k: "first_fit (bm_bit ?m ?b) (pool_bits p) 1 = of_nat k"
      "free_run (bm_bit ?m ?b) (pool_bits p) 1 k" "(of_nat k :: u32) \<noteq> - 1"
      using first_fit_cases [OF N, of "bm_bit ?m ?b" 1] \<open>\<exists>i<_. _\<close> by blast
    have kf: "k < pool_bits p" "\<not> bm_bit ?m ?b k" using k(2) by (simp_all add: free_run_def)
    obtain m' where m': "bitmap_set ?b (of_nat k) 1 ?m = Inr m'" "changed_in ?b ?m m'"
      "\<forall>j<pool_bits p. bm_bit m' ?b j = (if j = k then True else bm_bit ?m ?b j)"
      using bitmap_set_spec [OF wf kf(1), of 1 ?m] by auto
    have "bitmap_scan ?b 1 ?m = Inr (of_nat k)" using bitmap_scan_eq [OF wf, of 1 ?m] that k(1) by simp
    then have "palloc p s = Inr (frame_no p k, s\<lparr>mem := m'\<rparr>)"
      using k(3) m'(1) by (simp add: palloc_def upd_mem_def frame_no_def add.commute)
    moreover have "free_frames m' p = free_frames ?m p - {frame_no p k}"
      unfolding free_frames_def using m'(3) frame_no_props(3) [OF assms kf(1)] by (auto split: if_splits)
    moreover have "frame_no p k \<in> free_frames ?m p" using kf by (auto simp: free_frames_def)
    ultimately show ?thesis using m'(2) by blast
  qed
  have none: "\<exists>e. palloc p s = Inl e" if "\<not> (\<exists>i<pool_bits p. \<not> bm_bit ?m ?b i)"
    using bitmap_scan_eq [OF wf, of 1 ?m] that by (simp add: palloc_def)
  show "\<exists>m'. s' = s\<lparr>mem := m'\<rparr> \<and> changed_in ?b ?m m' \<and> f \<in> free_frames ?m p \<and>
        free_frames m' p = free_frames ?m p - {f}" if "palloc p s = Inr (f, s')"
    using run none that by (cases "\<exists>i<pool_bits p. \<not> bm_bit ?m ?b i") auto
  show "\<exists>f s'. palloc p s = Inr (f, s')" if "free_frames ?m p \<noteq> {}"
    using run that by (fastforce simp: free_frames_def)
qed

section \<open>Entries of one table\<close>

lemma unat_table_page:
  assumes "unat d < 1024" and "unat i < 1024"
  shows "unat (d * 0x400000 + i * 4096 :: u32) = unat d * 0x400000 + unat i * 4096"
proof -
  have "unat d * 4194304 + unat i * 4096 < 4294967296" using assms by linarith
  moreover have "unat (d * 4194304 :: u32) = unat d * 4194304" "unat (i * 4096 :: u32) = unat i * 4096"
    using assms by (simp_all add: unat_word_ariths)
  ultimately show ?thesis by (simp add: unat_word_ariths)
qed

text \<open>The page with the directory index of \<open>v\<close> and the table index \<open>i\<close>.\<close>

lemma table_page:
  fixes v i :: u32
  assumes "unat i < 1024"
  defines "w \<equiv> PDE_IDX v * 0x400000 + i * 4096"
  shows "PDE_IDX w = PDE_IDX v" "PTE_IDX w = i" "pte_ptr w = frame_of (pte_ptr v) + i * 4"
proof -
  let ?d = "unat (PDE_IDX v)"
  have d: "?d < 1024" by (rule PDE_IDX_less)
  have u: "unat w = ?d * 4194304 + unat i * 4096" unfolding w_def by (rule unat_table_page [OF d assms(1)])
  have "unat (PDE_IDX w) = ?d" unfolding unat_PDE_IDX [of w] u using assms(1) by simp
  then show D: "PDE_IDX w = PDE_IDX v" by (rule word_of_unat)
  have "unat w div 4096 = ?d * 1024 + unat i" unfolding u by simp
  then have "unat (PTE_IDX w) = unat i" unfolding unat_PTE_IDX using assms(1) by simp
  then show P: "PTE_IDX w = i" by (rule word_of_unat)
  have "unat (pte_ptr v) div 4096 = 1047552 + ?d" using d PTE_IDX_less [of v] by (simp add: unat_pte_ptr)
  then have "unat (frame_of (pte_ptr v)) = 0xffc00000 + ?d * 4096" by (simp add: unat_frame_of)
  then have "unat (frame_of (pte_ptr v) + i * 4) = unat (pte_ptr w)"
    using unat_entry [OF assms(1), of "pte_ptr v"] unfolding unat_pte_ptr [of w] D P by (simp add: unat_frame_of)
  then show "pte_ptr w = frame_of (pte_ptr v) + i * 4" by (intro word_of_unat) simp
qed

lemma vwrite_table_word:
  assumes "recursive_pd (cr3 s) (pmem s)" and "present (pmem s (pde_at (cr3 s) v))" and "unat i < 1024"
  shows "vwrite (frame_of (pte_ptr v) + i * 4) x s =
    Inr (s\<lparr>pmem := (pmem s)(table_of (pmem s) (cr3 s) v + i * 4 := x)\<rparr>)"
proof -
  let ?w = "PDE_IDX v * 0x400000 + i * 4096"
  note t = table_page [OF assms(3), of v]
  have "pde_at (cr3 s) ?w = pde_at (cr3 s) v" by (simp only: pde_at_def t)
  moreover from this have "pte_at (cr3 s) (pmem s) ?w = table_of (pmem s) (cr3 s) v + i * 4"
    unfolding pte_at_def t by (simp add: table_of_def)
  ultimately show ?thesis using vwrite_pte [OF assms(1), of ?w x] assms(2) unfolding t(3) by simp
qed

lemma clear_words_table:
  assumes "frame_of (cr3 s) = cr3 s" and "recursive_pd (cr3 s) (pmem s)" and "present (pmem s (pde_at (cr3 s) v))"
    and "table_of (pmem s) (cr3 s) v = T" and "T \<noteq> cr3 s" and "i + n = 1024"
  shows "\<exists>pm'. clear_words n (frame_of (pte_ptr v) + of_nat i * 4) s = Inr (s\<lparr>pmem := pm'\<rparr>) \<and>
    (\<forall>j. i \<le> j \<and> j < 1024 \<longrightarrow> pm' (T + of_nat j * 4) = 0) \<and>
    (\<forall>x. (\<forall>j. i \<le> j \<and> j < 1024 \<longrightarrow> x \<noteq> T + of_nat j * 4) \<longrightarrow> pm' x = pmem s x)"
  using assms
proof (induction n arbitrary: i s)
  case 0
  then show ?case by (intro exI [of _ "pmem s"]) auto
next
  case (Suc n)
  have i: "unat (of_nat i :: u32) = i" "i < 1024" using Suc.prems(6) by (simp_all add: unat_of_nat32)
  let ?s = "s\<lparr>pmem := (pmem s)(T + of_nat i * 4 := 0)\<rparr>"
  have w: "vwrite (frame_of (pte_ptr v) + of_nat i * 4) 0 s = Inr ?s"
    using vwrite_table_word [OF Suc.prems(2,3), of "of_nat i" 0] i Suc.prems(4) by simp
  have T: "frame_of T = T" using Suc.prems(4) by (auto simp: table_of_def)
  have fr: "frame_of (T + of_nat i * 4) = T" using frame_of_entry [of "of_nat i" T] i T by simp
  have same: "(pmem ?s) x = pmem s x" if "frame_of x = cr3 s" for x
    using that fr Suc.prems(5) by auto
  have pre: "frame_of (cr3 ?s) = cr3 ?s" "recursive_pd (cr3 ?s) (pmem ?s)" "present (pmem ?s (pde_at (cr3 ?s) v))"
    "table_of (pmem ?s) (cr3 ?s) v = T" "T \<noteq> cr3 ?s" "Suc i + n = 1024"
    using Suc.prems same [of "cr3 s + 4092"] same [of "pde_at (cr3 s) v"] frame_of_recursive [of "cr3 s"]
    by (simp_all add: recursive_pd_def table_of_def split: if_splits)
  obtain pm' where pm': "clear_words n (frame_of (pte_ptr v) + of_nat (Suc i) * 4) ?s = Inr (?s\<lparr>pmem := pm'\<rparr>)"
    "\<forall>j. Suc i \<le> j \<and> j < 1024 \<longrightarrow> pm' (T + of_nat j * 4) = 0"
    "\<forall>x. (\<forall>j. Suc i \<le> j \<and> j < 1024 \<longrightarrow> x \<noteq> T + of_nat j * 4) \<longrightarrow> pm' x = pmem ?s x"
    using Suc.IH [OF pre] by blast
  have here: "pm' (T + of_nat i * 4) = 0"
  proof -
    have "T + of_nat i * 4 \<noteq> T + of_nat j * 4" if "Suc i \<le> j" "j < 1024" for j
    proof -
      have j: "unat (of_nat j :: u32) = j" using that by (simp add: unat_of_nat32)
      have "of_nat i \<noteq> (of_nat j :: u32)" using i(1) j that by auto
      then show ?thesis using entry_eq_iff [of "of_nat i" "of_nat j" T T] i j that T by simp
    qed
    then show ?thesis using pm'(3) by auto
  qed
  have "clear_words (Suc n) (frame_of (pte_ptr v) + of_nat i * 4) s = Inr (s\<lparr>pmem := pm'\<rparr>)"
    using w pm'(1) by (simp add: algebra_simps)
  moreover have "pm' (T + of_nat j * 4) = 0" if "i \<le> j" "j < 1024" for j
    using that pm'(2) here by (cases "j = i") auto
  moreover have "pm' x = pmem s x" if "\<forall>j. i \<le> j \<and> j < 1024 \<longrightarrow> x \<noteq> T + of_nat j * 4" for x
    using that pm'(3) i(2) by simp
  ultimately show ?case by blast
qed

section \<open>Mapping a page\<close>

text \<open>
  What \<open>page_table_add\<close> changes: the page of \<open>v\<close>, and every alias of it through the same table entry,
  is mapped to \<open>f\<close>; all other mappings stay; the frames \<open>G\<close> (none, or one for a new table) are taken
  from the kernel pool.
\<close>

definition page_added :: "addr set \<Rightarrow> (addr \<Rightarrow> u32) \<Rightarrow> addr \<Rightarrow> u32 \<Rightarrow> addr \<Rightarrow> (addr \<Rightarrow> u32) \<Rightarrow> bool" where
  "page_added D pm pd v f pm' \<longleftrightarrow> maps_to pm' pd v f \<and>
     (\<forall>pd'\<in>D. \<forall>w. has_table pm pd' w \<longrightarrow> has_table pm' pd' w \<and> table_of pm' pd' w = table_of pm pd' w) \<and>
     (\<forall>pd'\<in>D. \<forall>w g. maps_to pm pd' w g \<longrightarrow> maps_to pm' pd' w g) \<and>
     (\<forall>pd'\<in>D. \<forall>w g. maps_to pm' pd' w g \<longrightarrow>
        maps_to pm pd' w g \<or> g = f \<and> has_table pm' pd' w \<and> pte_at pd' pm' w = pte_at pd pm' v)"

lemma enter_added:
  assumes ok: "maps_ok D F pm" and pd: "pd \<in> D" and t: "has_table pm pd v" and f: "frame_of f = f"
    and un: "\<And>g. \<not> maps_to pm pd v g"
  shows "page_added D pm pd v f (pm(pte_at pd pm v := f OR 7))"
proof -
  let ?pm = "pm(pte_at pd pm v := f OR 7)"
  note w = pte_write_simps [OF ok pd _ t, of _ "f OR 7"]
  note fr = frame_of_attr [OF f]
  have np: "\<not> present (pm (pte_at pd pm v))" using un t by (auto simp: maps_to_def)
  have slot: "\<not> maps_to pm pd' u g" if "pte_at pd' pm u = pte_at pd pm v" for pd' u g
    using that np by (simp add: maps_to_def)
  show ?thesis unfolding page_added_def
  proof (intro conjI ballI allI impI)
    show "maps_to ?pm pd v f" using w(5) [OF pd] t fr by simp
    show "has_table ?pm pd' u" "table_of ?pm pd' u = table_of pm pd' u" if "pd' \<in> D" "has_table pm pd' u" for pd' u
      using that w(1,2) [OF that(1)] by simp_all
    show "maps_to ?pm pd' u g" if "pd' \<in> D" "maps_to pm pd' u g" for pd' u g
      using that slot w(5) [OF that(1)] by auto
    show "maps_to pm pd' u g \<or> g = f \<and> has_table ?pm pd' u \<and> pte_at pd' ?pm u = pte_at pd ?pm v"
      if "pd' \<in> D" "maps_to ?pm pd' u g" for pd' u g
      using that(2) fr unfolding w(5) [OF that(1)] w(1,3) [OF that(1)] w(3) [OF pd] by (auto split: if_splits)
  qed
qed

lemma install_enter:
  assumes "\<And>pd' w g. pd' \<in> D \<Longrightarrow> maps_to pm1 pd' w g = maps_to pm pd' w g"
    and "\<And>pd' w. pd' \<in> D \<Longrightarrow> has_table pm pd' w \<Longrightarrow> has_table pm1 pd' w \<and> table_of pm1 pd' w = table_of pm pd' w"
    and "page_added D pm1 pd v f pm'"
  shows "page_added D pm pd v f pm'"
  using assms unfolding page_added_def by metis

text \<open>
  The branch of \<open>page_table_add\<close> that makes a page table: the entry is written, then the table is
  cleared through the recursive mapping.
\<close>

lemma new_table:
  assumes ok: "maps_ok D F (pmem s)" and pd: "cr3 s \<in> D" and v: "PDE_IDX v \<noteq> 1023" and g: "g \<in> F" "frame_of g = g"
  obtains s2 pm3 where "vwrite (pde_ptr v) (g OR 7) (s\<lparr>mem := m'\<rparr>) = Inr s2"
    "clear_words 1024 (frame_of (pte_ptr v)) s2 = Inr (s\<lparr>mem := m', pmem := pm3\<rparr>)" "table_installed (pmem s) (cr3 s) v g pm3"
proof -
  let ?pm = "pmem s" and ?pd = "cr3 s"
  have rec: "recursive_pd ?pd ?pm" and al: "frame_of ?pd = ?pd" using maps_okD(1,2) [OF ok pd] by simp_all
  have gpd: "g \<noteq> ?pd" using g(1) maps_okD(3) [OF ok pd] by auto
  define s2 where "s2 = s\<lparr>mem := m', pmem := ?pm(pde_at ?pd v := g OR 7)\<rparr>"
  have "?pd + 4092 = pde_at ?pd 0xffc00000" by (simp add: pde_at_def PDE_IDX_def al)
  then have "pde_at ?pd v \<noteq> ?pd + 4092" using pde_at_eq_iff [of ?pd v "0xffc00000"] v by (simp add: PDE_IDX_def)
  then have s2: "frame_of (cr3 s2) = cr3 s2" "recursive_pd (cr3 s2) (pmem s2)" "present (pmem s2 (pde_at (cr3 s2) v))"
    "table_of (pmem s2) (cr3 s2) v = g" "g \<noteq> cr3 s2"
    using rec al frame_of_attr [OF g(2)] gpd by (auto simp: s2_def recursive_pd_def table_of_def)
  obtain pm3 where pm3: "clear_words 1024 (frame_of (pte_ptr v)) s2 = Inr (s2\<lparr>pmem := pm3\<rparr>)"
    "\<forall>j<1024. pm3 (g + of_nat j * 4) = 0"
    "\<forall>x. (\<forall>j<1024. x \<noteq> g + of_nat j * 4) \<longrightarrow> pm3 x = pmem s2 x"
    using clear_words_table [OF s2, of 0 1024] by auto
  have outside: "pm3 x = pmem s2 x" if "frame_of x \<noteq> g" for x
  proof -
    have "x \<noteq> g + of_nat j * 4" if "j < 1024" for j
      using that \<open>frame_of x \<noteq> g\<close> frame_of_entry [of "of_nat j" g] g(2) by (auto simp: unat_of_nat32)
    then show ?thesis using pm3(3) by blast
  qed
  have "table_installed ?pm ?pd v g pm3"
    unfolding table_installed_def
  proof (intro conjI allI impI)
    show "pm3 (pde_at ?pd v) = g OR 7" using outside [of "pde_at ?pd v"] gpd al by (simp add: s2_def)
    show "pm3 (g + i * 4) = 0" if "unat i < 1024" for i using pm3(2) that by (metis of_nat_unat ucast_id)
    show "pm3 x = ?pm x" if "frame_of x \<noteq> g \<and> x \<noteq> pde_at ?pd v" for x
      using outside [of x] that by (simp add: s2_def)
  qed
  moreover have "vwrite (pde_ptr v) (g OR 7) (s\<lparr>mem := m'\<rparr>) = Inr s2"
    using vwrite_pde [of "s\<lparr>mem := m'\<rparr>" v "g OR 7"] rec by (simp add: s2_def)
  ultimately show ?thesis using that pm3(1) by (simp add: s2_def)
qed

text \<open>The two branches of \<open>page_table_add\<close> as state changes.\<close>

lemma page_table_add_table:
  assumes "recursive_pd (cr3 s) (pmem s)" and "has_table (pmem s) (cr3 s) v" and "\<And>g. \<not> maps_to (pmem s) (cr3 s) v g"
  shows "page_table_add v f s = Inr (s\<lparr>pmem := (pmem s)(pte_at (cr3 s) (pmem s) v := f OR 7)\<rparr>)"
proof -
  have p: "present (pmem s (pde_at (cr3 s) v))" using assms(2) by (simp add: has_table_def)
  have "\<not> present (pmem s (pte_at (cr3 s) (pmem s) v))" using assms(2,3) by (auto simp: maps_to_def)
  then show ?thesis
    using p vread_pde [OF assms(1)] vread_pte [OF assms(1) p] vwrite_pte [OF assms(1) p]
    by (simp add: page_table_add_def present_def)
qed

lemma page_table_add_new:
  assumes rec: "recursive_pd (cr3 s) (pmem s)" and p: "\<not> present (pmem s (pde_at (cr3 s) v))"
    and r: "palloc (kernel_pool s) s = Inr (g, s1)" "vwrite (pde_ptr v) (g OR 7) s1 = Inr s2"
      "clear_words 1024 (frame_of (pte_ptr v)) s2 = Inr s3"
    and s3: "recursive_pd (cr3 s3) (pmem s3)" "has_table (pmem s3) (cr3 s3) v" "\<And>h. \<not> maps_to (pmem s3) (cr3 s3) v h"
  shows "page_table_add v f s = Inr (s3\<lparr>pmem := (pmem s3)(pte_at (cr3 s3) (pmem s3) v := f OR 7)\<rparr>)"
proof -
  have p3: "present (pmem s3 (pde_at (cr3 s3) v))" using s3(2) by (simp add: has_table_def)
  have "\<not> present (pmem s3 (pte_at (cr3 s3) (pmem s3) v))" using s3(2,3) by (auto simp: maps_to_def)
  then show ?thesis
    using p r vread_pde [OF rec] vread_pte [OF s3(1) p3] vwrite_pte [OF s3(1) p3]
    unfolding frame_of_def by (simp add: page_table_add_def present_def)
qed

lemma page_table_add_spec:
  assumes ok: "maps_ok D F (pmem s)" and pd: "cr3 s \<in> D" and v: "PDE_IDX v \<noteq> 1023"
    and un: "\<And>g. \<not> maps_to (pmem s) (cr3 s) v g" and f: "f \<in> F" "frame_of f = f"
    and kp: "pool_wf (kernel_pool s)" "free_frames (mem s) (kernel_pool s) \<subseteq> F - {f}"
  shows "page_table_add v f s = Inr s' \<Longrightarrow>
      \<exists>m' pm' G. s' = s\<lparr>mem := m', pmem := pm'\<rparr> \<and> changed_in (pool_bitmap (kernel_pool s)) (mem s) m' \<and>
        G \<subseteq> free_frames (mem s) (kernel_pool s) \<and> card G \<le> 1 \<and> finite G \<and>
        free_frames m' (kernel_pool s) = free_frames (mem s) (kernel_pool s) - G \<and>
        maps_ok D (F - {f} - G) pm' \<and> page_added D (pmem s) (cr3 s) v f pm'" (is "_ \<Longrightarrow> ?P s'")
    and "free_frames (mem s) (kernel_pool s) \<noteq> {} \<Longrightarrow> \<exists>s'. page_table_add v f s = Inr s'" (is "?Q \<Longrightarrow> _")
proof -
  let ?pm = "pmem s" and ?pd = "cr3 s" and ?kp = "kernel_pool s"
  have rec: "recursive_pd ?pd ?pm" by (rule maps_okD(2) [OF ok pd])
  have main: "(\<exists>s'. page_table_add v f s = Inr s' \<and> ?P s') \<or> (\<exists>e. page_table_add v f s = Inl e) \<and> \<not> ?Q"
  proof (cases "has_table ?pm ?pd v")
    case True
    define pm' where "pm' = ?pm(pte_at ?pd ?pm v := f OR 7)"
    have "page_table_add v f s = Inr (s\<lparr>pmem := pm'\<rparr>)" unfolding pm'_def by (rule page_table_add_table [OF rec True un])
    moreover have "?P (s\<lparr>pmem := pm'\<rparr>)"
      using maps_ok_enter [OF ok pd True f] enter_added [OF ok pd True f(2) un]
      by (intro exI [of _ "mem s"] exI [of _ pm'] exI [of _ "{}"]) (simp add: pm'_def [symmetric])
    ultimately show ?thesis by blast
  next
    case False
    then have p: "\<not> present (?pm (pde_at ?pd v))" using v by (simp add: has_table_def)
    show ?thesis
    proof (cases "palloc ?kp s")
      case (Inl e)
      moreover from this have "\<not> ?Q" using palloc_spec(2) [OF kp(1), of s] by auto
      ultimately show ?thesis using p vread_pde [OF rec] by (simp add: page_table_add_def present_def)
    next
      case (Inr r)
      then obtain g s1 where r: "palloc ?kp s = Inr (g, s1)" by (cases r) simp
      obtain m' where m': "s1 = s\<lparr>mem := m'\<rparr>" "changed_in (pool_bitmap ?kp) (mem s) m'"
        "g \<in> free_frames (mem s) ?kp" "free_frames m' ?kp = free_frames (mem s) ?kp - {g}"
        using palloc_spec(1) [OF kp(1) r] by blast
      have gF: "g \<in> F" "g \<noteq> f" using m'(3) kp(2) by auto
      have g: "frame_of g = g" using m'(3) frame_no_props(1) [OF kp(1)] by (auto simp: free_frames_def)
      obtain s2 pm3 where n: "vwrite (pde_ptr v) (g OR 7) s1 = Inr s2"
        "clear_words 1024 (frame_of (pte_ptr v)) s2 = Inr (s\<lparr>mem := m', pmem := pm3\<rparr>)" and inst: "table_installed ?pm ?pd v g pm3"
        unfolding m'(1) by (rule new_table [OF ok pd v gF(1) g])
      note ok3 = maps_ok_install [OF ok pd False v gF(1) g inst]
      note ins = install_simps [OF ok pd False v gF(1) g inst]
      have t3: "has_table pm3 ?pd v" using ins(1) [OF pd] by simp
      have un3: "\<not> maps_to pm3 ?pd v h" for h using ins(3) [OF pd] un by simp
      define pm' where "pm' = pm3(pte_at ?pd pm3 v := f OR 7)"
      have "page_table_add v f s = Inr (s\<lparr>mem := m', pmem := pm'\<rparr>)"
        using page_table_add_new [OF rec p r n] ins(5) [OF pd] t3 un3 by (simp add: pm'_def)
      moreover have "?P (s\<lparr>mem := m', pmem := pm'\<rparr>)"
      proof (intro exI [of _ m'] exI [of _ pm'] exI [of _ "{g}"] conjI)
        show "maps_ok D (F - {f} - {g}) pm'"
          using maps_ok_enter [OF ok3 pd t3, of f] f gF(2) unfolding pm'_def by (simp add: Diff_insert2 [symmetric] insert_commute)
        show "page_added D ?pm ?pd v f pm'"
          by (rule install_enter [OF ins(3) _ enter_added [OF ok3 pd t3 f(2) un3, folded pm'_def]])
            (use ins(1,2) False in \<open>auto simp: has_table_def pde_at_def\<close>)
      qed (use m' in simp_all)
      ultimately show ?thesis by blast
    qed
  qed
  then show "page_table_add v f s = Inr s' \<Longrightarrow> ?P s'" by auto
  show "?Q \<Longrightarrow> \<exists>s'. page_table_add v f s = Inr s'" using main by blast
qed

end
