(* ===== verification/Address_Spaces.thy ===== *)
theory Address_Spaces
  imports Page_Alloc
begin

text \<open>
  The invariant that ties the allocator's bitmaps to the page tables of all address spaces, its
  preservation by \<open>malloc_page\<close> and \<open>mfree_page\<close>, and what follows for the processes: memory given
  out is fresh, mappings are never lost or redirected, and no two processes share a user frame.
\<close>

section \<open>The invariant\<close>

definition pool_for :: "virtual_addr \<Rightarrow> 'a kmem_scheme \<Rightarrow> pool" where
  "pool_for va s = (if va = kernel_vaddr s then kernel_pool s else user_pool s)"

definition pools_ok :: "'a kmem_scheme \<Rightarrow> bool" where
  "pools_ok s \<longleftrightarrow> pool_wf (kernel_pool s) \<and> pool_wf (user_pool s) \<and>
     unat (phy_addr_start (kernel_pool s)) + 4096 * pool_bits (kernel_pool s) \<le> unat (phy_addr_start (user_pool s)) \<and>
     separate (pool_bitmap (kernel_pool s)) (pool_bitmap (user_pool s))"

text \<open>Different pools of virtual pages have separate bitmaps and overlap only in user addresses of
  different directories.\<close>

definition spaces_ok :: "addr set \<Rightarrow> (addr \<times> virtual_addr) set \<Rightarrow> 'a kmem_scheme \<Rightarrow> bool" where
  "spaces_ok D A s \<longleftrightarrow>
     (\<forall>(pd, va) \<in> A. pd \<in> D \<and> va_wf va \<and> separate (pool_bitmap (kernel_pool s)) (vaddr_bitmap va) \<and>
        separate (pool_bitmap (user_pool s)) (vaddr_bitmap va)) \<and>
     (\<forall>(pd, va) \<in> A. \<forall>(pd', va') \<in> A. va = va' \<or> separate (vaddr_bitmap va) (vaddr_bitmap va') \<and>
        (\<forall>i<va_bits va. \<forall>j<va_bits va'. page_at va i = page_at va' j \<longrightarrow> pd \<noteq> pd' \<and> page_at va i < 0xc0000000))"

text \<open>A mapped page is marked in its pool, and its frame is from the matching pool of frames.\<close>

definition pages_ok :: "(addr \<times> virtual_addr) set \<Rightarrow> 'a kmem_scheme \<Rightarrow> bool" where
  "pages_ok A s \<longleftrightarrow> (\<forall>(pd, va) \<in> A. \<forall>i<va_bits va. \<forall>f. maps_to (pmem s) pd (page_at va i) f \<longrightarrow>
     bm_bit (mem s) (vaddr_bitmap va) i \<and> f \<in> pool_frames (pool_for va s))"

text \<open>
  Directories that use the same pool of virtual pages (the kernel's) have the tables for it
  installed, and have them in common. The loader installs all tables of the kernel half.
\<close>

definition shared_ok :: "(addr \<times> virtual_addr) set \<Rightarrow> (addr \<Rightarrow> u32) \<Rightarrow> bool" where
  "shared_ok A pm \<longleftrightarrow> (\<forall>pd pd' va i. (pd, va) \<in> A \<and> (pd', va) \<in> A \<and> pd \<noteq> pd' \<and> i < va_bits va \<longrightarrow>
     has_table pm pd (page_at va i) \<and> table_of pm pd (page_at va i) = table_of pm pd' (page_at va i))"

definition free_all :: "'a kmem_scheme \<Rightarrow> addr set" where
  "free_all s = free_frames (mem s) (kernel_pool s) \<union> free_frames (mem s) (user_pool s)"

definition alloc_inv :: "addr set \<Rightarrow> (addr \<times> virtual_addr) set \<Rightarrow> 'a kmem_scheme \<Rightarrow> bool" where
  "alloc_inv D A s \<longleftrightarrow> pools_ok s \<and> spaces_ok D A s \<and> cr3 s \<in> D \<and> maps_ok D (free_all s) (pmem s) \<and> pages_ok A s \<and>
     shared_ok A (pmem s)"

text \<open>The running thread may use the pool of virtual pages that \<open>pf\<close> selects.\<close>

definition may_use :: "(addr \<times> virtual_addr) set \<Rightarrow> pool_flags \<Rightarrow> 'a kmem_scheme \<Rightarrow> bool" where
  "may_use A pf s \<longleftrightarrow> (cr3 s, vaddr_pool pf s) \<in> A \<and> (pf = PF_USER \<longrightarrow> vaddr_pool pf s \<noteq> kernel_vaddr s)"

lemma spaces_okD:
  assumes "spaces_ok D A s" and "(pd, va) \<in> A"
  shows "pd \<in> D" "va_wf va" "separate (pool_bitmap (kernel_pool s)) (vaddr_bitmap va)"
    "separate (pool_bitmap (user_pool s)) (vaddr_bitmap va)"
    "(pd', va') \<in> A \<Longrightarrow> va \<noteq> va' \<Longrightarrow> separate (vaddr_bitmap va) (vaddr_bitmap va')"
    "(pd', va') \<in> A \<Longrightarrow> va \<noteq> va' \<Longrightarrow> i < va_bits va \<Longrightarrow> j < va_bits va' \<Longrightarrow> page_at va i = page_at va' j \<Longrightarrow>
       pd \<noteq> pd' \<and> page_at va i < 0xc0000000"
proof -
  have 1: "\<forall>(pd, va) \<in> A. pd \<in> D \<and> va_wf va \<and> separate (pool_bitmap (kernel_pool s)) (vaddr_bitmap va) \<and>
        separate (pool_bitmap (user_pool s)) (vaddr_bitmap va)"
    and 2: "\<forall>(pd, va) \<in> A. \<forall>(pd', va') \<in> A. va = va' \<or> separate (vaddr_bitmap va) (vaddr_bitmap va') \<and>
        (\<forall>i<va_bits va. \<forall>j<va_bits va'. page_at va i = page_at va' j \<longrightarrow> pd \<noteq> pd' \<and> page_at va i < 0xc0000000)"
    using assms(1) unfolding spaces_ok_def by (rule conjunct1, rule conjunct2)
  show "pd \<in> D" "va_wf va" "separate (pool_bitmap (kernel_pool s)) (vaddr_bitmap va)"
    "separate (pool_bitmap (user_pool s)) (vaddr_bitmap va)"
    using bspec [OF 1 assms(2)] by simp_all
  show "(pd', va') \<in> A \<Longrightarrow> va \<noteq> va' \<Longrightarrow> separate (vaddr_bitmap va) (vaddr_bitmap va')"
    "(pd', va') \<in> A \<Longrightarrow> va \<noteq> va' \<Longrightarrow> i < va_bits va \<Longrightarrow> j < va_bits va' \<Longrightarrow> page_at va i = page_at va' j \<Longrightarrow>
       pd \<noteq> pd' \<and> page_at va i < 0xc0000000"
    using bspec [OF 2 assms(2)] by (auto dest: bspec)
qed

lemma spaces_ok_fields:
  "spaces_ok D A s \<Longrightarrow> kernel_pool s' = kernel_pool s \<Longrightarrow> user_pool s' = user_pool s \<Longrightarrow> spaces_ok D A s'"
  unfolding spaces_ok_def by simp

lemma pages_okI:
  assumes "\<And>pd va i f. (pd, va) \<in> A \<Longrightarrow> i < va_bits va \<Longrightarrow> maps_to (pmem s) pd (page_at va i) f \<Longrightarrow>
    bm_bit (mem s) (vaddr_bitmap va) i \<and> f \<in> pool_frames (pool_for va s)"
  shows "pages_ok A s"
  using assms unfolding pages_ok_def by blast

lemma pages_okD:
  "pages_ok A s \<Longrightarrow> (pd, va) \<in> A \<Longrightarrow> i < va_bits va \<Longrightarrow> maps_to (pmem s) pd (page_at va i) f \<Longrightarrow>
    bm_bit (mem s) (vaddr_bitmap va) i \<and> f \<in> pool_frames (pool_for va s)"
  unfolding pages_ok_def by blast

lemma alloc_inv_upd:
  "pools_ok (s\<lparr>mem := m, pmem := pm\<rparr>) = pools_ok s" "spaces_ok D A (s\<lparr>mem := m, pmem := pm\<rparr>) = spaces_ok D A s"
  "pool_for va (s\<lparr>mem := m, pmem := pm\<rparr>) = pool_for va s" "vaddr_pool pf (s\<lparr>mem := m, pmem := pm\<rparr>) = vaddr_pool pf s"
  "the_pool pf (s\<lparr>mem := m, pmem := pm\<rparr>) = the_pool pf s" "may_use A pf (s\<lparr>mem := m, pmem := pm\<rparr>) = may_use A pf s"
  by (simp_all add: pools_ok_def spaces_ok_def pool_for_def vaddr_pool_def the_pool_def may_use_def running_thread_def)

lemma alloc_inv_upd_mem:
  "pools_ok (s\<lparr>mem := m\<rparr>) = pools_ok s" "spaces_ok D A (s\<lparr>mem := m\<rparr>) = spaces_ok D A s"
  "pool_for va (s\<lparr>mem := m\<rparr>) = pool_for va s" "vaddr_pool pf (s\<lparr>mem := m\<rparr>) = vaddr_pool pf s"
  "the_pool pf (s\<lparr>mem := m\<rparr>) = the_pool pf s" "may_use A pf (s\<lparr>mem := m\<rparr>) = may_use A pf s"
  by (simp_all add: pools_ok_def spaces_ok_def pool_for_def vaddr_pool_def the_pool_def may_use_def running_thread_def)

section \<open>Frames of the two pools\<close>

lemma frame_no_bounds:
  assumes "pools_ok s" and "i < pool_bits p" and "p \<in> {kernel_pool s, user_pool s}"
  shows "0x102000 \<le> unat (frame_no p i)" "phy_addr_start p \<le> frame_no p i"
    "p = kernel_pool s \<Longrightarrow> frame_no p i < phy_addr_start (user_pool s)"
    "(frame_no p i - phy_addr_start p) div 4096 = of_nat i"
proof -
  have wf: "pool_wf p" using assms(1,3) by (auto simp: pools_ok_def)
  note u = unat_frame_no [OF wf assms(2)]
  show le: "phy_addr_start p \<le> frame_no p i" "0x102000 \<le> unat (frame_no p i)"
    using u wf by (simp_all add: word_le_nat_alt pool_wf_def)
  show "p = kernel_pool s \<Longrightarrow> frame_no p i < phy_addr_start (user_pool s)"
    using u assms(1,2) by (auto simp: word_less_nat_alt pools_ok_def)
  have i32: "i < 2 ^ 32" using assms(2) wf by (auto simp: pool_wf_def bm_wf_def)
  have "unat (frame_no p i - phy_addr_start p) = 4096 * i" using unat_sub [OF le(1)] u by simp
  then have "unat ((frame_no p i - phy_addr_start p) div 4096) = unat (of_nat i :: u32)"
    using i32 by (simp add: unat_div unat_of_nat32)
  then show "(frame_no p i - phy_addr_start p) div 4096 = of_nat i" by (rule word_of_unat)
qed

lemma pools_disjoint:
  assumes "pools_ok s"
  shows "pool_frames (kernel_pool s) \<inter> pool_frames (user_pool s) = {}"
  using frame_no_bounds(2) [OF assms, of _ "user_pool s"] frame_no_bounds(3) [OF assms, of _ "kernel_pool s"]
  unfolding pool_frames_def by (fastforce simp: linorder_not_less [symmetric])

lemma free_frames_subset: "free_frames m p \<subseteq> pool_frames p"
  by (auto simp: free_frames_def pool_frames_def)

lemma finite_free_frames [simp]: "finite (free_frames m p)"
  by (simp add: free_frames_def)

lemma free_frames_cong:
  assumes "separate b (pool_bitmap p)" and "changed_in b m m'"
  shows "free_frames m' p = free_frames m p"
  unfolding free_frames_def using bm_bit_separate [OF assms] by (intro arg_cong [of _ _ "(`) (frame_no p)"]) auto

section \<open>One page\<close>

lemma page_added_page:
  assumes ok: "maps_ok D F pm'" and sp: "spaces_ok D A s" and va: "(pd, va) \<in> A" "k < va_bits va"
    and va': "(pd', va') \<in> A" "j < va_bits va'" and add: "page_added D pm pd (page_at va k) f pm'"
    and m: "maps_to pm' pd' (page_at va' j) g"
  shows "maps_to pm pd' (page_at va' j) g \<or> g = f \<and> va' = va \<and> j = k"
proof (rule ccontr)
  assume neg: "\<not> ?thesis"
  let ?v = "page_at va k" and ?w = "page_at va' j"
  note sva = spaces_okD [OF sp va(1)] and sva' = spaces_okD [OF sp va'(1)]
  note pv = page_at_props [OF sva(2) va(2)] and pw = page_at_props [OF sva'(2) va'(2)]
  have slot: "g = f" "has_table pm' pd' ?w" "pte_at pd' pm' ?w = pte_at pd pm' ?v"
    using add m neg sva'(1) unfolding page_added_def by blast+
  have tv: "has_table pm' pd ?v" using add unfolding page_added_def maps_to_def by blast
  have eq: "PDE_IDX ?w = PDE_IDX ?v" "pd' = pd \<or> 768 \<le> PDE_IDX ?w" "PTE_IDX ?w = PTE_IDX ?v"
    using maps_okD(7) [OF ok sva'(1) sva(1) slot(2) tv pw(3) pv(3)] slot(3) unfolding pte_at_eq_iff by blast+
  have same: "?w = ?v" using PDE_IDX_eq_page [OF eq(1,3)] pv(1) pw(1) by simp
  have "va' = va"
  proof (rule ccontr)
    assume "va' \<noteq> va"
    then have "pd' \<noteq> pd \<and> ?w < 0xc0000000" using sva'(6) [OF va(1) _ va'(2) va(2) same] by blast
    then have "unat (PDE_IDX ?w) < 768" by (simp add: unat_PDE_IDX word_less_nat_alt less_mult_imp_div_less)
    then show False using eq(2) \<open>pd' \<noteq> pd \<and> _\<close> by (simp add: word_le_nat_alt)
  qed
  moreover from this have "j = k" using same pv(5) va'(2) by simp
  ultimately show False using neg slot(1) by blast
qed

text \<open>
  What one round of \<open>malloc_page\<close> (and \<open>get_a_page\<close>) does for the page \<open>k\<close> of \<open>va\<close>, already marked:
  a frame leaves the pool, and possibly one more leaves the kernel pool for a new table.
\<close>

definition page_step :: "addr set \<Rightarrow> (addr \<times> virtual_addr) set \<Rightarrow> virtual_addr \<Rightarrow> nat \<Rightarrow>
    'a kmem_scheme \<Rightarrow> addr \<Rightarrow> 'a kmem_scheme \<Rightarrow> bool" where
  "page_step D A va k s f s' \<longleftrightarrow> (\<exists>m' pm'. s' = s\<lparr>mem := m', pmem := pm'\<rparr> \<and> alloc_inv D A s' \<and>
     f \<in> free_frames (mem s) (pool_for va s) \<and> page_added D (pmem s) (cr3 s) (page_at va k) f pm' \<and>
     (\<forall>(pd', va') \<in> A. \<forall>j<va_bits va'. bm_bit m' (vaddr_bitmap va') j = bm_bit (mem s) (vaddr_bitmap va') j) \<and>
     (\<exists>G. G \<subseteq> free_frames (mem s) (kernel_pool s) \<and> card G \<le> 1 \<and>
        free_frames m' (kernel_pool s) = free_frames (mem s) (kernel_pool s) - {f} - G \<and>
        free_frames m' (user_pool s) = free_frames (mem s) (user_pool s) - {f}))"

lemma page_stepE:
  assumes "page_step D A va k s f s1"
  obtains m1 pm1 G where "s1 = s\<lparr>mem := m1, pmem := pm1\<rparr>" and "alloc_inv D A s1"
    and "f \<in> free_frames (mem s) (pool_for va s)"
    and "page_added D (pmem s) (cr3 s) (page_at va k) f pm1"
    and "\<forall>(pd', va') \<in> A. \<forall>j<va_bits va'. bm_bit m1 (vaddr_bitmap va') j = bm_bit (mem s) (vaddr_bitmap va') j"
    and "G \<subseteq> free_frames (mem s) (kernel_pool s)" and "card G \<le> 1"
    and "free_frames m1 (kernel_pool s) = free_frames (mem s) (kernel_pool s) - {f} - G"
    and "free_frames m1 (user_pool s) = free_frames (mem s) (user_pool s) - {f}"
  using assms unfolding page_step_def by (elim exE conjE) (rule that)

lemma pool_bits_kept:
  assumes sp: "spaces_ok D A s" and a: "(pd', va') \<in> A" "j < va_bits va'" and c: "changed_in (pool_bitmap (pool_for va s)) (mem s) m1"
  shows "bm_bit m1 (vaddr_bitmap va') j = bm_bit (mem s) (vaddr_bitmap va') j"
proof -
  have "separate (pool_bitmap (pool_for va s)) (vaddr_bitmap va')" using spaces_okD(3,4) [OF sp a(1)] by (simp add: pool_for_def)
  then show ?thesis by (rule bm_bit_separate [OF _ c a(2)])
qed

text \<open>A change of one pool's bitmap is a change of the free frames of that pool alone.\<close>

lemma other_pool_kept:
  assumes po: "pools_ok s" and c: "changed_in (pool_bitmap (pool_for va s)) (mem s) m1"
  shows "va = kernel_vaddr s \<Longrightarrow> free_frames m1 (user_pool s) = free_frames (mem s) (user_pool s)"
    and "va \<noteq> kernel_vaddr s \<Longrightarrow> free_frames m1 (kernel_pool s) = free_frames (mem s) (kernel_pool s)"
proof -
  have sep: "separate (pool_bitmap (kernel_pool s)) (pool_bitmap (user_pool s))" using po by (simp add: pools_ok_def)
  show "va = kernel_vaddr s \<Longrightarrow> free_frames m1 (user_pool s) = free_frames (mem s) (user_pool s)"
    using free_frames_cong [OF sep, of "mem s" m1] c by (simp add: pool_for_def)
  show "va \<noteq> kernel_vaddr s \<Longrightarrow> free_frames m1 (kernel_pool s) = free_frames (mem s) (kernel_pool s)"
    using free_frames_cong [of "pool_bitmap (user_pool s)" "kernel_pool s" "mem s" m1] c sep separate_sym by (simp add: pool_for_def)
qed

lemma frame_taken:
  assumes po: "pools_ok s" and c: "changed_in (pool_bitmap (pool_for va s)) (mem s) m1"
    and f: "f \<in> free_frames (mem s) (pool_for va s)" "free_frames m1 (pool_for va s) = free_frames (mem s) (pool_for va s) - {f}"
  shows "free_frames m1 (kernel_pool s) = free_frames (mem s) (kernel_pool s) - {f} \<and>
    free_frames m1 (user_pool s) = free_frames (mem s) (user_pool s) - {f}"
proof -
  have fp: "f \<in> pool_frames (pool_for va s)" using f(1) free_frames_subset by blast
  have "f \<notin> free_frames (mem s) (if va = kernel_vaddr s then user_pool s else kernel_pool s)"
    using pools_disjoint [OF po] fp free_frames_subset [of "mem s" "user_pool s"] free_frames_subset [of "mem s" "kernel_pool s"]
    by (auto simp: pool_for_def split: if_splits)
  then show ?thesis using other_pool_kept [OF po c] f(2) by (cases "va = kernel_vaddr s") (auto simp: pool_for_def)
qed

lemma map_page_step:
  assumes inv: "alloc_inv D A s" and va: "(cr3 s, va) \<in> A" "k < va_bits va"
    and bit: "bm_bit (mem s) (vaddr_bitmap va) k" and un: "\<And>g. \<not> maps_to (pmem s) (cr3 s) (page_at va k) g"
    and pa: "palloc (pool_for va s) s = Inr (f, s1)" and add: "page_table_add (page_at va k) f s1 = Inr s2"
  shows "page_step D A va k s f s2"
proof -
  let ?kp = "kernel_pool s" and ?up = "user_pool s" and ?m = "mem s" and ?p = "pool_for va s" and ?v = "page_at va k"
  have po: "pools_ok s" and sp: "spaces_ok D A s" and D: "cr3 s \<in> D" and ok: "maps_ok D (free_all s) (pmem s)"
    and pg: "pages_ok A s" and sh: "shared_ok A (pmem s)" using inv by (simp_all add: alloc_inv_def)
  have wf: "pool_wf ?kp" "pool_wf ?up" "pool_wf ?p" and sep: "separate (pool_bitmap ?kp) (pool_bitmap ?up)"
    using po by (simp_all add: pools_ok_def pool_for_def)
  note sva = spaces_okD [OF sp va(1)]
  note pv = page_at_props [OF sva(2) va(2)]
  obtain m1 where m1: "s1 = s\<lparr>mem := m1\<rparr>" "changed_in (pool_bitmap ?p) ?m m1" "f \<in> free_frames ?m ?p"
    "free_frames m1 ?p = free_frames ?m ?p - {f}" using palloc_spec(1) [OF wf(3) pa] by blast
  have fp: "f \<in> pool_frames ?p" using m1(3) free_frames_subset by blast
  have ff: "frame_of f = f" using m1(3) frame_no_props(1) [OF wf(3)] by (auto simp: free_frames_def)
  have F: "f \<in> free_all s" using m1(3) by (auto simp: free_all_def pool_for_def split: if_splits)
  note free1 = frame_taken [OF po m1(2-4)]
  have kf: "free_frames (mem s1) (kernel_pool s1) \<subseteq> free_all s - {f}"
    using free1 by (auto simp: m1(1) free_all_def)
  obtain m' pm' G where r: "s2 = s1\<lparr>mem := m', pmem := pm'\<rparr>" "changed_in (pool_bitmap ?kp) m1 m'"
    "G \<subseteq> free_frames m1 ?kp" "card G \<le> 1" "free_frames m' ?kp = free_frames m1 ?kp - G"
    "maps_ok D (free_all s - {f} - G) pm'" "page_added D (pmem s) (cr3 s) ?v f pm'"
    using page_table_add_spec(1) [of D "free_all s" s1 ?v f s2] ok D pv(4) un F ff wf(1) kf add by (auto simp: m1(1))
  have s2: "s2 = s\<lparr>mem := m', pmem := pm'\<rparr>" using r(1) m1(1) by simp
  have up: "free_frames m' ?up = free_frames ?m ?up - {f}"
    using free_frames_cong [OF sep r(2)] free1 by simp
  have kp: "free_frames m' ?kp = free_frames ?m ?kp - {f} - G" using r(5) free1 by simp
  have G: "G \<subseteq> free_frames ?m ?kp" "G \<inter> free_frames ?m ?up = {}"
    using r(3) free1 pools_disjoint [OF po] free_frames_subset [of ?m ?kp] free_frames_subset [of ?m ?up] by auto
  have bits: "bm_bit m' (vaddr_bitmap va') j = bm_bit ?m (vaddr_bitmap va') j"
    if "(pd', va') \<in> A" "j < va_bits va'" for pd' va' j
    using pool_bits_kept [OF sp that m1(2)] bm_bit_separate [OF spaces_okD(3) [OF sp that(1)] r(2) that(2)] by simp
  have "alloc_inv D A s2"
    unfolding alloc_inv_def s2 alloc_inv_upd
  proof (intro conjI)
    have "free_all (s\<lparr>mem := m', pmem := pm'\<rparr>) = free_all s - {f} - G" using up kp G(2) by (auto simp: free_all_def)
    then show "maps_ok D (free_all (s\<lparr>mem := m', pmem := pm'\<rparr>)) (pmem (s\<lparr>mem := m', pmem := pm'\<rparr>))" using r(6) by simp
    have keep: "\<forall>pd'\<in>D. \<forall>w. has_table (pmem s) pd' w \<longrightarrow> has_table pm' pd' w \<and> table_of pm' pd' w = table_of (pmem s) pd' w"
      using r(7) unfolding page_added_def by blast
    show "shared_ok A (pmem (s\<lparr>mem := m', pmem := pm'\<rparr>))"
      using sh keep spaces_okD(1) [OF sp] unfolding shared_ok_def by simp metis
    show "pages_ok A (s\<lparr>mem := m', pmem := pm'\<rparr>)"
    proof (rule pages_okI, unfold alloc_inv_upd)
      fix pd' va' i g
      assume *: "(pd', va') \<in> A" "i < va_bits va'" "maps_to (pmem (s\<lparr>mem := m', pmem := pm'\<rparr>)) pd' (page_at va' i) g"
      have "maps_to (pmem s) pd' (page_at va' i) g \<or> g = f \<and> va' = va \<and> i = k"
        using page_added_page [OF r(6) sp va *(1,2) r(7)] *(3) by simp
      then have "bm_bit ?m (vaddr_bitmap va') i \<and> g \<in> pool_frames (pool_for va' s)"
        using pages_okD [OF pg *(1,2)] bit fp by blast
      then show "bm_bit (mem (s\<lparr>mem := m', pmem := pm'\<rparr>)) (vaddr_bitmap va') i \<and> g \<in> pool_frames (pool_for va' s)"
        using bits [OF *(1,2)] by simp
    qed
  qed (use po sp D in simp_all)
  then show ?thesis
    unfolding page_step_def using s2 m1(3) r(4,7) bits kp up G(1)
    by (intro exI [of _ m'] exI [of _ pm'] conjI exI [of _ G]) auto
qed

section \<open>Several pages\<close>

text \<open>
  The pages \<open>k\<close> to \<open>k + n - 1\<close> of \<open>va\<close> are now mapped, to frames that were free in the pool; nothing
  that was mapped has moved; in no directory was anything else mapped than these frames, and no other
  page of any pool; the marks of the virtual pages are as before.
\<close>

definition pages_mapped :: "addr set \<Rightarrow> (addr \<times> virtual_addr) set \<Rightarrow> virtual_addr \<Rightarrow> nat \<Rightarrow> nat \<Rightarrow>
    'a kmem_scheme \<Rightarrow> 'a kmem_scheme \<Rightarrow> bool" where
  "pages_mapped D A va k n s s' \<longleftrightarrow> (\<exists>m' pm'. s' = s\<lparr>mem := m', pmem := pm'\<rparr>) \<and> alloc_inv D A s' \<and>
     (\<forall>i<n. \<exists>f \<in> free_frames (mem s) (pool_for va s). maps_to (pmem s') (cr3 s) (page_at va (k + i)) f) \<and>
     (\<forall>pd\<in>D. \<forall>w g. maps_to (pmem s) pd w g \<longrightarrow> maps_to (pmem s') pd w g) \<and>
     (\<forall>pd\<in>D. \<forall>w g. maps_to (pmem s') pd w g \<longrightarrow> maps_to (pmem s) pd w g \<or> g \<in> free_frames (mem s) (pool_for va s)) \<and>
     (\<forall>(pd', va') \<in> A. \<forall>j<va_bits va'. \<forall>g. maps_to (pmem s') pd' (page_at va' j) g \<longrightarrow>
        maps_to (pmem s) pd' (page_at va' j) g \<or> va' = va \<and> k \<le> j \<and> j < k + n) \<and>
     (\<forall>(pd', va') \<in> A. \<forall>j<va_bits va'. bm_bit (mem s') (vaddr_bitmap va') j = bm_bit (mem s) (vaddr_bitmap va') j) \<and>
     free_frames (mem s') (pool_for va s) \<subseteq> free_frames (mem s) (pool_for va s)"

lemma pages_mapped_0: "alloc_inv D A s \<Longrightarrow> pages_mapped D A va k 0 s s"
  unfolding pages_mapped_def by (auto intro!: exI [of _ "mem s"] exI [of _ "pmem s"])

lemma pages_mapped_Suc:
  assumes st: "page_step D A va k s f s1" and rest: "pages_mapped D A va (Suc k) n s1 s'"
    and inv: "alloc_inv D A s" and va: "(cr3 s, va) \<in> A" "k < va_bits va"
  shows "pages_mapped D A va k (Suc n) s s'"
proof -
  obtain m1 pm1 G where s1: "s1 = s\<lparr>mem := m1, pmem := pm1\<rparr>" and inv1: "alloc_inv D A s1"
    and f: "f \<in> free_frames (mem s) (pool_for va s)"
    and add: "page_added D (pmem s) (cr3 s) (page_at va k) f pm1"
    and bits: "\<forall>(pd', va') \<in> A. \<forall>j<va_bits va'. bm_bit m1 (vaddr_bitmap va') j = bm_bit (mem s) (vaddr_bitmap va') j"
    and G: "G \<subseteq> free_frames (mem s) (kernel_pool s)" "card G \<le> 1"
    and fr: "free_frames m1 (kernel_pool s) = free_frames (mem s) (kernel_pool s) - {f} - G"
      "free_frames m1 (user_pool s) = free_frames (mem s) (user_pool s) - {f}"
    by (rule page_stepE [OF st])
  have sub: "free_frames (mem s1) (pool_for va s1) \<subseteq> free_frames (mem s) (pool_for va s)"
    using fr by (auto simp: s1 alloc_inv_upd pool_for_def)
  have pf: "pool_for va s1 = pool_for va s" by (simp add: s1 alloc_inv_upd)
  have sp: "spaces_ok D A s" and ok1: "maps_ok D (free_all s1) pm1" and D: "cr3 s \<in> D"
    using inv inv1 s1 by (simp_all add: alloc_inv_def)
  obtain m' pm' where s': "s' = s1\<lparr>mem := m', pmem := pm'\<rparr>" and inv': "alloc_inv D A s'"
    and m1: "\<forall>i<n. \<exists>f \<in> free_frames (mem s1) (pool_for va s1). maps_to (pmem s') (cr3 s1) (page_at va (Suc k + i)) f"
    and m2: "\<forall>pd\<in>D. \<forall>w g. maps_to (pmem s1) pd w g \<longrightarrow> maps_to (pmem s') pd w g"
    and m3: "\<forall>pd\<in>D. \<forall>w g. maps_to (pmem s') pd w g \<longrightarrow> maps_to (pmem s1) pd w g \<or> g \<in> free_frames (mem s1) (pool_for va s1)"
    and m4: "\<forall>(pd', va') \<in> A. \<forall>j<va_bits va'. \<forall>g. maps_to (pmem s') pd' (page_at va' j) g \<longrightarrow>
        maps_to (pmem s1) pd' (page_at va' j) g \<or> va' = va \<and> Suc k \<le> j \<and> j < Suc k + n"
    and m5: "\<forall>(pd', va') \<in> A. \<forall>j<va_bits va'. bm_bit (mem s') (vaddr_bitmap va') j = bm_bit (mem s1) (vaddr_bitmap va') j"
    and m6: "free_frames (mem s') (pool_for va s1) \<subseteq> free_frames (mem s1) (pool_for va s1)"
    using rest unfolding pages_mapped_def by blast
  have a1: "maps_to pm1 (cr3 s) (page_at va k) f"
    and a2: "\<forall>pd\<in>D. \<forall>w g. maps_to (pmem s) pd w g \<longrightarrow> maps_to pm1 pd w g"
    and a3: "\<forall>pd\<in>D. \<forall>w g. maps_to pm1 pd w g \<longrightarrow> maps_to (pmem s) pd w g \<or> g = f"
    using add unfolding page_added_def by blast+
  have first: "maps_to (pmem s') (cr3 s) (page_at va k) f" using m2 a1 D by (simp add: s1)
  show ?thesis
    unfolding pages_mapped_def
  proof (intro conjI)
    show "\<exists>m' pm'. s' = s\<lparr>mem := m', pmem := pm'\<rparr>" using s' s1 by auto
    show "\<forall>i<Suc n. \<exists>f \<in> free_frames (mem s) (pool_for va s). maps_to (pmem s') (cr3 s) (page_at va (k + i)) f"
    proof (intro allI impI)
      fix i assume "i < Suc n"
      then show "\<exists>f \<in> free_frames (mem s) (pool_for va s). maps_to (pmem s') (cr3 s) (page_at va (k + i)) f"
        using first f m1 sub by (cases i) (auto simp: s1)
    qed
    show "\<forall>pd\<in>D. \<forall>w g. maps_to (pmem s) pd w g \<longrightarrow> maps_to (pmem s') pd w g" using a2 m2 by (simp add: s1)
    show "\<forall>pd\<in>D. \<forall>w g. maps_to (pmem s') pd w g \<longrightarrow> maps_to (pmem s) pd w g \<or> g \<in> free_frames (mem s) (pool_for va s)"
    proof (intro ballI allI impI)
      fix pd w g assume "pd \<in> D" "maps_to (pmem s') pd w g"
      then have "maps_to pm1 pd w g \<or> g \<in> free_frames (mem s1) (pool_for va s1)" using m3 by (auto simp: s1)
      then show "maps_to (pmem s) pd w g \<or> g \<in> free_frames (mem s) (pool_for va s)"
        using a3 \<open>pd \<in> D\<close> f sub by blast
    qed
    show "\<forall>(pd', va') \<in> A. \<forall>j<va_bits va'. \<forall>g. maps_to (pmem s') pd' (page_at va' j) g \<longrightarrow>
        maps_to (pmem s) pd' (page_at va' j) g \<or> va' = va \<and> k \<le> j \<and> j < k + Suc n"
    proof (clarify)
      fix pd' va' j g
      assume *: "(pd', va') \<in> A" "j < va_bits va'" "maps_to (pmem s') pd' (page_at va' j) g"
        "\<not> (va' = va \<and> k \<le> j \<and> j < k + Suc n)"
      then have "maps_to pm1 pd' (page_at va' j) g" using m4 by (fastforce simp: s1)
      then show "maps_to (pmem s) pd' (page_at va' j) g"
        using page_added_page [OF ok1 sp va *(1,2) add] *(4) by auto
    qed
    show "\<forall>(pd', va') \<in> A. \<forall>j<va_bits va'. bm_bit (mem s') (vaddr_bitmap va') j = bm_bit (mem s) (vaddr_bitmap va') j"
      using bits m5 by (fastforce simp: s1)
    show "free_frames (mem s') (pool_for va s) \<subseteq> free_frames (mem s) (pool_for va s)" using m6 sub pf by simp
  qed (rule inv')
qed

lemma page_step_state:
  assumes "page_step D A va k s f s1" and "alloc_inv D A s" and "(cr3 s, va) \<in> A" and "k < va_bits va"
  shows "alloc_inv D A s1" "cr3 s1 = cr3 s" "pool_for va s1 = pool_for va s" "f \<noteq> 0"
    "kernel_vaddr s1 = kernel_vaddr s" "kernel_pool s1 = kernel_pool s" "user_pool s1 = user_pool s"
    "j < va_bits va \<Longrightarrow> j \<noteq> k \<Longrightarrow> \<forall>g. \<not> maps_to (pmem s) (cr3 s) (page_at va j) g \<Longrightarrow>
       \<not> maps_to (pmem s1) (cr3 s1) (page_at va j) g"
    "j < va_bits va \<Longrightarrow> bm_bit (mem s1) (vaddr_bitmap va) j = bm_bit (mem s) (vaddr_bitmap va) j"
    "card (free_frames (mem s) (kernel_pool s)) \<le>
       card (free_frames (mem s1) (kernel_pool s)) + (if va = kernel_vaddr s then 2 else 1)"
    "card (free_frames (mem s) (user_pool s)) \<le> card (free_frames (mem s1) (user_pool s)) + 1"
proof -
  obtain m1 pm1 G where s1: "s1 = s\<lparr>mem := m1, pmem := pm1\<rparr>" and inv1: "alloc_inv D A s1"
    and f: "f \<in> free_frames (mem s) (pool_for va s)"
    and add: "page_added D (pmem s) (cr3 s) (page_at va k) f pm1"
    and bits: "\<forall>(pd', va') \<in> A. \<forall>j<va_bits va'. bm_bit m1 (vaddr_bitmap va') j = bm_bit (mem s) (vaddr_bitmap va') j"
    and G: "G \<subseteq> free_frames (mem s) (kernel_pool s)" "card G \<le> 1"
    and fr: "free_frames m1 (kernel_pool s) = free_frames (mem s) (kernel_pool s) - {f} - G"
      "free_frames m1 (user_pool s) = free_frames (mem s) (user_pool s) - {f}"
    by (rule page_stepE [OF assms(1)])
  have sp: "spaces_ok D A s" and po: "pools_ok s" and ok1: "maps_ok D (free_all s1) pm1"
    using assms(2) inv1 by (simp_all add: alloc_inv_def s1)
  show "alloc_inv D A s1" by (rule inv1)
  show "cr3 s1 = cr3 s" "kernel_vaddr s1 = kernel_vaddr s" "pool_for va s1 = pool_for va s"
    "kernel_pool s1 = kernel_pool s" "user_pool s1 = user_pool s" by (simp_all add: s1 alloc_inv_upd)
  have "pool_wf (pool_for va s)" using po by (simp add: pools_ok_def pool_for_def)
  then show "f \<noteq> 0" using f frame_no_props(2) by (auto simp: free_frames_def)
  show "\<not> maps_to (pmem s1) (cr3 s1) (page_at va j) g"
    if "j < va_bits va" "j \<noteq> k" "\<forall>g. \<not> maps_to (pmem s) (cr3 s) (page_at va j) g"
    using page_added_page [OF ok1 sp assms(3,4) assms(3) that(1) add, of g] that by (auto simp: s1)
  show "j < va_bits va \<Longrightarrow> bm_bit (mem s1) (vaddr_bitmap va) j = bm_bit (mem s) (vaddr_bitmap va) j"
    using bits assms(3) by (auto simp: s1)
  show "card (free_frames (mem s) (user_pool s)) \<le> card (free_frames (mem s1) (user_pool s)) + 1"
    using card_Diff1_le [of "free_frames (mem s) (user_pool s)" f]
      diff_card_le_card_Diff [of "{f}" "free_frames (mem s) (user_pool s)"] by (simp add: s1 fr)
  have "card (free_frames (mem s) (kernel_pool s)) \<le> card (free_frames (mem s) (kernel_pool s) - {f} - G) +
      (if f \<in> free_frames (mem s) (kernel_pool s) then 2 else 1)"
  proof -
    let ?K = "free_frames (mem s) (kernel_pool s)"
    have "finite G" using G(1) finite_subset finite_free_frames by blast
    then have "card (?K - {f}) - card G \<le> card (?K - {f} - G)" by (rule diff_card_le_card_Diff)
    moreover have "card ?K \<le> card (?K - {f}) + (if f \<in> ?K then 1 else 0)" by (auto simp: card_Diff_singleton_if)
    ultimately show ?thesis using G(2) by (auto split: if_splits)
  qed
  moreover have "f \<notin> free_frames (mem s) (kernel_pool s)" if "va \<noteq> kernel_vaddr s"
    using that f pools_disjoint [OF po] free_frames_subset [of "mem s" "kernel_pool s"]
      free_frames_subset [of "mem s" "user_pool s"] by (auto simp: pool_for_def)
  ultimately show "card (free_frames (mem s) (kernel_pool s)) \<le>
       card (free_frames (mem s1) (kernel_pool s)) + (if va = kernel_vaddr s then 2 else 1)"
    by (auto simp: s1 fr split: if_splits)
qed

lemma malloc_loop_spec:
  assumes "alloc_inv D A s" and "(cr3 s, va) \<in> A" and "p = pool_for va s" and "k + n \<le> va_bits va"
    and "\<And>i. i < n \<Longrightarrow> bm_bit (mem s) (vaddr_bitmap va) (k + i)"
    and "\<And>i g. i < n \<Longrightarrow> \<not> maps_to (pmem s) (cr3 s) (page_at va (k + i)) g"
    and "malloc_loop p n (page_at va k) s = Inr (b, s')"
  shows "b \<and> pages_mapped D A va k n s s'"
  using assms
proof (induction n arbitrary: k s)
  case 0
  then show ?case by (simp add: pages_mapped_0)
next
  case (Suc n)
  obtain f s1 where pa: "palloc (pool_for va s) s = Inr (f, s1)"
    and r: "(if f = NULL then Inr (False, s1)
       else res_bind (page_table_add (page_at va k) f s1) (malloc_loop p n (page_at va k + 4096))) = Inr (b, s')"
    using Suc.prems(3,7) by auto
  have wf: "pool_wf (pool_for va s)" using Suc.prems(1) by (simp add: alloc_inv_def pools_ok_def pool_for_def)
  have f: "f \<noteq> 0" using palloc_spec(1) [OF wf pa] frame_no_props(2) [OF wf] by (auto simp: free_frames_def)
  then obtain s2 where add: "page_table_add (page_at va k) f s1 = Inr s2"
    and rest: "malloc_loop p n (page_at va (Suc k)) s2 = Inr (b, s')" using r by (auto simp: page_at_Suc)
  have k: "k < va_bits va" using Suc.prems(4) by simp
  have st: "page_step D A va k s f s2"
    using map_page_step [OF Suc.prems(1,2) k _ _ pa add] Suc.prems(5,6) [of 0] by simp
  note ps = page_step_state [OF st Suc.prems(1,2) k]
  have un: "\<forall>g. \<not> maps_to (pmem s) (cr3 s) (page_at va (k + Suc i)) g" if "i < n" for i
    using Suc.prems(6) [of "Suc i"] that by simp
  have "b \<and> pages_mapped D A va (Suc k) n s2 s'"
  proof (rule Suc.IH [OF ps(1) _ _ _ _ _ rest])
    show "(cr3 s2, va) \<in> A" "p = pool_for va s2" "Suc k + n \<le> va_bits va"
      using Suc.prems(2,3,4) ps(2,3) by simp_all
    show "bm_bit (mem s2) (vaddr_bitmap va) (Suc k + i)" if "i < n" for i
      using Suc.prems(4) Suc.prems(5) [of "Suc i"] that ps(9) [of "Suc k + i"] by simp
    show "\<not> maps_to (pmem s2) (cr3 s2) (page_at va (Suc k + i)) g" if "i < n" for i g
      using ps(8) [of "Suc k + i" g] un [OF that] that Suc.prems(4) by simp
  qed
  then show ?case using pages_mapped_Suc [OF st _ Suc.prems(1,2) k] by blast
qed

text \<open>Frames enough for \<open>n\<close> pages and, in the worst case, a new table for each of them.\<close>

definition enough_frames :: "virtual_addr \<Rightarrow> nat \<Rightarrow> 'a kmem_scheme \<Rightarrow> bool" where
  "enough_frames va n s \<longleftrightarrow>
     (if va = kernel_vaddr s then 2 * n \<le> card (free_frames (mem s) (kernel_pool s))
      else n \<le> card (free_frames (mem s) (kernel_pool s)) \<and> n \<le> card (free_frames (mem s) (user_pool s)))"

lemma malloc_loop_returns:
  assumes "alloc_inv D A s" and "(cr3 s, va) \<in> A" and "p = pool_for va s" and "k + n \<le> va_bits va"
    and "\<And>i. i < n \<Longrightarrow> bm_bit (mem s) (vaddr_bitmap va) (k + i)"
    and "\<And>i g. i < n \<Longrightarrow> \<not> maps_to (pmem s) (cr3 s) (page_at va (k + i)) g"
    and "enough_frames va n s"
  shows "\<exists>r. malloc_loop p n (page_at va k) s = Inr r"
  using assms
proof (induction n arbitrary: k s)
  case 0
  then show ?case by auto
next
  case (Suc n)
  let ?kp = "kernel_pool s"
  have po: "pools_ok s" and sp: "spaces_ok D A s" and D: "cr3 s \<in> D" and ok: "maps_ok D (free_all s) (pmem s)"
    using Suc.prems(1) by (simp_all add: alloc_inv_def)
  have wf: "pool_wf ?kp" "pool_wf (pool_for va s)" using po by (simp_all add: pools_ok_def pool_for_def)
  have k: "k < va_bits va" using Suc.prems(4) by simp
  have "free_frames (mem s) (pool_for va s) \<noteq> {}"
    using Suc.prems(7) by (auto simp: enough_frames_def pool_for_def split: if_splits)
  then obtain f s1 where pa: "palloc (pool_for va s) s = Inr (f, s1)" using palloc_spec(2) [OF wf(2)] by blast
  obtain m1 where m1: "s1 = s\<lparr>mem := m1\<rparr>" "changed_in (pool_bitmap (pool_for va s)) (mem s) m1"
    "f \<in> free_frames (mem s) (pool_for va s)" "free_frames m1 (pool_for va s) = free_frames (mem s) (pool_for va s) - {f}"
    using palloc_spec(1) [OF wf(2) pa] by blast
  have f: "frame_of f = f" "f \<noteq> 0" using m1(3) frame_no_props(1,2) [OF wf(2)] by (auto simp: free_frames_def)
  have F: "f \<in> free_all s" using m1(3) by (auto simp: free_all_def pool_for_def split: if_splits)
  have "\<not> free_frames (mem s) ?kp \<subseteq> {f}"
    using Suc.prems(7) m1(3) pools_disjoint [OF po] free_frames_subset [of "mem s" ?kp] free_frames_subset [of "mem s" "user_pool s"]
    by (auto simp: enough_frames_def pool_for_def subset_singleton_iff split: if_splits)
  then have K: "free_frames m1 ?kp \<subseteq> free_all s - {f} \<and> free_frames m1 ?kp \<noteq> {}"
    using frame_taken [OF po m1(2-4)] by (auto simp: free_all_def)
  have "PDE_IDX (page_at va k) \<noteq> 1023" using page_at_props(4) [OF spaces_okD(2) [OF sp Suc.prems(2)] k] .
  then obtain s2 where add: "page_table_add (page_at va k) f s1 = Inr s2"
    using page_table_add_spec(2) [of D "free_all s" s1 "page_at va k" f] ok D Suc.prems(6) [of 0] F f(1) wf(1) K
    by (auto simp: m1(1))
  have st: "page_step D A va k s f s2"
    using map_page_step [OF Suc.prems(1,2) k _ _ pa add] Suc.prems(5,6) [of 0] by simp
  note ps = page_step_state [OF st Suc.prems(1,2) k]
  have un: "\<forall>g. \<not> maps_to (pmem s) (cr3 s) (page_at va (k + Suc i)) g" if "i < n" for i
    using Suc.prems(6) [of "Suc i"] that by simp
  have "\<exists>r. malloc_loop p n (page_at va (Suc k)) s2 = Inr r"
  proof (rule Suc.IH [OF ps(1)])
    show "(cr3 s2, va) \<in> A" "p = pool_for va s2" "Suc k + n \<le> va_bits va"
      using Suc.prems(2,3,4) ps(2,3) by simp_all
    show "bm_bit (mem s2) (vaddr_bitmap va) (Suc k + i)" if "i < n" for i
      using Suc.prems(4) Suc.prems(5) [of "Suc i"] that ps(9) [of "Suc k + i"] by simp
    show "\<not> maps_to (pmem s2) (cr3 s2) (page_at va (Suc k + i)) g" if "i < n" for i g
      using ps(8) [of "Suc k + i" g] un [OF that] that Suc.prems(4) by simp
    show "enough_frames va n s2"
      using Suc.prems(7) ps(5,6,7,10,11) by (auto simp: enough_frames_def split: if_splits)
  qed
  then show ?case using pa add f(2) Suc.prems(3) by (simp add: page_at_Suc)
qed

section \<open>Allocating\<close>

text \<open>Changes to the marks of \<open>va\<close> that keep every mapped page marked.\<close>

lemma alloc_inv_marks:
  assumes inv: "alloc_inv D A s" and va: "(pd, va) \<in> A" and ch: "changed_in (vaddr_bitmap va) (mem s) m'"
    and marks: "\<And>pd' i g. (pd', va) \<in> A \<Longrightarrow> i < va_bits va \<Longrightarrow> maps_to (pmem s) pd' (page_at va i) g \<Longrightarrow>
      bm_bit m' (vaddr_bitmap va) i"
  shows "alloc_inv D A (s\<lparr>mem := m'\<rparr>)"
    and "free_frames m' (kernel_pool s) = free_frames (mem s) (kernel_pool s)"
    and "free_frames m' (user_pool s) = free_frames (mem s) (user_pool s)"
    and "(pd', va') \<in> A \<Longrightarrow> va' \<noteq> va \<Longrightarrow> i < va_bits va' \<Longrightarrow> bm_bit m' (vaddr_bitmap va') i = bm_bit (mem s) (vaddr_bitmap va') i"
proof -
  have sp: "spaces_ok D A s" and pg: "pages_ok A s" using inv by (simp_all add: alloc_inv_def)
  note sva = spaces_okD [OF sp va]
  show K: "free_frames m' (kernel_pool s) = free_frames (mem s) (kernel_pool s)"
    and U: "free_frames m' (user_pool s) = free_frames (mem s) (user_pool s)"
    using free_frames_cong [OF _ ch] sva(3,4) separate_sym by blast+
  have other: "bm_bit m' (vaddr_bitmap va') i = bm_bit (mem s) (vaddr_bitmap va') i"
    if "(pd', va') \<in> A" "va' \<noteq> va" "i < va_bits va'" for pd' va' i
    using bm_bit_separate [OF sva(5) [OF that(1)] ch that(3)] that(2) by blast
  then show "(pd', va') \<in> A \<Longrightarrow> va' \<noteq> va \<Longrightarrow> i < va_bits va' \<Longrightarrow>
    bm_bit m' (vaddr_bitmap va') i = bm_bit (mem s) (vaddr_bitmap va') i" by blast
  have "pages_ok A (s\<lparr>mem := m'\<rparr>)"
  proof (rule pages_okI, unfold alloc_inv_upd_mem)
    fix pd' va' i g
    assume *: "(pd', va') \<in> A" "i < va_bits va'" "maps_to (pmem (s\<lparr>mem := m'\<rparr>)) pd' (page_at va' i) g"
    then show "bm_bit (mem (s\<lparr>mem := m'\<rparr>)) (vaddr_bitmap va') i \<and> g \<in> pool_frames (pool_for va' s)"
      using pages_okD [OF pg *(1,2), of g] marks [of pd' i g] other [of pd' va' i] by (cases "va' = va") simp_all
  qed
  moreover have "free_all (s\<lparr>mem := m'\<rparr>) = free_all s" using K U by (simp add: free_all_def)
  ultimately show "alloc_inv D A (s\<lparr>mem := m'\<rparr>)"
    using inv unfolding alloc_inv_def alloc_inv_upd_mem by simp
qed

text \<open>
  \<open>vaddr_get\<close> finds the first free run of virtual pages and marks it; without one it returns
  \<^verbatim>\<open>NULL\<close>, and with no free page at all, or a run at the top of the user space, it halts.
\<close>

definition first_run :: "virtual_addr \<Rightarrow> nat \<Rightarrow> 'a kmem_scheme \<Rightarrow> nat" where
  "first_run va n s = (LEAST k. free_run (bm_bit (mem s) (vaddr_bitmap va)) (va_bits va) n k)"

definition has_run :: "virtual_addr \<Rightarrow> nat \<Rightarrow> 'a kmem_scheme \<Rightarrow> bool" where
  "has_run va n s \<longleftrightarrow> (\<exists>k. free_run (bm_bit (mem s) (vaddr_bitmap va)) (va_bits va) n k)"

lemma first_run_free: "has_run va n s \<Longrightarrow> free_run (bm_bit (mem s) (vaddr_bitmap va)) (va_bits va) n (first_run va n s)"
  unfolding has_run_def first_run_def by (rule LeastI_ex)

definition marked :: "virtual_addr \<Rightarrow> nat \<Rightarrow> nat \<Rightarrow> 'a kmem_scheme \<Rightarrow> mem \<Rightarrow> bool" where
  "marked va k n s m' \<longleftrightarrow> changed_in (vaddr_bitmap va) (mem s) m' \<and>
     (\<forall>j<va_bits va. bm_bit m' (vaddr_bitmap va) j = (k \<le> j \<and> j < k + n \<or> bm_bit (mem s) (vaddr_bitmap va) j))"

lemma vaddr_get_cases:
  assumes wf: "va_wf va" and va: "va = vaddr_pool pf s" and n: "0 < pg_cnt"
  shows "vaddr_get pf pg_cnt s =
      (if \<exists>i<va_bits va. \<not> bm_bit (mem s) (vaddr_bitmap va) i
       then if has_run va (unat pg_cnt) s
            then let k = first_run va (unat pg_cnt) s in
              res_bind (upd_mem (bitmap_set_loop (vaddr_bitmap va) 1 (unat pg_cnt) (of_nat k)) s) (\<lambda>s1.
                if pf = PF_KERNEL then Inr (page_at va k, s1)
                else assertion (page_at va k < 0xbffff000) ''(uint32_t)vaddr_start < (0xc0000000 - PG_SIZE)''
                      (Inr (page_at va k, s1)))
            else Inr (NULL, s)
       else Inl (ASSERT ''free_byte_idx < btmp->btmp_bytes_len''))"
proof -
  let ?b = "vaddr_bitmap va" and ?n = "unat pg_cnt"
  have bwf: "bm_wf ?b" and N: "va_bits va < 2 ^ 31" using wf by (simp_all add: va_wf_def bm_wf_def)
  note scan = bitmap_scan_eq [OF bwf n, of "mem s"]
  show ?thesis
  proof (cases "has_run va ?n s")
    case True
    have ne: "(of_nat (first_run va ?n s) :: u32) \<noteq> - 1"
      using first_fit_cases [OF N, of "bm_bit (mem s) ?b" ?n] True
      unfolding has_run_def first_run_def first_fit_def by auto
    have "0 < ?n" using n by (simp add: unat_gt_0 word_neq_0_conv)
    moreover have "free_run (bm_bit (mem s) ?b) (va_bits va) ?n (first_run va ?n s)" by (rule first_run_free [OF True])
    ultimately have "\<exists>i<va_bits va. \<not> bm_bit (mem s) ?b i" by (auto simp: free_run_def intro!: exI [of _ "first_run va ?n s"])
    then show ?thesis using True scan ne unfolding vaddr_get_def va [symmetric]
      by (cases pf) (simp_all add: has_run_def first_fit_def first_run_def page_at_def Let_def)
  next
    case False
    then show ?thesis using scan
      by (simp add: vaddr_get_def va [symmetric] has_run_def first_fit_def Let_def)
  qed
qed

lemma mark_run:
  assumes inv: "alloc_inv D A s" and va: "(cr3 s, va) \<in> A" and run: "has_run va n s"
  obtains m1 where "bitmap_set_loop (vaddr_bitmap va) 1 n (of_nat (first_run va n s)) (mem s) = Inr m1"
    and "marked va (first_run va n s) n s m1" and "alloc_inv D A (s\<lparr>mem := m1\<rparr>)"
    and "\<And>i g. i < n \<Longrightarrow> \<not> maps_to (pmem s) (cr3 s) (page_at va (first_run va n s + i)) g"
    and "first_run va n s + n \<le> va_bits va"
    and "free_frames m1 (kernel_pool s) = free_frames (mem s) (kernel_pool s)"
    and "free_frames m1 (user_pool s) = free_frames (mem s) (user_pool s)"
proof -
  let ?k = "first_run va n s" and ?b = "vaddr_bitmap va"
  have sp: "spaces_ok D A s" and pg: "pages_ok A s" using inv by (simp_all add: alloc_inv_def)
  have wf: "bm_wf ?b" using spaces_okD(2) [OF sp va] by (simp add: va_wf_def)
  have r: "?k + n \<le> va_bits va" "\<forall>j<n. \<not> bm_bit (mem s) ?b (?k + j)"
    using first_run_free [OF run] by (simp_all add: free_run_def)
  obtain m1 where m1: "bitmap_set_loop ?b 1 n (of_nat ?k) (mem s) = Inr m1" "changed_in ?b (mem s) m1"
    "\<forall>j<va_bits va. bm_bit m1 ?b j = (if ?k \<le> j \<and> j < ?k + n then True else bm_bit (mem s) ?b j)"
    using bitmap_set_loop_spec [OF wf r(1), of 1 "mem s"] by auto
  have "marked va ?k n s m1" using m1(2,3) by (auto simp: marked_def)
  moreover have keep: "bm_bit m1 ?b i" if "(pd', va) \<in> A" "i < va_bits va" "maps_to (pmem s) pd' (page_at va i) g" for pd' i g
    using pages_okD [OF pg that] m1(3) that(2) by auto
  moreover have "\<not> maps_to (pmem s) (cr3 s) (page_at va (?k + i)) g" if "i < n" for i g
    using pages_okD [OF pg va, of "?k + i" g] r that by auto
  ultimately show ?thesis using that m1(1) r(1) alloc_inv_marks(1-3) [OF inv va m1(2)] by blast
qed

lemma the_pool_for: "may_use A pf s \<Longrightarrow> the_pool pf s = pool_for (vaddr_pool pf s) s"
  by (cases pf) (auto simp: the_pool_def pool_for_def may_use_def vaddr_pool_def)

text \<open>Once the run of pages is marked, \<open>malloc_page\<close> is its loop, unless a user page is too high.\<close>

lemma malloc_page_marked:
  assumes wf: "va_wf va" and va: "va = vaddr_pool pf s" and n: "0 < pg_cnt" "pg_cnt < 3840" and run: "has_run va (unat pg_cnt) s"
    and k: "k = first_run va (unat pg_cnt) s"
    and m1: "bitmap_set_loop (vaddr_bitmap va) 1 (unat pg_cnt) (of_nat k) (mem s) = Inr m1"
  shows "malloc_page pf pg_cnt s =
    assertion (pf = PF_KERNEL \<or> page_at va k < 0xbffff000) ''(uint32_t)vaddr_start < (0xc0000000 - PG_SIZE)''
      (res_bind (malloc_loop (the_pool pf s) (unat pg_cnt) (page_at va k) (s\<lparr>mem := m1\<rparr>))
        (\<lambda>(ok, s2). Inr (if ok then page_at va k else NULL, s2)))"
proof -
  have n0: "0 < unat pg_cnt" using n(1) by (simp add: unat_gt_0 word_neq_0_conv)
  have fr: "k + unat pg_cnt \<le> va_bits va" "\<forall>j<unat pg_cnt. \<not> bm_bit (mem s) (vaddr_bitmap va) (k + j)"
    using first_run_free [OF run] by (simp_all add: free_run_def k)
  have "page_at va k \<noteq> NULL" using page_at_props(2) [OF wf, of k] fr(1) n0 by simp
  moreover have "\<exists>i<va_bits va. \<not> bm_bit (mem s) (vaddr_bitmap va) i" using fr n0 by (intro exI [of _ k]) auto
  moreover have "the_pool pf (s\<lparr>mem := m1\<rparr>) = the_pool pf s" by (simp add: the_pool_def)
  ultimately show ?thesis
    using vaddr_get_cases [OF wf va n(1)] n run m1
    by (cases pf) (simp_all add: malloc_page_def Let_def upd_mem_def assertion_def k [symmetric])
qed

lemma malloc_page_run:
  assumes inv: "alloc_inv D A s" and use: "may_use A pf s" and n: "0 < pg_cnt" "pg_cnt < 3840"
    and va: "va = vaddr_pool pf s" and run: "has_run va (unat pg_cnt) s" and k: "k = first_run va (unat pg_cnt) s"
  shows "(\<exists>e. malloc_page pf pg_cnt s = Inl e \<and>
      (enough_frames va (unat pg_cnt) s \<longrightarrow> pf = PF_USER \<and> \<not> page_at va k < 0xbffff000)) \<or>
    (\<exists>s' m1. malloc_page pf pg_cnt s = Inr (page_at va k, s') \<and> marked va k (unat pg_cnt) s m1 \<and>
      pages_mapped D A va k (unat pg_cnt) (s\<lparr>mem := m1\<rparr>) s')"
proof -
  let ?n = "unat pg_cnt"
  have A: "(cr3 s, va) \<in> A" using use by (simp add: may_use_def va)
  have sp: "spaces_ok D A s" using inv by (simp add: alloc_inv_def)
  have wf: "va_wf va" by (rule spaces_okD(2) [OF sp A])
  obtain m1 where m1: "bitmap_set_loop (vaddr_bitmap va) 1 ?n (of_nat k) (mem s) = Inr m1"
    "marked va k ?n s m1" "alloc_inv D A (s\<lparr>mem := m1\<rparr>)"
    "\<And>i g. i < ?n \<Longrightarrow> \<not> maps_to (pmem s) (cr3 s) (page_at va (k + i)) g" "k + ?n \<le> va_bits va"
    "free_frames m1 (kernel_pool s) = free_frames (mem s) (kernel_pool s)"
    "free_frames m1 (user_pool s) = free_frames (mem s) (user_pool s)"
    by (rule mark_run [OF inv A run, folded k], rule that; assumption)
  let ?s1 = "s\<lparr>mem := m1\<rparr>"
  have bits: "bm_bit (mem ?s1) (vaddr_bitmap va) (k + i)" if "i < ?n" for i
    using m1(2,5) that by (simp add: marked_def)
  have pool: "the_pool pf s = pool_for va ?s1" using the_pool_for [OF use] unfolding va alloc_inv_upd_mem .
  note eq = malloc_page_marked [OF wf va n run k m1(1), unfolded pool]
  note spec = malloc_loop_spec [OF m1(3), of va "pool_for va ?s1" k ?n]
  note ret = malloc_loop_returns [OF m1(3), of va "pool_for va ?s1" k ?n]
  show ?thesis
  proof (cases "malloc_loop (pool_for va ?s1) ?n (page_at va k) ?s1")
    case (Inl e)
    have "enough_frames va ?n ?s1 = enough_frames va ?n s" using m1(6,7) by (simp add: enough_frames_def)
    then have "\<not> enough_frames va ?n s" using ret A m1(4,5) bits Inl by auto
    then show ?thesis using eq Inl by (auto simp: assertion_def)
  next
    case (Inr r)
    obtain b s' where r: "r = (b, s')" by (cases r)
    have "b" and "pages_mapped D A va k ?n ?s1 s'" using spec [of b s'] A m1(4,5) bits Inr r by auto
    then show ?thesis using eq Inr r m1(2) by (cases pf) (auto simp: assertion_def)
  qed
qed

lemma malloc_page_spec:
  assumes inv: "alloc_inv D A s" and use: "may_use A pf s" and n: "0 < pg_cnt" "pg_cnt < 3840"
  defines "va \<equiv> vaddr_pool pf s"
  shows "malloc_page pf pg_cnt s = Inr (v, s') \<Longrightarrow>
      v = NULL \<and> s' = s \<and> \<not> has_run va (unat pg_cnt) s \<or>
      has_run va (unat pg_cnt) s \<and> v = page_at va (first_run va (unat pg_cnt) s) \<and>
      (\<exists>m1. marked va (first_run va (unat pg_cnt) s) (unat pg_cnt) s m1 \<and>
        pages_mapped D A va (first_run va (unat pg_cnt) s) (unat pg_cnt) (s\<lparr>mem := m1\<rparr>) s')"
    and "has_run va (unat pg_cnt) s \<Longrightarrow> enough_frames va (unat pg_cnt) s \<Longrightarrow>
      pf = PF_USER \<Longrightarrow> page_at va (first_run va (unat pg_cnt) s) < 0xbffff000 \<Longrightarrow> \<exists>r. malloc_page pf pg_cnt s = Inr r"
    and "has_run va (unat pg_cnt) s \<Longrightarrow> enough_frames va (unat pg_cnt) s \<Longrightarrow> pf = PF_KERNEL \<Longrightarrow>
      \<exists>r. malloc_page pf pg_cnt s = Inr r"
proof -
  let ?n = "unat pg_cnt" and ?k = "first_run va (unat pg_cnt) s"
  have A: "(cr3 s, va) \<in> A" using use by (simp add: may_use_def va_def)
  have sp: "spaces_ok D A s" using inv by (simp add: alloc_inv_def)
  have wf: "va_wf va" by (rule spaces_okD(2) [OF sp A])
  have no: "malloc_page pf pg_cnt s = Inr (NULL, s) \<or> (\<exists>e. malloc_page pf pg_cnt s = Inl e)" if "\<not> has_run va ?n s"
    using that n vaddr_get_cases [OF wf va_def [THEN meta_eq_to_obj_eq] n(1)] by (auto simp: malloc_page_def)
  note yes = malloc_page_run [OF inv use n va_def [THEN meta_eq_to_obj_eq] _ refl]
  show "malloc_page pf pg_cnt s = Inr (v, s') \<Longrightarrow>
      v = NULL \<and> s' = s \<and> \<not> has_run va ?n s \<or>
      has_run va ?n s \<and> v = page_at va ?k \<and> (\<exists>m1. marked va ?k ?n s m1 \<and> pages_mapped D A va ?k ?n (s\<lparr>mem := m1\<rparr>) s')"
    using no yes by (cases "has_run va ?n s") auto
  show "has_run va ?n s \<Longrightarrow> enough_frames va ?n s \<Longrightarrow> pf = PF_USER \<Longrightarrow> page_at va ?k < 0xbffff000 \<Longrightarrow>
      \<exists>r. malloc_page pf pg_cnt s = Inr r"
    and "has_run va ?n s \<Longrightarrow> enough_frames va ?n s \<Longrightarrow> pf = PF_KERNEL \<Longrightarrow> \<exists>r. malloc_page pf pg_cnt s = Inr r"
    using yes by auto
qed

section \<open>Freeing\<close>

text \<open>
  Of the pages of all pools exactly \<open>k\<close> to \<open>k + n - 1\<close> of \<open>va\<close> are no longer mapped, in any directory;
  their frames are free again.
\<close>

definition pages_unmapped :: "addr set \<Rightarrow> (addr \<times> virtual_addr) set \<Rightarrow> virtual_addr \<Rightarrow> nat \<Rightarrow> nat \<Rightarrow>
    'a kmem_scheme \<Rightarrow> 'a kmem_scheme \<Rightarrow> bool" where
  "pages_unmapped D A va k n s s' \<longleftrightarrow> (\<exists>m' pm'. s' = s\<lparr>mem := m', pmem := pm'\<rparr>) \<and> alloc_inv D A s' \<and>
     (\<forall>pd' va' j g. (pd', va') \<in> A \<and> j < va_bits va' \<longrightarrow> maps_to (pmem s') pd' (page_at va' j) g =
        (maps_to (pmem s) pd' (page_at va' j) g \<and> \<not> (va' = va \<and> k \<le> j \<and> j < k + n))) \<and>
     (\<forall>pd' va' j. (pd', va') \<in> A \<and> j < va_bits va' \<longrightarrow>
        bm_bit (mem s') (vaddr_bitmap va') j = bm_bit (mem s) (vaddr_bitmap va') j) \<and>
     (\<forall>i f. i < n \<and> maps_to (pmem s) (cr3 s) (page_at va (k + i)) f \<longrightarrow> f \<in> free_frames (mem s') (pool_for va s)) \<and>
     free_frames (mem s) (pool_for va s) \<subseteq> free_frames (mem s') (pool_for va s)"

lemma unat_frame_mod: "frame_of f = f \<Longrightarrow> unat f mod 4096 = 0"
  by (metis mod_mult_self2_is_0 unat_frame_of)

lemma frame_mod: "frame_of f = f \<Longrightarrow> f mod 4096 = 0"
  by (intro word_of_unat) (simp add: unat_mod unat_frame_mod)

lemma mmu_page:
  assumes "va_wf va" and "i < va_bits va" and "maps_to pm pd (page_at va i) f"
  shows "mmu pd pm (page_at va i) = Some f"
proof -
  note pv = page_at_props [OF assms(1,2)]
  have "page_at va i AND 0xfff = 0"
    by (rule word_of_unat) (simp add: unat_page_offset unat_frame_mod [OF pv(1)])
  then show ?thesis using mmu_maps_to [OF pv(4), of pd pm f] assms(3) by simp
qed

lemma maps_to_shared:
  assumes "shared_ok A pm" and "(pd, va) \<in> A" "(pd', va) \<in> A" and "i < va_bits va"
    and "maps_to pm pd (page_at va i) f"
  shows "maps_to pm pd' (page_at va i) f" "pte_at pd' pm (page_at va i) = pte_at pd pm (page_at va i)"
proof -
  have *: "has_table pm pd' (page_at va i) \<and> table_of pm pd (page_at va i) = table_of pm pd' (page_at va i)"
  proof (cases "pd = pd'")
    case True
    then show ?thesis using assms(5) by (simp add: maps_to_def)
  next
    case False
    then show ?thesis using assms(1-4) unfolding shared_ok_def by metis
  qed
  then show p: "pte_at pd' pm (page_at va i) = pte_at pd pm (page_at va i)" by (simp add: pte_at_eq_iff)
  show "maps_to pm pd' (page_at va i) f" using assms(5) * p by (simp add: maps_to_def)
qed

lemma pte_of_page:
  assumes sp: "spaces_ok D A s" and ok: "maps_ok D F (pmem s)" and sh: "shared_ok A (pmem s)" and D: "cr3 s \<in> D"
    and va: "(cr3 s, va) \<in> A" "k < va_bits va" "maps_to (pmem s) (cr3 s) (page_at va k) f"
    and a: "(pd', va') \<in> A" "j < va_bits va'" "maps_to (pmem s) pd' (page_at va' j) g"
  shows "pte_at pd' (pmem s) (page_at va' j) = pte_at (cr3 s) (pmem s) (page_at va k) \<longleftrightarrow> va' = va \<and> j = k"
proof
  let ?v = "page_at va k"
  assume eq: "pte_at pd' (pmem s) (page_at va' j) = pte_at (cr3 s) (pmem s) ?v"
  note sva' = spaces_okD [OF sp a(1)]
  note pv = page_at_props [OF spaces_okD(2) [OF sp va(1)] va(2)] and pw = page_at_props [OF sva'(2) a(2)]
  have t: "has_table (pmem s) pd' (page_at va' j)" "has_table (pmem s) (cr3 s) ?v" using va(3) a(3) by (simp_all add: maps_to_def)
  have e: "PDE_IDX (page_at va' j) = PDE_IDX ?v" "pd' = cr3 s \<or> 768 \<le> PDE_IDX (page_at va' j)" "PTE_IDX (page_at va' j) = PTE_IDX ?v"
    using maps_okD(7) [OF ok sva'(1) D t pw(3) pv(3)] eq unfolding pte_at_eq_iff by blast+
  have same: "page_at va' j = ?v" using PDE_IDX_eq_page [OF e(1,3)] pv(1) pw(1) by simp
  have "va' = va"
  proof (rule ccontr)
    assume "va' \<noteq> va"
    then have c: "pd' \<noteq> cr3 s \<and> page_at va' j < 0xc0000000" using sva'(6) [OF va(1) _ a(2) va(2) same] by blast
    then have "unat (PDE_IDX (page_at va' j)) < 768" by (simp add: unat_PDE_IDX word_less_nat_alt less_mult_imp_div_less)
    then show False using e(2) c by (simp add: word_le_nat_alt)
  qed
  then show "va' = va \<and> j = k" using same pv(5) a(2) by simp
next
  assume "va' = va \<and> j = k"
  then show "pte_at pd' (pmem s) (page_at va' j) = pte_at (cr3 s) (pmem s) (page_at va k)"
    using maps_to_shared(2) [OF sh va(1) _ va(2,3)] a(1) by blast
qed

text \<open>Clearing the bit of a frame gives the frame back to its pool; \<open>pfree\<close> finds that pool by the
  frame's address.\<close>

lemma pfree_spec:
  assumes po: "pools_ok s" and f: "f \<in> pool_frames (pool_for va s)"
  obtains m1 where "pfree f s = Inr (s\<lparr>mem := m1\<rparr>)" "changed_in (pool_bitmap (pool_for va s)) (mem s) m1"
    "free_frames m1 (pool_for va s) = insert f (free_frames (mem s) (pool_for va s))"
    "\<And>pm. free_all (s\<lparr>mem := m1, pmem := pm\<rparr>) = insert f (free_all s)"
proof -
  let ?p = "pool_for va s"
  have p: "?p \<in> {kernel_pool s, user_pool s}" and wf: "pool_wf ?p" using po by (simp_all add: pool_for_def pools_ok_def)
  obtain i where i: "i < pool_bits ?p" "f = frame_no ?p i" using f by (auto simp: pool_frames_def)
  note fb = frame_no_bounds [OF po i(1) p, folded i(2)]
  have choose: "(if f \<ge> phy_addr_start (user_pool s) then user_pool s else kernel_pool s) = ?p"
    using fb(2,3) by (auto simp: pool_for_def not_le split: if_splits)
  obtain m1 where m1: "bitmap_set (pool_bitmap ?p) (of_nat i) 0 (mem s) = Inr m1" "changed_in (pool_bitmap ?p) (mem s) m1"
    "\<forall>j<pool_bits ?p. bm_bit m1 (pool_bitmap ?p) j = (if j = i then False else bm_bit (mem s) (pool_bitmap ?p) j)"
    using bitmap_set_spec [of "pool_bitmap ?p" i 0 "mem s"] wf i(1) by (auto simp: pool_wf_def)
  have pf: "pfree f s = Inr (s\<lparr>mem := m1\<rparr>)" using m1(1) fb(4) by (simp add: pfree_def choose upd_mem_def Let_def)
  have "{j. j < pool_bits ?p \<and> \<not> bm_bit m1 (pool_bitmap ?p) j} =
      insert i {j. j < pool_bits ?p \<and> \<not> bm_bit (mem s) (pool_bitmap ?p) j}" using m1(3) i(1) by (auto split: if_splits)
  then have ins: "free_frames m1 ?p = insert f (free_frames (mem s) ?p)" by (simp add: free_frames_def i(2))
  then have "free_all (s\<lparr>mem := m1, pmem := pm\<rparr>) = insert f (free_all s)" for pm
    using other_pool_kept [OF po m1(2)] by (cases "va = kernel_vaddr s") (simp_all add: free_all_def pool_for_def)
  then show ?thesis using that pf m1(2) ins by blast
qed

lemma free_page_step:
  assumes inv: "alloc_inv D A s" and va: "(cr3 s, va) \<in> A" "k < va_bits va"
    and m: "maps_to (pmem s) (cr3 s) (page_at va k) f" and fD: "f \<notin> D"
  obtains s1 s2 where "addr_v2p (page_at va k) s = Inr f" and "f mod 4096 = 0" and "0x102000 \<le> f"
    and "va = kernel_vaddr s \<Longrightarrow> phy_addr_start (kernel_pool s) \<le> f \<and> f < phy_addr_start (user_pool s)"
    and "va \<noteq> kernel_vaddr s \<Longrightarrow> phy_addr_start (user_pool s) \<le> f"
    and "pfree f s = Inr s1" and "page_table_pte_remove (page_at va k) s1 = Inr s2"
    and "pages_unmapped D A va k 1 s s2"
proof -
  let ?p = "pool_for va s" and ?v = "page_at va k" and ?pm = "pmem s" and ?pd = "cr3 s"
  have po: "pools_ok s" and sp: "spaces_ok D A s" and D: "?pd \<in> D" and ok: "maps_ok D (free_all s) ?pm"
    and pg: "pages_ok A s" and sh: "shared_ok A ?pm" using inv by (simp_all add: alloc_inv_def)
  have p: "?p \<in> {kernel_pool s, user_pool s}" and wf: "pool_wf ?p" using po by (simp_all add: pool_for_def pools_ok_def)
  note sva = spaces_okD [OF sp va(1)]
  note pv = page_at_props [OF sva(2) va(2)]
  obtain i where i: "i < pool_bits ?p" "f = frame_no ?p i" using pages_okD [OF pg va m] by (auto simp: pool_frames_def)
  note fb = frame_no_bounds [OF po i(1) p, folded i(2)]
  have ff: "frame_of f = f" unfolding i(2) by (rule frame_no_props(1) [OF wf i(1)])
  have rec: "recursive_pd ?pd ?pm" by (rule maps_okD(2) [OF ok D])
  have v2p: "addr_v2p ?v s = Inr f" by (rule addr_v2p_mmu [OF rec mmu_page [OF sva(2) va(2) m]])
  obtain m1 where pf: "pfree f s = Inr (s\<lparr>mem := m1\<rparr>)" and m1: "changed_in (pool_bitmap ?p) (mem s) m1"
    and ins: "free_frames m1 ?p = insert f (free_frames (mem s) ?p)"
    and all': "\<And>pm. free_all (s\<lparr>mem := m1, pmem := pm\<rparr>) = insert f (free_all s)"
    by (rule pfree_spec [OF po pages_okD [OF pg va m, THEN conjunct2]]) (rule that; assumption)
  let ?s1 = "s\<lparr>mem := m1\<rparr>"
  have t: "has_table ?pm ?pd ?v" "present (pmem ?s1 (pde_at (cr3 ?s1) ?v))" using m by (simp_all add: maps_to_def has_table_def)
  define pm2 where "pm2 = ?pm(pte_at ?pd ?pm ?v := ?pm (pte_at ?pd ?pm ?v) AND NOT 1)"
  define s2 where "s2 = s\<lparr>mem := m1, pmem := pm2\<rparr>"
  have rm: "page_table_pte_remove ?v ?s1 = Inr s2"
    using page_table_pte_remove_eq [of ?s1 ?v] rec t(2) by (simp add: s2_def pm2_def)
  have all: "free_all s2 = insert f (free_all s)" unfolding s2_def by (rule all')
  have ok2: "maps_ok D (free_all s2) pm2" unfolding all pm2_def by (rule maps_ok_remove [OF ok D m fD])
  have mt: "maps_to pm2 pd' w g \<longleftrightarrow> maps_to ?pm pd' w g \<and> pte_at pd' ?pm w \<noteq> pte_at ?pd ?pm ?v" if "pd' \<in> D" for pd' w g
    unfolding pm2_def by (rule maps_to_remove [OF ok D that t(1)])
  note bits = pool_bits_kept [OF sp _ _ m1]
  have pages: "maps_to pm2 pd' (page_at va' j) g \<longleftrightarrow> maps_to ?pm pd' (page_at va' j) g \<and> \<not> (va' = va \<and> j = k)"
    if a: "(pd', va') \<in> A" "j < va_bits va'" for pd' va' j g
    using mt [OF spaces_okD(1) [OF sp a(1)]] pte_of_page [OF sp ok sh D va m a] by blast
  have "pages_ok A s2"
    by (rule pages_okI) (use pages bits pages_okD [OF pg] in \<open>auto simp: s2_def alloc_inv_upd\<close>)
  moreover have "shared_ok A pm2"
    using sh pte_write_simps(1,2) [OF ok D _ t(1)] spaces_okD(1) [OF sp] unfolding shared_ok_def pm2_def by metis
  ultimately have inv2: "alloc_inv D A s2"
    using ok2 po sp D unfolding alloc_inv_def by (simp add: s2_def alloc_inv_upd)
  have "pages_unmapped D A va k 1 s s2"
    unfolding pages_unmapped_def
  proof (intro conjI)
    show "\<exists>m' pm'. s2 = s\<lparr>mem := m', pmem := pm'\<rparr>" unfolding s2_def by blast
    show "\<forall>i f. i < 1 \<and> maps_to ?pm ?pd (page_at va (k + i)) f \<longrightarrow> f \<in> free_frames (mem s2) ?p"
      using m ins by (auto simp: s2_def maps_to_def)
    show "\<forall>pd' va' j g. (pd', va') \<in> A \<and> j < va_bits va' \<longrightarrow> maps_to (pmem s2) pd' (page_at va' j) g =
        (maps_to ?pm pd' (page_at va' j) g \<and> \<not> (va' = va \<and> k \<le> j \<and> j < k + 1))"
      using pages by (auto simp: s2_def)
  qed (use inv2 bits ins in \<open>auto simp: s2_def\<close>)
  moreover have "0x102000 \<le> f" using fb(1) by (simp add: word_le_nat_alt)
  ultimately show ?thesis
    using that v2p frame_mod [OF ff] pf rm fb(2,3) by (auto simp: pool_for_def split: if_splits)
qed

lemma pages_unmappedD:
  assumes "pages_unmapped D A va k n s s'"
  shows "\<exists>m' pm'. s' = s\<lparr>mem := m', pmem := pm'\<rparr>" "alloc_inv D A s'"
    "(pd', va') \<in> A \<Longrightarrow> j < va_bits va' \<Longrightarrow> maps_to (pmem s') pd' (page_at va' j) g =
        (maps_to (pmem s) pd' (page_at va' j) g \<and> \<not> (va' = va \<and> k \<le> j \<and> j < k + n))"
    "(pd', va') \<in> A \<Longrightarrow> j < va_bits va' \<Longrightarrow>
        bm_bit (mem s') (vaddr_bitmap va') j = bm_bit (mem s) (vaddr_bitmap va') j"
    "i < n \<Longrightarrow> maps_to (pmem s) (cr3 s) (page_at va (k + i)) f \<Longrightarrow> f \<in> free_frames (mem s') (pool_for va s)"
    "free_frames (mem s) (pool_for va s) \<subseteq> free_frames (mem s') (pool_for va s)"
proof -
  note c = assms [unfolded pages_unmapped_def]
  note c2 = conjunct2 [OF c] note c3 = conjunct2 [OF c2] note c4 = conjunct2 [OF c3] note c5 = conjunct2 [OF c4]
  show "\<exists>m' pm'. s' = s\<lparr>mem := m', pmem := pm'\<rparr>" "alloc_inv D A s'"
    by (rule conjunct1 [OF c], rule conjunct1 [OF c2])
  show "(pd', va') \<in> A \<Longrightarrow> j < va_bits va' \<Longrightarrow> maps_to (pmem s') pd' (page_at va' j) g =
        (maps_to (pmem s) pd' (page_at va' j) g \<and> \<not> (va' = va \<and> k \<le> j \<and> j < k + n))"
    by (rule conjunct1 [OF c3, rule_format]) simp
  show "(pd', va') \<in> A \<Longrightarrow> j < va_bits va' \<Longrightarrow>
        bm_bit (mem s') (vaddr_bitmap va') j = bm_bit (mem s) (vaddr_bitmap va') j"
    by (rule conjunct1 [OF c4, rule_format]) simp
  show "i < n \<Longrightarrow> maps_to (pmem s) (cr3 s) (page_at va (k + i)) f \<Longrightarrow> f \<in> free_frames (mem s') (pool_for va s)"
    by (rule conjunct1 [OF c5, rule_format]) simp
  show "free_frames (mem s) (pool_for va s) \<subseteq> free_frames (mem s') (pool_for va s)" by (rule conjunct2 [OF c5])
qed

lemma pages_unmapped_Suc:
  assumes st: "pages_unmapped D A va k 1 s s1" and rest: "pages_unmapped D A va (Suc k) n s1 s'"
    and va: "(cr3 s, va) \<in> A" and n: "Suc k + n \<le> va_bits va"
  shows "pages_unmapped D A va k (Suc n) s s'"
proof -
  obtain m1 pm1 where s1: "s1 = s\<lparr>mem := m1, pmem := pm1\<rparr>" using pages_unmappedD(1) [OF st] by blast
  have c: "cr3 s1 = cr3 s" "pool_for va s1 = pool_for va s" by (simp_all add: s1 alloc_inv_upd)
  note a = pages_unmappedD [OF st]
  note b = pages_unmappedD [OF rest, unfolded c]
  show ?thesis
    unfolding pages_unmapped_def
  proof (intro conjI allI impI; (elim conjE)?)
    show "\<exists>m' pm'. s' = s\<lparr>mem := m', pmem := pm'\<rparr>" using b(1) s1 by auto
    show "f \<in> free_frames (mem s') (pool_for va s)"
      if "i < Suc n" "maps_to (pmem s) (cr3 s) (page_at va (k + i)) f" for i f
    proof (cases i)
      case 0
      then show ?thesis using that(2) a(5) [of 0 f] b(6) by auto
    next
      case (Suc i')
      then have "maps_to (pmem s1) (cr3 s) (page_at va (Suc k + i')) f"
        using that n a(3) [OF va, of "Suc k + i'" f] by simp
      then show ?thesis using b(5) that(1) Suc by simp
    qed
    show "maps_to (pmem s') pd' (page_at va' j) g =
        (maps_to (pmem s) pd' (page_at va' j) g \<and> \<not> (va' = va \<and> k \<le> j \<and> j < k + Suc n))"
      if "(pd', va') \<in> A" "j < va_bits va'" for pd' va' j g
      unfolding b(3) [OF that] a(3) [OF that] by auto
    show "bm_bit (mem s') (vaddr_bitmap va') j = bm_bit (mem s) (vaddr_bitmap va') j"
      if "(pd', va') \<in> A" "j < va_bits va'" for pd' va' j using a(4) [OF that] b(4) [OF that] by simp
  qed (use a(6) b(2,6) in blast)+
qed

lemma mfree_loop_spec:
  assumes "alloc_inv D A s" and "(cr3 s, va) \<in> A" and "k + n \<le> va_bits va" and "v + 4096 = page_at va k"
    and "\<And>i. i < n \<Longrightarrow> \<exists>f. f \<notin> D \<and> maps_to (pmem s) (cr3 s) (page_at va (k + i)) f"
    and "\<And>f. (if va = kernel_vaddr s then phy_addr_start (kernel_pool s) \<le> f \<and> f < phy_addr_start (user_pool s)
              else phy_addr_start (user_pool s) \<le> f) \<Longrightarrow> chk f"
  shows "\<exists>s'. mfree_loop chk msg n v s = Inr s' \<and> pages_unmapped D A va k n s s'"
  using assms
proof (induction n arbitrary: k v s)
  case 0
  then show ?case by (auto simp: pages_unmapped_def intro!: exI [of _ "mem s"] exI [of _ "pmem s"])
next
  case (Suc n)
  have k: "k < va_bits va" using Suc.prems(3) by simp
  obtain f where f: "f \<notin> D" "maps_to (pmem s) (cr3 s) (page_at va k) f" using Suc.prems(5) [of 0] by auto
  obtain s1 s2 where st: "addr_v2p (page_at va k) s = Inr f" "f mod 4096 = 0"
    "va = kernel_vaddr s \<Longrightarrow> phy_addr_start (kernel_pool s) \<le> f \<and> f < phy_addr_start (user_pool s)"
    "va \<noteq> kernel_vaddr s \<Longrightarrow> phy_addr_start (user_pool s) \<le> f"
    "pfree f s = Inr s1" "page_table_pte_remove (page_at va k) s1 = Inr s2" "pages_unmapped D A va k 1 s s2"
    by (rule free_page_step [OF Suc.prems(1,2) k f(2,1)]) (rule that)
  obtain m2 pm2 where s2: "s2 = s\<lparr>mem := m2, pmem := pm2\<rparr>" and inv2: "alloc_inv D A s2"
    using pages_unmappedD(1,2) [OF st(7)] by blast
  have chk: "chk f" using Suc.prems(6) st(3,4) by simp
  have "\<exists>s'. mfree_loop chk msg n (page_at va k) s2 = Inr s' \<and> pages_unmapped D A va (Suc k) n s2 s'"
  proof (rule Suc.IH [OF inv2])
    show "(cr3 s2, va) \<in> A" "Suc k + n \<le> va_bits va" "page_at va k + 4096 = page_at va (Suc k)"
      using Suc.prems(2,3) by (simp_all add: s2 page_at_Suc)
    show "\<exists>f. f \<notin> D \<and> maps_to (pmem s2) (cr3 s2) (page_at va (Suc k + i)) f" if i: "i < n" for i
    proof -
      obtain g where "g \<notin> D" "maps_to (pmem s) (cr3 s) (page_at va (Suc k + i)) g" using Suc.prems(5) [of "Suc i"] i by auto
      moreover have "Suc k + i < va_bits va" using Suc.prems(3) i by simp
      ultimately have "maps_to (pmem s2) (cr3 s) (page_at va (Suc k + i)) g"
        using pages_unmappedD(3) [OF st(7) Suc.prems(2), of "Suc k + i" g] by simp
      then show ?thesis using \<open>g \<notin> D\<close> by (auto simp: s2)
    qed
    show "chk f" if "if va = kernel_vaddr s2 then phy_addr_start (kernel_pool s2) \<le> f \<and> f < phy_addr_start (user_pool s2)
        else phy_addr_start (user_pool s2) \<le> f" for f
    proof -
      have "kernel_vaddr s2 = kernel_vaddr s" "kernel_pool s2 = kernel_pool s" "user_pool s2 = user_pool s" by (simp_all add: s2)
      then show ?thesis using Suc.prems(6) that by metis
    qed
  qed
  then obtain s' where s': "mfree_loop chk msg n (page_at va k) s2 = Inr s'" "pages_unmapped D A va (Suc k) n s2 s'" by blast
  have "mfree_loop chk msg (Suc n) v s = Inr s'"
    using Suc.prems(4) st(1,2,5,6) chk s'(1) by (simp add: Let_def)
  then show ?case using pages_unmapped_Suc [OF st(7) s'(2) Suc.prems(2)] Suc.prems(3) by auto
qed

text \<open>
  \<open>mfree_page\<close> on pages of the running thread that are mapped, and are not page directories.
\<close>

lemma page_index:
  assumes wf: "va_wf va" and k: "k < va_bits va"
  shows "(page_at va k - vaddr_start va) div 4096 = of_nat k"
proof -
  have "vaddr_start va \<le> page_at va k" using unat_page_at [OF wf k] by (simp add: word_le_nat_alt)
  then have "unat (page_at va k - vaddr_start va) = 4096 * k" using unat_page_at [OF wf k] by (simp add: unat_sub)
  moreover have "k < 2 ^ 32" using k wf by (simp add: va_wf_def bm_wf_def)
  ultimately show ?thesis by (intro word_of_unat) (simp add: unat_div unat_of_nat32)
qed

text \<open>Clearing the marks of pages that are no longer mapped, the last step of \<open>mfree_page\<close>.\<close>

lemma vaddr_remove_unmapped:
  assumes un: "pages_unmapped D A va k (unat pg_cnt) s s1" and A: "(cr3 s, va) \<in> A" and va: "va = vaddr_pool pf s" "va_wf va"
    and k: "k + unat pg_cnt \<le> va_bits va" "0 < unat pg_cnt"
  obtains m' where "vaddr_remove pf (page_at va k) pg_cnt s1 = Inr (s1\<lparr>mem := m'\<rparr>)" and "alloc_inv D A (s1\<lparr>mem := m'\<rparr>)"
    and "\<And>j. j < va_bits va \<Longrightarrow> bm_bit m' (vaddr_bitmap va) j =
      (bm_bit (mem s) (vaddr_bitmap va) j \<and> \<not> (k \<le> j \<and> j < k + unat pg_cnt))"
    and "free_frames m' (kernel_pool s) = free_frames (mem s1) (kernel_pool s)"
    and "free_frames m' (user_pool s) = free_frames (mem s1) (user_pool s)"
proof -
  let ?n = "unat pg_cnt" and ?b = "vaddr_bitmap va"
  obtain m1 pm1 where s1: "s1 = s\<lparr>mem := m1, pmem := pm1\<rparr>" and inv1: "alloc_inv D A s1"
    using pages_unmappedD(1,2) [OF un] by blast
  have bwf: "bm_wf ?b" using va(2) by (simp add: va_wf_def)
  obtain m' where m': "bitmap_set_loop ?b 0 ?n (of_nat k) (mem s1) = Inr m'" "changed_in ?b (mem s1) m'"
    "\<forall>j<va_bits va. bm_bit m' ?b j = (if k \<le> j \<and> j < k + ?n then False else bm_bit (mem s1) ?b j)"
    using bitmap_set_loop_spec [OF bwf k(1), of 0 "mem s1"] by auto
  have A1: "(cr3 s1, va) \<in> A" using A by (simp add: s1)
  have marks: "bm_bit m' ?b i" if "(pd', va) \<in> A" "i < va_bits va" "maps_to (pmem s1) pd' (page_at va i) g" for pd' i g
  proof -
    have "\<not> (k \<le> i \<and> i < k + ?n)" using pages_unmappedD(3) [OF un that(1,2)] that(3) by blast
    moreover have "bm_bit (mem s1) ?b i" using pages_okD [OF _ that] inv1 by (simp add: alloc_inv_def)
    ultimately show ?thesis using m'(3) that(2) by simp
  qed
  have am: "alloc_inv D A (s1\<lparr>mem := m'\<rparr>)" "free_frames m' (kernel_pool s1) = free_frames (mem s1) (kernel_pool s1)"
    "free_frames m' (user_pool s1) = free_frames (mem s1) (user_pool s1)"
    by (rule alloc_inv_marks [OF inv1 A1 m'(2) marks]; assumption)+
  have "vaddr_remove pf (page_at va k) pg_cnt s1 = Inr (s1\<lparr>mem := m'\<rparr>)"
    using m'(1) page_index [OF va(2), of k] k by (simp add: vaddr_remove_def s1 alloc_inv_upd va(1) [symmetric] upd_mem_def Let_def)
  moreover have "kernel_pool s1 = kernel_pool s" "user_pool s1 = user_pool s" by (simp_all add: s1)
  ultimately show ?thesis using that am m'(3) pages_unmappedD(4) [OF un A] by simp
qed

lemma mfree_page_spec:
  assumes inv: "alloc_inv D A s" and use: "may_use A pf s" and n: "0 < pg_cnt"
  defines "va \<equiv> vaddr_pool pf s"
  assumes k: "k + unat pg_cnt \<le> va_bits va"
    and m: "\<And>i. i < unat pg_cnt \<Longrightarrow> \<exists>f. f \<notin> D \<and> maps_to (pmem s) (cr3 s) (page_at va (k + i)) f"
  obtains s1 s' m' where "mfree_page pf (page_at va k) pg_cnt s = Inr s'" and "pages_unmapped D A va k (unat pg_cnt) s s1"
    and "s' = s1\<lparr>mem := m'\<rparr>" and "alloc_inv D A s'"
    and "\<And>j. j < va_bits va \<Longrightarrow> bm_bit m' (vaddr_bitmap va) j =
      (bm_bit (mem s) (vaddr_bitmap va) j \<and> \<not> (k \<le> j \<and> j < k + unat pg_cnt))"
    and "free_frames m' (kernel_pool s) = free_frames (mem s1) (kernel_pool s)"
    and "free_frames m' (user_pool s) = free_frames (mem s1) (user_pool s)"
proof -
  let ?n = "unat pg_cnt" and ?b = "vaddr_bitmap va"
  have A: "(cr3 s, va) \<in> A" using use by (simp_all add: may_use_def va_def)
  have sp: "spaces_ok D A s" using inv by (simp add: alloc_inv_def)
  have wf: "va_wf va" by (rule spaces_okD(2) [OF sp A])
  have n0: "0 < ?n" using n by (simp add: unat_gt_0 word_neq_0_conv)
  have k0: "k < va_bits va" using k n0 by simp
  note pv = page_at_props [OF wf k0]
  obtain f where f: "f \<notin> D" "maps_to (pmem s) (cr3 s) (page_at va k) f" using m [OF n0] by auto
  obtain f0 where st: "addr_v2p (page_at va k) s = Inr f" "f mod 4096 = 0" "0x102000 \<le> f"
    "va = kernel_vaddr s \<Longrightarrow> phy_addr_start (kernel_pool s) \<le> f \<and> f < phy_addr_start (user_pool s)"
    "va \<noteq> kernel_vaddr s \<Longrightarrow> phy_addr_start (user_pool s) \<le> f"
    by (rule free_page_step [OF inv A k0 f(2,1)]) (rule that)
  have v: "page_at va k - 4096 + 4096 = page_at va k" by simp
  note loop = mfree_loop_spec [OF inv A k v m]
  obtain s1 where s1: "(if f \<ge> phy_addr_start (user_pool s)
            then mfree_loop (\<lambda>p. p \<ge> phy_addr_start (user_pool s))
                   ''(pg_phy_addr >= user_pool.phy_addr_start) && (pg_phy_addr % PG_SIZE) == 0''
                   ?n (page_at va k - PG_SIZE) s
            else mfree_loop (\<lambda>p. p \<ge> phy_addr_start (kernel_pool s) \<and> p < phy_addr_start (user_pool s))
                   ''(pg_phy_addr >= kernel_pool.phy_addr_start) && (pg_phy_addr % PG_SIZE) == 0 && (pg_phy_addr < user_pool.phy_addr_start)''
                   ?n (page_at va k - PG_SIZE) s) = Inr s1" and un: "pages_unmapped D A va k ?n s s1"
  proof (cases "va = kernel_vaddr s")
    case True
    then show ?thesis using st(4) loop [of "\<lambda>p. p \<ge> phy_addr_start (kernel_pool s) \<and> p < phy_addr_start (user_pool s)"] that
      by (fastforce simp: not_le [symmetric])
  next
    case False
    then show ?thesis using st(5) loop [of "\<lambda>p. p \<ge> phy_addr_start (user_pool s)"] that by fastforce
  qed
  obtain m' where rm: "vaddr_remove pf (page_at va k) pg_cnt s1 = Inr (s1\<lparr>mem := m'\<rparr>)" "alloc_inv D A (s1\<lparr>mem := m'\<rparr>)"
    and rest: "\<And>j. j < va_bits va \<Longrightarrow> bm_bit m' ?b j = (bm_bit (mem s) ?b j \<and> \<not> (k \<le> j \<and> j < k + ?n))"
    "free_frames m' (kernel_pool s) = free_frames (mem s1) (kernel_pool s)"
    "free_frames m' (user_pool s) = free_frames (mem s1) (user_pool s)"
    by (rule vaddr_remove_unmapped [OF un A va_def [THEN meta_eq_to_obj_eq] wf k n0]) (rule that; assumption)
  have "mfree_page pf (page_at va k) pg_cnt s = Inr (s1\<lparr>mem := m'\<rparr>)"
    using n frame_mod [OF pv(1)] st(1-3) s1 rm(1) by (simp add: mfree_page_def)
  then show ?thesis using that [OF _ un refl rm(2)] rest by simp
qed

end
