(* ===== verification/Isolation.thy ===== *)
theory Isolation
  imports Address_Spaces
begin

text \<open>
  The properties of the page allocator that its users rely on, for every sequence of allocations,
  releases and switches between address spaces.
\<close>

section \<open>Sequences of operations\<close>

text \<open>
  A switch loads another directory and another stack. Only pages that are mapped and are not page
  directories are freed.
\<close>

inductive mem_step :: "addr set \<Rightarrow> (addr \<times> virtual_addr) set \<Rightarrow> 'a kmem_scheme \<Rightarrow> 'a kmem_scheme \<Rightarrow> bool"
  for D A where
  malloc: "may_use A pf s \<Longrightarrow> malloc_page pf pg_cnt s = Inr (v, s') \<Longrightarrow> mem_step D A s s'"
| mfree: "may_use A pf s \<Longrightarrow> k + unat pg_cnt \<le> va_bits (vaddr_pool pf s) \<Longrightarrow>
    (\<And>i. i < unat pg_cnt \<Longrightarrow> \<exists>f. f \<notin> D \<and> maps_to (pmem s) (cr3 s) (page_at (vaddr_pool pf s) (k + i)) f) \<Longrightarrow>
    mfree_page pf (page_at (vaddr_pool pf s) k) pg_cnt s = Inr s' \<Longrightarrow> mem_step D A s s'"
| switch: "pd \<in> D \<Longrightarrow> mem_step D A s (s\<lparr>esp := sp, cr3 := pd\<rparr>)"

lemma malloc_page_inv:
  assumes "alloc_inv D A s" and "may_use A pf s" and "malloc_page pf pg_cnt s = Inr (v, s')"
  shows "alloc_inv D A s'"
proof -
  have n: "0 < pg_cnt" "pg_cnt < 3840" using assms(3) by (auto simp: malloc_page_def)
  show ?thesis using malloc_page_spec(1) [OF assms(1,2) n assms(3)] assms(1) unfolding pages_mapped_def by blast
qed

lemma mem_step_inv: "mem_step D A s s' \<Longrightarrow> alloc_inv D A s \<Longrightarrow> alloc_inv D A s'"
proof (induction rule: mem_step.induct)
  case (malloc pf s pg_cnt v s')
  then show ?case by (blast intro: malloc_page_inv)
next
  case (mfree pf s k pg_cnt s')
  have n: "0 < pg_cnt" using mfree.hyps(4) by (auto simp: mfree_page_def)
  obtain s1 s2 m' where "mfree_page pf (page_at (vaddr_pool pf s) k) pg_cnt s = Inr s2" "alloc_inv D A s2"
    using mfree_page_spec [OF mfree.prems mfree.hyps(1) n mfree.hyps(2,3)] by metis
  then show ?case using mfree.hyps(4) by simp
next
  case (switch pd s sp)
  then show ?case
    by (auto simp: alloc_inv_def pools_ok_def free_all_def pool_for_def pages_ok_def elim!: spaces_ok_fields)
qed

lemma reachable_alloc_inv: "(mem_step D A)\<^sup>*\<^sup>* s t \<Longrightarrow> alloc_inv D A s \<Longrightarrow> alloc_inv D A t"
  by (induction rule: rtranclp_induct) (auto intro: mem_step_inv)

section \<open>Claims\<close>


text \<open>What a successful allocation has done, over the state before it.\<close>

lemma malloc_page_result:
  assumes inv: "alloc_inv D A s" and use: "may_use A pf s" and r: "malloc_page pf pg_cnt s = Inr (v, s1)" "v \<noteq> NULL"
    and va: "va = vaddr_pool pf s" and k: "k = first_run va (unat pg_cnt) s" and n: "n = unat pg_cnt"
  shows "v = page_at va k" and "k + n \<le> va_bits va" and "\<exists>m' pm'. s1 = s\<lparr>mem := m', pmem := pm'\<rparr>" and "alloc_inv D A s1"
    and "i < n \<Longrightarrow> \<exists>f \<in> free_frames (mem s) (pool_for va s). maps_to (pmem s1) (cr3 s) (page_at va (k + i)) f"
    and "pd \<in> D \<Longrightarrow> maps_to (pmem s) pd w g \<Longrightarrow> maps_to (pmem s1) pd w g"
    and "(pd, va') \<in> A \<Longrightarrow> j < va_bits va' \<Longrightarrow> maps_to (pmem s1) pd (page_at va' j) g \<Longrightarrow>
      maps_to (pmem s) pd (page_at va' j) g \<or> va' = va \<and> k \<le> j \<and> j < k + n"
    and "j < va_bits va \<Longrightarrow> bm_bit (mem s1) (vaddr_bitmap va) j \<longleftrightarrow> bm_bit (mem s) (vaddr_bitmap va) j \<or> k \<le> j \<and> j < k + n"
    and "k \<le> j \<Longrightarrow> j < k + n \<Longrightarrow> \<not> bm_bit (mem s) (vaddr_bitmap va) j"
proof -
  have c: "0 < pg_cnt" "pg_cnt < 3840" using r(1) by (auto simp: malloc_page_def)
  have A: "(cr3 s, va) \<in> A" using use by (simp add: may_use_def va)
  have sp: "spaces_ok D A s" using inv by (simp add: alloc_inv_def)
  obtain m1 where run: "has_run va n s" and v: "v = page_at va k" and mk: "marked va k n s m1"
    and pm: "pages_mapped D A va k n (s\<lparr>mem := m1\<rparr>) s1"
    using malloc_page_spec(1) [OF inv use c r(1)] r(2) unfolding va k n by blast
  have fr: "free_frames m1 (pool_for va s) = free_frames (mem s) (pool_for va s)"
    by (rule free_frames_cong [of "vaddr_bitmap va"])
      (use mk spaces_okD(3,4) [OF sp A] separate_sym in \<open>auto simp: marked_def pool_for_def\<close>)
  note p = pm [unfolded pages_mapped_def alloc_inv_upd_mem, simplified]
  show "v = page_at va k" by (rule v)
  show "k + n \<le> va_bits va" using first_run_free [OF run] by (simp add: free_run_def k n)
  show "\<exists>m' pm'. s1 = s\<lparr>mem := m', pmem := pm'\<rparr>" "alloc_inv D A s1" using p by blast+
  show "\<exists>f \<in> free_frames (mem s) (pool_for va s). maps_to (pmem s1) (cr3 s) (page_at va (k + i)) f" if "i < n"
    using p that unfolding fr by blast
  show "pd \<in> D \<Longrightarrow> maps_to (pmem s) pd w g \<Longrightarrow> maps_to (pmem s1) pd w g" using p by blast
  show "maps_to (pmem s) pd (page_at va' j) g \<or> va' = va \<and> k \<le> j \<and> j < k + n"
    if "(pd, va') \<in> A" "j < va_bits va'" "maps_to (pmem s1) pd (page_at va' j) g" using p that by blast
  show "bm_bit (mem s1) (vaddr_bitmap va) j \<longleftrightarrow> bm_bit (mem s) (vaddr_bitmap va) j \<or> k \<le> j \<and> j < k + n" if "j < va_bits va"
    using p A mk that unfolding marked_def by fastforce
  show "\<not> bm_bit (mem s) (vaddr_bitmap va) j" if "k \<le> j" "j < k + n"
    using first_run_free [OF run] that le_Suc_ex [OF that(1)] by (auto simp: free_run_def k n)
qed

text \<open>
  C7: an allocation that finds a run of virtual pages and frames enough succeeds and returns the
  first run; every page of it is mapped to a frame that was free in the pool, whatever any directory
  had mapped stays mapped as it was, exactly the pages of the run are newly marked, and the invariant
  holds again.
\<close>

theorem malloc_page_fresh:
  assumes "alloc_inv D A s" and "may_use A pf s" and "0 < pg_cnt" and "pg_cnt < 3840"
    and "has_run (vaddr_pool pf s) (unat pg_cnt) s" and "enough_frames (vaddr_pool pf s) (unat pg_cnt) s"
    and "pf = PF_USER \<longrightarrow> page_at (vaddr_pool pf s) (first_run (vaddr_pool pf s) (unat pg_cnt) s) < 0xbffff000"
  shows "\<exists>s'. malloc_page pf pg_cnt s = Inr (page_at (vaddr_pool pf s) (first_run (vaddr_pool pf s) (unat pg_cnt) s), s') \<and>
    alloc_inv D A s' \<and>
    (\<forall>i<unat pg_cnt. \<exists>f \<in> free_frames (mem s) (the_pool pf s).
       mmu (cr3 s) (pmem s') (page_at (vaddr_pool pf s) (first_run (vaddr_pool pf s) (unat pg_cnt) s + i)) = Some f) \<and>
    (\<forall>pd\<in>D. \<forall>w p. PDE_IDX w \<noteq> 1023 \<and> mmu pd (pmem s) w = Some p \<longrightarrow> mmu pd (pmem s') w = Some p) \<and>
    (\<forall>j<va_bits (vaddr_pool pf s). bm_bit (mem s') (vaddr_bitmap (vaddr_pool pf s)) j \<longleftrightarrow>
       bm_bit (mem s) (vaddr_bitmap (vaddr_pool pf s)) j \<or>
       first_run (vaddr_pool pf s) (unat pg_cnt) s \<le> j \<and> j < first_run (vaddr_pool pf s) (unat pg_cnt) s + unat pg_cnt)"
proof -
  define va where "va = vaddr_pool pf s"
  define k where "k = first_run va (unat pg_cnt) s"
  have A: "(cr3 s, va) \<in> A" using assms(2) by (simp add: may_use_def va_def)
  note pool = the_pool_for [OF assms(2), folded va_def]
  have sp: "spaces_ok D A s" using assms(1) by (simp add: alloc_inv_def)
  have wf: "va_wf va" by (rule spaces_okD(2) [OF sp A])
  obtain v s' where r: "malloc_page pf pg_cnt s = Inr (v, s')"
    using malloc_page_spec(2,3) [OF assms(1-4) assms(5,6)] assms(7) by (cases pf) auto
  have v0: "v \<noteq> NULL"
  proof -
    have "k < va_bits va" using first_run_free [OF assms(5)] assms(3) by (simp add: free_run_def k_def va_def word_less_nat_alt)
    then show ?thesis using malloc_page_spec(1) [OF assms(1-4) r] assms(5) page_at_props(2) [OF wf, of k] by (auto simp: k_def va_def)
  qed
  note p = malloc_page_result [OF assms(1,2) r v0 va_def k_def refl]
  show ?thesis
    unfolding va_def [symmetric] k_def [symmetric] pool
  proof (intro exI [of _ s'] conjI ballI allI impI)
    show "malloc_page pf pg_cnt s = Inr (page_at va k, s')" using r p(1) by simp
    show "\<exists>f \<in> free_frames (mem s) (pool_for va s). mmu (cr3 s) (pmem s') (page_at va (k + i)) = Some f"
      if "i < unat pg_cnt" for i
      using p(5) [OF that] p(2) that mmu_page [OF wf, of "k + i"] by fastforce
    show "mmu pd (pmem s') w = Some p" if "pd \<in> D" "PDE_IDX w \<noteq> 1023 \<and> mmu pd (pmem s) w = Some p" for pd w p
      using that p(6) mmu_maps_to [OF conjunct1 [OF that(2)]] by auto
    show "bm_bit (mem s') (vaddr_bitmap va) j \<longleftrightarrow> bm_bit (mem s) (vaddr_bitmap va) j \<or> k \<le> j \<and> j < k + unat pg_cnt"
      if "j < va_bits va" for j
      by (rule p(8) [OF that])
  qed (rule p(4))
qed

text \<open>
  C8: pages that an allocation has returned can be given back: \<open>mfree_page\<close> succeeds on them, and
  then the marks of the virtual pages and the mapping of every page of every pool are as before the
  allocation, and the frames that had been handed out are free again.
\<close>

theorem malloc_mfree_roundtrip:
  assumes "alloc_inv D A s" and "may_use A pf s" and "malloc_page pf pg_cnt s = Inr (v, s1)" and "v \<noteq> NULL"
  shows "\<exists>s2. mfree_page pf v pg_cnt s1 = Inr s2 \<and> alloc_inv D A s2 \<and>
    (\<forall>j<va_bits (vaddr_pool pf s).
       bm_bit (mem s2) (vaddr_bitmap (vaddr_pool pf s)) j = bm_bit (mem s) (vaddr_bitmap (vaddr_pool pf s)) j) \<and>
    (\<forall>(pd, va) \<in> A. \<forall>j<va_bits va. \<forall>f. maps_to (pmem s2) pd (page_at va j) f = maps_to (pmem s) pd (page_at va j) f) \<and>
    (\<forall>i<unat pg_cnt. \<forall>f. maps_to (pmem s1) (cr3 s) (v + of_nat i * PG_SIZE) f \<longrightarrow>
       f \<in> free_frames (mem s2) (the_pool pf s))"
proof -
  define va where "va = vaddr_pool pf s"
  define k where "k = first_run va (unat pg_cnt) s"
  let ?n = "unat pg_cnt" and ?b = "vaddr_bitmap va"
  have n: "0 < pg_cnt" using assms(3) by (auto simp: malloc_page_def)
  note pool = the_pool_for [OF assms(2), folded va_def] and p = malloc_page_result [OF assms va_def k_def refl]
  have sp: "spaces_ok D A s" and ok: "maps_ok D (free_all s) (pmem s)" and pg: "pages_ok A s"
    using assms(1) by (simp_all add: alloc_inv_def)
  obtain m' pm' where s1: "s1 = s\<lparr>mem := m', pmem := pm'\<rparr>" using p(3) by blast
  have vp: "vaddr_pool pf s1 = va" "may_use A pf s1" "pool_for va s1 = pool_for va s" "cr3 s1 = cr3 s"
    using assms(2) by (simp_all add: s1 alloc_inv_upd va_def)
  have mapped: "\<exists>f. f \<notin> D \<and> maps_to (pmem s1) (cr3 s1) (page_at va (k + i)) f" if i: "i < ?n" for i
  proof -
    obtain f where f: "f \<in> free_frames (mem s) (pool_for va s)" "maps_to (pmem s1) (cr3 s) (page_at va (k + i)) f"
      using p(5) [OF i] by blast
    then have "f \<in> free_all s" by (auto simp: free_all_def pool_for_def split: if_splits)
    then show ?thesis using f(2) maps_okD(3) [OF ok] vp(4) by auto
  qed
  obtain t s2 m2 where r: "mfree_page pf (page_at va k) pg_cnt s1 = Inr s2" and un: "pages_unmapped D A va k ?n s1 t"
    and s2: "s2 = t\<lparr>mem := m2\<rparr>" and inv2: "alloc_inv D A s2"
    and b2: "\<And>j. j < va_bits va \<Longrightarrow> bm_bit m2 ?b j = (bm_bit (mem s1) ?b j \<and> \<not> (k \<le> j \<and> j < k + ?n))"
    and fr2: "free_frames m2 (kernel_pool s1) = free_frames (mem t) (kernel_pool s1)"
      "free_frames m2 (user_pool s1) = free_frames (mem t) (user_pool s1)"
    by (rule mfree_page_spec [OF p(4) vp(2) n, unfolded vp(1), OF p(2) mapped], assumption) (rule that; assumption)
  note u = pages_unmappedD [OF un]
  have maps: "maps_to (pmem s2) pd (page_at va' j) f = maps_to (pmem s) pd (page_at va' j) f"
    if a: "(pd, va') \<in> A" "j < va_bits va'" for pd va' j f
    using u(3) [OF a, of f] p(6) [OF spaces_okD(1) [OF sp a(1)]] p(7) [OF a] p(9) [of j] pages_okD [OF pg a, of f]
    by (auto simp: s2)
  show ?thesis
    unfolding va_def [symmetric] pool
  proof (intro exI [of _ s2] conjI allI impI)
    show "mfree_page pf v pg_cnt s1 = Inr s2" using r p(1) by simp
    show "bm_bit (mem s2) ?b j = bm_bit (mem s) ?b j" if "j < va_bits va" for j
      using b2 [OF that] p(8) [OF that] p(9) [of j] by (auto simp: s2)
    show "\<forall>(pd, va') \<in> A. \<forall>j<va_bits va'. \<forall>f. maps_to (pmem s2) pd (page_at va' j) f = maps_to (pmem s) pd (page_at va' j) f"
      using maps by blast
    show "f \<in> free_frames (mem s2) (pool_for va s)"
      if "i < ?n" "maps_to (pmem s1) (cr3 s) (v + of_nat i * PG_SIZE) f" for i f
    proof -
      have "v + of_nat i * PG_SIZE = page_at va (k + i)" by (simp add: p(1) page_at_def algebra_simps)
      then have "f \<in> free_frames (mem t) (pool_for va s)" using u(5) [OF that(1), of f] that(2) vp(3,4) by simp
      then show ?thesis using fr2 by (simp add: s2 s1 pool_for_def split: if_splits)
    qed
  qed (rule inv2)
qed

section \<open>A small system\<close>

text \<open>
  Two directories, the kernel's at 0x100000 and one of a process at 0x300000, that share the table at
  0x101000 for the kernel heap. Of the eight frames of the kernel pool two are taken (a heap page and
  the process's table at 0x201000), of the eight of the user pool one (the page at 0x8048000).
\<close>

definition sample_kva :: virtual_addr where
  "sample_kva = \<lparr>vaddr_bitmap = \<lparr>btmp_bytes_len = 1, bits = 0xc009a002\<rparr>, vaddr_start = 0xc0100000\<rparr>"

definition sample_uva :: virtual_addr where
  "sample_uva = \<lparr>vaddr_bitmap = \<lparr>btmp_bytes_len = 1, bits = 0xc0100000\<rparr>, vaddr_start = 0x8048000\<rparr>"

definition sample_kpool :: pool where
  "sample_kpool = \<lparr>pool_bitmap = \<lparr>btmp_bytes_len = 1, bits = 0xc009a000\<rparr>, phy_addr_start = 0x200000,
     pool_size = 0x8000, pool_lock = 0xc0008000\<rparr>"

definition sample_upool :: pool where
  "sample_upool = \<lparr>pool_bitmap = \<lparr>btmp_bytes_len = 1, bits = 0xc009a001\<rparr>, phy_addr_start = 0x208000,
     pool_size = 0x8000, pool_lock = 0xc0008040\<rparr>"

definition sample_tables :: "addr \<Rightarrow> u32" where
  "sample_tables = (\<lambda>_. 0)(0x100000 + 768 * 4 := 0x101007, 0x100000 + 1023 * 4 := 0x100007,
     0x300000 + 768 * 4 := 0x101007, 0x300000 + 1023 * 4 := 0x300007, 0x300000 + 32 * 4 := 0x201007,
     0x101000 + 256 * 4 := 0x200007, 0x201000 + 72 * 4 := 0x208007)"

definition sample_kmem :: kmem where
  "sample_kmem = (kbd.extend sample_kbd
     (kmem.fields sample_kpool sample_upool sample_kva 0xc0007000
       (\<lambda>_. \<lparr>mem_block_size = 0, blocks_per_arena = 0\<rparr>) (\<lambda>_. \<lparr>desc = 0, cnt = 0, large = False\<rparr>)))
     \<lparr>esp := 0xc009efe0, cr3 := 0x100000,
      mem := (\<lambda>_. 0)(0xc009a000 := 3, 0xc009a001 := 1, 0xc009a002 := 1, 0xc0100000 := 1), pmem := sample_tables\<rparr>"

definition sample_D :: "addr set" where "sample_D = {0x100000, 0x300000}"

definition sample_A :: "(addr \<times> virtual_addr) set" where
  "sample_A = {(0x100000, sample_kva), (0x300000, sample_kva), (0x300000, sample_uva)}"

lemma sample_kmem_fields [simp]:
  "kernel_pool sample_kmem = sample_kpool" "user_pool sample_kmem = sample_upool" "kernel_vaddr sample_kmem = sample_kva"
  "pmem sample_kmem = sample_tables" "cr3 sample_kmem = 0x100000"
  "mem sample_kmem = (\<lambda>_. 0)(0xc009a000 := 3, 0xc009a001 := 1, 0xc009a002 := 1, 0xc0100000 := 1)"
  by (simp_all add: sample_kmem_def kbd.extend_def kmem.fields_def)

text \<open>The entries of a page of \<open>sample_tables\<close>.\<close>

lemma sample_entry:
  assumes "unat i < 1024"
  shows "sample_tables (frame_of f + i * 4) =
    (if frame_of f = 0x100000 \<and> i = 768 then 0x101007 else if frame_of f = 0x100000 \<and> i = 1023 then 0x100007
     else if frame_of f = 0x300000 \<and> i = 768 then 0x101007 else if frame_of f = 0x300000 \<and> i = 1023 then 0x300007
     else if frame_of f = 0x300000 \<and> i = 32 then 0x201007 else if frame_of f = 0x101000 \<and> i = 256 then 0x200007
     else if frame_of f = 0x201000 \<and> i = 72 then 0x208007 else 0)"
proof -
  have e: "frame_of f + i * 4 = g + j * 4 \<longleftrightarrow> frame_of f = g \<and> i = j" if "frame_of g = g" "unat j < 1024" for g j
    using entry_eq_iff [OF assms that(2), of f g] that(1) by simp
  have g: "frame_of 0x100000 = 0x100000" "frame_of 0x300000 = 0x300000" "frame_of 0x101000 = 0x101000"
    "frame_of 0x201000 = 0x201000" by (simp_all add: frame_of_def)
  show ?thesis unfolding sample_tables_def fun_upd_apply
    using e [OF g(1), of 768] e [OF g(1), of 1023] e [OF g(2), of 768] e [OF g(2), of 1023] e [OF g(2), of 32]
      e [OF g(3), of 256] e [OF g(4), of 72] by auto
qed

lemma sample_frames: "frame_of 0x100000 = 0x100000" "frame_of 0x300000 = 0x300000" "frame_of 0x101007 = 0x101000"
  "frame_of 0x201007 = 0x201000" "frame_of 0x101000 = 0x101000" "frame_of 0x201000 = 0x201000" "frame_of 0x200007 = 0x200000" "frame_of 0x208007 = 0x208000"
  by (simp_all add: frame_of_def)

lemma sample_has_table:
  "pd \<in> sample_D \<Longrightarrow> has_table sample_tables pd v \<longleftrightarrow> PDE_IDX v = 768 \<or> pd = 0x300000 \<and> PDE_IDX v = 32"
  by (auto simp: sample_D_def has_table_def pde_at_def sample_entry PDE_IDX_less sample_frames present_def)

lemma sample_table_of:
  "pd \<in> sample_D \<Longrightarrow> has_table sample_tables pd v \<Longrightarrow>
     table_of sample_tables pd v = (if PDE_IDX v = 768 then 0x101000 else 0x201000)"
  by (auto simp: sample_has_table) (auto simp: sample_D_def table_of_def pde_at_def sample_tables_def sample_frames)

lemma sample_maps_to:
  assumes "pd \<in> sample_D"
  shows "maps_to sample_tables pd v f \<longleftrightarrow> PDE_IDX v = 768 \<and> PTE_IDX v = 256 \<and> f = 0x200000 \<or>
    pd = 0x300000 \<and> PDE_IDX v = 32 \<and> PTE_IDX v = 72 \<and> f = 0x208000"
proof (cases "has_table sample_tables pd v")
  case True
  have "sample_tables (pte_at pd sample_tables v) =
    (if PDE_IDX v = 768 \<and> PTE_IDX v = 256 then 0x200007 else if PDE_IDX v \<noteq> 768 \<and> PTE_IDX v = 72 then 0x208007 else 0)"
  proof -
    have "pte_at pd sample_tables v = frame_of (table_of sample_tables pd v) + PTE_IDX v * 4"
      by (simp add: pte_at_def table_of_def)
    then show ?thesis unfolding sample_table_of [OF assms True] by (simp add: sample_entry PTE_IDX_less sample_frames)
  qed
  then show ?thesis using True sample_has_table [OF assms, of v]
    by (auto simp: maps_to_def present_def sample_frames)
next
  case False
  then show ?thesis using sample_has_table [OF assms, of v] by (auto simp: maps_to_def)
qed

lemma sample_tables_set: "tables sample_D sample_tables \<subseteq> {0x101000, 0x201000}"
  by (auto simp: tables_def sample_table_of)

lemma less_8_cases: "(i :: nat) < 8 \<longleftrightarrow> i \<in> {0, 1, 2, 3, 4, 5, 6, 7}"
  by auto

lemma sample_frame_sets:
  "pool_frames sample_kpool = {0x200000, 0x201000, 0x202000, 0x203000, 0x204000, 0x205000, 0x206000, 0x207000}"
  "pool_frames sample_upool = {0x208000, 0x209000, 0x20a000, 0x20b000, 0x20c000, 0x20d000, 0x20e000, 0x20f000}"
  "free_frames (mem sample_kmem) sample_kpool = {0x202000, 0x203000, 0x204000, 0x205000, 0x206000, 0x207000}"
  "free_frames (mem sample_kmem) sample_upool = {0x209000, 0x20a000, 0x20b000, 0x20c000, 0x20d000, 0x20e000, 0x20f000}"
proof -
  have "{..<8 :: nat} = {0, 1, 2, 3, 4, 5, 6, 7}" by auto
  then show "pool_frames sample_kpool = {0x200000, 0x201000, 0x202000, 0x203000, 0x204000, 0x205000, 0x206000, 0x207000}"
    "pool_frames sample_upool = {0x208000, 0x209000, 0x20a000, 0x20b000, 0x20c000, 0x20d000, 0x20e000, 0x20f000}"
    by (simp_all add: pool_frames_def frame_no_def sample_kpool_def sample_upool_def)
  have "{i :: nat. i < 8 \<and> \<not> bm_bit (mem sample_kmem) (pool_bitmap sample_kpool) i} = {2, 3, 4, 5, 6, 7}"
    "{i :: nat. i < 8 \<and> \<not> bm_bit (mem sample_kmem) (pool_bitmap sample_upool) i} = {1, 2, 3, 4, 5, 6, 7}"
    unfolding less_8_cases by (auto simp: bm_bit_def sample_kpool_def sample_upool_def bit_numeral_rec bit_1_iff)
  then show "free_frames (mem sample_kmem) sample_kpool = {0x202000, 0x203000, 0x204000, 0x205000, 0x206000, 0x207000}"
    "free_frames (mem sample_kmem) sample_upool = {0x209000, 0x20a000, 0x20b000, 0x20c000, 0x20d000, 0x20e000, 0x20f000}"
    by (simp_all add: free_frames_def frame_no_def sample_kpool_def sample_upool_def)
qed

lemma sample_maps_ok: "maps_ok sample_D (free_all sample_kmem) sample_tables"
proof (rule maps_okI)
  show "frame_of pd = pd" "recursive_pd pd sample_tables" if "pd \<in> sample_D" for pd
    using that by (auto simp: sample_D_def sample_frames recursive_pd_def sample_tables_def present_def frame_of_def)
  show "sample_D \<inter> free_all sample_kmem = {}"
    by (simp add: free_all_def sample_frame_sets sample_D_def del: sample_kmem_fields(6))
  show "tables sample_D sample_tables \<inter> (sample_D \<union> free_all sample_kmem) = {}"
    using sample_tables_set by (auto simp: free_all_def sample_frame_sets sample_D_def simp del: sample_kmem_fields(6))
  show "f \<notin> free_all sample_kmem \<union> tables sample_D sample_tables" if "pd \<in> sample_D" "maps_to sample_tables pd v f" for pd v f
    using that(2) sample_tables_set unfolding sample_maps_to [OF that(1)]
    by (auto simp: free_all_def sample_frame_sets simp del: sample_kmem_fields(6))
  show "pte_at pd sample_tables v = pte_at pd' sample_tables w"
    if "pd \<in> sample_D" "pd' \<in> sample_D" "maps_to sample_tables pd v f" "maps_to sample_tables pd' w f" for pd pd' v w f
  proof -
    have "has_table sample_tables pd v" "has_table sample_tables pd' w" using that(3,4) by (simp_all add: maps_to_def)
    then show ?thesis using that(3,4) sample_table_of [OF that(1)] sample_table_of [OF that(2)]
      unfolding pte_at_eq_iff sample_maps_to [OF that(1)] sample_maps_to [OF that(2)] by auto
  qed
  show "PDE_IDX v = PDE_IDX w \<and> (pd = pd' \<or> 768 \<le> PDE_IDX v)"
    if "pd \<in> sample_D" "pd' \<in> sample_D" "has_table sample_tables pd v" "has_table sample_tables pd' w"
      "table_of sample_tables pd v = table_of sample_tables pd' w" for pd pd' v w
    using that(3-5) sample_table_of [OF that(1,3)] sample_table_of [OF that(2,4)]
    unfolding sample_has_table [OF that(1)] sample_has_table [OF that(2)] by (auto split: if_splits)
qed

lemma sample_page_IDX:
  "j < 8 \<Longrightarrow> PDE_IDX (page_at sample_kva j) = 768" "j < 8 \<Longrightarrow> PDE_IDX (page_at sample_uva j) = 32"
  "j < 8 \<Longrightarrow> PTE_IDX (page_at sample_kva j) = 256 \<longleftrightarrow> j = 0" "j < 8 \<Longrightarrow> PTE_IDX (page_at sample_uva j) = 72 \<longleftrightarrow> j = 0"
  unfolding less_8_cases by (auto simp: page_at_def sample_kva_def sample_uva_def PDE_IDX_def PTE_IDX_def)

lemma sample_va_bits [simp]: "va_bits sample_kva = 8" "va_bits sample_uva = 8"
  by (simp_all add: sample_kva_def sample_uva_def)

lemma separate_bytes: "a \<noteq> b \<Longrightarrow> separate \<lparr>btmp_bytes_len = 1, bits = a\<rparr> \<lparr>btmp_bytes_len = 1, bits = b\<rparr>"
  by (auto simp: separate_def disjoint_regions_def within_def unat_eq_zero)

lemma sample_alloc_inv: "alloc_inv sample_D sample_A sample_kmem"
proof -
  have "pools_ok sample_kmem"
    by (simp add: pools_ok_def pool_wf_def bm_wf_def sample_kpool_def sample_upool_def separate_bytes)
  moreover have "spaces_ok sample_D sample_A sample_kmem"
  proof -
    have ne: "\<forall>i<8. \<forall>j<8. page_at sample_kva i \<noteq> page_at sample_uva j" "\<forall>i<8. \<forall>j<8. page_at sample_uva i \<noteq> page_at sample_kva j"
      using sample_page_IDX(1,2) by fastforce+
    have "va_wf sample_kva" "va_wf sample_uva" by (simp_all add: va_wf_def bm_wf_def sample_kva_def sample_uva_def)
    moreover have "separate (vaddr_bitmap sample_kva) (vaddr_bitmap sample_uva)"
      "separate (pool_bitmap sample_kpool) (vaddr_bitmap sample_kva)" "separate (pool_bitmap sample_upool) (vaddr_bitmap sample_kva)"
      "separate (pool_bitmap sample_kpool) (vaddr_bitmap sample_uva)" "separate (pool_bitmap sample_upool) (vaddr_bitmap sample_uva)"
      by (simp_all add: sample_kva_def sample_uva_def sample_kpool_def sample_upool_def separate_bytes)
    ultimately show ?thesis
      using ne separate_sym [of "vaddr_bitmap sample_uva" "vaddr_bitmap sample_kva"]
      unfolding spaces_ok_def sample_A_def sample_D_def by simp
  qed
  moreover have "pages_ok sample_A sample_kmem"
  proof (rule pages_okI)
    fix pd va i f assume *: "(pd, va) \<in> sample_A" "i < va_bits va" "maps_to (pmem sample_kmem) pd (page_at va i) f"
    have D: "pd \<in> sample_D" and va: "va = sample_kva \<or> va = sample_uva" using *(1) by (auto simp: sample_A_def sample_D_def)
    have "i < 8" using *(2) va by auto
    have "sample_kva \<noteq> sample_uva" by (simp add: sample_kva_def sample_uva_def)
    then have "i = 0 \<and> (va = sample_kva \<and> f = 0x200000 \<or> va = sample_uva \<and> f = 0x208000)"
      using *(3) va sample_page_IDX [OF \<open>i < 8\<close>] by (auto simp: sample_maps_to [OF D])
    then show "bm_bit (mem sample_kmem) (vaddr_bitmap va) i \<and> f \<in> pool_frames (pool_for va sample_kmem)"
      using \<open>sample_kva \<noteq> sample_uva\<close> sample_frame_sets(1,2)
      by (auto simp: pool_for_def bm_bit_def) (simp_all add: sample_kva_def sample_uva_def)
  qed
  moreover have "shared_ok sample_A sample_tables"
  proof -
    have "has_table sample_tables pd (page_at sample_kva i)" if "pd \<in> sample_D" "i < 8" for pd i
      using that sample_page_IDX(1) by (simp add: sample_has_table)
    then show ?thesis
      unfolding shared_ok_def by (auto simp: sample_A_def sample_table_of sample_D_def sample_page_IDX(1))
  qed
  ultimately show ?thesis using sample_maps_ok by (simp add: alloc_inv_def sample_D_def)
qed


lemma sample_may_use: "may_use sample_A PF_KERNEL sample_kmem"
  by (simp add: may_use_def vaddr_pool_def sample_A_def)

lemma sample_has_run: "has_run sample_kva 2 sample_kmem"
  unfolding has_run_def free_run_def
  by (rule exI [of _ 1]) (auto simp: less_Suc_eq numeral_2_eq_2 bm_bit_def sample_kva_def bit_1_iff)

theorem malloc_page_fresh_witness:
  "\<exists>v s'. malloc_page PF_KERNEL 2 sample_kmem = Inr (v, s') \<and> alloc_inv sample_D sample_A s'"
proof -
  have va: "vaddr_pool PF_KERNEL sample_kmem = sample_kva" by (simp add: vaddr_pool_def)
  have "enough_frames sample_kva 2 sample_kmem"
    unfolding enough_frames_def using sample_frame_sets(3) by simp
  then show ?thesis
    using malloc_page_fresh [OF sample_alloc_inv sample_may_use, of 2] sample_has_run unfolding va by auto
qed

lemma sample_malloc: "\<exists>v s'. malloc_page PF_KERNEL 2 sample_kmem = Inr (v, s') \<and> v \<noteq> NULL"
proof -
  have va: "vaddr_pool PF_KERNEL sample_kmem = sample_kva" by (simp add: vaddr_pool_def)
  have e: "enough_frames sample_kva 2 sample_kmem" unfolding enough_frames_def using sample_frame_sets(3) by simp
  have wf: "va_wf sample_kva" by (simp add: va_wf_def bm_wf_def sample_kva_def)
  obtain v s' where r: "malloc_page PF_KERNEL 2 sample_kmem = Inr (v, s')"
    using malloc_page_spec(3) [OF sample_alloc_inv sample_may_use, of 2] sample_has_run e unfolding va by auto
  have "v = page_at sample_kva (first_run sample_kva 2 sample_kmem)"
    using malloc_page_spec(1) [OF sample_alloc_inv sample_may_use _ _ r] sample_has_run unfolding va by auto
  moreover have "first_run sample_kva 2 sample_kmem < va_bits sample_kva"
    using first_run_free [OF sample_has_run] by (simp add: free_run_def)
  ultimately show ?thesis using r page_at_props(2) [OF wf] by blast
qed

theorem malloc_mfree_roundtrip_witness:
  "\<exists>v s1 s2. malloc_page PF_KERNEL 2 sample_kmem = Inr (v, s1) \<and> mfree_page PF_KERNEL v 2 s1 = Inr s2 \<and>
     alloc_inv sample_D sample_A s2"
proof -
  obtain v s1 where "malloc_page PF_KERNEL 2 sample_kmem = Inr (v, s1)" "v \<noteq> NULL" using sample_malloc by blast
  then show ?thesis using malloc_mfree_roundtrip [OF sample_alloc_inv sample_may_use] by blast
qed

end
