(* ===== verification/Mem_Init.thy ===== *)
theory Mem_Init
  imports Isolation
begin

text \<open>
  \<^verbatim>\<open>mem_pool_init\<close> and \<^verbatim>\<open>block_desc_init\<close>: the layout of the pools for a given size of the memory, and the
  size classes of the block allocator.
\<close>

section \<open>The sizes\<close>

lemma pages_16bit: "unat (all_mem :: u32) < 0x10200000 \<Longrightarrow> (unat all_mem - 0x200000) div 4096 < 65536"
  by (intro less_mult_imp_div_less) simp

lemma unat_all_free_pages:
  assumes "0x200000 \<le> unat all_mem" and "unat all_mem < 0x10200000"
  shows "unat (all_free_pages all_mem) = (unat all_mem - 0x200000) div 4096"
proof -
  have "unat (all_mem - 0x200000) = unat all_mem - 0x200000"
    using assms(1) by (subst unat_sub) (simp_all add: word_le_nat_alt)
  moreover note pages_16bit [OF assms(2)]
  ultimately show ?thesis
    by (simp add: all_free_pages_def unsigned_ucast_eq unat_div take_bit_nat_eq_self)
qed

lemma unat_pool_pages:
  assumes "0x200000 \<le> unat all_mem" and "unat all_mem < 0x10200000"
  defines "n \<equiv> (unat all_mem - 0x200000) div 4096"
  shows "unat (kernel_free_pages all_mem) = n div 2" "unat (user_free_pages all_mem) = n - n div 2"
proof -
  show k: "unat (kernel_free_pages all_mem) = n div 2"
    using unat_all_free_pages [OF assms(1,2)] by (simp add: kernel_free_pages_def unat_div n_def)
  have "kernel_free_pages all_mem \<le> all_free_pages all_mem"
    using k unat_all_free_pages [OF assms(1,2)] by (simp add: word_le_nat_alt n_def)
  then show "unat (user_free_pages all_mem) = n - n div 2"
    using k unat_all_free_pages [OF assms(1,2)] by (simp add: user_free_pages_def unat_sub n_def)
qed

text \<open>What \<open>mem_pool_init\<close> stores in the two pools, as numbers.\<close>

lemma mem_pool_layout_unat:
  fixes s :: "'a kmem_scheme"
  assumes "0x200000 \<le> unat all_mem" and "unat all_mem < 0x10200000"
  defines "n \<equiv> (unat all_mem - 0x200000) div 4096"
  defines "s1 \<equiv> mem_pool_layout all_mem s"
  shows "unat (phy_addr_start (kernel_pool s1)) = 0x200000"
    "unat (phy_addr_start (user_pool s1)) = 0x200000 + 4096 * (n div 2)"
    "unat (btmp_bytes_len (pool_bitmap (kernel_pool s1))) = n div 2 div 8"
    "unat (btmp_bytes_len (pool_bitmap (user_pool s1))) = (n - n div 2) div 8"
    "unat (bits (pool_bitmap (kernel_pool s1))) = 0xc009a000"
    "unat (bits (pool_bitmap (user_pool s1))) = 0xc009a000 + n div 2 div 8"
    "unat (pool_size (kernel_pool s1)) = 4096 * (n div 2)" "unat (pool_size (user_pool s1)) = 4096 * (n - n div 2)"
proof -
  note p = unat_pool_pages [OF assms(1,2), folded n_def]
  have n: "n < 65536" unfolding n_def by (rule pages_16bit [OF assms(2)])
  have u: "unat (ucast (kernel_free_pages all_mem) :: u32) = n div 2"
    "unat (ucast (user_free_pages all_mem) :: u32) = n - n div 2"
    using p n by (simp_all add: unsigned_ucast_eq take_bit_nat_eq_self)
  have m: "unat (ucast (kernel_free_pages all_mem) * 4096 :: u32) = 4096 * (n div 2)"
    "unat (ucast (user_free_pages all_mem) * 4096 :: u32) = 4096 * (n - n div 2)"
    using u n by (simp_all add: unat_word_ariths)
  have d: "unat (ucast (kernel_free_pages all_mem) div 8 :: u32) = n div 2 div 8"
    "unat (ucast (user_free_pages all_mem) div 8 :: u32) = (n - n div 2) div 8"
    using u by (simp_all add: unat_div)
  have l: "n div 2 div 8 \<le> 4096" "4096 * (n div 2) < 0x10000000" using n by auto
  show "unat (phy_addr_start (kernel_pool s1)) = 0x200000" "unat (bits (pool_bitmap (kernel_pool s1))) = 0xc009a000"
    by (simp_all add: s1_def mem_pool_layout_def Let_def)
  show "unat (phy_addr_start (user_pool s1)) = 0x200000 + 4096 * (n div 2)"
    using m(1) l by (simp add: s1_def mem_pool_layout_def Let_def unat_word_ariths)
  show "unat (btmp_bytes_len (pool_bitmap (kernel_pool s1))) = n div 2 div 8"
    "unat (btmp_bytes_len (pool_bitmap (user_pool s1))) = (n - n div 2) div 8"
    "unat (pool_size (kernel_pool s1)) = 4096 * (n div 2)" "unat (pool_size (user_pool s1)) = 4096 * (n - n div 2)"
    using d m by (simp_all add: s1_def mem_pool_layout_def Let_def)
  show "unat (bits (pool_bitmap (user_pool s1))) = 0xc009a000 + n div 2 div 8"
    using d(1) l by (simp add: s1_def mem_pool_layout_def Let_def unat_word_ariths)
qed

lemma separateI:
  assumes "unat (bits b) + unat (btmp_bytes_len b) \<le> unat (bits c)" and "unat (bits c) + unat (btmp_bytes_len c) \<le> 2 ^ 32"
  shows "separate b c"
  unfolding separate_def using assms by (rule disjoint_regionsI)

lemma lock_init_fields [simp]:
  "mem (lock_init l s) = mem s" "kernel_pool (lock_init l s) = kernel_pool s" "user_pool (lock_init l s) = user_pool s"
  "kernel_vaddr (lock_init l s) = kernel_vaddr s"
  by (simp_all add: lock_init_def sema_init_def list_init_def set_sema_def set_holder_def set_repeat_def)

definition all_free :: "mem \<Rightarrow> bitmap \<Rightarrow> bool" where
  "all_free m b \<longleftrightarrow> (\<forall>i<bm_size b. \<not> bm_bit m b i)"

lemma bitmap_init_spec:
  assumes "bm_wf b"
  obtains m' where "bitmap_init b m = Inr m'" and "changed_in b m m'" and "all_free m' b"
  using bitmap_init_bits [OF assms, of m] unfolding changed_in_def all_free_def by blast

section \<open>The pools after initialisation\<close>

text \<open>The bitmaps lie one after the other below the control block of the main thread, at 0xc009e000.\<close>

definition pools_fresh :: "u32 \<Rightarrow> 'a kmem_scheme \<Rightarrow> bool" where
  "pools_fresh all_mem s \<longleftrightarrow> pools_ok s \<and> va_wf (kernel_vaddr s) \<and>
     separate (pool_bitmap (kernel_pool s)) (vaddr_bitmap (kernel_vaddr s)) \<and>
     separate (pool_bitmap (user_pool s)) (vaddr_bitmap (kernel_vaddr s)) \<and>
     all_free (mem s) (pool_bitmap (kernel_pool s)) \<and> all_free (mem s) (pool_bitmap (user_pool s)) \<and>
     all_free (mem s) (vaddr_bitmap (kernel_vaddr s)) \<and> vaddr_start (kernel_vaddr s) = K_HEAP_START \<and>
     va_bits (kernel_vaddr s) = pool_bits (kernel_pool s) \<and>
     MEM_BITMAP_BASE \<le> bits (pool_bitmap (kernel_pool s)) \<and>
     unat (bits (vaddr_bitmap (kernel_vaddr s))) + unat (btmp_bytes_len (vaddr_bitmap (kernel_vaddr s))) \<le> 0xc009e000 \<and>
     (\<forall>f \<in> pool_frames (kernel_pool s) \<union> pool_frames (user_pool s). 0x200000 \<le> f \<and> unat f + 4096 \<le> unat all_mem)"

lemma mem_pool_init_fresh:
  fixes s :: "'a kmem_scheme"
  assumes "0x200000 \<le> unat all_mem" and "unat all_mem < 0x10200000"
  shows "\<exists>s'. mem_pool_init all_mem s = Inr s' \<and> pools_fresh all_mem s'"
proof -
  define n where "n = (unat all_mem - 0x200000) div 4096"
  define s1 where "s1 = mem_pool_layout all_mem s"
  have n: "n < 65536" unfolding n_def by (rule pages_16bit [OF assms(2)])
  define kl where "kl = n div 2 div 8"
  define ul where "ul = (n - n div 2) div 8"
  define kn where "kn = n div 2"
  define un where "un = n - n div 2"
  have h: "kl \<le> 4095" "ul \<le> 4096" "8 * kl \<le> kn" "8 * ul \<le> un" "kn + un = n" "4096 * n + 0x200000 \<le> unat all_mem"
    using n assms(1) unfolding kl_def ul_def kn_def un_def by (auto simp: n_def)
  note L = mem_pool_layout_unat [OF assms, of s, folded n_def s1_def, folded kl_def ul_def, folded kn_def un_def]
  let ?kb = "pool_bitmap (kernel_pool s1)" and ?ub = "pool_bitmap (user_pool s1)"
  define vb where "vb = \<lparr>btmp_bytes_len = btmp_bytes_len ?kb,
     bits = MEM_BITMAP_BASE + btmp_bytes_len ?kb + btmp_bytes_len ?ub\<rparr>"
  let ?va = "\<lparr>vaddr_bitmap = vb, vaddr_start = K_HEAP_START\<rparr>"
  have vb: "unat (bits vb) = 0xc009a000 + kl + ul" "unat (btmp_bytes_len vb) = kl"
    using L(3,4) h by (simp_all add: vb_def unat_word_ariths)
  have wf: "bm_wf ?kb" "bm_wf ?ub" "bm_wf vb"
    unfolding bm_wf_def using L(3-6) vb h(1,2) by (auto simp: unat_eq_zero [symmetric])
  have sep: "separate ?kb ?ub" "separate ?kb vb" "separate ?ub vb"
    by (rule separateI; use L(3-6) vb h(1,2) in simp)+
  obtain m1 where m1: "bitmap_init ?kb (mem s1) = Inr m1" "changed_in ?kb (mem s1) m1" "all_free m1 ?kb"
    by (rule bitmap_init_spec [OF wf(1), where m = "mem s1"])
  obtain m2 where m2: "bitmap_init ?ub m1 = Inr m2" "changed_in ?ub m1 m2" "all_free m2 ?ub"
    by (rule bitmap_init_spec [OF wf(2), where m = m1])
  obtain m3 where m3: "bitmap_init vb m2 = Inr m3" "changed_in vb m2 m3" "all_free m3 vb"
    by (rule bitmap_init_spec [OF wf(3), where m = m2])
  have free: "all_free m3 ?kb" "all_free m3 ?ub" "all_free m3 vb"
  proof -
    have "bm_bit m2 ?kb i = bm_bit m1 ?kb i" "bm_bit m3 ?kb i = bm_bit m2 ?kb i" if "i < bm_size ?kb" for i
      using bm_bit_separate [OF _ m2(2) that] bm_bit_separate [OF _ m3(2) that] sep separate_sym by blast+
    then show "all_free m3 ?kb" using m1(3) by (simp add: all_free_def)
    have "bm_bit m3 ?ub i = bm_bit m2 ?ub i" if "i < bm_size ?ub" for i
      using bm_bit_separate [OF _ m3(2) that] sep separate_sym by blast
    then show "all_free m3 ?ub" using m2(3) by (simp add: all_free_def)
    show "all_free m3 vb" by (rule m3(3))
  qed
  define s2 where "s2 = lock_init (pool_lock (user_pool s1)) (lock_init (pool_lock (kernel_pool s1)) (s1\<lparr>mem := m2\<rparr>))"
  define s' where "s' = s2\<lparr>kernel_vaddr := ?va, mem := m3\<rparr>"
  have run: "mem_pool_init all_mem s = Inr s'"
    using m1(1) m2(1) m3(1) unfolding mem_pool_init_def s1_def [symmetric] Let_def
    by (simp add: upd_mem_def vb_def [symmetric] s2_def [symmetric]) (simp add: s'_def s2_def vb_def)
  have f: "kernel_pool s' = kernel_pool s1" "user_pool s' = user_pool s1" "kernel_vaddr s' = ?va" "mem s' = m3"
    by (simp_all add: s'_def s2_def)
  have pw: "pool_wf (kernel_pool s1)" "pool_wf (user_pool s1)"
    unfolding pool_wf_def using wf L(1-4) h assms(2) by auto
  have "pools_ok s'" unfolding pools_ok_def f using pw sep(1) L(1-3) h(3) by auto
  moreover have "va_wf ?va" unfolding va_wf_def using wf(3) vb(2) h by auto
  moreover have "0x200000 \<le> g \<and> unat g + 4096 \<le> unat all_mem"
    if g: "g \<in> pool_frames (kernel_pool s1) \<union> pool_frames (user_pool s1)" for g
  proof -
    obtain p i where p: "p = kernel_pool s1 \<or> p = user_pool s1" "i < pool_bits p" "g = frame_no p i"
      using g by (auto simp: pool_frames_def)
    have "unat g = unat (phy_addr_start p) + 4096 * i" using unat_frame_no [OF _ p(2)] p(1,3) pw by auto
    then show ?thesis using p(1,2) L(1-4) h by (auto simp: word_le_nat_alt)
  qed
  moreover have "va_bits ?va = bm_size ?kb" "MEM_BITMAP_BASE \<le> bits ?kb"
    using vb(2) L(3,5) by (simp_all add: word_le_nat_alt)
  moreover have "unat (bits vb) + unat (btmp_bytes_len vb) \<le> 0xc009e000" using vb h(1,2) by simp
  ultimately have "pools_fresh all_mem s'"
    using sep(2,3) free unfolding pools_fresh_def f by simp
  then show ?thesis using run by blast
qed

section \<open>Claims\<close>



end
