(* ===== verification/Arena.thy ===== *)
theory Arena
  imports Mem_Init
begin

text \<open>
  \<^verbatim>\<open>kernel/memory.c\<close>, the block allocator: \<^verbatim>\<open>sys_malloc\<close> hands out whole pages for requests over 1024
  bytes and otherwise blocks of seven size classes, cut from one-page arenas; \<^verbatim>\<open>sys_free\<close> returns
  them. An arena's header is 12 bytes; the list element of a free block is at the start of the block.
\<close>

section \<open>The routines\<close>

definition arena2block :: "addr \<Rightarrow> u32 \<Rightarrow> 'a kmem_scheme \<Rightarrow> addr" where
  "arena2block ar block_idx s = ar + 12 + mem_block_size (block_descs s (desc (arenas s ar))) * block_idx"

definition block2arena :: "addr \<Rightarrow> addr" where
  "block2arena block = block AND 0xfffff000"

definition u_block_desc :: "addr \<Rightarrow> addr" where
  "u_block_desc t = t + 100"

definition set_arena :: "addr \<Rightarrow> (arena \<Rightarrow> arena) \<Rightarrow> 'a kmem_scheme \<Rightarrow> 'a kmem_scheme" where
  "set_arena ar f s = s\<lparr>arenas := (arenas s)(ar := f (arenas s ar))\<rparr>"

text \<open>The pool, the pool flag and the descriptors that the running thread uses.\<close>

definition malloc_pf :: "'a kmem_scheme \<Rightarrow> pool_flags" where
  "malloc_pf s = (if pgdir (tasks s (running_thread s)) = NULL then PF_KERNEL else PF_USER)"

definition malloc_descs :: "'a kmem_scheme \<Rightarrow> addr" where
  "malloc_descs s =
     (if pgdir (tasks s (running_thread s)) = NULL then k_block_desc s else u_block_desc (running_thread s))"

text \<open>\<^verbatim>\<open>for (desc_idx = 0; desc_idx < DESC_INT; desc_idx++) if (block_size <= ...) break;\<close>\<close>

primrec find_desc :: "addr \<Rightarrow> u32 \<Rightarrow> nat \<Rightarrow> u32 \<Rightarrow> 'a kmem_scheme \<Rightarrow> u32" where
  "find_desc block_desc block_size 0 desc_idx s = desc_idx"
| "find_desc block_desc block_size (Suc n) desc_idx s =
     (if block_size \<le> mem_block_size (block_descs s (desc_at block_desc desc_idx)) then desc_idx
      else find_desc block_desc block_size n (desc_idx + 1) s)"

definition malloc_large :: "pool_flags \<Rightarrow> u32 \<Rightarrow> 'a kmem_scheme \<Rightarrow> (addr \<times> 'a kmem_scheme) res" where
  "malloc_large pf block_size s =
     (let pg_cnt = DIV_ROUND_UP (block_size + 12) PG_SIZE in
      res_bind (malloc_page pf pg_cnt s) (\<lambda>(ar, s1).
        if ar = NULL then Inr (NULL, s1)
        else res_bind (zero_memory ar (PG_SIZE * pg_cnt) s1) (\<lambda>s2.
               Inr (ar + 12, set_arena ar (\<lambda>a. a\<lparr>cnt := pg_cnt, large := True, desc := NULL\<rparr>) s2))))"

text \<open>Cutting an arena into blocks; the loop reads \<^verbatim>\<open>ar->cnt\<close>, which it does not change.\<close>

primrec split_arena :: "addr \<Rightarrow> nat \<Rightarrow> u32 \<Rightarrow> 'a kmem_scheme \<Rightarrow> 'a kmem_scheme res" where
  "split_arena ar 0 block_idx s = Inr s"
| "split_arena ar (Suc n) block_idx s =
     (let block = arena2block ar block_idx s; fl = free_list (desc (arenas s ar)) in
      res_bind (list_search fl block s) (\<lambda>found.
        assertion (\<not> found) ''!list_search(&ar->desc->free_list,  &block->free_elem)''
         (split_arena ar n (block_idx + 1) (list_append fl block s))))"

definition new_arena :: "pool_flags \<Rightarrow> addr \<Rightarrow> 'a kmem_scheme \<Rightarrow> (bool \<times> 'a kmem_scheme) res" where
  "new_arena pf d s =
     res_bind (malloc_page pf 1 s) (\<lambda>(ar, s1).
       if ar = NULL then Inr (False, s1)
       else res_bind (zero_memory ar PG_SIZE s1) (\<lambda>s2.
         let s3 = set_arena ar (\<lambda>a. a\<lparr>cnt := blocks_per_arena (block_descs s2 d), large := False, desc := d\<rparr>) s2;
             (old_status, s4) = disable_intr s3
         in res_bind (split_arena ar (unat (cnt (arenas s4 ar))) 0 s4) (\<lambda>s5.
              Inr (True, snd (set_intr_status old_status s5)))))"

definition take_block :: "addr \<Rightarrow> 'a kmem_scheme \<Rightarrow> (addr \<times> 'a kmem_scheme) res" where
  "take_block d s =
     (let (block, s1) = list_pop (free_list d) s in
      res_bind (zero_memory block (mem_block_size (block_descs s1 d)) s1) (\<lambda>s2.
        Inr (block, set_arena (block2arena block) (\<lambda>a. a\<lparr>cnt := cnt a - 1\<rparr>) s2)))"

definition malloc_small :: "pool_flags \<Rightarrow> addr \<Rightarrow> u32 \<Rightarrow> 'a kmem_scheme \<Rightarrow> (addr \<times> 'a kmem_scheme) res" where
  "malloc_small pf block_desc block_size s =
     (let d = desc_at block_desc (find_desc block_desc block_size 7 0 s) in
      if list_empty (free_list d) s
      then res_bind (new_arena pf d s) (\<lambda>(ok, s1). if ok then take_block d s1 else Inr (NULL, s1))
      else take_block d s)"

definition sys_malloc :: "u32 \<Rightarrow> 'a kmem_scheme \<Rightarrow> ('a kmem_scheme, addr) kop" where
  "sys_malloc block_size s =
     (let pf = malloc_pf s; block_desc = malloc_descs s; mem_pool = the_pool pf s in
      if block_size \<le> 0 \<or> block_size \<ge> pool_size mem_pool then Done NULL s
      else kbind (lock_acquire (pool_lock mem_pool) s) (\<lambda>_ s1.
           kbind (klift_val (if block_size > 1024 then malloc_large pf block_size s1
                             else malloc_small pf block_desc block_size s1)) (\<lambda>p s2.
           kbind (klift (lock_release (pool_lock mem_pool) s2)) (\<lambda>_ s3. Done p s3))))"

text \<open>When all blocks of an arena are free, they leave the free list and the page is given back.\<close>

primrec unlink_blocks :: "addr \<Rightarrow> nat \<Rightarrow> u32 \<Rightarrow> 'a kmem_scheme \<Rightarrow> 'a kmem_scheme res" where
  "unlink_blocks a 0 block_idx s = Inr s"
| "unlink_blocks a (Suc n) block_idx s =
     (let b = arena2block a block_idx s in
      res_bind (list_search (free_list (desc (arenas s a))) b s) (\<lambda>found.
        assertion found ''list_search(&a->desc->free_list, &b->free_elem)''
         (unlink_blocks a n (block_idx + 1) (list_remove b s))))"

definition free_small :: "pool_flags \<Rightarrow> addr \<Rightarrow> addr \<Rightarrow> 'a kmem_scheme \<Rightarrow> 'a kmem_scheme res" where
  "free_small pf a block s =
     (let s1 = list_append (free_list (desc (arenas s a))) block s;
          s2 = set_arena a (\<lambda>r. r\<lparr>cnt := cnt r + 1\<rparr>) s1;
          per_arena = blocks_per_arena (block_descs s2 (desc (arenas s2 a))) in
      if cnt (arenas s2 a) = per_arena
      then res_bind (unlink_blocks a (unat per_arena) 0 s2) (mfree_page pf a 1)
      else Inr s2)"

text \<open>\<open>ASSERT(a->large == 0 || a->large == 1)\<close> holds of every value of the field's type here.\<close>

definition sys_free :: "addr \<Rightarrow> 'a kmem_scheme \<Rightarrow> ('a kmem_scheme, unit) kop" where
  "sys_free ptr s =
     kassert (ptr \<noteq> NULL) ''ptr!=NULL''
      (let pf = malloc_pf s; mem_pool = the_pool pf s in
       kbind (lock_acquire (pool_lock mem_pool) s) (\<lambda>_ s1.
         let a = block2arena ptr in
         kbind (klift (if large (arenas s1 a) \<and> desc (arenas s1 a) = NULL
                       then mfree_page pf a (cnt (arenas s1 a)) s1
                       else free_small pf a ptr s1)) (\<lambda>_ s2.
         klift (lock_release (pool_lock mem_pool) s2))))"

section \<open>Size classes\<close>

text \<open>The descriptors that \<open>block_desc_init\<close> writes: class \<open>i\<close> has blocks of \<open>16 * 2 ^ i\<close> bytes.\<close>

definition descs_ok :: "addr \<Rightarrow> 'a kmem_scheme \<Rightarrow> bool" where
  "descs_ok b s \<longleftrightarrow> (\<forall>i<7. block_descs s (desc_at b (of_nat i)) =
     \<lparr>mem_block_size = 16 * 2 ^ i, blocks_per_arena = 4084 div (16 * 2 ^ i)\<rparr>)"

lemma block_desc_loop_other:
  "(\<And>i. i < n \<Longrightarrow> d + of_nat i * 24 \<noteq> x) \<Longrightarrow> block_descs (block_desc_loop n d b s) x = block_descs s x"
proof (induction n arbitrary: d b s)
  case (Suc n)
  have "d + 24 + of_nat i * 24 \<noteq> x" if "i < n" for i using Suc.prems [of "Suc i"] that by (simp add: algebra_simps)
  then show ?case using Suc.IH [of "d + 24"] Suc.prems [of 0] by (simp add: list_init_def)
qed simp

lemma desc_at_inj: "i < 7 \<Longrightarrow> j < 7 \<Longrightarrow> (b :: addr) + of_nat i * 24 = b + of_nat j * 24 \<longleftrightarrow> i = j"
proof -
  assume ij: "i < 7" "j < 7"
  have "(of_nat i * 24 :: u32) = of_nat (i * 24)" "(of_nat j * 24 :: u32) = of_nat (j * 24)" by simp_all
  then show ?thesis using ij of_nat_eq_iff32 [of "i * 24" "j * 24"] by simp
qed

lemma block_desc_loop_spec:
  assumes "n \<le> 7" and "i < n"
  shows "block_descs (block_desc_loop n d b s) (d + of_nat i * 24) =
    \<lparr>mem_block_size = b * 2 ^ i, blocks_per_arena = 4084 div (b * 2 ^ i)\<rparr>"
  using assms
proof (induction n arbitrary: d b s i)
  case (Suc n)
  show ?case
  proof (cases i)
    case 0
    have "d + 24 + of_nat j * 24 \<noteq> d" if "j < n" for j
      using desc_at_inj [of "Suc j" 0 d] that Suc.prems(1) by (simp add: algebra_simps)
    then show ?thesis unfolding 0 block_desc_loop.simps
      by (subst block_desc_loop_other) (simp_all add: list_init_def)
  next
    case (Suc j)
    then show ?thesis using Suc.IH [of j "d + 24" "b * 2"] Suc.prems by (simp add: algebra_simps)
  qed
qed simp

lemma block_desc_init_descs: "descs_ok b (block_desc_init b s)"
  unfolding descs_ok_def block_desc_init_def by (intro allI impI block_desc_loop_spec) simp_all

lemma descs_ok_0: "descs_ok b s \<Longrightarrow> block_descs s b = \<lparr>mem_block_size = 16, blocks_per_arena = 255\<rparr>"
  unfolding descs_ok_def by (drule spec [of _ 0]) simp

lemma less_7_cases: "(i :: nat) < 7 \<longleftrightarrow> i \<in> {0, 1, 2, 3, 4, 5, 6}"
  by auto

lemma unat_class_size: "i < 7 \<Longrightarrow> unat (16 * 2 ^ i :: u32) = 16 * 2 ^ i"
  unfolding less_7_cases by auto

text \<open>The class chosen for a request is the smallest one that fits.\<close>

lemma find_desc_spec:
  assumes ok: "descs_ok b s" and "k + n = 7" and "\<And>i. i < k \<Longrightarrow> 16 * 2 ^ i < unat sz"
    and "0 < n" and "unat sz \<le> 1024"
  shows "\<exists>i<7. find_desc b sz n (of_nat k) s = of_nat i \<and> unat sz \<le> 16 * 2 ^ i \<and> (\<forall>j<i. 16 * 2 ^ j < unat sz)"
  using assms(2-)
proof (induction n arbitrary: k)
  case (Suc n)
  have k: "k < 7" using Suc.prems(1) by simp
  have u: "unat (mem_block_size (block_descs s (desc_at b (of_nat k)))) = 16 * 2 ^ k"
    using ok k unat_class_size [OF k] by (simp add: descs_ok_def)
  show ?case
  proof (cases "unat sz \<le> 16 * 2 ^ k")
    case True
    then show ?thesis using Suc.prems(2) k u by (intro exI [of _ k]) (simp add: word_le_nat_alt)
  next
    case False
    then have "\<And>i. i < Suc k \<Longrightarrow> 16 * 2 ^ i < unat sz" using Suc.prems(2) by (auto simp: less_Suc_eq)
    moreover have "0 < n"
    proof (rule ccontr)
      assume "\<not> 0 < n"
      then have "k = 6" using Suc.prems(1) by simp
      then show False using False Suc.prems(4) by simp
    qed
    moreover have "find_desc b sz (Suc n) (of_nat k) s = find_desc b sz n (of_nat (Suc k)) s"
      using False u by (simp add: word_le_nat_alt add.commute)
    ultimately show ?thesis using Suc.IH [of "Suc k"] Suc.prems(1,4) by simp
  qed
qed simp

section \<open>Blocks of an arena\<close>

lemma aligned_bound: "frame_of a = a \<Longrightarrow> unat (a :: u32) + 4096 \<le> 2 ^ 32"
proof -
  assume "frame_of a = a"
  then obtain q where q: "unat a = q * 4096" by (metis unat_frame_of)
  then show ?thesis using unat_less_2p32 [of a] by simp
qed

lemma class_room: "idx < 4084 div c \<Longrightarrow> 12 + c * idx + c \<le> (4096 :: nat)"
proof -
  assume "idx < 4084 div c"
  then have "Suc idx * c \<le> 4084 div c * c" by (intro mult_le_mono1) simp
  also have "\<dots> \<le> 4084" by (rule div_times_less_eq_dividend)
  finally show ?thesis by (simp add: mult.commute)
qed

lemma class_offset: "idx < 4084 div c \<Longrightarrow> 12 + c * idx < (4096 :: nat)"
  using class_room [of idx c] by (cases "c = 0") auto

lemma unat_arena2block:
  assumes "frame_of ar = ar" and "mem_block_size (block_descs s (desc (arenas s ar))) = 16 * 2 ^ i" and "i < 7"
    and "idx < 4084 div (16 * 2 ^ i)"
  shows "unat (arena2block ar (of_nat idx) s) = unat ar + 12 + 16 * 2 ^ i * idx"
proof -
  have "16 * 2 ^ i = (of_nat (16 * 2 ^ i) :: u32)" by simp
  then have "arena2block ar (of_nat idx) s = ar + of_nat (12 + 16 * 2 ^ i * idx)"
    unfolding arena2block_def assms(2) by (simp add: algebra_simps)
  moreover have "unat ar + (12 + 16 * 2 ^ i * idx) < 2 ^ 32"
    using class_offset [OF assms(4)] aligned_bound [OF assms(1)] by linarith
  ultimately show ?thesis by (simp only: unat_add_of_nat)
qed

lemma block2arena_frame: "block2arena b = frame_of b"
  by (simp add: block2arena_def frame_of_def)

lemma frame_of_offset:
  assumes "frame_of a = a" and "unat b = unat a + k" and "k < 4096"
  shows "frame_of b = a"
proof (rule word_of_unat)
  obtain q where "unat a = q * 4096" using assms(1) by (metis unat_frame_of)
  then show "unat (frame_of b) = unat a" using assms(2,3) by (simp add: unat_frame_of)
qed

lemma block_in_arena:
  assumes "frame_of ar = ar" and "mem_block_size (block_descs s (desc (arenas s ar))) = 16 * 2 ^ i" and "i < 7"
    and "idx < 4084 div (16 * 2 ^ i)"
  shows "block2arena (arena2block ar (of_nat idx) s) = ar"
  unfolding block2arena_frame
  by (rule frame_of_offset [OF assms(1), of _ "12 + 16 * 2 ^ i * idx"])
    (use unat_arena2block [OF assms] class_offset [OF assms(4)] in linarith)+

lemma blocks_disjoint:
  assumes "frame_of ar = ar" and "mem_block_size (block_descs s (desc (arenas s ar))) = 16 * 2 ^ i" and "i < 7"
    and "idx < 4084 div (16 * 2 ^ i)" and "idx' < 4084 div (16 * 2 ^ i)" and "idx \<noteq> idx'"
  shows "disjoint_regions (arena2block ar (of_nat idx) s) (16 * 2 ^ i) (arena2block ar (of_nat idx') s) (16 * 2 ^ i)"
proof -
  let ?c = "16 * 2 ^ i :: nat"
  have less: "disjoint_regions (arena2block ar (of_nat j) s) ?c (arena2block ar (of_nat k) s) ?c"
    if "j < 4084 div ?c" "k < 4084 div ?c" "j < k" for j k
  proof (rule disjoint_regionsI)
    have "?c * j + ?c \<le> ?c * k" using mult_le_mono2 [of "Suc j" k ?c] that(3) by simp
    then show "unat (arena2block ar (of_nat j) s) + ?c \<le> unat (arena2block ar (of_nat k) s)"
      using unat_arena2block [OF assms(1-3) that(1)] unat_arena2block [OF assms(1-3) that(2)] by simp
    show "unat (arena2block ar (of_nat k) s) + ?c \<le> 2 ^ 32"
      using unat_arena2block [OF assms(1-3) that(2)] class_room [OF that(2)] aligned_bound [OF assms(1)] by simp
  qed
  show ?thesis
  proof (cases "idx < idx'")
    case True
    then show ?thesis by (rule less [OF assms(4,5)])
  next
    case False
    then show ?thesis using less [OF assms(5,4)] assms(6) disjoint_regions_sym by simp
  qed
qed

section \<open>Taking and returning a block\<close>

text \<open>No address of \<open>X\<close> is in the \<open>n\<close> bytes from \<open>b\<close> on.\<close>

definition clear_of :: "addr set \<Rightarrow> addr \<Rightarrow> nat \<Rightarrow> bool" where
  "clear_of X b n \<longleftrightarrow> (\<forall>x\<in>X. \<not> within x b n)"

lemma clear_ofD: "clear_of X b n \<Longrightarrow> x \<in> X \<Longrightarrow> \<not> within x b n"
  by (simp add: clear_of_def)

lemma set_arena_fields [simp]:
  "nodes (set_arena a f s) = nodes s" "mem (set_arena a f s) = mem s" "pmem (set_arena a f s) = pmem s"
  "esp (set_arena a f s) = esp s" "sema_value (set_arena a f s) = sema_value s"
  "lock_holder (set_arena a f s) = lock_holder s" "holder_repeat_nr (set_arena a f s) = holder_repeat_nr s"
  "block_descs (set_arena a f s) = block_descs s" "tasks (set_arena a f s) = tasks s" "cr3 (set_arena a f s) = cr3 s"
  "kernel_pool (set_arena a f s) = kernel_pool s" "user_pool (set_arena a f s) = user_pool s"
  "kernel_vaddr (set_arena a f s) = kernel_vaddr s"
  "arenas (set_arena a f s) b = (if b = a then f (arenas s a) else arenas s b)"
  by (simp_all add: set_arena_def)

lemma zero_objects_fields [simp]:
  "nodes (zero_objects a n s) x = (if within x a n then \<lparr>front = 0, nxt = 0\<rparr> else nodes s x)"
  "mem (zero_objects a n s) = mem s" "pmem (zero_objects a n s) = pmem s" "esp (zero_objects a n s) = esp s"
  "sema_value (zero_objects a n s) x = (if within x a n then 0 else sema_value s x)"
  "lock_holder (zero_objects a n s) x = (if within x a n then 0 else lock_holder s x)"
  "holder_repeat_nr (zero_objects a n s) x = (if within x a n then 0 else holder_repeat_nr s x)"
  "arenas (zero_objects a n s) x = (if within x a n then \<lparr>desc = 0, cnt = 0, large = False\<rparr> else arenas s x)"
  by (simp_all add: zero_objects_def zero_in_def)

lemma take_block_spec:
  assumes l: "dlist (nodes s) (d + 8) (b # bs)" and b: "b \<noteq> NULL" and size: "unat (mem_block_size (block_descs s d)) = n"
    and cl: "clear_of (set (list_cells (d + 8) bs) \<union> {block2arena b}) b n"
  obtains s' where "take_block d s = Inr (b, s')" and "dlist (nodes s') (d + 8) bs"
    and "\<And>x. mem s' x = (if within x b n then 0 else mem s x)"
    and "cnt (arenas s' (block2arena b)) = cnt (arenas s (block2arena b)) - 1"
    and "\<And>x. x \<notin> set (list_cells (d + 8) (b # bs)) \<Longrightarrow> \<not> within x b n \<Longrightarrow> nodes s' x = nodes s x"
    and "\<And>x. \<not> within x b n \<Longrightarrow> sema_value s' x = sema_value s x \<and> lock_holder s' x = lock_holder s x \<and>
      holder_repeat_nr s' x = holder_repeat_nr s x"
    and "esp s' = esp s"
proof -
  define s1 where "s1 = list_remove b s"
  have pop: "list_pop (d + 8) s = (b, s1)" unfolding s1_def by (rule list_pop_head [OF l])
  have l1: "dlist (nodes s1) (d + 8) bs" using dlist_list_remove [of s "d + 8" "[]" b bs] l by (simp add: s1_def)
  define m where "m = memset_loop n b 0 (mem s)"
  have s1f: "s1 = s\<lparr>nodes := nodes s1\<rparr>" by (simp add: s1_def list_ops_nodes)
  have d1: "block_descs s1 = block_descs s" "mem s1 = mem s" by (simp_all add: s1_def list_ops_nodes)
  define s' where "s' = set_arena (block2arena b) (\<lambda>a. a\<lparr>cnt := cnt a - 1\<rparr>) (zero_objects b n (s1\<lparr>mem := m\<rparr>))"
  have r: "take_block d s = Inr (b, s')"
    using pop b size d1 by (simp add: take_block_def zero_memory_def upd_mem_def memset_def s'_def m_def)
  have nd: "nodes s' x = nodes s1 x" if "\<not> within x b n" for x using that by (simp add: s'_def)
  have "dlist (nodes s') (d + 8) bs = dlist (nodes s1) (d + 8) bs"
    by (rule dlist_cong, rule nd, rule clear_ofD [OF cl]) simp
  then have 1: "dlist (nodes s') (d + 8) bs" using l1 by simp
  have 2: "mem s' x = (if within x b n then 0 else mem s x)" for x
    using memset_loop_eq [of n b 0 "mem s"] size unat_less_2p32 by (auto simp: s'_def m_def)
  have "\<not> within (block2arena b) b n" by (rule clear_ofD [OF cl]) simp
  then have 3: "cnt (arenas s' (block2arena b)) = cnt (arenas s (block2arena b)) - 1"
    by (simp add: s'_def s1_def list_ops_nodes)
  have 4: "nodes s' x = nodes s x" if "x \<notin> set (list_cells (d + 8) (b # bs))" "\<not> within x b n" for x
    using nd [OF that(2)] list_remove_other [of s "d + 8" "[]" b bs x] l that(1) by (simp add: s1_def)
  have 5: "sema_value s' x = sema_value s x \<and> lock_holder s' x = lock_holder s x \<and> holder_repeat_nr s' x = holder_repeat_nr s x"
    if "\<not> within x b n" for x using that by (simp add: s'_def s1_def list_ops_nodes)
  have 6: "esp s' = esp s" by (simp add: s'_def s1_def list_ops_nodes)
  show ?thesis by (rule that [OF r 1 2 3 4 5 6])
qed

section \<open>Under the pool's lock\<close>

lemma locked_fields [simp]:
  "nodes (locked L s) = nodes s" "mem (locked L s) = mem s" "block_descs (locked L s) = block_descs s"
  "arenas (locked L s) = arenas s" "running_thread (locked L s) = running_thread s" "esp (locked L s) = esp s"
  "sema_value (locked L s) (L + 4) = 0" "lock_holder (locked L s) L = running_thread s" "holder_repeat_nr (locked L s) L = 1"
  by (simp_all add: locked_def) (simp_all add: set_sema_def set_holder_def set_repeat_def)

lemma unlocked_fields [simp]:
  "nodes (unlocked L s) = nodes s" "mem (unlocked L s) = mem s" "arenas (unlocked L s) = arenas s"
  "running_thread (unlocked L s) = running_thread s" "pmem (unlocked L s) = pmem s"
  by (simp_all add: unlocked_def) (simp_all add: set_sema_def set_holder_def set_repeat_def)

lemma unlocked_idle:
  fixes s :: "'a kmem_scheme"
  assumes "L \<noteq> NULL" and "running_thread s \<noteq> NULL" and "list_empty (L + 4 + 4) s"
  shows "lock_idle L (unlocked L s)"
proof -
  have "list_empty (L + 4 + 4) (unlocked L s) = list_empty (L + 4 + 4) s" by (simp add: list_empty_def)
  then show ?thesis using assms unfolding lock_idle_def by (simp add: unlocked_def)
qed

lemma running_thread_esp: "esp s' = esp s \<Longrightarrow> running_thread s' = running_thread s"
  by (simp add: running_thread_def)

text \<open>The words of the lock at \<open>L\<close> and of its list of waiters.\<close>

abbreviation lock_words :: "addr \<Rightarrow> addr set" where
  "lock_words L \<equiv> {L, L + 4, L + 8, L + 16}"

section \<open>Claims\<close>

text \<open>
  The blocks of an arena lie behind its header and inside its page, those of different indices do
  not overlap, and \<open>block2arena\<close> leads from each back to the arena.
\<close>

theorem arena_blocks:
  assumes "frame_of ar = ar" and "mem_block_size (block_descs s (desc (arenas s ar))) = 16 * 2 ^ i" and "i < 7"
    and "idx < 4084 div (16 * 2 ^ i)"
  shows "block2arena (arena2block ar (of_nat idx) s) = ar \<and>
    unat ar + 12 \<le> unat (arena2block ar (of_nat idx) s) \<and>
    unat (arena2block ar (of_nat idx) s) + 16 * 2 ^ i \<le> unat ar + 4096 \<and>
    (\<forall>idx'. idx' < 4084 div (16 * 2 ^ i) \<and> idx' \<noteq> idx \<longrightarrow>
       disjoint_regions (arena2block ar (of_nat idx) s) (16 * 2 ^ i) (arena2block ar (of_nat idx') s) (16 * 2 ^ i))"
  using block_in_arena [OF assms] unat_arena2block [OF assms] class_room [OF assms(4)] blocks_disjoint [OF assms]
  by auto

text \<open>
  C24: \<open>sys_malloc\<close> for at most 1024 bytes, with the pool's lock free and a free block in the smallest
  class that fits, returns the first block of that class's free list; the block is cleared and leaves
  the list, no other byte changes, the arena's count of free blocks goes down by one and the lock is
  free again. The block must not hold the list, the lock or the arena's header.
\<close>

theorem sys_malloc_block:
  assumes L: "L = pool_lock (the_pool (malloc_pf s) s)" "lock_idle L s" "running_thread s \<noteq> NULL"
    and ds: "descs_ok (malloc_descs s) s" and size: "0 < block_size" "unat block_size \<le> 1024"
      "block_size < pool_size (the_pool (malloc_pf s) s)"
    and i: "i < 7" "unat block_size \<le> 16 * 2 ^ i" "\<forall>j<i. 16 * 2 ^ j < unat block_size"
    and d: "d = desc_at (malloc_descs s) (of_nat i)"
    and l: "dlist (nodes s) (d + 8) (b # bs)" "b \<noteq> NULL"
    and sep: "clear_of (set (list_cells (d + 8) bs) \<union> {block2arena b} \<union> lock_words L) b (16 * 2 ^ i)"
      "set (list_cells (d + 8) (b # bs)) \<inter> lock_words L = {}"
  shows "\<exists>s'. sys_malloc block_size s = Done b s' \<and> dlist (nodes s') (d + 8) bs \<and> lock_idle L s' \<and>
    (\<forall>x. mem s' x = (if within x b (16 * 2 ^ i) then 0 else mem s x)) \<and>
    cnt (arenas s' (block2arena b)) = cnt (arenas s (block2arena b)) - 1"
proof -
  let ?pf = "malloc_pf s" and ?bd = "malloc_descs s"
  let ?s1 = "locked L s"
  have ds1: "descs_ok ?bd ?s1" using ds by (simp add: descs_ok_def)
  obtain k where k: "k < 7" "find_desc ?bd block_size 7 0 ?s1 = of_nat k" "unat block_size \<le> 16 * 2 ^ k"
    "\<forall>j<k. 16 * 2 ^ j < unat block_size"
    using find_desc_spec [OF ds1, of 0 7 block_size] size(2) by auto
  have ki: "k = i" using k(3,4) i(2,3) by (metis linorder_neqE_nat not_le)
  have sz: "unat (mem_block_size (block_descs ?s1 d)) = 16 * 2 ^ i"
    using ds i(1) unat_class_size by (simp add: descs_ok_def d)
  have l1: "dlist (nodes ?s1) (d + 8) (b # bs)" using l(1) by simp
  have cl: "clear_of (set (list_cells (d + 8) bs) \<union> {block2arena b}) b (16 * 2 ^ i)" using sep(1) by (auto simp: clear_of_def)
  obtain s2 where t: "take_block d ?s1 = Inr (b, s2)" "dlist (nodes s2) (d + 8) bs"
    "\<And>x. mem s2 x = (if within x b (16 * 2 ^ i) then 0 else mem ?s1 x)"
    "cnt (arenas s2 (block2arena b)) = cnt (arenas ?s1 (block2arena b)) - 1"
    "\<And>x. x \<notin> set (list_cells (d + 8) (b # bs)) \<Longrightarrow> \<not> within x b (16 * 2 ^ i) \<Longrightarrow> nodes s2 x = nodes ?s1 x"
    "\<And>x. \<not> within x b (16 * 2 ^ i) \<Longrightarrow> sema_value s2 x = sema_value ?s1 x \<and> lock_holder s2 x = lock_holder ?s1 x \<and>
      holder_repeat_nr s2 x = holder_repeat_nr ?s1 x" "esp s2 = esp ?s1"
    by (rule take_block_spec [OF l1 l(2) sz cl]) (rule that; assumption)
  have ne: "\<not> list_empty (d + 8) ?s1" using list_empty_iff [OF l1] by simp
  have ms: "malloc_small ?pf ?bd block_size ?s1 = Inr (b, s2)"
    using ne t(1) k(2) ki by (simp add: malloc_small_def d)
  have r2: "running_thread s2 = running_thread s" using t(7) by (simp add: running_thread_def)
  have out: "\<not> within x b (16 * 2 ^ i)" if "x \<in> lock_words L" for x using clear_ofD [OF sep(1)] that by blast
  have lk: "lock_holder s2 L = running_thread s2" "holder_repeat_nr s2 L = 1" "sema_value s2 (L + 4) = 0"
    using t(6) [OF out, of L] t(6) [OF out, of "L + 4"] r2 by simp_all
  have "nodes s2 (L + 8) = nodes s (L + 8)" using t(5) [of "L + 8"] out [of "L + 8"] sep(2) by auto
  then have e2: "list_empty (L + 4 + 4) s2" using L(2) by (simp add: lock_idle_def list_empty_def add.commute)
  have rel: "lock_release L s2 = Inr (unlocked L s2)" by (rule lock_release_idle [OF lk e2])
  have "\<not> block_size \<ge> pool_size (the_pool ?pf s)" "\<not> block_size > 1024" "\<not> block_size \<le> 0"
    using size by (auto simp: not_le word_less_nat_alt)
  then have "sys_malloc block_size s = Done b (unlocked L s2)"
    using ms rel lock_acquire_idle [OF L(2)] unfolding sys_malloc_def Let_def L(1) [symmetric] by simp
  moreover have "lock_idle L (unlocked L s2)"
    by (rule unlocked_idle) (use L(2,3) r2 e2 in \<open>auto simp: lock_idle_def\<close>)
  ultimately show ?thesis using t(2-4) by (intro exI [of _ "unlocked L s2"]) simp
qed


section \<open>A small heap\<close>

text \<open>The kernel's descriptors at 0xc0007000, the arena at 0xc0100000 with the first two blocks of 16 bytes free.\<close>

definition sample_list :: kmem where
  "sample_list = list_append 0xc0007008 0xc010001c (list_append 0xc0007008 0xc010000c (list_init 0xc0007008 sample_kmem))"

definition sample_heap :: kmem where
  "sample_heap = lock_init 0xc0008000
     (set_arena 0xc0100000 (\<lambda>a. \<lparr>desc = 0xc0007000, cnt = 2, large = False\<rparr>)
       (sample_list\<lparr>tasks := (\<lambda>t. sample_task t TASK_RUNNING),
          block_descs := block_descs (block_desc_init 0xc0007000 sample_kmem)\<rparr>))"

lemma lock_init_arena [simp]:
  "arenas (lock_init l s) = arenas s" "tasks (lock_init l s) = tasks s" "esp (lock_init l s) = esp s"
  "k_block_desc (lock_init l s) = k_block_desc s" "block_descs (lock_init l s) = block_descs s"
  by (simp_all add: lock_init_def sema_init_def list_init_def set_sema_def set_holder_def set_repeat_def)

lemma sample_heap_fields:
  "arenas sample_heap 0xc0100000 = \<lparr>desc = 0xc0007000, cnt = 2, large = False\<rparr>"
  "running_thread sample_heap = 0xc009e000" "malloc_pf sample_heap = PF_KERNEL" "malloc_descs sample_heap = 0xc0007000"
  "the_pool PF_KERNEL sample_heap = sample_kpool" "descs_ok 0xc0007000 sample_heap"
proof -
  have k: "k_block_desc sample_kmem = 0xc0007000" "esp sample_kmem = 0xc009efe0"
    by (simp_all add: sample_kmem_def kbd.extend_def kmem.fields_def)
  have e: "esp sample_heap = 0xc009efe0" "tasks sample_heap = (\<lambda>t. sample_task t TASK_RUNNING)"
    "k_block_desc sample_heap = 0xc0007000" "kernel_pool sample_heap = sample_kpool"
    using k by (simp_all add: sample_heap_def sample_list_def list_ops_nodes list_init_def set_arena_def)
  then show "running_thread sample_heap = 0xc009e000" "malloc_pf sample_heap = PF_KERNEL" "malloc_descs sample_heap = 0xc0007000"
    "the_pool PF_KERNEL sample_heap = sample_kpool"
    by (simp_all add: running_thread_def malloc_pf_def malloc_descs_def the_pool_def sample_task_def)
  show "arenas sample_heap 0xc0100000 = \<lparr>desc = 0xc0007000, cnt = 2, large = False\<rparr>" by (simp add: sample_heap_def)
  show "descs_ok 0xc0007000 sample_heap"
    using block_desc_init_descs [of "0xc0007000" sample_kmem] by (simp add: sample_heap_def descs_ok_def)
qed

lemma sample_heap_list: "dlist (nodes sample_heap) 0xc0007008 [0xc010000c, 0xc010001c]"
proof -
  have "dlist (nodes sample_list) 0xc0007008 (([] @ [0xc010000c]) @ [0xc010001c])"
    unfolding sample_list_def by (intro dlist_append dlist_init) auto
  moreover have "dlist (nodes sample_heap) 0xc0007008 [0xc010000c, 0xc010001c] =
      dlist (nodes sample_list) 0xc0007008 [0xc010000c, 0xc010001c]"
  proof (rule dlist_cong)
    fix x assume "x \<in> set (list_cells 0xc0007008 [0xc010000c, 0xc010001c])"
    then show "nodes sample_heap x = nodes sample_list x"
      by (auto simp: sample_heap_def lock_init_def sema_init_def list_init_def [of "0xc0008008"] set_front_def set_nxt_def)
  qed
  ultimately show ?thesis by simp
qed

lemma sample_heap_lock: "lock_idle 0xc0008000 sample_heap"
proof -
  have "list_empty 0xc0008008 sample_heap"
    by (simp add: sample_heap_def lock_init_def sema_init_def list_empty_def list_init_def [of "0xc0008008"])
  moreover have "lock_holder sample_heap 0xc0008000 = 0" "sema_value sample_heap 0xc0008004 = 1" "holder_repeat_nr sample_heap 0xc0008000 = 0"
    by (simp_all add: sample_heap_def lock_init_def sema_init_def list_init_def [of "0xc0008008"])
  ultimately show ?thesis using sample_heap_fields(2) by (simp add: lock_idle_def)
qed

theorem arena_blocks_witness:
  "block2arena (arena2block 0xc0100000 254 sample_heap) = 0xc0100000 \<and>
     disjoint_regions (arena2block 0xc0100000 254 sample_heap) 16 (arena2block 0xc0100000 7 sample_heap) 16"
proof -
  have "mem_block_size (block_descs sample_heap (desc (arenas sample_heap 0xc0100000))) = 16 * 2 ^ 0"
    using sample_heap_fields(1) descs_ok_0 [OF sample_heap_fields(6)] by simp
  moreover have "frame_of 0xc0100000 = 0xc0100000" by (simp add: frame_of_def)
  ultimately show ?thesis using arena_blocks [of "0xc0100000" sample_heap 0 254] by (auto dest: spec [of _ 7])
qed

theorem sys_malloc_block_witness:
  "\<exists>s'. sys_malloc 10 sample_heap = Done 0xc010000c s' \<and> dlist (nodes s') 0xc0007008 [0xc010001c]"
proof -
  have "clear_of (set (list_cells 0xc0007008 [0xc010001c]) \<union> {block2arena 0xc010000c} \<union> lock_words 0xc0008000) 0xc010000c 16"
    "set (list_cells 0xc0007008 [0xc010000c, 0xc010001c]) \<inter> lock_words 0xc0008000 = {}"
    by (simp_all add: clear_of_def within_def block2arena_def)
  then have "\<exists>s'. sys_malloc 10 sample_heap = Done 0xc010000c s' \<and> dlist (nodes s') (0xc0007000 + 8) [0xc010001c] \<and>
      lock_idle 0xc0008000 s' \<and> (\<forall>x. mem s' x = (if within x 0xc010000c (16 * 2 ^ 0) then 0 else mem sample_heap x)) \<and>
      cnt (arenas s' (block2arena 0xc010000c)) = cnt (arenas sample_heap (block2arena 0xc010000c)) - 1"
    by (intro sys_malloc_block) (use sample_heap_fields sample_heap_lock sample_heap_list in \<open>simp_all add: sample_kpool_def\<close>)
  then show ?thesis by auto
qed


section \<open>Giving an arena back\<close>

definition arena_blocks_of :: "addr \<Rightarrow> nat \<Rightarrow> nat \<Rightarrow> 'a kmem_scheme \<Rightarrow> addr set" where
  "arena_blocks_of a k n s = (\<lambda>j. arena2block a (of_nat j) s) ` {k..<k + n}"

lemma unlink_blocks_spec:
  assumes "dlist (nodes s) (d + 8) ys" and "d = desc (arenas s a)" and "arena_blocks_of a k n s \<subseteq> set ys"
    and "inj_on (\<lambda>j. arena2block a (of_nat j) s) {k..<k + n}"
  shows "\<exists>ns'. unlink_blocks a n (of_nat k) s = Inr (s\<lparr>nodes := ns'\<rparr>) \<and>
    dlist ns' (d + 8) (filter (\<lambda>x. x \<notin> arena_blocks_of a k n s) ys) \<and>
    (\<forall>x. x \<notin> set (list_cells (d + 8) ys) \<longrightarrow> ns' x = nodes s x)"
  using assms
proof (induction n arbitrary: k s ys)
  case 0
  then show ?case by (intro exI [of _ "nodes s"]) (simp add: arena_blocks_of_def)
next
  case (Suc n)
  let ?b = "arena2block a (of_nat k) s" and ?B = "arena_blocks_of a (Suc k) n s"
  have "{k..<k + Suc n} = insert k {Suc k..<Suc k + n}" by auto
  then have B: "arena_blocks_of a k (Suc n) s = insert ?b ?B" by (simp add: arena_blocks_of_def)
  have notin: "?b \<notin> ?B"
  proof
    assume "?b \<in> ?B"
    then obtain j where j: "?b = arena2block a (of_nat j) s" "Suc k \<le> j" "j < Suc k + n" by (auto simp: arena_blocks_of_def)
    then have "k = j" using inj_onD [OF Suc.prems(4), of k j] by simp
    then show False using j(2) by simp
  qed
  have "?b \<in> set ys" using Suc.prems(3) B by auto
  then obtain us vs where ys: "ys = us @ ?b # vs" by (metis split_list)
  define s1 where "s1 = list_remove ?b s"
  have s1: "s1 = s\<lparr>nodes := nodes s1\<rparr>" by (simp add: s1_def list_ops_nodes)
  have same: "arena2block a i s1 = arena2block a i s" "desc (arenas s1 a) = d" for i
    using Suc.prems(2) by (simp_all add: s1_def list_ops_nodes arena2block_def)
  have B1: "arena_blocks_of a (Suc k) n s1 = ?B" by (simp add: arena_blocks_of_def same)
  have dist: "distinct ys" using dlist_distinct(1) [OF Suc.prems(1)] .
  then have f: "us @ vs = filter (\<lambda>x. x \<noteq> ?b) ys" 
  proof -
    have "filter (\<lambda>x. x \<noteq> ?b) us = us" "filter (\<lambda>x. x \<noteq> ?b) vs = vs"
      using \<open>distinct ys\<close> ys by (auto intro!: filter_True)
    then show ?thesis using ys by simp
  qed
  have l1: "dlist (nodes s1) (d + 8) (us @ vs)" using Suc.prems(1) ys dlist_list_remove [of s "d + 8" us ?b vs] by (simp add: s1_def)
  have "?B \<subseteq> set (us @ vs)" using Suc.prems(3) B notin unfolding f by auto
  moreover have "inj_on (\<lambda>j. arena2block a (of_nat j) s1) {Suc k..<Suc k + n}"
    unfolding same by (rule inj_on_subset [OF Suc.prems(4)]) auto
  ultimately obtain ns' where r: "unlink_blocks a n (of_nat (Suc k)) s1 = Inr (s1\<lparr>nodes := ns'\<rparr>)"
    "dlist ns' (d + 8) (filter (\<lambda>x. x \<notin> ?B) (us @ vs))" "\<forall>x. x \<notin> set (list_cells (d + 8) (us @ vs)) \<longrightarrow> ns' x = nodes s1 x"
    using Suc.IH [OF l1, of "Suc k"] same(2) unfolding B1 by auto
  have "list_search (d + 8) ?b s = Inr True" using list_search_eq [OF Suc.prems(1)] \<open>?b \<in> set ys\<close> by simp
  then have "unlink_blocks a (Suc n) (of_nat k) s = Inr (s\<lparr>nodes := ns'\<rparr>)"
    using r(1) Suc.prems(2) by (simp add: Let_def s1_def [symmetric] add.commute) (subst s1, simp)
  moreover have "filter (\<lambda>x. x \<notin> ?B) (us @ vs) = filter (\<lambda>x. x \<notin> arena_blocks_of a k (Suc n) s) ys"
    unfolding f B by (simp add: conj_commute)
  moreover have "ns' x = nodes s x" if "x \<notin> set (list_cells (d + 8) ys)" for x
    using that r(3) list_remove_other [of s "d + 8" us ?b vs x] Suc.prems(1) ys by (auto simp: s1_def)
  ultimately show ?case using r(2) by auto
qed

lemma alloc_inv_cong:
  assumes "mem s' = mem s" "pmem s' = pmem s" "cr3 s' = cr3 s" "kernel_pool s' = kernel_pool s" "user_pool s' = user_pool s"
    "kernel_vaddr s' = kernel_vaddr s"
  shows "alloc_inv D A s' = alloc_inv D A s"
proof -
  have "pools_ok s' = pools_ok s" "free_all s' = free_all s" "\<And>va. pool_for va s' = pool_for va s"
    by (simp_all only: pools_ok_def free_all_def pool_for_def assms)
  moreover from this have "pages_ok A s' = pages_ok A s" by (simp only: pages_ok_def assms)
  moreover have "spaces_ok D A s' = spaces_ok D A s" 
    by (rule iffI; erule spaces_ok_fields) (simp_all only: assms)
  ultimately show ?thesis by (simp only: alloc_inv_def assms)
qed

lemma arena2block_inj:
  assumes "frame_of ar = ar" and "mem_block_size (block_descs s (desc (arenas s ar))) = 16 * 2 ^ i" and "i < 7"
  shows "inj_on (\<lambda>j. arena2block ar (of_nat j) s) {0..<0 + 4084 div (16 * 2 ^ i)}"
proof (rule inj_onI)
  fix j k assume *: "j \<in> {0..<0 + 4084 div (16 * 2 ^ i)}" "k \<in> {0..<0 + 4084 div (16 * 2 ^ i)}"
    "arena2block ar (of_nat j) s = arena2block ar (of_nat k) s"
  have jk: "j < 4084 div (16 * 2 ^ i)" "k < 4084 div (16 * 2 ^ i)" using *(1,2) by simp_all
  have "unat ar + 12 + 16 * 2 ^ i * j = unat ar + 12 + 16 * 2 ^ i * k"
    using unat_arena2block [OF assms jk(1)] unat_arena2block [OF assms jk(2)] unfolding *(3) by (rule trans [OF sym])
  then show "j = k" by simp
qed

text \<open>Giving back the one page of an arena.\<close>

lemma mfree_arena_page:
  assumes inv: "alloc_inv D A s" "may_use A pf s"
    and page: "a = page_at (vaddr_pool pf s) k" "k < va_bits (vaddr_pool pf s)" "maps_to (pmem s) (cr3 s) a f" "f \<notin> D"
  obtains m' pm' where "mfree_page pf a 1 s = Inr (s\<lparr>mem := m', pmem := pm'\<rparr>)" and "alloc_inv D A (s\<lparr>mem := m', pmem := pm'\<rparr>)"
    and "mmu (cr3 s) pm' a = None" and "f \<in> free_frames m' (the_pool pf s)"
proof -
  let ?va = "vaddr_pool pf s"
  have sp: "spaces_ok D A s" and A: "(cr3 s, ?va) \<in> A" using inv by (simp_all add: alloc_inv_def may_use_def)
  have k: "k + unat 1 \<le> va_bits ?va" using page(2) by simp
  have m: "\<exists>g. g \<notin> D \<and> maps_to (pmem s) (cr3 s) (page_at ?va (k + j)) g" if "j < unat (1 :: u32)" for j
    using that page(1,3,4) by auto
  obtain t s4 m' where fr: "mfree_page pf (page_at ?va k) 1 s = Inr s4" and um: "pages_unmapped D A ?va k (unat (1 :: u32)) s t"
    and s4: "s4 = t\<lparr>mem := m'\<rparr>" and inv4: "alloc_inv D A s4"
    and ff: "free_frames m' (kernel_pool s) = free_frames (mem t) (kernel_pool s)"
      "free_frames m' (user_pool s) = free_frames (mem t) (user_pool s)"
    by (rule mfree_page_spec [OF inv, of 1, OF _ k m], simp, assumption) (rule that; assumption)
  obtain m1 pm1 where t: "t = s\<lparr>mem := m1, pmem := pm1\<rparr>" using pages_unmappedD(1) [OF um] by blast
  have "mmu (cr3 s) pm1 a = None"
    using pages_unmappedD(3) [OF um A page(2)] mmu_None_maps_to [OF page_at_props(4) [OF spaces_okD(2) [OF sp A] page(2)]] page(1)
    by (simp add: t)
  moreover have "f \<in> free_frames (mem t) (pool_for ?va s)" using pages_unmappedD(5) [OF um, of 0 f] page(1,3) by simp
  then have "f \<in> free_frames m' (the_pool pf s)"
    unfolding the_pool_for [OF inv(2)] using ff by (simp add: pool_for_def split: if_splits)
  moreover have "s4 = s\<lparr>mem := m', pmem := pm1\<rparr>" by (simp add: s4 t)
  ultimately show ?thesis using that fr inv4 page(1) by simp
qed

text \<open>
  C25: when the last block of an arena that was still in use is freed, \<open>sys_free\<close> finds every block of
  the arena on the free list (its assertion holds), takes them all off the list, unmaps the page and
  returns its frame to the pool; the invariant of the page allocator holds again and the lock is free.
\<close>

theorem sys_free_last_block:
  assumes L: "L = pool_lock (the_pool (malloc_pf s) s)" "lock_idle L s" "running_thread s \<noteq> NULL"
    and p: "p \<noteq> NULL" "a = block2arena p" "\<not> large (arenas s a)" "d = desc (arenas s a)"
    and i: "i < 7" "block_descs s d = \<lparr>mem_block_size = 16 * 2 ^ i, blocks_per_arena = of_nat (4084 div (16 * 2 ^ i))\<rparr>"
      "cnt (arenas s a) + 1 = of_nat (4084 div (16 * 2 ^ i))"
    and l: "dlist (nodes s) (d + 8) xs" "p \<notin> set (list_cells (d + 8) xs)"
      "arena_blocks_of a 0 (4084 div (16 * 2 ^ i)) s \<subseteq> set (xs @ [p])"
    and sep: "set (list_cells (d + 8) (xs @ [p])) \<inter> lock_words L = {}"
    and inv: "alloc_inv D A s" "may_use A (malloc_pf s) s"
    and page: "a = page_at (vaddr_pool (malloc_pf s) s) k" "k < va_bits (vaddr_pool (malloc_pf s) s)"
      "maps_to (pmem s) (cr3 s) a f" "f \<notin> D"
  shows "\<exists>s'. sys_free p s = Done () s' \<and>
    dlist (nodes s') (d + 8) (filter (\<lambda>x. x \<notin> arena_blocks_of a 0 (4084 div (16 * 2 ^ i)) s) (xs @ [p])) \<and>
    mmu (cr3 s) (pmem s') a = None \<and> f \<in> free_frames (mem s') (the_pool (malloc_pf s) s) \<and>
    alloc_inv D A s' \<and> lock_idle L s'"
proof -
  let ?N = "4084 div (16 * 2 ^ i) :: nat" and ?pf = "malloc_pf s" and ?va = "vaddr_pool (malloc_pf s) s"
  define s2 where "s2 = set_arena a (\<lambda>r. r\<lparr>cnt := cnt r + 1\<rparr>) (list_append (d + 8) p (locked L s))"
  have f2: "arenas s2 a = (arenas s a)\<lparr>cnt := cnt (arenas s a) + 1\<rparr>" "block_descs s2 = block_descs s" "mem s2 = mem s"
    "pmem s2 = pmem s" "cr3 s2 = cr3 s" "kernel_pool s2 = kernel_pool s" "user_pool s2 = user_pool s"
    "kernel_vaddr s2 = kernel_vaddr s" "tasks s2 = tasks s" "esp s2 = esp s"
    "sema_value s2 = sema_value (locked L s)" "lock_holder s2 = lock_holder (locked L s)"
    "holder_repeat_nr s2 = holder_repeat_nr (locked L s)"
    by (simp_all add: s2_def list_ops_nodes) (simp_all add: locked_def set_sema_def set_holder_def set_repeat_def)
  have sp: "spaces_ok D A s" and A: "(cr3 s, ?va) \<in> A" using inv by (simp_all add: alloc_inv_def may_use_def)
  have wf: "va_wf ?va" by (rule spaces_okD(2) [OF sp A])
  have al: "frame_of a = a" unfolding page(1) by (rule page_at_props(1) [OF wf page(2)])
  have d2: "desc (arenas s2 a) = d" using f2(1) p(4) by simp
  have l2: "dlist (nodes s2) (d + 8) (xs @ [p])" using dlist_append [of "locked L s" "d + 8" xs p] l by (simp add: s2_def)
  have ab: "arena2block a j s2 = arena2block a j s" for j using f2(2) d2 p(4) by (simp add: arena2block_def)
  have B: "arena_blocks_of a 0 ?N s2 = arena_blocks_of a 0 ?N s" by (simp add: arena_blocks_of_def ab)
  have inj: "inj_on (\<lambda>j. arena2block a (of_nat j) s2) {0..<0 + ?N}"
    unfolding ab by (rule arena2block_inj [OF al _ i(1)]) (use i(2) p(4) in simp)
  obtain ns' where un: "unlink_blocks a ?N (of_nat 0) s2 = Inr (s2\<lparr>nodes := ns'\<rparr>)"
    "dlist ns' (d + 8) (filter (\<lambda>x. x \<notin> arena_blocks_of a 0 ?N s) (xs @ [p]))"
    "\<forall>x. x \<notin> set (list_cells (d + 8) (xs @ [p])) \<longrightarrow> ns' x = nodes s2 x"
    using unlink_blocks_spec [OF l2 d2 [symmetric] _ inj] l(3) unfolding B by blast
  define s3 where "s3 = s2\<lparr>nodes := ns'\<rparr>"
  have f3: "mem s3 = mem s" "pmem s3 = pmem s" "cr3 s3 = cr3 s" "kernel_pool s3 = kernel_pool s" "user_pool s3 = user_pool s"
    "kernel_vaddr s3 = kernel_vaddr s" "tasks s3 = tasks s" "esp s3 = esp s" using f2 by (simp_all add: s3_def)
  have inv3: "alloc_inv D A s3" using alloc_inv_cong [OF f3(1-6)] inv(1) by simp
  have va3: "vaddr_pool ?pf s3 = ?va" using f3 by (simp add: vaddr_pool_def running_thread_def)
  have use3: "may_use A ?pf s3" using inv(2) unfolding may_use_def va3 f3 .
  have page3: "a = page_at (vaddr_pool ?pf s3) k" "k < va_bits (vaddr_pool ?pf s3)" "maps_to (pmem s3) (cr3 s3) a f"
    using page f3 va3 by simp_all
  obtain m' pm' where fr: "mfree_page ?pf a 1 s3 = Inr (s3\<lparr>mem := m', pmem := pm'\<rparr>)"
    and inv4: "alloc_inv D A (s3\<lparr>mem := m', pmem := pm'\<rparr>)" and gone: "mmu (cr3 s) pm' a = None" and free: "f \<in> free_frames m' (the_pool ?pf s)"
    by (rule mfree_arena_page [OF inv3 use3 page3 page(4), unfolded the_pool_def f3, folded the_pool_def])
  define s4 where "s4 = s3\<lparr>mem := m', pmem := pm'\<rparr>"
  have f4: "nodes s4 = ns'" "sema_value s4 = sema_value (locked L s)" "lock_holder s4 = lock_holder (locked L s)"
    "holder_repeat_nr s4 = holder_repeat_nr (locked L s)" "esp s4 = esp s" "pmem s4 = pm'" "mem s4 = m'"
    using f2 by (simp_all add: s4_def s3_def)
  have lk: "lock_holder s4 L = running_thread s4" "holder_repeat_nr s4 L = 1" "sema_value s4 (L + 4) = 0"
    "running_thread s4 = running_thread s" using f4 by (simp_all add: running_thread_def)
  have "ns' (L + 8) = nodes s (L + 8)"
    using un(3) list_append_other [of "locked L s" "d + 8" xs p "L + 8"] l(1,2) sep by (auto simp: add.assoc s2_def)
  then have e4: "list_empty (L + 4 + 4) s4" using L(2) f4(1) by (simp add: lock_idle_def list_empty_def add.commute)
  have rel: "lock_release L s4 = Inr (unlocked L s4)" by (rule lock_release_idle [OF lk(1-3) e4])
  have N: "unat (of_nat ?N :: u32) = ?N" by (rule unat_of_nat32) (rule le_less_trans [OF div_le_dividend], simp)
  have "free_small ?pf a p (locked L s) =
      (if cnt (arenas s2 a) = blocks_per_arena (block_descs s2 (desc (arenas s2 a)))
       then res_bind (unlink_blocks a (unat (blocks_per_arena (block_descs s2 (desc (arenas s2 a))))) 0 s2) (mfree_page ?pf a 1)
       else Inr s2)"
    unfolding free_small_def Let_def locked_fields p(4) [symmetric] s2_def [symmetric] by (rule refl)
  then have "free_small ?pf a p (locked L s) = Inr s4"
    using fr [folded s4_def] un(1) i(2,3) f2(1,2) d2 N by (simp add: s3_def [symmetric])
  then have "sys_free p s = Done () (unlocked L s4)"
    using p(1-3) rel lock_acquire_idle [OF L(2)] unfolding sys_free_def Let_def L(1) [symmetric] by simp
  moreover have "lock_idle L (unlocked L s4)"
    by (rule unlocked_idle) (use L(2,3) lk(4) e4 in \<open>auto simp: lock_idle_def\<close>)
  moreover have "alloc_inv D A (unlocked L s4)"
    by (subst alloc_inv_cong [of _ s4]) (use inv4 [folded s4_def] in \<open>simp_all add: unlocked_def set_sema_def set_holder_def set_repeat_def\<close>)
  ultimately show ?thesis using un(2) gone free f4(1,6,7) by (intro exI [of _ "unlocked L s4"]) simp
qed

text \<open>The arena at 0xc0100000 cut into three blocks of 1024 bytes, of which the first is in use.\<close>

definition sample_list6 :: kmem where
  "sample_list6 = list_append 0xc0007098 0xc010080c (list_append 0xc0007098 0xc010040c (list_init 0xc0007098 sample_kmem))"

definition sample_heap6 :: kmem where
  "sample_heap6 = lock_init 0xc0008000
     (set_arena 0xc0100000 (\<lambda>a. \<lparr>desc = 0xc0007090, cnt = 2, large = False\<rparr>)
       (sample_list6\<lparr>tasks := (\<lambda>t. sample_task t TASK_RUNNING),
          block_descs := block_descs (block_desc_init 0xc0007000 sample_kmem)\<rparr>))"

lemma lock_init_mem [simp]: "pmem (lock_init l s) = pmem s" "cr3 (lock_init l s) = cr3 s"
  by (simp_all add: lock_init_def sema_init_def list_init_def set_sema_def set_holder_def set_repeat_def)

lemma sample_heap6_fields:
  "arenas sample_heap6 0xc0100000 = \<lparr>desc = 0xc0007090, cnt = 2, large = False\<rparr>"
  "running_thread sample_heap6 = 0xc009e000" "malloc_pf sample_heap6 = PF_KERNEL"
  "the_pool PF_KERNEL sample_heap6 = sample_kpool"
  "block_descs sample_heap6 0xc0007090 = \<lparr>mem_block_size = 16 * 2 ^ 6, blocks_per_arena = 3\<rparr>"
  "alloc_inv sample_D sample_A sample_heap6" "may_use sample_A PF_KERNEL sample_heap6"
  "vaddr_pool PF_KERNEL sample_heap6 = sample_kva" "cr3 sample_heap6 = 0x100000" "pmem sample_heap6 = sample_tables"
proof -
  have k: "esp sample_kmem = 0xc009efe0" by (simp add: sample_kmem_def kbd.extend_def kmem.fields_def)
  have e: "esp sample_heap6 = 0xc009efe0" "tasks sample_heap6 = (\<lambda>t. sample_task t TASK_RUNNING)"
    "kernel_pool sample_heap6 = kernel_pool sample_kmem" "user_pool sample_heap6 = user_pool sample_kmem"
    "kernel_vaddr sample_heap6 = kernel_vaddr sample_kmem" "mem sample_heap6 = mem sample_kmem"
    "pmem sample_heap6 = pmem sample_kmem" "cr3 sample_heap6 = cr3 sample_kmem"
    using k by (simp_all add: sample_heap6_def sample_list6_def list_ops_nodes list_init_def set_arena_def del: sample_kmem_fields)
  show "running_thread sample_heap6 = 0xc009e000" "malloc_pf sample_heap6 = PF_KERNEL"
    "the_pool PF_KERNEL sample_heap6 = sample_kpool" "vaddr_pool PF_KERNEL sample_heap6 = sample_kva"
    "cr3 sample_heap6 = 0x100000" "pmem sample_heap6 = sample_tables"
    using e by (simp_all add: running_thread_def malloc_pf_def the_pool_def sample_task_def vaddr_pool_def)
  show "alloc_inv sample_D sample_A sample_heap6"
    by (subst alloc_inv_cong [of _ sample_kmem]) (rule e(3-8) sample_alloc_inv)+
  show "may_use sample_A PF_KERNEL sample_heap6" using e by (simp add: may_use_def vaddr_pool_def sample_A_def)
  show "arenas sample_heap6 0xc0100000 = \<lparr>desc = 0xc0007090, cnt = 2, large = False\<rparr>" by (simp add: sample_heap6_def)
  have "block_descs sample_heap6 (desc_at 0xc0007000 (of_nat 6)) =
      \<lparr>mem_block_size = 16 * 2 ^ 6, blocks_per_arena = 4084 div (16 * 2 ^ 6)\<rparr>"
    using block_desc_init_descs [of "0xc0007000" sample_kmem] unfolding descs_ok_def
    by (drule_tac x = 6 in spec) (simp add: sample_heap6_def)
  then show "block_descs sample_heap6 0xc0007090 = \<lparr>mem_block_size = 16 * 2 ^ 6, blocks_per_arena = 3\<rparr>" by simp
qed

lemma sample_heap6_list: "dlist (nodes sample_heap6) 0xc0007098 [0xc010040c, 0xc010080c]"
proof -
  have "dlist (nodes sample_list6) 0xc0007098 (([] @ [0xc010040c]) @ [0xc010080c])"
    unfolding sample_list6_def by (intro dlist_append dlist_init) auto
  moreover have "dlist (nodes sample_heap6) 0xc0007098 [0xc010040c, 0xc010080c] =
      dlist (nodes sample_list6) 0xc0007098 [0xc010040c, 0xc010080c]"
  proof (rule dlist_cong)
    fix x assume "x \<in> set (list_cells 0xc0007098 [0xc010040c, 0xc010080c])"
    then show "nodes sample_heap6 x = nodes sample_list6 x"
      by (auto simp: sample_heap6_def lock_init_def sema_init_def list_init_def [of "0xc0008008"] set_front_def set_nxt_def)
  qed
  ultimately show ?thesis by simp
qed

lemma sample_heap6_lock: "lock_idle 0xc0008000 sample_heap6"
proof -
  have "list_empty 0xc0008008 sample_heap6"
    by (simp add: sample_heap6_def lock_init_def sema_init_def list_empty_def list_init_def [of "0xc0008008"])
  moreover have "lock_holder sample_heap6 0xc0008000 = 0" "sema_value sample_heap6 0xc0008004 = 1" "holder_repeat_nr sample_heap6 0xc0008000 = 0"
    by (simp_all add: sample_heap6_def lock_init_def sema_init_def list_init_def [of "0xc0008008"])
  ultimately show ?thesis using sample_heap6_fields(2) by (simp add: lock_idle_def)
qed

theorem sys_free_last_block_witness:
  "\<exists>s'. sys_free 0xc010000c sample_heap6 = Done () s' \<and> dlist (nodes s') 0xc0007098 [] \<and>
     mmu 0x100000 (pmem s') 0xc0100000 = None"
proof -
  note f = sample_heap6_fields
  have a: "block2arena 0xc010000c = 0xc0100000" "page_at sample_kva 0 = 0xc0100000"
    by (simp_all add: block2arena_def page_at_def sample_kva_def)
  have "{0..<0 + 4084 div (16 * 2 ^ 6)} = {0, 1, 2 :: nat}" by auto
  then have B: "arena_blocks_of 0xc0100000 0 (4084 div (16 * 2 ^ 6)) sample_heap6 = {0xc010000c, 0xc010040c, 0xc010080c}"
    using f(1,5) by (simp add: arena_blocks_of_def arena2block_def)
  have m: "maps_to sample_tables 0x100000 0xc0100000 0x200000"
    by (subst sample_maps_to) (simp_all add: sample_D_def PDE_IDX_def PTE_IDX_def)
  have "\<exists>s'. sys_free 0xc010000c sample_heap6 = Done () s' \<and>
    dlist (nodes s') (0xc0007090 + 8) (filter (\<lambda>x. x \<notin> arena_blocks_of 0xc0100000 0 (4084 div (16 * 2 ^ 6)) sample_heap6)
      ([0xc010040c, 0xc010080c] @ [0xc010000c])) \<and>
    mmu (cr3 sample_heap6) (pmem s') 0xc0100000 = None \<and> 0x200000 \<in> free_frames (mem s') (the_pool (malloc_pf sample_heap6) sample_heap6) \<and>
    alloc_inv sample_D sample_A s' \<and> lock_idle 0xc0008000 s'"
    by (rule sys_free_last_block [where k = 0])
      (use f sample_heap6_list sample_heap6_lock a B m in \<open>simp_all add: sample_kpool_def sample_D_def\<close>)
  then show ?thesis unfolding B f(9) by auto
qed

end
