(* ===== verification/Stdio.thy ===== *)
theory Stdio
  imports Lib_String
begin

text \<open>
  \<^verbatim>\<open>lib/stdio.c\<close>: writing numbers and format strings into a buffer in byte memory. A \<^verbatim>\<open>va_list\<close> is the
  address of the argument before the next one; arguments are words of four bytes. The loop over the
  format ends when it meets the NUL of the format, which the output might overwrite, so it is a
  \<open>partial_function (option)\<close>.
\<close>

section \<open>The routines\<close>

text \<open>
  \<open>iota\<close> returns the advanced buffer pointer, which the source updates through \<^verbatim>\<open>buf_ptr_addr\<close>. A zero
  base raises the divide error, whose handler spins; base 1 recurses for ever.
\<close>

partial_function (option) iota :: "u32 \<Rightarrow> addr \<Rightarrow> u8 \<Rightarrow> mem \<Rightarrow> (addr \<times> mem) option" where
  "iota number buf base m =
     (if base = 0 then None
      else let d = number mod ucast base; i = number div ucast base
      in Option.bind (if i \<noteq> 0 then iota i buf base m else Some (buf, m)) (\<lambda>(buf', m').
           Some (buf' + 1, m'(buf' := if d < 10 then ucast (d + 0x30) else ucast (d - 10 + 0x41)))))"

text \<open>The \<^verbatim>\<open>%s\<close> directive: \<^verbatim>\<open>strcpy(buf, arg_str); buf += strlen(arg_str)\<close>.\<close>

definition put_arg_str :: "addr \<Rightarrow> addr \<Rightarrow> mem \<Rightarrow> (addr \<times> mem) res" where
  "put_arg_str buf arg_str m =
     res_bind (strcpy buf arg_str m) (\<lambda>(_, m'). res_bind (strlen arg_str m') (\<lambda>n. Inr (buf + n, m')))"

text \<open>The \<^verbatim>\<open>%d\<close> directive; \<^verbatim>\<open>0 - arg_int\<close> wraps for the least integer.\<close>

definition put_arg_int :: "addr \<Rightarrow> u32 \<Rightarrow> mem \<Rightarrow> (addr \<times> mem) option" where
  "put_arg_int buf arg_int m =
     (if sint arg_int < 0 then iota (0 - arg_int) (buf + 1) 10 (m(buf := 0x2d)) else iota arg_int buf 10 m)"

partial_function (option) vsprintf_loop :: "addr \<Rightarrow> addr \<Rightarrow> addr \<Rightarrow> mem \<Rightarrow> mem res option" where
  "vsprintf_loop buf index ap m =
     (if m index = 0 then Some (Inr m)
      else if m index \<noteq> 0x25 then vsprintf_loop (buf + 1) (index + 1) ap (m(buf := m index))
      else let index = index + 1 in
        if m index = 0x78
        then Option.bind (iota (load_u32 (ap + 4) m) buf 16 m) (\<lambda>(buf', m').
               vsprintf_loop buf' (index + 1) (ap + 4) m')
        else if m index = 0x64
        then Option.bind (put_arg_int buf (load_u32 (ap + 4) m) m) (\<lambda>(buf', m').
               vsprintf_loop buf' (index + 1) (ap + 4) m')
        else if m index = 0x63
        then vsprintf_loop (buf + 1) (index + 1) (ap + 4) (m(buf := m (ap + 4)))
        else if m index = 0x73
        then case put_arg_str buf (load_u32 (ap + 4) m) m of Inl e \<Rightarrow> Some (Inl e)
             | Inr (buf', m') \<Rightarrow> vsprintf_loop buf' (index + 1) (ap + 4) m'
        else vsprintf_loop buf index ap m)"

definition vsprintf :: "addr \<Rightarrow> addr \<Rightarrow> addr \<Rightarrow> mem \<Rightarrow> (u32 \<times> mem) res" where
  "vsprintf str format ap m =
     (case vsprintf_loop str format ap m of None \<Rightarrow> Inl LOOP
      | Some r \<Rightarrow> res_bind r (\<lambda>m'. res_bind (strlen str m') (\<lambda>n. Inr (n, m'))))"

text \<open>
  \<open>sprintf(buf, format, ...)\<close>: \<open>frame\<close> is the address of its parameter \<open>format\<close>, where \<^verbatim>\<open>va_start\<close> lets
  the list begin.
\<close>

definition sprintf :: "addr \<Rightarrow> addr \<Rightarrow> mem \<Rightarrow> (u32 \<times> mem) res" where
  "sprintf buf frame m = vsprintf buf (load_u32 frame m) frame m"

section \<open>Numbers\<close>

text \<open>The digits of a number, most significant first, and the number that digits stand for.\<close>

definition digit :: "nat \<Rightarrow> u8" where
  "digit d = (if d < 10 then of_nat (d + 0x30) else of_nat (d - 10 + 0x41))"

definition digit_value :: "u8 \<Rightarrow> nat" where
  "digit_value c = (if unat c < 0x41 then unat c - 0x30 else unat c - 0x41 + 10)"

fun digits :: "nat \<Rightarrow> nat \<Rightarrow> u8 list" where
  "digits b n = (if b < 2 \<or> n < b then [digit n] else digits b (n div b) @ [digit (n mod b)])"

declare digits.simps [simp del]

definition number_of_digits :: "nat \<Rightarrow> u8 list \<Rightarrow> nat" where
  "number_of_digits b ds = foldl (\<lambda>v c. v * b + digit_value c) 0 ds"

lemma unat_digit: "d < 36 \<Longrightarrow> unat (digit d) = (if d < 10 then d + 0x30 else d + 0x37)"
  by (auto simp: digit_def unsigned_of_nat take_bit_nat_eq_self simp del: of_nat_add of_nat_diff)

lemma digit_value_digit: "d < 36 \<Longrightarrow> digit_value (digit d) = d"
  by (simp add: digit_value_def unat_digit)

lemma digit_nonzero: "d < 36 \<Longrightarrow> digit d \<noteq> 0"
  using unat_digit [of d] by (auto split: if_splits)

lemma mod_less_base: "2 \<le> b \<Longrightarrow> b \<le> 36 \<Longrightarrow> n mod b < (36 :: nat)"
  by (rule less_le_trans [of _ b]) simp_all

lemma number_of_digits_digits: "2 \<le> b \<Longrightarrow> b \<le> 36 \<Longrightarrow> number_of_digits b (digits b n) = n"
proof (induction b n rule: digits.induct)
  case (1 b n)
  then show ?case
    by (subst digits.simps) (auto simp: number_of_digits_def digit_value_digit mod_less_base)
qed

lemma digits_nonempty [simp]: "digits b n \<noteq> []"
  by (subst digits.simps) simp

lemma digits_nonzero: "2 \<le> b \<Longrightarrow> b \<le> 36 \<Longrightarrow> 0 \<notin> set (digits b n)"
proof (induction b n rule: digits.induct)
  case (1 b n)
  then show ?case
    by (subst digits.simps) (use digit_nonzero [of n] digit_nonzero [of "n mod b"] mod_less_base [of b n] in \<open>auto\<close>)
qed

lemma length_digits: "2 \<le> b \<Longrightarrow> n < b ^ Suc k \<Longrightarrow> length (digits b n) \<le> Suc k"
proof (induction k arbitrary: n)
  case 0
  then show ?case by (subst digits.simps) simp
next
  case (Suc k)
  have "n div b < b ^ Suc k" using Suc.prems by (simp add: less_mult_imp_div_less mult.commute)
  then show ?case using Suc.IH [of "n div b"] Suc.prems(1) by (subst digits.simps) auto
qed

lemma length_digits32: "2 \<le> b \<Longrightarrow> length (digits b (unat (n :: u32))) \<le> 32"
proof -
  assume b: "2 \<le> b"
  have "unat n < 2 ^ 32" by simp
  also have "(2 :: nat) ^ 32 \<le> b ^ 32" by (rule power_mono [OF b]) simp
  finally show ?thesis using length_digits [OF b, of "unat n" 31] by simp
qed


section \<open>Writing bytes\<close>

fun put_bytes :: "addr \<Rightarrow> u8 list \<Rightarrow> mem \<Rightarrow> mem" where
  "put_bytes p [] m = m"
| "put_bytes p (c # cs) m = put_bytes (p + 1) cs (m(p := c))"

lemma put_bytes_append: "put_bytes p (cs @ ds) m = put_bytes (p + of_nat (length cs)) ds (put_bytes p cs m)"
  by (induction cs arbitrary: p m) (simp_all add: add.assoc)

lemma put_bytes_other: "length cs \<le> 2 ^ 32 \<Longrightarrow> \<not> within x p (length cs) \<Longrightarrow> put_bytes p cs m x = m x"
  by (induction cs arbitrary: p m) (auto simp: within_Suc)

lemma put_bytes_at:
  "length cs \<le> 2 ^ 32 \<Longrightarrow> i < length cs \<Longrightarrow> put_bytes p cs m (p + of_nat i) = cs ! i"
proof (induction cs arbitrary: p m i)
  case (Cons c cs)
  show ?case
  proof (cases i)
    case 0
    have "\<not> within p (p + 1) (length cs)"
      using not_within_before [of 0 1 "length cs" p] Cons.prems(1) by simp
    then show ?thesis using 0 Cons.prems(1) by (simp add: put_bytes_other)
  next
    case (Suc j)
    then show ?thesis using Cons.IH [of j "p + 1"] Cons.prems by (simp add: add.assoc)
  qed
qed simp

lemma put_bytes_bytes_at: "length cs \<le> 2 ^ 32 \<Longrightarrow> bytes_at (put_bytes p cs m) p cs"
  by (simp add: bytes_at_iff put_bytes_at)

lemma ucast_of_nat_u8: "(ucast (of_nat n :: u32) :: u8) = of_nat n"
  by (simp add: word_unat_eq_iff unsigned_ucast_eq unsigned_of_nat)

lemma unat_ucast_u8: "unat (ucast (x :: u8) :: u32) = unat x"
  using unsigned_less [of x, where ?'a = nat] by (simp add: unsigned_ucast_eq take_bit_nat_eq_self)

lemma iota_digit:
  fixes number base32 :: u32
  assumes "0 < base32" "base32 \<le> 36"
  shows "(if number mod base32 < 10 then ucast (number mod base32 + 0x30) else ucast (number mod base32 - 10 + 0x41)) =
    digit (unat number mod unat base32)"
proof -
  define d where "d = unat number mod unat base32"
  have b: "0 < unat base32" "unat base32 \<le> 36" using assms by (simp_all add: word_less_nat_alt word_le_nat_alt)
  have d36: "d < 36" using b unfolding d_def by (meson less_le_trans mod_less_divisor)
  have u: "unat (number mod base32) = d" by (simp add: unat_mod_distrib d_def)
  have w: "number mod base32 = of_nat d" by (simp flip: u)
  show ?thesis
  proof (cases "d < 10")
    case True
    then show ?thesis using d36 ucast_of_nat_u8 [of "d + 48"] unfolding d_def [symmetric] w
      by (simp add: digit_def word_less_nat_alt unsigned_of_nat take_bit_nat_eq_self)
  next
    case False
    then show ?thesis using d36 ucast_of_nat_u8 [of "d - 10 + 65"] unfolding d_def [symmetric] w
      by (simp add: digit_def word_less_nat_alt unsigned_of_nat take_bit_nat_eq_self)
  qed
qed

lemma iota_eq:
  assumes "2 \<le> base" and "base \<le> 36"
  shows "iota number buf base m =
    Some (buf + of_nat (length (digits (unat base) (unat number))), put_bytes buf (digits (unat base) (unat number)) m)"
proof (induction "unat number" arbitrary: number rule: less_induct)
  case less
  define b where "b = (ucast base :: u32)"
  have ub: "unat b = unat base" by (simp add: b_def unat_ucast_u8)
  have b: "2 \<le> unat base" "unat base \<le> 36" using assms by (simp_all add: word_le_nat_alt)
  have b32: "0 < b" "b \<le> 36" using b ub by (simp_all add: word_less_nat_alt word_le_nat_alt)
  have b0: "base \<noteq> 0" using assms by auto
  have i: "unat (number div b) = unat number div unat base" by (simp add: unat_div_distrib ub)
  have i0: "number div b \<noteq> 0 \<longleftrightarrow> \<not> unat number < unat base"
    using b by (simp add: i div_eq_0_iff not_less flip: unat_eq_zero)
  note dg = iota_digit [OF b32, of number, unfolded ub]
  show ?case
  proof (cases "unat number < unat base")
    case True
    then have "digits (unat base) (unat number) = [digit (unat number)]" by (subst digits.simps) simp
    then show ?thesis using True i0 b0 b dg by (subst iota.simps) (simp add: Let_def flip: b_def)
  next
    case False
    then have "unat (number div b) < unat number" using b i by simp
    from less [OF this] have rec: "iota (number div b) buf base m =
        Some (buf + of_nat (length (digits (unat base) (unat number div unat base))),
          put_bytes buf (digits (unat base) (unat number div unat base)) m)"
      unfolding i .
    have "digits (unat base) (unat number) =
        digits (unat base) (unat number div unat base) @ [digit (unat number mod unat base)]"
      using False b by (subst digits.simps) simp
    then show ?thesis using False i0 b0 dg rec
      by (subst iota.simps) (simp add: Let_def put_bytes_append add.assoc flip: b_def)
  qed
qed


section \<open>Formatting\<close>

text \<open>
  What a format string stands for: \<open>args\<close> are the argument words, \<open>S p\<close> the string a pointer argument
  points to. An unknown directive is dropped up to its letter, which is printed.
\<close>

fun format_int :: "u32 \<Rightarrow> u8 list" where
  "format_int a = (if sint a < 0 then 0x2d # digits 10 (unat (- a)) else digits 10 (unat a))"

definition directive :: "u8 \<Rightarrow> bool" where
  "directive d \<longleftrightarrow> d \<in> {0x78, 0x64, 0x63, 0x73}"

definition directive_bytes :: "(addr \<Rightarrow> u8 list) \<Rightarrow> u8 \<Rightarrow> u32 \<Rightarrow> u8 list" where
  "directive_bytes S d a =
     (if d = 0x78 then digits 16 (unat a) else if d = 0x64 then format_int a
      else if d = 0x63 then [ucast a] else S a)"

fun format_bytes :: "(addr \<Rightarrow> u8 list) \<Rightarrow> u8 list \<Rightarrow> u32 list \<Rightarrow> u8 list" where
  "format_bytes S [] args = []"
| "format_bytes S [c] args = (if c \<noteq> 0x25 then [c] else [])"
| "format_bytes S (c # d # f) args =
     (if c \<noteq> 0x25 then c # format_bytes S (d # f) args
      else if directive d then directive_bytes S d (hd args) @ format_bytes S f (tl args)
      else format_bytes S (d # f) args)"

text \<open>The arguments that a format uses, and those of them that it takes for strings.\<close>

fun used_args :: "u8 list \<Rightarrow> nat" where
  "used_args (c # d # f) =
     (if c = 0x25 \<and> directive d then Suc (used_args f) else used_args (d # f))"
| "used_args f = 0"

fun string_args :: "u8 list \<Rightarrow> u32 list \<Rightarrow> u32 set" where
  "string_args (c # d # f) args =
     (if c = 0x25 \<and> directive d
      then (if d = 0x73 then {hd args} else {}) \<union> string_args f (tl args)
      else string_args (d # f) args)"
| "string_args f args = {}"

text \<open>The argument words in memory, from the word after \<open>ap\<close> on.\<close>

fun args_at :: "mem \<Rightarrow> addr \<Rightarrow> u32 list \<Rightarrow> bool" where
  "args_at m ap [] = True"
| "args_at m ap (a # as) = (load_u32 (ap + 4) m = a \<and> args_at m (ap + 4) as)"

lemma put_arg_int_eq:
  "put_arg_int buf a m = Some (buf + of_nat (length (format_int a)), put_bytes buf (format_int a) m)"
  by (simp add: put_arg_int_def iota_eq add.assoc)

lemma strcpy_loop_put:
  assumes "cstr m p s" and "Suc (length s) \<le> 2 ^ 32" and "disjoint_regions q (Suc (length s)) p (Suc (length s))"
  shows "strcpy_loop q p m = Some (put_bytes q (s @ [0]) m)"
  using assms
proof (induction s arbitrary: q p m)
  case Nil
  then show ?case by (subst strcpy_loop.simps) simp
next
  case (Cons c s)
  have n: "Suc (length s) < 2 ^ 32" using Cons.prems(2) by simp
  have "disjoint_regions q (Suc (Suc (length s))) p (Suc (Suc (length s)))" using Cons.prems(3) by simp
  note dis = disjoint_regions_Suc [OF this n]
  have "cstr (m(q := c)) (p + 1) s"
  proof (rule cstr_frame [of m])
    fix x assume "within x (p + 1) (Suc (length s))"
    then have "x \<noteq> q" using dis(2) within_Suc [OF n, of q p] by auto
    then show "(m(q := c)) x = m x" by simp
  qed (use Cons.prems(1) in simp)
  from Cons.IH [OF this _ dis(1)] n
  have "strcpy_loop (q + 1) (p + 1) (m(q := c)) = Some (put_bytes (q + 1) (s @ [0]) (m(q := c)))" by linarith
  then show ?case using Cons.prems(1) by (subst strcpy_loop.simps) (simp add: Let_def)
qed


text \<open>
  \<open>written p cs m m'\<close>: the bytes \<open>cs\<close> have been written at \<open>p\<close> and nothing else has changed, but for the
  byte behind them, which may have become a NUL.
\<close>

definition written :: "addr \<Rightarrow> u8 list \<Rightarrow> mem \<Rightarrow> mem \<Rightarrow> bool" where
  "written p cs m m' \<longleftrightarrow> (\<forall>x. x \<noteq> p + of_nat (length cs) \<longrightarrow> m' x = put_bytes p cs m x) \<and>
     m' (p + of_nat (length cs)) \<in> {m (p + of_nat (length cs)), 0}"

definition covers :: "addr set \<Rightarrow> addr \<Rightarrow> nat \<Rightarrow> bool" where
  "covers P p n \<longleftrightarrow> (\<forall>i<n. p + of_nat i \<in> P)"

definition avoids :: "addr set \<Rightarrow> addr \<Rightarrow> nat \<Rightarrow> bool" where
  "avoids P p n \<longleftrightarrow> (\<forall>i<n. p + of_nat i \<notin> P)"

lemma covers_Suc: "covers P p (Suc n) \<longleftrightarrow> p \<in> P \<and> covers P (p + 1) n"
  by (auto simp: covers_def less_Suc_eq_0_disj add.assoc)

lemma avoids_Suc: "avoids P p (Suc n) \<longleftrightarrow> p \<notin> P \<and> avoids P (p + 1) n"
  by (auto simp: avoids_def less_Suc_eq_0_disj add.assoc)

lemma covers_0 [simp]: "covers P p 0" "avoids P p 0"
  by (simp_all add: covers_def avoids_def)

lemma avoids_iff: "n \<le> 2 ^ 32 \<Longrightarrow> avoids P p n \<longleftrightarrow> (\<forall>x\<in>P. \<not> within x p n)"
  by (auto simp: avoids_def within_iff)

lemma avoids_add: "avoids P p (m + n) \<Longrightarrow> avoids P p m" "avoids P p (m + n) \<Longrightarrow> avoids P (p + of_nat m) n"
  by (auto simp: avoids_def add.assoc simp flip: of_nat_add)

lemma end_not_within: "Suc (length cs + n) \<le> 2 ^ 32 \<Longrightarrow> \<not> within (p + of_nat (length cs + n)) p (length cs)"
  by (simp add: within_def unsigned_of_nat take_bit_nat_eq_self del: of_nat_add)

lemma put_bytes_end: "Suc (length cs + n) \<le> 2 ^ 32 \<Longrightarrow> put_bytes p cs m (p + of_nat (length cs + n)) = m (p + of_nat (length cs + n))"
  by (rule put_bytes_other) (use end_not_within [of cs n p] in simp_all)

lemma written_put_bytes: "Suc (length cs) \<le> 2 ^ 32 \<Longrightarrow> written p cs m (put_bytes p cs m)"
  using put_bytes_end [of cs 0 p m] by (simp add: written_def)

lemma written_NUL: "Suc (length cs) \<le> 2 ^ 32 \<Longrightarrow> written p cs m (put_bytes p (cs @ [0]) m)"
  by (simp add: written_def put_bytes_append)

lemma written_trans:
  assumes "written p as m m1" and "written (p + of_nat (length as)) bs m1 m'" and "Suc (length as + length bs) \<le> 2 ^ 32"
  shows "written p (as @ bs) m m'"
proof -
  let ?M = "put_bytes p as m" and ?q = "p + of_nat (length as)"
  have q: "?M ?q = m ?q" using put_bytes_end [of as 0 p m] assms(3) by simp
  have m1: "m1 = ?M(?q := m1 ?q)" "m1 ?q \<in> {m ?q, 0}" using assms(1) by (auto simp: written_def)
  show ?thesis
  proof (cases bs)
    case Nil
    then show ?thesis using assms(2) m1 by (auto simp: written_def put_bytes_append split: if_splits)
  next
    case (Cons c cs)
    let ?e = "?q + of_nat (length bs)"
    have pb: "put_bytes ?q bs m1 = put_bytes p (as @ bs) m"
      using Cons by (subst m1(1)) (simp add: put_bytes_append)
    have "?e \<noteq> ?q" using Cons assms(3) of_nat_eq_iff32 [of "length bs" 0] by simp
    then have "m1 ?e = ?M ?e" by (subst m1(1)) simp
    also have "\<dots> = m ?e" using put_bytes_end [of as "length bs" p m] assms(3) by (simp add: add.assoc)
    finally show ?thesis using assms(2) pb by (simp add: written_def add.assoc)
  qed
qed

lemma written_outside:
  assumes "written p cs m m'" and "avoids P p (Suc (length cs))" and "x \<in> P" and "Suc (length cs) \<le> 2 ^ 32"
  shows "m' x = m x"
proof -
  have "\<not> within x p (Suc (length cs))"
    using assms(2,3,4) by (auto simp: avoids_def within_iff)
  then have "x \<noteq> p + of_nat (length cs)" "\<not> within x p (length cs)"
    using within_offset [of "length cs" "Suc (length cs)" p] within_mono [of x p "length cs"] by auto
  then show ?thesis using assms(1,4) put_bytes_other [of cs x p m] by (simp add: written_def)
qed


lemma load_u32_cong: "(\<And>i. i < 4 \<Longrightarrow> m' (a + of_nat i) = m (a + of_nat i)) \<Longrightarrow> load_u32 a m' = load_u32 a m"
proof -
  assume *: "\<And>i. i < 4 \<Longrightarrow> m' (a + of_nat i) = m (a + of_nat i)"
  show ?thesis using * [of 0] * [of 1] * [of 2] * [of 3] by (simp add: load_u32_def)
qed

lemma load_u32_covers: "covers P a 4 \<Longrightarrow> \<forall>x\<in>P. m x = m0 x \<Longrightarrow> load_u32 a m = load_u32 a m0"
  by (rule load_u32_cong) (simp add: covers_def)

lemma covers_add: "covers P a (k + n) \<longleftrightarrow> covers P a k \<and> covers P (a + of_nat k) n"
proof
  assume "covers P a k \<and> covers P (a + of_nat k) n"
  moreover have "a + of_nat i = a + of_nat k + of_nat (i - k)" if "\<not> i < k" for i
    using that by (simp add: add.assoc flip: of_nat_add)
  ultimately show "covers P a (k + n)"
    unfolding covers_def by (metis less_diff_conv2 add.commute not_less)
qed (auto simp: covers_def add.assoc simp flip: of_nat_add)

lemma covers_4_add: "covers P a (4 * Suc n) \<longleftrightarrow> covers P a 4 \<and> covers P (a + 4) (4 * n)"
  using covers_add [of P a 4 "4 * n"] by simp

lemma low_byte: "ucast (load_u32 a m) = m a"
  by (rule bit_eqI) (auto simp: load_u32_def bit_simps)

lemma put_arg_str_eq:
  assumes "p \<noteq> NULL" "buf \<noteq> NULL" "cstr m p s" "covers P p (Suc (length s))" "avoids P buf (Suc (length s))"
    "Suc (length s) \<le> 2 ^ 32"
  shows "put_arg_str buf p m = Inr (buf + of_nat (length s), put_bytes buf (s @ [0]) m)"
proof -
  have "disjoint_regions buf (Suc (length s)) p (Suc (length s))"
    unfolding disjoint_regions_def using assms(4,5,6) by (auto simp: within_iff covers_def avoids_def)
  then have c: "strcpy_loop buf p m = Some (put_bytes buf (s @ [0]) m)"
    by (rule strcpy_loop_put [OF assms(3,6)])
  have "cstr (put_bytes buf (s @ [0]) m) p s"
  proof (rule cstr_frame [OF assms(3)])
    fix x assume "within x p (Suc (length s))"
    then have "x \<in> P" using assms(4,6) by (auto simp: within_iff covers_def)
    then show "put_bytes buf (s @ [0]) m x = m x"
      by (rule written_outside [OF written_NUL [OF assms(6)] assms(5) _ assms(6)])
  qed
  then show ?thesis using assms(1,2) c strlen_cstr by (simp add: put_arg_str_def strcpy_def)
qed

lemma written_step:
  assumes "\<forall>x\<in>P. m x = m0 x" "written buf a m m1" "avoids P buf (Suc (length (a @ r)))" "Suc (length (a @ r)) \<le> 2 ^ 32"
    and rec: "\<lbrakk>\<forall>x\<in>P. m1 x = m0 x; avoids P (buf + of_nat (length a)) (Suc (length r)); Suc (length r) \<le> 2 ^ 32\<rbrakk>
      \<Longrightarrow> \<exists>m'. L = Some (Inr m') \<and> written (buf + of_nat (length a)) r m1 m'"
  shows "\<exists>m'. L = Some (Inr m') \<and> written buf (a @ r) m m'"
proof -
  have av: "avoids P buf (Suc (length a))" "avoids P (buf + of_nat (length a)) (Suc (length r))"
    using avoids_add [of P buf "Suc (length a)" "length r"] avoids_add(2) [of P buf "length a" "Suc (length r)"] assms(3)
    by simp_all
  have "\<forall>x\<in>P. m1 x = m0 x"
    using assms(1,4) written_outside [OF assms(2) av(1)] by auto
  from rec [OF this av(2)] assms(4) obtain m' where
    "L = Some (Inr m')" "written (buf + of_nat (length a)) r m1 m'" by auto
  then show ?thesis using written_trans [OF assms(2)] assms(4) by auto
qed

lemma vsprintf_directive:
  assumes "m index = 0x25" and "m (index + 1) = d" and "directive d" and a: "load_u32 (ap + 4) m = a"
    and st: "d = 0x73 \<longrightarrow> a \<noteq> NULL \<and> buf \<noteq> NULL \<and> cstr m a (S a) \<and> covers P a (Suc (length (S a)))"
    and out: "avoids P buf (Suc (length (directive_bytes S d a)))" "Suc (length (directive_bytes S d a)) \<le> 2 ^ 32"
  shows "\<exists>m1. written buf (directive_bytes S d a) m m1 \<and> vsprintf_loop buf index ap m =
    vsprintf_loop (buf + of_nat (length (directive_bytes S d a))) (index + 1 + 1) (ap + 4) m1"
proof -
  have one: "vsprintf_loop buf index ap m =
      (if d = 0x78 then Option.bind (iota a buf 16 m) (\<lambda>(buf', m'). vsprintf_loop buf' (index + 1 + 1) (ap + 4) m')
       else if d = 0x64 then Option.bind (put_arg_int buf a m) (\<lambda>(buf', m'). vsprintf_loop buf' (index + 1 + 1) (ap + 4) m')
       else if d = 0x63 then vsprintf_loop (buf + 1) (index + 1 + 1) (ap + 4) (m(buf := ucast a))
       else case put_arg_str buf a m of Inl e \<Rightarrow> Some (Inl e)
         | Inr (buf', m') \<Rightarrow> vsprintf_loop buf' (index + 1 + 1) (ap + 4) m')"
    using assms(1-3) a low_byte [of "ap + 4" m]
    by (subst vsprintf_loop.simps) (auto simp: Let_def directive_def)
  note w = written_put_bytes [OF out(2), of buf m]
  show ?thesis
  proof (cases "d = 0x73")
    case True
    then have "directive_bytes S d a = S a" by (simp add: directive_bytes_def)
    with True st out have "put_arg_str buf a m = Inr (buf + of_nat (length (S a)), put_bytes buf (S a @ [0]) m)"
      by (intro put_arg_str_eq) simp_all
    then show ?thesis using True one written_NUL [OF out(2), of buf m] by (auto simp: directive_bytes_def)
  next
    case False
    then show ?thesis using one w assms(3) unfolding directive_def
      by (intro exI [of _ "put_bytes buf (directive_bytes S d a) m"])
        (auto simp: directive_bytes_def iota_eq put_arg_int_eq simp del: format_int.simps)
  qed
qed

lemma vsprintf_loop_short:
  assumes agree: "\<forall>x\<in>P. m x = m0 x" and cs: "cstr m0 index f" "covers P index (Suc (length f))" and f: "length f \<le> 1"
    and out: "avoids P buf (Suc (length (format_bytes S f args)))"
  shows "\<exists>m'. vsprintf_loop buf index ap m = Some (Inr m') \<and> written buf (format_bytes S f args) m m'"
proof -
  have end_of: "vsprintf_loop b p q m' = Some (Inr m')" if "m' p = 0" for b p q m'
    using that by (subst vsprintf_loop.simps) simp
  consider (Nil) "f = []" | (Single) c where "f = [c]" using f by (cases f) auto
  then show ?thesis
  proof cases
    case Nil
    then have "m index = 0" using agree cs by (simp add: covers_Suc)
    then show ?thesis using Nil end_of written_put_bytes [of "[]" buf m] by simp
  next
    case Single
    then have i: "m index = c" "c \<noteq> 0" "m (index + 1) = 0" "index + 1 \<in> P" using agree cs by (auto simp: covers_Suc)
    show ?thesis
    proof (cases "c = 0x25")
      case True
      have "vsprintf_loop buf index ap m = vsprintf_loop buf (index + 1) ap m"
        using True i by (subst vsprintf_loop.simps) (simp add: Let_def)
      then show ?thesis using True Single end_of i written_put_bytes [of "[]" buf m] by simp
    next
      case False
      have "buf \<notin> P" using out False Single by (auto simp: avoids_def dest: spec [of _ 0])
      with i have "(m(buf := c)) (index + 1) = 0" by auto
      then show ?thesis using False Single i end_of [of "m(buf := c)"] written_put_bytes [of "[c]" buf m]
        by (subst vsprintf_loop.simps) simp
    qed
  qed
qed

lemma vsprintf_loop_formats:
  assumes "NULL \<in> P" and "\<forall>x\<in>P. m x = m0 x" and "cstr m0 index f" and "covers P index (Suc (length f))"
    and "args_at m0 ap args" and "used_args f \<le> length args" and "covers P (ap + 4) (4 * used_args f)"
    and "\<forall>p \<in> string_args f args. p \<noteq> NULL \<and> cstr m0 p (S p) \<and> covers P p (Suc (length (S p)))"
    and "avoids P buf (Suc (length (format_bytes S f args)))" and "Suc (length (format_bytes S f args)) \<le> 2 ^ 32"
  shows "\<exists>m'. vsprintf_loop buf index ap m = Some (Inr m') \<and> written buf (format_bytes S f args) m m'"
  using assms(2-)
proof (induction f arbitrary: args buf index ap m rule: measure_induct_rule [of length])
  case (less f)
  note agree = less.prems(1) and cs = less.prems(2,3) and ar = less.prems(4,5,6) and st = less.prems(7) and out = less.prems(8,9)
  consider (Short) "length f \<le> 1" | (More) c d f' where "f = c # d # f'"
    by (cases f rule: remdups_adj.cases) auto
  then show ?case
  proof cases
    case Short
    then show ?thesis using vsprintf_loop_short [OF agree cs] out(1) by blast
  next
    case More
    have i: "m index = c" "c \<noteq> 0" "m (index + 1) = d" "d \<noteq> 0" using agree cs More by (auto simp: covers_Suc)
    have n: "cstr m0 (index + 1) (d # f')" "covers P (index + 1) (Suc (length (d # f')))"
      "cstr m0 (index + 1 + 1) f'" "covers P (index + 1 + 1) (Suc (length f'))"
      using cs More by (auto simp: covers_Suc)
    show ?thesis
    proof (cases "c = 0x25")
      case False
      have "\<exists>m'. vsprintf_loop (buf + of_nat (length [c])) (index + 1) ap (m(buf := c)) = Some (Inr m') \<and>
        written buf ([c] @ format_bytes S (d # f') args) m m'"
      proof (rule written_step [OF agree])
        show "written buf [c] m (m(buf := c))" using written_put_bytes [of "[c]" buf m] by simp
        show "avoids P buf (Suc (length ([c] @ format_bytes S (d # f') args)))"
          "Suc (length ([c] @ format_bytes S (d # f') args)) \<le> 2 ^ 32" using out False More by simp_all
      qed (rule less.IH, use False More n(1,2) ar st out in simp_all)
      then show ?thesis using False More i by (subst vsprintf_loop.simps) simp
    next
      case True
      show ?thesis
      proof (cases "directive d")
        case False
        have "vsprintf_loop buf index ap m = vsprintf_loop buf (index + 1) ap m"
          using True False i by (subst vsprintf_loop.simps) (simp add: Let_def directive_def)
        moreover have "\<exists>m'. vsprintf_loop buf (index + 1) ap m = Some (Inr m') \<and> written buf (format_bytes S (d # f') args) m m'"
          by (rule less.IH) (use True False More agree n(1,2) ar st out in simp_all)
        ultimately show ?thesis using True False More by simp
      next
        case d: True
        then obtain a as where a: "args = a # as" using ar(2) True More by (cases args) auto
        let ?w = "directive_bytes S d a"
        have la: "load_u32 (ap + 4) m = a" "covers P (ap + 4 + 4) (4 * used_args f')"
          using load_u32_covers [OF _ agree, of "ap + 4"] ar(1,3) a True More d covers_4_add [of P "ap + 4"] by auto
        have w: "format_bytes S f args = ?w @ format_bytes S f' as" using True More a d by simp
        have bounds: "avoids P buf (Suc (length ?w))" "Suc (length ?w) \<le> 2 ^ 32"
          using out w avoids_add(1) [of P buf "Suc (length ?w)"] by simp_all
        have "a \<noteq> NULL \<and> buf \<noteq> NULL \<and> cstr m a (S a) \<and> covers P a (Suc (length (S a)))" if "d = 0x73"
        proof -
          have sa: "a \<noteq> NULL" "cstr m0 a (S a)" "covers P a (Suc (length (S a)))" using st True More a d that by auto
          then have "cstr m a (S a)" using agree by (auto simp: covers_def intro: cstr_transport [OF sa(2)])
          then show ?thesis using sa bounds(1) assms(1) by (auto simp: avoids_def dest: spec [of _ 0])
        qed
        then obtain m1 where m1: "written buf ?w m m1"
          "vsprintf_loop buf index ap m = vsprintf_loop (buf + of_nat (length ?w)) (index + 1 + 1) (ap + 4) m1"
          using vsprintf_directive [of m index d ap a buf S P] True i d la(1) bounds by auto
        have "\<exists>m'. vsprintf_loop buf index ap m = Some (Inr m') \<and> written buf (?w @ format_bytes S f' as) m m'"
          unfolding m1(2)
        proof (rule written_step [OF agree m1(1)])
          show "avoids P buf (Suc (length (?w @ format_bytes S f' as)))" "Suc (length (?w @ format_bytes S f' as)) \<le> 2 ^ 32"
            using out w by simp_all
        qed (rule less.IH, use True More d n(3,4) ar la(2) st a in auto)
        then show ?thesis unfolding w .
      qed
    qed
  qed
qed

lemma hd_digits: "2 \<le> b \<Longrightarrow> b \<le> 36 \<Longrightarrow> 0 < n \<Longrightarrow> hd (digits b n) \<noteq> 0x30"
proof (induction b n rule: digits.induct)
  case (1 b n)
  show ?case
  proof (cases "n < b")
    case True
    then have "digits b n = [digit n]" by (subst digits.simps) simp
    then show ?thesis using unat_digit [of n] "1.prems" True by (auto split: if_splits)
  next
    case False
    then have "digits b n = digits b (n div b) @ [digit (n mod b)]" using "1.prems" by (subst digits.simps) simp
    then show ?thesis using "1.IH" "1.prems" False by (simp add: div_greater_zero_iff)
  qed
qed

lemma vsprintf_result:
  assumes "NULL \<in> P" and "cstr m format f" and "covers P format (Suc (length f))"
    and "args_at m ap args" and "used_args f \<le> length args" and "covers P (ap + 4) (4 * used_args f)"
    and "\<forall>p \<in> string_args f args. p \<noteq> NULL \<and> cstr m p (S p) \<and> covers P p (Suc (length (S p)))"
    and "avoids P str (Suc (length (format_bytes S f args)))" and "length (format_bytes S f args) < 2 ^ 32"
    and "0 \<notin> set (format_bytes S f args)" and "m (str + of_nat (length (format_bytes S f args))) = 0"
  shows "\<exists>m'. vsprintf str format ap m = Inr (of_nat (length (format_bytes S f args)), m') \<and>
    cstr m' str (format_bytes S f args) \<and> (\<forall>x. \<not> within x str (length (format_bytes S f args)) \<longrightarrow> m' x = m x)"
proof -
  let ?out = "format_bytes S f args"
  have n: "Suc (length ?out) \<le> 2 ^ 32" using assms(9) by simp
  obtain m' where m': "vsprintf_loop str format ap m = Some (Inr m')" "written str ?out m m'"
    using vsprintf_loop_formats [OF assms(1) _ assms(2-8) n, of m] by auto
  have e: "m' (str + of_nat (length ?out)) = m (str + of_nat (length ?out))"
    using m'(2) assms(11) by (auto simp: written_def)
  have all: "m' x = put_bytes str ?out m x" for x
    using m'(2) e put_bytes_end [of ?out 0 str m] n by (cases "x = str + of_nat (length ?out)") (auto simp: written_def)
  have "cstr m' str (?out @ [])"
    unfolding cstr_append using put_bytes_bytes_at [of ?out str m] assms(9-11) e all by (simp add: bytes_at_iff)
  moreover have "str \<noteq> NULL" using assms(1,8) by (auto simp: avoids_def dest: spec [of _ 0])
  moreover have "\<forall>x. \<not> within x str (length ?out) \<longrightarrow> m' x = m x"
    using all put_bytes_other [of ?out] n by simp
  ultimately show ?thesis using m'(1) by (simp add: vsprintf_def strlen_cstr)
qed

section \<open>Claims\<close>


text \<open>
  C22: \<open>iota\<close> with a base from 2 to 36 returns; it writes at most 32 digits and nothing else, advances the
  pointer past them, writes no leading zero, and the digits read back in the base give the number.
\<close>

theorem iota_roundtrip:
  assumes "2 \<le> base" and "base \<le> 36"
  shows "\<exists>ds m'. iota number buf base m = Some (buf + of_nat (length ds), m') \<and> bytes_at m' buf ds \<and>
    number_of_digits (unat base) ds = unat number \<and> 0 < length ds \<and> length ds \<le> 32 \<and>
    (0 < number \<longrightarrow> hd ds \<noteq> 0x30) \<and> (\<forall>x. \<not> within x buf (length ds) \<longrightarrow> m' x = m x)"
proof -
  let ?ds = "digits (unat base) (unat number)"
  have b: "2 \<le> unat base" "unat base \<le> 36" using assms by (simp_all add: word_le_nat_alt)
  have n: "length ?ds \<le> 32" by (rule length_digits32 [OF b(1)])
  show ?thesis
    using iota_eq [OF assms, of number buf m] n b put_bytes_bytes_at [of ?ds buf m] put_bytes_other [of ?ds]
      number_of_digits_digits [OF b] hd_digits [OF b, of "unat number"]
    by (intro exI [of _ ?ds] exI [of _ "put_bytes buf ?ds m"]) (simp add: word_less_nat_alt)
qed

section \<open>Witnesses\<close>

text \<open>The format \<^verbatim>\<open>n=%d\<close> at 0x100, its argument 5 at 0x304, a cleared buffer at 0x1000.\<close>

definition sample_memory :: mem where
  "sample_memory = put_bytes 0x304 [5, 0, 0, 0] (put_bytes 0x100 [0x6e, 0x3d, 0x25, 0x64] (\<lambda>_. 0))"

definition sample_addrs :: "addr set" where
  "sample_addrs = {0, 0x100, 0x101, 0x102, 0x103, 0x104, 0x304, 0x305, 0x306, 0x307}"


theorem iota_roundtrip_witness:
  "\<exists>ds m'. iota 255 0x1000 16 sample_memory = Some (0x1000 + of_nat (length ds), m') \<and> number_of_digits 16 ds = 255"
  using iota_roundtrip [of 16 255 "0x1000" sample_memory] by auto

end
