(* ===== verification/Console.thy ===== *)
theory Console
  imports Arena Stdio
begin

text \<open>
  \<^verbatim>\<open>device/console.c\<close> and \<^verbatim>\<open>lib/kernel/stdio-kernel.c\<close>: output to the screen under the console lock. The
  routines of \<^verbatim>\<open>lib/kernel/print.S\<close> that they call are assembly; \<open>screen\<close> is the sequence of characters
  handed to its \<^verbatim>\<open>put_char\<close>. The cursor and the scrolling of the video memory are not modelled.
\<close>

section \<open>The routines\<close>

record console = kmem +
  console_lock :: addr
  screen :: "u8 list"

definition put_char :: "u8 \<Rightarrow> 'a console_scheme \<Rightarrow> 'a console_scheme" where
  "put_char c s = s\<lparr>screen := screen s @ [c]\<rparr>"

partial_function (option) put_str_loop :: "addr \<Rightarrow> 'a console_scheme \<Rightarrow> 'a console_scheme option" where
  "put_str_loop p s = (if mem s p = 0 then Some s else put_str_loop (p + 1) (put_char (mem s p) s))"

definition put_str :: "addr \<Rightarrow> 'a console_scheme \<Rightarrow> 'a console_scheme res" where
  "put_str p s = of_loop (put_str_loop p s)"

text \<open>Hexadecimal, without leading zeros.\<close>

definition put_int :: "u32 \<Rightarrow> 'a console_scheme \<Rightarrow> 'a console_scheme" where
  "put_int num s =
     (let ds = map (\<lambda>i. digit (unat (drop_bit (4 * (7 - i)) num AND 0xf))) [0..<8];
          shown = dropWhile (\<lambda>c. c = 0x30) ds
      in foldl (\<lambda>t c. put_char c t) s (if shown = [] then [0x30] else shown))"

definition console_init :: "'a console_scheme \<Rightarrow> 'a console_scheme" where
  "console_init s = lock_init (console_lock s) s"

definition console_acquire :: "'a console_scheme \<Rightarrow> ('a console_scheme, unit) kop" where
  "console_acquire s = lock_acquire (console_lock s) s"

definition console_release :: "'a console_scheme \<Rightarrow> ('a console_scheme, unit) kop" where
  "console_release s = klift (lock_release (console_lock s) s)"

definition console_put_str :: "addr \<Rightarrow> 'a console_scheme \<Rightarrow> ('a console_scheme, unit) kop" where
  "console_put_str str s =
     kbind (console_acquire s) (\<lambda>_ s1. kbind (klift (put_str str s1)) (\<lambda>_ s2. console_release s2))"

definition console_put_char :: "u8 \<Rightarrow> 'a console_scheme \<Rightarrow> ('a console_scheme, unit) kop" where
  "console_put_char c s = kbind (console_acquire s) (\<lambda>_ s1. console_release (put_char c s1))"

definition console_put_int :: "u32 \<Rightarrow> 'a console_scheme \<Rightarrow> ('a console_scheme, unit) kop" where
  "console_put_int num s = kbind (console_acquire s) (\<lambda>_ s1. console_release (put_int num s1))"

text \<open>
  \<open>printk(format, ...)\<close>: \<open>args\<close> is the address of its parameter \<open>format\<close>, \<open>buffer\<close> that of its local array \<^verbatim>\<open>buf\<close>,
  which its initialiser clears.
\<close>

definition printk :: "addr \<Rightarrow> addr \<Rightarrow> 'a console_scheme \<Rightarrow> ('a console_scheme, unit) kop" where
  "printk buffer args s =
     (let s1 = s\<lparr>mem := memset_loop 1024 buffer 0 (mem s)\<rparr> in
      kbind (klift_val (res_bind (vsprintf buffer (load_u32 args (mem s1)) args (mem s1)) (\<lambda>(n, m).
               Inr (n, s1\<lparr>mem := m\<rparr>))))
        (\<lambda>_ s2. console_put_str buffer s2))"

section \<open>Printing under the lock\<close>

text \<open>What is done between acquiring and releasing a lock that nobody else holds.\<close>

lemma lock_section:
  fixes s t :: "'a kmem_scheme"
  assumes "lock_idle L s" and "running_thread s \<noteq> NULL"
    and "lock_holder t = lock_holder (locked L s)" and "holder_repeat_nr t = holder_repeat_nr (locked L s)"
    and "sema_value t = sema_value (locked L s)" and "esp t = esp s" and "nodes t (L + 8) = nodes s (L + 8)"
  shows "lock_acquire L s = Done () (locked L s)" and "lock_release L t = Inr (unlocked L t)"
    and "lock_idle L (unlocked L t)"
proof -
  have r: "running_thread t = running_thread s" using assms(6) by (simp add: running_thread_def)
  have e: "list_empty (L + 4 + 4) t" using assms(1,7) by (simp add: lock_idle_def list_empty_def add.assoc)
  show "lock_acquire L s = Done () (locked L s)" by (rule lock_acquire_idle [OF assms(1)])
  show "lock_release L t = Inr (unlocked L t)"
    by (rule lock_release_idle) (use assms(3-5) r e in simp_all)
  show "lock_idle L (unlocked L t)"
    by (rule unlocked_idle) (use assms(1,2) r e in \<open>simp_all add: lock_idle_def\<close>)
qed

lemma put_str_loop_cstr: "cstr (mem s) p cs \<Longrightarrow> put_str_loop p s = Some (s\<lparr>screen := screen s @ cs\<rparr>)"
proof (induction cs arbitrary: p s)
  case Nil
  then show ?case by (subst put_str_loop.simps) simp
next
  case (Cons c cs)
  then show ?case using Cons.IH [of "put_char c s" "p + 1"] by (subst put_str_loop.simps) (simp add: put_char_def)
qed

lemma console_put_str_eq:
  fixes s :: "'a console_scheme"
  assumes "lock_idle (console_lock s) s" and "running_thread s \<noteq> NULL" and "cstr (mem s) p cs"
  shows "\<exists>s'. console_put_str p s = Done () s' \<and> screen s' = screen s @ cs \<and> mem s' = mem s \<and>
    lock_idle (console_lock s) s'"
proof -
  let ?L = "console_lock s"
  let ?t = "(locked ?L s)\<lparr>screen := screen s @ cs\<rparr>"
  have f: "console_lock (locked ?L s) = ?L" "screen (locked ?L s) = screen s" "mem (locked ?L s) = mem s"
    by (simp_all add: locked_def set_sema_def set_holder_def set_repeat_def)
  have "put_str p (locked ?L s) = Inr ?t"
    using put_str_loop_cstr [of "locked ?L s" p cs] assms(3) f by (simp add: put_str_def)
  moreover note lock_section [OF assms(1,2), of ?t]
  moreover have "esp ?t = esp s" "nodes ?t = nodes s" by (simp_all add: locked_def set_sema_def set_holder_def set_repeat_def)
  ultimately have "console_put_str p s = Done () (unlocked ?L ?t)" "lock_idle ?L (unlocked ?L ?t)"
    using f by (simp_all add: console_put_str_def console_acquire_def console_release_def)
  then show ?thesis using f by (simp add: unlocked_def set_sema_def set_holder_def set_repeat_def)
qed

section \<open>Claims\<close>


section \<open>Witnesses\<close>

text \<open>\<^verbatim>\<open>printk("n=%d", 5)\<close> with its parameters at 0x300.\<close>

definition sample_console :: console where
  "sample_console = lock_init 0xc0009000
     (kmem.extend (sample_kmem\<lparr>mem := put_bytes 0x300 [0, 1, 0, 0] sample_memory\<rparr>) (console.fields 0xc0009000 []))"


end
