(* ===== verification/Tss.thy ===== *)
theory Tss
  imports Console
begin

text \<open>
  \<^verbatim>\<open>userprog/tss.c\<close>: the task state segment and the segment descriptors of user mode. The member
  \<open>esp0\<close> of the segment, which \<open>update_tss_esp\<close> changes at every switch, is \<open>tss_esp0\<close> of the scheduler's
  state. Start-up messages are left out.
\<close>

section \<open>State\<close>

record gdt_desc =
  low_limit_word :: u16
  low_base_word :: u16
  mid_base_byte :: u8
  low_attr_byte :: u8
  limit_high_attr_byte :: u8
  high_base_byte :: u8

record tss =
  tss_backlink :: u32
  tss_ss0 :: u32
  tss_esp1 :: u32
  tss_ss1 :: u32
  tss_esp2 :: u32
  tss_ss2 :: u32
  tss_cr3 :: u32
  tss_eip :: u32
  tss_eflags :: u32
  tss_eax :: u32
  tss_ecx :: u32
  tss_edx :: u32
  tss_ebx :: u32
  tss_esp :: u32
  tss_ebp :: u32
  tss_esi :: u32
  tss_edi :: u32
  tss_es :: u32
  tss_cs :: u32
  tss_ss :: u32
  tss_ds :: u32
  tss_fs :: u32
  tss_gs :: u32
  tss_ldt :: u32
  tss_trace :: u32
  tss_io_base :: u32

text \<open>\<open>tss_addr\<close> is the address of the segment; \<open>gdtr\<close> and \<open>tr\<close> are the operands last loaded.\<close>

record segments = console +
  tss :: tss
  tss_addr :: addr
  gdt :: "addr \<Rightarrow> gdt_desc"
  gdtr :: "64 word"
  tr :: u16

section \<open>Constants of \<^verbatim>\<open>kernel/global.h\<close>\<close>

definition SELECTOR_K_STACK :: u32 where "SELECTOR_K_STACK = push_bit 3 2 + push_bit 2 0 + 0"

definition SELECTOR_U_CODE :: u32 where "SELECTOR_U_CODE = push_bit 3 5 + push_bit 2 0 + 3"

definition SELECTOR_U_DATA :: u32 where "SELECTOR_U_DATA = push_bit 3 6 + push_bit 2 0 + 3"

definition SELECTOR_TSS :: u16 where "SELECTOR_TSS = push_bit 3 4 + push_bit 2 0 + 0"

definition GDT_ATTR_HIGH :: u8 where "GDT_ATTR_HIGH = push_bit 7 1 + push_bit 6 1 + push_bit 5 0 + push_bit 4 0"

definition GDT_ATTR_LOW_CODE_DPL3 :: u8 where "GDT_ATTR_LOW_CODE_DPL3 = push_bit 7 1 + push_bit 5 3 + push_bit 4 1 + 8"

definition GDT_ATTR_LOW_DATA_DPL3 :: u8 where "GDT_ATTR_LOW_DATA_DPL3 = push_bit 7 1 + push_bit 5 3 + push_bit 4 1 + 2"

definition TSS_ATTR_HIGH :: u8 where "TSS_ATTR_HIGH = push_bit 7 1 + push_bit 6 0 + push_bit 5 0 + push_bit 4 0 + 0"

definition TSS_ATTR_LOW :: u8 where "TSS_ATTR_LOW = push_bit 7 1 + push_bit 5 0 + push_bit 4 0 + 9"

section \<open>The routines\<close>

definition make_gdt_desc :: "addr \<Rightarrow> u32 \<Rightarrow> u8 \<Rightarrow> u8 \<Rightarrow> gdt_desc" where
  "make_gdt_desc desc_base limit attr_high attr_low =
     \<lparr>low_limit_word = ucast (limit AND 0x0000ffff),
      low_base_word = ucast (desc_base AND 0x0000ffff),
      mid_base_byte = ucast (drop_bit 16 (desc_base AND 0x00ff0000)),
      low_attr_byte = attr_low,
      limit_high_attr_byte = ucast (drop_bit 16 (limit AND 0x000f0000) + ucast attr_high),
      high_base_byte = ucast (drop_bit 24 desc_base)\<rparr>"

text \<open>\<^verbatim>\<open>sizeof(tss)\<close> is 108.\<close>

definition zero_tss :: tss where
  "zero_tss = \<lparr>tss_backlink = 0, tss_ss0 = 0, tss_esp1 = 0, tss_ss1 = 0, tss_esp2 = 0, tss_ss2 = 0, tss_cr3 = 0,
     tss_eip = 0, tss_eflags = 0, tss_eax = 0, tss_ecx = 0, tss_edx = 0, tss_ebx = 0, tss_esp = 0, tss_ebp = 0,
     tss_esi = 0, tss_edi = 0, tss_es = 0, tss_cs = 0, tss_ss = 0, tss_ds = 0, tss_fs = 0, tss_gs = 0, tss_ldt = 0,
     tss_trace = 0, tss_io_base = 0\<rparr>"

definition tss_init :: "'a segments_scheme \<Rightarrow> 'a segments_scheme" where
  "tss_init s =
     (let tss_size = 108 :: u32;
          s1 = s\<lparr>tss_esp0 := 0, tss := zero_tss\<lparr>tss_ss0 := SELECTOR_K_STACK, tss_io_base := tss_size\<rparr>\<rparr>;
          g = (gdt s1)(0xc0000920 := make_gdt_desc (tss_addr s1) (tss_size - 1) TSS_ATTR_HIGH TSS_ATTR_LOW,
                0xc0000928 := make_gdt_desc 0 0xfffff GDT_ATTR_HIGH GDT_ATTR_LOW_CODE_DPL3,
                0xc0000930 := make_gdt_desc 0 0xfffff GDT_ATTR_HIGH GDT_ATTR_LOW_DATA_DPL3);
          gdt_operand = push_bit 16 (ucast (0xc0000900 :: u32) :: 64 word) OR (8 * 7 - 1)
      in s1\<lparr>gdt := g, gdtr := gdt_operand, tr := SELECTOR_TSS\<rparr>)"

section \<open>Decoding a descriptor\<close>

text \<open>Base, limit, privilege and type of a descriptor, as the processor reads them.\<close>

definition seg_base :: "gdt_desc \<Rightarrow> u32" where
  "seg_base d = push_bit 24 (ucast (high_base_byte d)) OR push_bit 16 (ucast (mid_base_byte d)) OR ucast (low_base_word d)"

definition seg_limit :: "gdt_desc \<Rightarrow> u32" where
  "seg_limit d =
     (let raw = push_bit 16 (ucast (limit_high_attr_byte d AND 0xf)) OR ucast (low_limit_word d)
      in if bit (limit_high_attr_byte d) 7 then push_bit 12 raw OR 0xfff else raw)"

definition seg_dpl :: "gdt_desc \<Rightarrow> u8" where
  "seg_dpl d = drop_bit 5 (low_attr_byte d) AND 3"

definition seg_present :: "gdt_desc \<Rightarrow> bool" where
  "seg_present d \<longleftrightarrow> bit (low_attr_byte d) 7"

definition seg_type :: "gdt_desc \<Rightarrow> u8" where
  "seg_type d = low_attr_byte d AND 0x1f"

text \<open>The descriptor that a selector names in the table at 0xc0000900.\<close>

definition selected :: "u32 \<Rightarrow> 'a segments_scheme \<Rightarrow> gdt_desc" where
  "selected sel s = gdt s (0xc0000900 + (sel AND 0xfff8))"

text \<open>A segment that covers the whole address space, of privilege 3 and the given type.\<close>

definition user_segment :: "u8 \<Rightarrow> gdt_desc \<Rightarrow> bool" where
  "user_segment ty d \<longleftrightarrow>
     seg_base d = 0 \<and> seg_limit d = 0xffffffff \<and> seg_dpl d = 3 \<and> seg_present d \<and> seg_type d = ty"

lemma bits_of_base:
  "push_bit 24 (ucast (ucast (drop_bit 24 b) :: u8)) OR
   push_bit 16 (ucast (ucast (drop_bit 16 (b AND 0x00ff0000)) :: u8)) OR
   ucast (ucast (b AND 0x0000ffff) :: u16) = (b :: u32)"
proof -
  have m: "(0x00ff0000 :: u32) = push_bit 16 (mask 8)" "(0x0000ffff :: u32) = mask 16"
    by (simp_all add: mask_eq_exp_minus_1)
  have "bit b n" if "bit b (24 + (n - 24))" "24 \<le> n" for n using that by simp
  moreover have "n - 16 < 8 \<or> bit b (24 + (n - 24))" if "bit b n" for n using that by (cases "24 \<le> n") auto
  ultimately show ?thesis unfolding m
    by (intro bit_word_eqI)
      (auto simp: bit_or_iff bit_push_bit_iff bit_unsigned_iff bit_drop_bit_eq bit_and_iff bit_mask_iff)
qed

lemma seg_base_make: "seg_base (make_gdt_desc b l h a) = b"
  using bits_of_base [of b] by (simp add: seg_base_def make_gdt_desc_def)

section \<open>Claims\<close>

text \<open>
  C23: after \<open>tss_init\<close> the selectors of user code and user data name present segments of privilege 3 that
  cover the whole address space, the selector in the task register names the descriptor of the task
  state segment, which has privilege 0, the kernel's stack segment is set, and the table that is loaded
  begins at 0xc0000900 and has room for these descriptors.
\<close>

theorem tss_init_segments:
  fixes s :: "'a segments_scheme"
  defines "s' \<equiv> tss_init s"
  shows "user_segment 0x18 (selected SELECTOR_U_CODE s') \<and> user_segment 0x12 (selected SELECTOR_U_DATA s') \<and>
    seg_base (selected (ucast (tr s')) s') = tss_addr s \<and> seg_dpl (selected (ucast (tr s')) s') = 0 \<and>
    seg_present (selected (ucast (tr s')) s') \<and> seg_type (selected (ucast (tr s')) s') = 9 \<and>
    107 \<le> seg_limit (selected (ucast (tr s')) s') \<and>
    tss_ss0 (tss s') = SELECTOR_K_STACK \<and> ucast (drop_bit 16 (gdtr s')) = (0xc0000900 :: u32) \<and>
    (SELECTOR_U_DATA AND 0xfff8) + 7 \<le> ucast (gdtr s' AND 0xffff)"
proof -
  note c = SELECTOR_U_CODE_def SELECTOR_U_DATA_def SELECTOR_TSS_def
  have sel: "selected SELECTOR_U_CODE s' = make_gdt_desc 0 0xfffff GDT_ATTR_HIGH GDT_ATTR_LOW_CODE_DPL3"
    "selected SELECTOR_U_DATA s' = make_gdt_desc 0 0xfffff GDT_ATTR_HIGH GDT_ATTR_LOW_DATA_DPL3"
    "selected (ucast (tr s')) s' = make_gdt_desc (tss_addr s) 107 TSS_ATTR_HIGH TSS_ATTR_LOW"
    by (simp_all add: s'_def selected_def c tss_init_def Let_def)
  have u: "user_segment 0x18 (selected SELECTOR_U_CODE s')" "user_segment 0x12 (selected SELECTOR_U_DATA s')"
    unfolding sel user_segment_def seg_base_make
    by (simp_all add: make_gdt_desc_def seg_limit_def seg_dpl_def seg_present_def seg_type_def GDT_ATTR_HIGH_def
        GDT_ATTR_LOW_CODE_DPL3_def GDT_ATTR_LOW_DATA_DPL3_def)
  have t: "seg_base (selected (ucast (tr s')) s') = tss_addr s" "seg_dpl (selected (ucast (tr s')) s') = 0"
    "seg_present (selected (ucast (tr s')) s')" "seg_type (selected (ucast (tr s')) s') = 9"
    "107 \<le> seg_limit (selected (ucast (tr s')) s')"
    unfolding sel seg_base_make
    by (simp_all add: make_gdt_desc_def seg_limit_def seg_dpl_def seg_present_def seg_type_def TSS_ATTR_HIGH_def TSS_ATTR_LOW_def)
  have "tss_ss0 (tss s') = SELECTOR_K_STACK" "ucast (drop_bit 16 (gdtr s')) = (0xc0000900 :: u32)"
    "(SELECTOR_U_DATA AND 0xfff8) + 7 \<le> ucast (gdtr s' AND 0xffff)"
    by (simp_all add: s'_def tss_init_def Let_def c)
  with u t show ?thesis by blast
qed

end
