(* ===== verification/Process.thy ===== *)
theory Process
  imports Tss
begin

text \<open>
  Creating threads and processes: the rest of \<^verbatim>\<open>thread/thread.c\<close> (initialising a control block, the
  first stack of a thread, the main and idle threads) and of \<^verbatim>\<open>userprog/process.c\<close> (page directory, pool
  of virtual pages, the stack frame that enters user mode). Stack frames are in typed stores by
  address; addresses of functions and of string literals are parts of the state that nothing changes.
  Start-up messages are left out.
\<close>

section \<open>State\<close>

record intr_stack =
  istk_vec_no :: u32
  istk_edi :: u32
  istk_esi :: u32
  istk_ebp :: u32
  istk_esp_dummy :: u32
  istk_ebx :: u32
  istk_edx :: u32
  istk_ecx :: u32
  istk_eax :: u32
  istk_gs :: u32
  istk_fs :: u32
  istk_es :: u32
  istk_ds :: u32
  istk_err_code :: u32
  istk_eip :: addr
  istk_cs :: u32
  istk_eflags :: u32
  istk_esp :: u32
  istk_ss :: u32

record thread_stack =
  tstk_ebp :: u32
  tstk_ebx :: u32
  tstk_edi :: u32
  tstk_esi :: u32
  tstk_eip :: addr
  tstk_unused_retaddr :: addr
  tstk_function :: addr
  tstk_func_arg :: u32

record procs = segments +
  pid_lock :: addr
  next_pid :: u16
  intr_stacks :: "addr \<Rightarrow> intr_stack"
  thread_stacks :: "addr \<Rightarrow> thread_stack"
  fn_kernel_thread :: addr
  fn_start_process :: addr
  fn_idle :: addr
  lit_main_thread :: addr
  lit_idle :: addr

section \<open>Threads\<close>

definition allocate_pid :: "'a procs_scheme \<Rightarrow> ('a procs_scheme, u16) kop" where
  "allocate_pid s =
     kbind (lock_acquire (pid_lock s) s) (\<lambda>_ s1.
     let s2 = s1\<lparr>next_pid := next_pid s1 + 1\<rparr> in
     kbind (klift (lock_release (pid_lock s2) s2)) (\<lambda>_ s3. Done (next_pid s3) s3))"

text \<open>
  \<^verbatim>\<open>self_kstack\<close> is a \<^verbatim>\<open>uint32_t*\<close>, so subtracting \<^verbatim>\<open>sizeof(struct intr_stack)\<close> (76) and
  \<^verbatim>\<open>sizeof(struct thread_stack)\<close> (32) moves it by four times as many bytes.
\<close>

definition thread_create :: "addr \<Rightarrow> addr \<Rightarrow> u32 \<Rightarrow> 'a procs_scheme \<Rightarrow> 'a procs_scheme" where
  "thread_create pthread function func_arg s =
     (let s1 = upd_task pthread (\<lambda>r. r\<lparr>self_kstack := self_kstack r - 4 * 76\<rparr>) s;
          s2 = upd_task pthread (\<lambda>r. r\<lparr>self_kstack := self_kstack r - 4 * 32\<rparr>) s1;
          kthread = self_kstack (tasks s2 pthread)
      in s2\<lparr>thread_stacks := (thread_stacks s2)(kthread := (thread_stacks s2 kthread)
           \<lparr>tstk_eip := fn_kernel_thread s2, tstk_function := function, tstk_func_arg := func_arg,
            tstk_ebp := 0, tstk_ebx := 0, tstk_edi := 0, tstk_esi := 0\<rparr>)\<rparr>)"

text \<open>The assignments of \<open>init_thread\<close> after the name has been copied; \<^verbatim>\<open>MAX_FILES_OPEN_PER_PROC\<close> is 8.\<close>

definition init_fields :: "addr \<Rightarrow> u8 \<Rightarrow> 'a threads_scheme \<Rightarrow> 'a threads_scheme" where
  "init_fields pthread prio s =
     upd_task pthread (\<lambda>r. r\<lparr>status := if pthread = main_thread s then TASK_RUNNING else TASK_READY,
       self_kstack := pthread + PG_SIZE, priority := prio, ticks := prio, elapsed_ticks := 0, pgdir := NULL,
       fd_table := [0, 1, 2] @ replicate 5 (- 1), cwd_inode_nr := 0, stack_magic := 0x19870916\<rparr>) s"

text \<open>\<^verbatim>\<open>sizeof(struct task_struct)\<close> is 276. The parameter \<open>priority\<close> is an \<^verbatim>\<open>int\<close>, its low byte is stored.\<close>

definition init_thread :: "addr \<Rightarrow> addr \<Rightarrow> u32 \<Rightarrow> 'a procs_scheme \<Rightarrow> ('a procs_scheme, unit) kop" where
  "init_thread pthread name prio s =
     kbind (klift (zero_memory pthread 276 s)) (\<lambda>_ s1.
     kbind (allocate_pid s1) (\<lambda>p s2.
       let s3 = upd_task pthread (\<lambda>r. r\<lparr>pid := p\<rparr>) s2 in
     kbind (klift (upd_mem (\<lambda>m. res_bind (strcpy (task_name pthread) name m) (\<lambda>(_, m'). Inr m')) s3)) (\<lambda>_ s4.
       Done () (init_fields pthread (ucast prio) s4))))"

text \<open>\<^verbatim>\<open>ASSERT(!list_search(l, e)); list_append(l, e);\<close>\<close>

definition append_new :: "addr \<Rightarrow> addr \<Rightarrow> string \<Rightarrow> 'a lists_scheme \<Rightarrow> 'a lists_scheme res" where
  "append_new l e msg s =
     res_bind (list_search l e s) (\<lambda>found. assertion (\<not> found) msg (Inr (list_append l e s)))"

text \<open>The variable is called \<^verbatim>\<open>pthread\<close> in \<open>thread_start\<close> and \<^verbatim>\<open>thread\<close> in \<open>process_execute\<close>.\<close>

definition enqueue_thread :: "string \<Rightarrow> addr \<Rightarrow> 'a threads_scheme \<Rightarrow> 'a threads_scheme res" where
  "enqueue_thread var t s =
     res_bind (append_new (thread_ready_list s) (general_tag t)
       (''!list_search(&thread_ready_list, &'' @ var @ ''->general_tag)'') s) (\<lambda>s1.
       append_new (thread_all_list s1) (all_list_tag t)
         (''!list_search(&thread_all_list, &'' @ var @ ''->all_list_tag)'') s1)"

definition thread_start :: "addr \<Rightarrow> u32 \<Rightarrow> addr \<Rightarrow> u32 \<Rightarrow> 'a procs_scheme \<Rightarrow> ('a procs_scheme, addr) kop" where
  "thread_start name prio function func_args s =
     kbind (get_kernel_pages 1 s) (\<lambda>pthread s1.
     kbind (init_thread pthread name prio s1) (\<lambda>_ s2.
     kbind (klift (enqueue_thread ''pthread'' pthread (thread_create pthread function func_args s2))) (\<lambda>_ s3.
       Done pthread s3)))"

definition make_main_thread :: "'a procs_scheme \<Rightarrow> ('a procs_scheme, unit) kop" where
  "make_main_thread s =
     (let s1 = s\<lparr>main_thread := running_thread s\<rparr> in
      kbind (init_thread (main_thread s1) (lit_main_thread s1) 31 s1) (\<lambda>_ s2.
        klift (append_new (thread_all_list s2) (all_list_tag (main_thread s2))
          ''!list_search(&thread_all_list, &main_thread->all_list_tag)'' s2)))"

definition thread_init :: "'a procs_scheme \<Rightarrow> ('a procs_scheme, unit) kop" where
  "thread_init s =
     (let s1 = list_init (thread_all_list s) s;
          s2 = list_init (thread_ready_list s1) s1;
          s3 = lock_init (pid_lock s2) s2
      in kbind (make_main_thread s3) (\<lambda>_ s4.
         kbind (thread_start (lit_idle s4) 10 (fn_idle s4) NULL s4) (\<lambda>t s5.
           Done () (s5\<lparr>idle_thread := t\<rparr>))))"

text \<open>The first function of every thread: \<^verbatim>\<open>kernel_thread\<close> enables interrupts and calls \<open>function\<close>.\<close>

definition kernel_thread :: "(u32 \<Rightarrow> 'a machine_scheme \<Rightarrow> ('a machine_scheme, unit) kop) \<Rightarrow> u32 \<Rightarrow> 'a machine_scheme
    \<Rightarrow> ('a machine_scheme, unit) kop" where
  "kernel_thread function func_arg s = function func_arg (snd (enable_intr s))"

section \<open>Processes\<close>

text \<open>\<^verbatim>\<open>memcpy\<close> of \<open>4 * n\<close> bytes of a page directory, as the words it copies.\<close>

primrec copy_words :: "nat \<Rightarrow> addr \<Rightarrow> addr \<Rightarrow> 'a machine_scheme \<Rightarrow> 'a machine_scheme res" where
  "copy_words 0 dst src s = Inr s"
| "copy_words (Suc n) dst src s =
     res_bind (vread src s) (\<lambda>w. res_bind (vwrite dst w s) (copy_words n (dst + 4) (src + 4)))"

definition fill_page_dir :: "addr \<Rightarrow> 'a machine_scheme \<Rightarrow> 'a machine_scheme res" where
  "fill_page_dir page_dir_vaddr s =
     res_bind (copy_words 256 (page_dir_vaddr + 0x300 * 4) (0xfffff000 + 0x300 * 4) s) (\<lambda>s1.
     res_bind (addr_v2p page_dir_vaddr s1) (\<lambda>new_phy_addr.
       vwrite (page_dir_vaddr + 1023 * 4) (new_phy_addr OR 7) s1))"

definition create_page_dir :: "addr \<Rightarrow> 'a procs_scheme \<Rightarrow> ('a procs_scheme, addr) kop" where
  "create_page_dir lit_failed s =
     kbind (get_kernel_pages 1 s) (\<lambda>page_dir_vaddr s1.
       if page_dir_vaddr = NULL then kbind (console_put_str lit_failed s1) (\<lambda>_ s2. Done NULL s2)
       else kbind (klift (fill_page_dir page_dir_vaddr s1)) (\<lambda>_ s2. Done page_dir_vaddr s2))"

abbreviation (input) USER_VADDR_START :: u32 where "USER_VADDR_START \<equiv> 0x8048000"
abbreviation (input) USER_STACK3_VADDR :: u32 where "USER_STACK3_VADDR \<equiv> 0xc0000000 - 0x1000"

definition create_user_vaddr_bitmap :: "addr \<Rightarrow> 'a procs_scheme \<Rightarrow> ('a procs_scheme, unit) kop" where
  "create_user_vaddr_bitmap user_prog s =
     (let upd_va = (\<lambda>f. upd_task user_prog (\<lambda>r. r\<lparr>userprog_vaddr := f (userprog_vaddr r)\<rparr>));
          upd_bm = (\<lambda>f. upd_va (\<lambda>v. v\<lparr>vaddr_bitmap := f (vaddr_bitmap v)\<rparr>));
          s1 = upd_va (\<lambda>v. v\<lparr>vaddr_start := USER_VADDR_START\<rparr>) s;
          bitmap_pg_cnt = DIV_ROUND_UP ((0xc0000000 - USER_VADDR_START) div PG_SIZE div 8) PG_SIZE;
          s2 = upd_bm (\<lambda>b. b\<lparr>btmp_bytes_len := (0xc0000000 - USER_VADDR_START) div PG_SIZE div 8\<rparr>) s1
      in kbind (get_kernel_pages bitmap_pg_cnt s2) (\<lambda>p s3.
           let s4 = upd_bm (\<lambda>b. b\<lparr>bits := p\<rparr>) s3
           in klift (upd_mem (bitmap_init (vaddr_bitmap (userprog_vaddr (tasks s4 user_prog)))) s4)))"

text \<open>\<^verbatim>\<open>default_prio\<close> is 31.\<close>

definition process_execute :: "addr \<Rightarrow> addr \<Rightarrow> addr \<Rightarrow> 'a procs_scheme \<Rightarrow> ('a procs_scheme, unit) kop" where
  "process_execute lit_failed filename name s =
     kbind (get_kernel_pages 1 s) (\<lambda>thread s1.
     kbind (init_thread thread name 31 s1) (\<lambda>_ s2.
     kbind (create_user_vaddr_bitmap thread s2) (\<lambda>_ s3.
       let s4 = thread_create thread (fn_start_process s3) filename s3 in
     kbind (create_page_dir lit_failed s4) (\<lambda>pd s5.
       let s6 = upd_task thread (\<lambda>r. r\<lparr>pgdir := pd\<rparr>) s5;
           s7 = block_desc_init (u_block_desc thread) s6;
           (old, s8) = disable_intr s7 in
     kbind (klift (enqueue_thread ''thread'' thread s8)) (\<lambda>_ s9.
       Done () (snd (set_intr_status old s9)))))))"

text \<open>
  The function of a new process: it builds the frame from which \<^verbatim>\<open>intr_exit\<close> enters user mode and returns
  its address, which becomes the stack pointer. \<open>EFLAGS_IOPL_0 | EFLAGS_MBS | EFLAGS_IF_1\<close> is 0x202.
\<close>

definition start_process :: "u32 \<Rightarrow> 'a procs_scheme \<Rightarrow> ('a procs_scheme, addr) kop" where
  "start_process filename s =
     (let cur = running_thread s;
          s1 = upd_task cur (\<lambda>r. r\<lparr>self_kstack := self_kstack r + 4 * 32\<rparr>) s;
          proc_stack = self_kstack (tasks s1 cur);
          upd = (\<lambda>f t. t\<lparr>intr_stacks := (intr_stacks t)(proc_stack := f (intr_stacks t proc_stack))\<rparr>);
          s2 = upd (\<lambda>r. r\<lparr>istk_edi := 0, istk_esi := 0, istk_ebp := 0, istk_esp_dummy := 0,
                 istk_eax := 0, istk_ebx := 0, istk_ecx := 0, istk_edx := 0, istk_gs := 0,
                 istk_ds := SELECTOR_U_DATA, istk_es := SELECTOR_U_DATA, istk_fs := SELECTOR_U_DATA,
                 istk_eip := filename, istk_cs := SELECTOR_U_CODE, istk_eflags := 0x202\<rparr>) s1
      in kbind (get_a_page PF_USER USER_STACK3_VADDR s2) (\<lambda>p s3.
           let s4 = upd (\<lambda>r. r\<lparr>istk_esp := p + PG_SIZE, istk_ss := SELECTOR_U_DATA\<rparr>) s3
           in Done proc_stack (s4\<lparr>esp := proc_stack\<rparr>)))"

definition sys_getpid :: "'a threads_scheme \<Rightarrow> u32" where
  "sys_getpid s = scast (pid (tasks s (running_thread s)))"

end
