(* ===== verification/Page_Dir.thy ===== *)
theory Page_Dir
  imports Process
begin

text \<open>
  The page directory of a new process: \<open>create_page_dir\<close> clears a fresh kernel page, copies the kernel
  half of the running directory into it and makes it recursive. The frame holds data until then, so
  writing it moves no page of any directory; afterwards it can join the directories in use.
\<close>

section \<open>Writing into a frame of data\<close>

definition agree_off :: "addr \<Rightarrow> (addr \<Rightarrow> u32) \<Rightarrow> (addr \<Rightarrow> u32) \<Rightarrow> bool" where
  "agree_off f pm pm' \<longleftrightarrow> (\<forall>x. frame_of x \<noteq> f \<longrightarrow> pm' x = pm x)"

lemma agree_off_refl [simp]: "agree_off f pm pm"
  by (simp add: agree_off_def)

lemma agree_off_trans: "agree_off f pm pm' \<Longrightarrow> agree_off f pm' pm'' \<Longrightarrow> agree_off f pm pm''"
  by (simp add: agree_off_def)

lemma data_frame:
  assumes ok: "maps_ok D F pm" and f: "f \<notin> D" "f \<notin> tables D pm" and a: "agree_off f pm pm'" and pd: "pd \<in> D"
  shows "pm' (pde_at pd w) = pm (pde_at pd w)" "has_table pm' pd w = has_table pm pd w"
    "table_of pm' pd w = table_of pm pd w" "pte_at pd pm' w = pte_at pd pm w"
    "has_table pm pd w \<Longrightarrow> pm' (pte_at pd pm w) = pm (pte_at pd pm w)"
    "maps_to pm' pd w g = maps_to pm pd w g" "recursive_pd pd pm' = recursive_pd pd pm"
    "mmu pd pm' w = mmu pd pm w"
proof -
  have al: "frame_of pd = pd" by (rule maps_okD(1) [OF ok pd])
  have nf: "pd \<noteq> f" using f(1) pd by auto
  show pde: "pm' (pde_at pd w) = pm (pde_at pd w)" for w
    using a al nf by (simp add: agree_off_def)
  show h: "has_table pm' pd w = has_table pm pd w" and t: "table_of pm' pd w = table_of pm pd w"
    and p: "pte_at pd pm' w = pte_at pd pm w"
    using pde by (simp_all add: has_table_def table_of_def pte_at_def)
  show q: "pm' (pte_at pd pm w) = pm (pte_at pd pm w)" if "has_table pm pd w"
  proof -
    have "table_of pm pd w \<in> tables D pm" using that pd by (auto simp: tables_def)
    then have "frame_of (pte_at pd pm w) \<noteq> f" using f(2) by auto
    then show ?thesis using a by (simp add: agree_off_def)
  qed
  show "maps_to pm' pd w g = maps_to pm pd w g" using h p q by (auto simp: maps_to_def)
  have "frame_of (pd + 4092) = pd" using frame_of_recursive [of pd] al by simp
  then show r: "recursive_pd pd pm' = recursive_pd pd pm"
    using a nf al by (simp add: recursive_pd_def agree_off_def)
  show "mmu pd pm' w = mmu pd pm w"
  proof (cases "PDE_IDX w = 1023")
    case True
    have "recursive_pd pd pm" by (rule maps_okD(2) [OF ok pd])
    then have "frame_of (pm (pde_at pd w)) = pd" using True al by (simp add: recursive_pd_def pde_at_def)
    then have "frame_of (pte_at pd pm w) = pd" by (simp add: table_of_def)
    then have "pm' (pte_at pd pm w) = pm (pte_at pd pm w)" using a nf by (simp add: agree_off_def)
    then show ?thesis using p pde by (simp add: mmu_def)
  next
    case False
    then show ?thesis using q p pde by (auto simp: mmu_def has_table_def)
  qed
qed

lemma data_frame_tables:
  assumes "maps_ok D F pm" and "f \<notin> D" "f \<notin> tables D pm" and "agree_off f pm pm'"
  shows "tables D pm' = tables D pm"
  unfolding tables_def by (rule Collect_cong) (use data_frame(2,3) [OF assms] in metis)

lemma data_frame_maps_ok:
  assumes ok: "maps_ok D F pm" and f: "f \<notin> D" "f \<notin> tables D pm" and a: "agree_off f pm pm'"
  shows "maps_ok D F pm'"
proof -
  note d = data_frame [OF ok f a]
  note tb = data_frame_tables [OF ok f a]
  show ?thesis
  proof (rule maps_okI, unfold tb)
    show "D \<inter> F = {}" "tables D pm \<inter> (D \<union> F) = {}" using ok unfolding maps_ok_def by blast+
    show "g \<notin> F \<union> tables D pm" if "pd \<in> D" "maps_to pm' pd v g" for pd v g
      using maps_okD(5) [OF ok that(1)] that(2) d(6) [OF that(1)] by blast
    show "pte_at pd pm' v = pte_at pd' pm' w" if "pd \<in> D" "pd' \<in> D" "maps_to pm' pd v g" "maps_to pm' pd' w g"
      for pd pd' v w g using maps_okD(6) [OF ok that(1,2)] that d(4,6) by metis
    show "PDE_IDX v = PDE_IDX w \<and> (pd = pd' \<or> 768 \<le> PDE_IDX v)"
      if "pd \<in> D" "pd' \<in> D" "has_table pm' pd v" "has_table pm' pd' w" "PDE_IDX v \<noteq> 0" "PDE_IDX w \<noteq> 0"
        "table_of pm' pd v = table_of pm' pd' w" for pd pd' v w
      using maps_okD(7) [OF ok that(1,2)] that d(2,3) by metis
  qed (use maps_okD(1,2) [OF ok] d(7) in blast)+
qed

section \<open>Words of a page\<close>

lemma page_word:
  assumes v: "frame_of v = v" and i: "i < 1024"
  shows "PDE_IDX (v + of_nat i * 4) = PDE_IDX v" "PTE_IDX (v + of_nat i * 4) = PTE_IDX v"
    "(v + of_nat i * 4) AND 0xfff = of_nat i * 4"
proof -
  obtain q where q: "unat v = q * 4096" using v by (metis unat_frame_of)
  have ui: "unat (of_nat i :: u32) = i" using i by (simp add: unat_of_nat32)
  have u: "unat (v + of_nat i * 4) = q * 4096 + i * 4"
    using unat_entry [of "of_nat i" v] i ui v by (simp add: q)
  have d: "(q * 4096 + i * 4) div 4096 = q" "(q * 4096 + i * 4) mod 4096 = i * 4" using i by simp_all
  have "(q * 4096 + i * 4) div 4194304 = (q * 4096) div 4194304"
    using div_mult2_eq [of "q * 4096 + i * 4" 4096 1024] div_mult2_eq [of "q * 4096" 4096 1024] d(1) by simp
  then show "PDE_IDX (v + of_nat i * 4) = PDE_IDX v"
    by (intro word_of_unat) (simp add: unat_PDE_IDX u q)
  show "PTE_IDX (v + of_nat i * 4) = PTE_IDX v"
    using d(1) by (intro word_of_unat) (simp add: unat_PTE_IDX u q)
  show "(v + of_nat i * 4) AND 0xfff = of_nat i * 4"
    using d(2) unat_idx4 [of "of_nat i"] i ui by (intro word_of_unat) (simp add: unat_page_offset u)
qed

lemma mmu_page_word:
  assumes "maps_to pm pd v f" and "frame_of v = v" and "i < 1024"
  shows "mmu pd pm (v + of_nat i * 4) = Some (f + of_nat i * 4)"
proof -
  note p = page_word [OF assms(2,3)]
  have e: "pde_at pd (v + of_nat i * 4) = pde_at pd v" "pte_at pd pm (v + of_nat i * 4) = pte_at pd pm v"
    by (simp_all only: pde_at_def pte_at_def p)
  show ?thesis using assms(1) p(3) by (simp add: mmu_def e maps_to_def has_table_def)
qed

text \<open>The words \<open>k\<close> to \<open>k + n - 1\<close> of the frame \<open>f\<close> get the values \<open>g\<close>.\<close>

primrec fill_words :: "addr \<Rightarrow> (nat \<Rightarrow> u32) \<Rightarrow> nat \<Rightarrow> nat \<Rightarrow> (addr \<Rightarrow> u32) \<Rightarrow> addr \<Rightarrow> u32" where
  "fill_words f g k 0 pm = pm"
| "fill_words f g k (Suc n) pm = fill_words f g (Suc k) n (pm(f + of_nat k * 4 := g k))"

lemma word_no_eq:
  assumes "frame_of f = f" "i < 1024" "j < 1024"
  shows "f + of_nat i * 4 = f + of_nat j * 4 \<longleftrightarrow> i = j"
  using entry_eq_iff [of "of_nat i" "of_nat j" f f] assms by (simp add: unat_of_nat32 of_nat_eq_iff32)

lemma frame_of_word: "frame_of f = f \<Longrightarrow> i < 1024 \<Longrightarrow> frame_of (f + of_nat i * 4) = f"
  using frame_of_entry [of "of_nat i" f] by (simp add: unat_of_nat32)

lemma fill_words_other:
  "(\<And>i. k \<le> i \<Longrightarrow> i < k + n \<Longrightarrow> x \<noteq> f + of_nat i * 4) \<Longrightarrow> fill_words f g k n pm x = pm x"
  by (induction n arbitrary: k pm) auto

lemma fill_words_at:
  "frame_of f = f \<Longrightarrow> k \<le> i \<Longrightarrow> i < k + n \<Longrightarrow> k + n \<le> 1024 \<Longrightarrow> fill_words f g k n pm (f + of_nat i * 4) = g i"
proof (induction n arbitrary: k pm)
  case (Suc n)
  show ?case
  proof (cases "i = k")
    case True
    have "fill_words f g (Suc k) n (pm(f + of_nat k * 4 := g k)) (f + of_nat k * 4) = (pm(f + of_nat k * 4 := g k)) (f + of_nat k * 4)"
      by (rule fill_words_other) (use word_no_eq [OF Suc.prems(1)] Suc.prems in auto)
    then show ?thesis using True by simp
  next
    case False
    then show ?thesis using Suc.IH [of "Suc k"] Suc.prems by simp
  qed
qed simp

lemma fill_words_cong:
  "(\<And>i. k \<le> i \<Longrightarrow> i < k + n \<Longrightarrow> g i = h i) \<Longrightarrow> fill_words f g k n pm = fill_words f h k n pm"
  by (induction n arbitrary: k pm) simp_all

lemma fill_words_agree: "frame_of f = f \<Longrightarrow> k + n \<le> 1024 \<Longrightarrow> agree_off f pm (fill_words f g k n pm)"
  unfolding agree_off_def using frame_of_word by (auto intro: fill_words_other)


text \<open>Clearing and copying words of a page of data.\<close>

lemma vwrite_page_word:
  assumes "maps_to (pmem s) (cr3 s) v f" and "frame_of v = v" and "i < 1024"
  shows "vwrite (v + of_nat i * 4) x s = Inr (s\<lparr>pmem := (pmem s)(f + of_nat i * 4 := x)\<rparr>)"
  using mmu_page_word [OF assms] by (simp add: vwrite_def)

lemma write_agree: "frame_of f = f \<Longrightarrow> i < 1024 \<Longrightarrow> agree_off f pm (pm(f + of_nat i * 4 := x))"
  by (auto simp: agree_off_def frame_of_word)

lemma clear_words_page:
  assumes "maps_ok D F (pmem s)" and "f \<notin> D" "f \<notin> tables D (pmem s)" and "cr3 s \<in> D"
    and "maps_to (pmem s) (cr3 s) v f" and "frame_of v = v" and "k + n \<le> 1024"
  shows "clear_words n (v + of_nat k * 4) s = Inr (s\<lparr>pmem := fill_words f (\<lambda>_. 0) k n (pmem s)\<rparr>)"
  using assms
proof (induction n arbitrary: k s)
  case (Suc n)
  have ff: "frame_of f = f" using Suc.prems(5) by (auto simp: maps_to_def)
  let ?s = "s\<lparr>pmem := (pmem s)(f + of_nat k * 4 := 0)\<rparr>"
  have a: "agree_off f (pmem s) (pmem ?s)" using write_agree [OF ff, of k] Suc.prems(7) by simp
  note d = data_frame_maps_ok [OF Suc.prems(1-3) a] data_frame_tables [OF Suc.prems(1-3) a]
    data_frame(6) [OF Suc.prems(1-3) a Suc.prems(4), of v f]
  have n: "Suc k + n \<le> 1024" using Suc.prems(7) by simp
  have p: "f \<notin> tables D (pmem ?s)" "cr3 ?s \<in> D" "maps_to (pmem ?s) (cr3 ?s) v f"
    using d(2,3) Suc.prems(3,4,5) by simp_all
  have "clear_words n (v + of_nat (Suc k) * 4) ?s = Inr (?s\<lparr>pmem := fill_words f (\<lambda>_. 0) (Suc k) n (pmem ?s)\<rparr>)"
    by (rule Suc.IH [OF d(1) Suc.prems(2) p Suc.prems(6) n])
  then show ?case using vwrite_page_word [OF Suc.prems(5,6), of k 0] Suc.prems(7) by (simp add: algebra_simps)
qed simp

lemma vread_directory_word:
  assumes "recursive_pd (cr3 s) (pmem s)" and "frame_of (cr3 s) = cr3 s" and "i < 1024"
  shows "vread (0xfffff000 + of_nat i * 4) s = Inr (pmem s (cr3 s + of_nat i * 4))"
proof -
  define w where "w = (of_nat i * 0x400000 :: u32)"
  have "unat w = i * 0x400000" using assms(3) unfolding w_def by (simp add: unat_word_ariths unat_of_nat32)
  then have "PDE_IDX w = of_nat i" using assms(3) by (intro word_of_unat) (simp add: unat_PDE_IDX unat_of_nat32)
  then show ?thesis using mmu_pde_ptr [OF assms(1), of w] assms(2) by (simp add: vread_def pde_ptr_def pde_at_def)
qed

lemma copy_words_page:
  assumes "maps_ok D F (pmem s)" and "f \<notin> D" "f \<notin> tables D (pmem s)" and "cr3 s \<in> D"
    and "maps_to (pmem s) (cr3 s) v f" and "frame_of v = v" and "k + n \<le> 1024"
  shows "copy_words n (v + of_nat k * 4) (0xfffff000 + of_nat k * 4) s =
    Inr (s\<lparr>pmem := fill_words f (\<lambda>i. pmem s (cr3 s + of_nat i * 4)) k n (pmem s)\<rparr>)"
  using assms
proof (induction n arbitrary: k s)
  case (Suc n)
  have ff: "frame_of f = f" using Suc.prems(5) by (auto simp: maps_to_def)
  have c: "frame_of (cr3 s) = cr3 s" "recursive_pd (cr3 s) (pmem s)" "cr3 s \<noteq> f"
    using maps_okD(1,2) [OF Suc.prems(1,4)] Suc.prems(2,4) by auto
  let ?g = "\<lambda>i. pmem s (cr3 s + of_nat i * 4)"
  let ?s = "s\<lparr>pmem := (pmem s)(f + of_nat k * 4 := ?g k)\<rparr>"
  have a: "agree_off f (pmem s) (pmem ?s)" using write_agree [OF ff, of k] Suc.prems(7) by simp
  note d = data_frame_maps_ok [OF Suc.prems(1-3) a] data_frame_tables [OF Suc.prems(1-3) a]
    data_frame(6) [OF Suc.prems(1-3) a Suc.prems(4), of v f]
  have n: "Suc k + n \<le> 1024" using Suc.prems(7) by simp
  have p: "f \<notin> tables D (pmem ?s)" "cr3 ?s \<in> D" "maps_to (pmem ?s) (cr3 ?s) v f"
    using d(2,3) Suc.prems(3,4,5) by simp_all
  have "copy_words n (v + of_nat (Suc k) * 4) (0xfffff000 + of_nat (Suc k) * 4) ?s =
      Inr (?s\<lparr>pmem := fill_words f (\<lambda>i. pmem ?s (cr3 ?s + of_nat i * 4)) (Suc k) n (pmem ?s)\<rparr>)"
    by (rule Suc.IH [OF d(1) Suc.prems(2) p Suc.prems(6) n])
  moreover have "fill_words f (\<lambda>i. pmem ?s (cr3 ?s + of_nat i * 4)) (Suc k) n (pmem ?s) =
      fill_words f ?g (Suc k) n (pmem ?s)"
    by (rule fill_words_cong) (use a c Suc.prems(7) frame_of_word [OF c(1)] in \<open>auto simp: agree_off_def\<close>)
  ultimately show ?case
    using vwrite_page_word [OF Suc.prems(5,6), of k "?g k"] vread_directory_word [OF c(2,1), of k] Suc.prems(7)
    by (simp add: algebra_simps)
qed simp

section \<open>A new directory\<close>

text \<open>\<open>f\<close> holds a directory whose user half is empty and whose kernel half is that of \<open>c\<close>.\<close>

definition new_dir :: "addr \<Rightarrow> addr \<Rightarrow> (addr \<Rightarrow> u32) \<Rightarrow> bool" where
  "new_dir c f pm \<longleftrightarrow> (\<forall>i<768. pm (f + of_nat i * 4) = 0) \<and>
     (\<forall>i. 768 \<le> i \<and> i < 1023 \<longrightarrow> pm (f + of_nat i * 4) = pm (c + of_nat i * 4)) \<and> pm (f + 4092) = f OR 7"

lemma unat_1023: "unat (1023 :: u32) = 1023"
  by simp

lemma pde_at_word: "frame_of pd = pd \<Longrightarrow> pde_at pd w = pd + of_nat (unat (PDE_IDX w)) * 4"
  by (simp add: pde_at_def)

lemma new_dir_pde:
  assumes "new_dir c f pm" and "frame_of f = f" "frame_of c = c"
  shows "unat (PDE_IDX w) < 768 \<Longrightarrow> pm (pde_at f w) = 0"
    and "768 \<le> unat (PDE_IDX w) \<Longrightarrow> PDE_IDX w \<noteq> 1023 \<Longrightarrow> pm (pde_at f w) = pm (pde_at c w)"
proof -
  show "unat (PDE_IDX w) < 768 \<Longrightarrow> pm (pde_at f w) = 0"
    using assms unfolding new_dir_def pde_at_word [OF assms(2)] by blast
  assume w: "768 \<le> unat (PDE_IDX w)" "PDE_IDX w \<noteq> 1023"
  have "unat (PDE_IDX w) \<noteq> 1023" using w(2) word_of_unat [of "PDE_IDX w" 1023] by auto
  then have "unat (PDE_IDX w) < 1023" using PDE_IDX_less [of w] by linarith
  then show "pm (pde_at f w) = pm (pde_at c w)"
    using assms w(1) unfolding new_dir_def pde_at_word [OF assms(2)] pde_at_word [OF assms(3)] by blast
qed

lemma new_dir_tables:
  assumes "new_dir c f pm" and "frame_of f = f" "frame_of c = c"
  shows "has_table pm f w \<Longrightarrow> 768 \<le> unat (PDE_IDX w) \<and> has_table pm c w \<and> table_of pm f w = table_of pm c w \<and>
      pte_at f pm w = pte_at c pm w"
    and "maps_to pm f w g \<Longrightarrow> maps_to pm c w g" and "recursive_pd f pm"
proof -
  show a: "768 \<le> unat (PDE_IDX w) \<and> has_table pm c w \<and> table_of pm f w = table_of pm c w \<and> pte_at f pm w = pte_at c pm w"
    if t: "has_table pm f w"
  proof -
    have "768 \<le> unat (PDE_IDX w)"
    proof (rule ccontr)
      assume "\<not> 768 \<le> unat (PDE_IDX w)"
      then have "pm (pde_at f w) = 0" by (intro new_dir_pde(1) [OF assms]) simp
      then show False using t by (simp add: has_table_def present_def)
    qed
    then show ?thesis using t new_dir_pde(2) [OF assms, of w] by (auto simp: has_table_def table_of_def pte_at_def)
  qed
  show "maps_to pm f w g \<Longrightarrow> maps_to pm c w g" using a by (auto simp: maps_to_def)
  show "recursive_pd f pm" using assms(1,2) frame_of_attr [OF assms(2)] by (simp add: recursive_pd_def new_dir_def)
qed

lemma maps_ok_new_dir:
  assumes ok: "maps_ok D F pm" and c: "c \<in> D" and f: "f \<notin> F" "f \<notin> tables D pm" "frame_of f = f" and n: "new_dir c f pm"
  shows "maps_ok (insert f D) F pm"
proof -
  note t = new_dir_tables [OF n f(3) maps_okD(1) [OF ok c]]
  define rep where "rep pd = (if pd = f then c else pd)" for pd
  have rD: "rep pd \<in> D" if "pd \<in> insert f D" for pd using that c by (auto simp: rep_def)
  have rt: "has_table pm (rep pd) w" "table_of pm pd w = table_of pm (rep pd) w" "pte_at pd pm w = pte_at (rep pd) pm w"
    "pd = f \<Longrightarrow> 768 \<le> PDE_IDX w"
    if "has_table pm pd w" for pd w
    using that t(1) [of w] by (auto simp: rep_def word_le_nat_alt split: if_splits)
  have rm: "maps_to pm (rep pd) w g" if "maps_to pm pd w g" for pd w g
    using that t(2) by (auto simp: rep_def)
  have tb: "tables (insert f D) pm = tables D pm"
    using rt(1,2) rD unfolding tables_def by blast
  show ?thesis
  proof (rule maps_okI, unfold tb)
    show "insert f D \<inter> F = {}" "tables D pm \<inter> (insert f D \<union> F) = {}"
      using ok f(1,2) unfolding maps_ok_def by blast+
    show "frame_of pd = pd" "recursive_pd pd pm" if "pd \<in> insert f D" for pd
      using that maps_okD(1,2) [OF ok] f(3) t(3) by auto
    show "g \<notin> F \<union> tables D pm" if "pd \<in> insert f D" "maps_to pm pd v g" for pd v g
      using maps_okD(5) [OF ok rD [OF that(1)] rm [OF that(2)]] .
    show "pte_at pd pm v = pte_at pd' pm w"
      if "pd \<in> insert f D" "pd' \<in> insert f D" "maps_to pm pd v g" "maps_to pm pd' w g" for pd pd' v w g
    proof -
      have "has_table pm pd v" "has_table pm pd' w" using that(3,4) by (simp_all add: maps_to_def)
      then show ?thesis
        using maps_okD(6) [OF ok rD [OF that(1)] rD [OF that(2)] rm [OF that(3)] rm [OF that(4)]] rt(3) by metis
    qed
    show "PDE_IDX v = PDE_IDX w \<and> (pd = pd' \<or> 768 \<le> PDE_IDX v)"
      if "pd \<in> insert f D" "pd' \<in> insert f D" "has_table pm pd v" "has_table pm pd' w" "PDE_IDX v \<noteq> 0" "PDE_IDX w \<noteq> 0"
        "table_of pm pd v = table_of pm pd' w" for pd pd' v w
    proof -
      have "table_of pm (rep pd) v = table_of pm (rep pd') w" using that(7) rt(2) that(3,4) by metis
      note maps_okD(7) [OF ok rD [OF that(1)] rD [OF that(2)] rt(1) [OF that(3)] rt(1) [OF that(4)] that(5,6) this]
      then show ?thesis using rt(4) [OF that(3)] rt(4) [OF that(4)] by (auto simp: rep_def split: if_splits)
    qed
  qed
qed

lemma fill_page_dir_eq:
  assumes ok: "maps_ok D F (pmem s)" and f: "f \<notin> D" "f \<notin> tables D (pmem s)" and c: "cr3 s \<in> D"
    and m: "maps_to (pmem s) (cr3 s) v f" and v: "frame_of v = v"
    and z: "\<forall>i<1024. pmem s (f + of_nat i * 4) = 0"
  shows "\<exists>pm'. fill_page_dir v s = Inr (s\<lparr>pmem := pm'\<rparr>) \<and> agree_off f (pmem s) pm' \<and> new_dir (cr3 s) f pm'"
proof -
  let ?g = "\<lambda>i. pmem s (cr3 s + of_nat i * 4)"
  define pm1 where "pm1 = fill_words f ?g 768 256 (pmem s)"
  have ff: "frame_of f = f" using m by (auto simp: maps_to_def)
  have cc: "frame_of (cr3 s) = cr3 s" "cr3 s \<noteq> f" using maps_okD(1) [OF ok c] f(1) c by auto
  have a1: "agree_off f (pmem s) pm1" unfolding pm1_def by (rule fill_words_agree [OF ff]) simp
  note d = data_frame [OF ok f a1 c]
  have cp: "copy_words 256 (v + 0x300 * 4) (0xfffff000 + 0x300 * 4) s = Inr (s\<lparr>pmem := pm1\<rparr>)"
    using copy_words_page [OF ok f c m v, of 768 256] by (simp add: pm1_def)
  have m1: "maps_to pm1 (cr3 s) v f" using m d(6) by simp
  have "mmu (cr3 s) pm1 v = Some f" using mmu_page_word [OF m1 v, of 0] by simp
  then have v2p: "addr_v2p v (s\<lparr>pmem := pm1\<rparr>) = Inr f"
    using addr_v2p_mmu [of "s\<lparr>pmem := pm1\<rparr>" v f] d(7) maps_okD(2) [OF ok c] by simp
  let ?pm = "pm1(f + of_nat 1023 * 4 := f OR 7)"
  have w: "vwrite (v + 1023 * 4) (f OR 7) (s\<lparr>pmem := pm1\<rparr>) = Inr (s\<lparr>pmem := ?pm\<rparr>)"
    using vwrite_page_word [of "s\<lparr>pmem := pm1\<rparr>" v f 1023 "f OR 7"] m1 v by simp
  have a2: "agree_off f pm1 ?pm" by (rule write_agree [OF ff]) simp
  have a: "agree_off f (pmem s) ?pm" by (rule agree_off_trans [OF a1 a2])
  have ne: "f + of_nat i * 4 \<noteq> f + of_nat 1023 * 4" if "i < 1023" for i using word_no_eq [OF ff, of i 1023] that by simp
  have "?pm (f + of_nat i * 4) = 0" if "i < 768" for i
  proof -
    have "pm1 (f + of_nat i * 4) = pmem s (f + of_nat i * 4)"
      unfolding pm1_def by (rule fill_words_other) (use word_no_eq [OF ff] that in auto)
    then show ?thesis using ne [of i] z that by simp
  qed
  moreover have "?pm (f + of_nat i * 4) = ?pm (cr3 s + of_nat i * 4)" if "768 \<le> i" "i < 1023" for i
  proof -
    have "pm1 (f + of_nat i * 4) = ?g i" unfolding pm1_def by (rule fill_words_at [OF ff]) (use that in simp_all)
    moreover have "?pm (cr3 s + of_nat i * 4) = ?g i"
      using a cc frame_of_word [OF cc(1), of i] that unfolding agree_off_def by simp
    ultimately show ?thesis using ne [of i] that by simp
  qed
  ultimately have "new_dir (cr3 s) f ?pm" by (simp add: new_dir_def)
  moreover have "fill_page_dir v s = Inr (s\<lparr>pmem := ?pm\<rparr>)" using cp v2p w by (simp add: fill_page_dir_def)
  ultimately show ?thesis using a by blast
qed

section \<open>Claims\<close>

text \<open>
  C9: from a cleared kernel page, \<open>create_page_dir\<close> makes a page directory that maps the kernel half of
  the address space as the running directory does, maps no user page at all and is recursive; no
  directory in use translates any address differently than before, and the invariant of the page tables
  holds with the new directory among those in use, so that it is isolated from all others.
\<close>

theorem new_page_dir_space:
  assumes "alloc_inv D A s" and "maps_to (pmem s) (cr3 s) v f" and "frame_of v = v" and "f \<notin> D"
    and "\<forall>i<1024. pmem s (f + of_nat i * 4) = 0"
  shows "\<exists>s'. fill_page_dir v s = Inr s' \<and> mem s' = mem s \<and>
    (\<forall>w. 0xc0000000 \<le> w \<and> w < 0xffc00000 \<longrightarrow> mmu f (pmem s') w = mmu (cr3 s) (pmem s') w) \<and>
    (\<forall>w. w < 0xc0000000 \<longrightarrow> mmu f (pmem s') w = None) \<and> recursive_pd f (pmem s') \<and>
    (\<forall>pd\<in>D. \<forall>w. mmu pd (pmem s') w = mmu pd (pmem s) w) \<and> maps_ok (insert f D) (free_all s) (pmem s')"
proof -
  have ok: "maps_ok D (free_all s) (pmem s)" and c: "cr3 s \<in> D" using assms(1) by (simp_all add: alloc_inv_def)
  have f: "f \<notin> free_all s" "f \<notin> tables D (pmem s)" using maps_okD(5) [OF ok c assms(2)] by auto
  have ff: "frame_of f = f" using assms(2) by (auto simp: maps_to_def)
  obtain pm' where pm': "fill_page_dir v s = Inr (s\<lparr>pmem := pm'\<rparr>)" "agree_off f (pmem s) pm'" "new_dir (cr3 s) f pm'"
    using fill_page_dir_eq [OF ok assms(4) f(2) c assms(2,3,5)] by blast
  note d = data_frame [OF ok assms(4) f(2) pm'(2)]
  have ok': "maps_ok D (free_all s) pm'" by (rule data_frame_maps_ok [OF ok assms(4) f(2) pm'(2)])
  note nd = new_dir_pde [OF pm'(3) ff maps_okD(1) [OF ok c]]
  have "mmu f pm' w = mmu (cr3 s) pm' w" if w: "0xc0000000 \<le> w" "w < 0xffc00000" for w
  proof -
    have "768 \<le> unat (PDE_IDX w)" "unat (PDE_IDX w) < 1023"
      using w by (simp_all add: unat_PDE_IDX word_le_nat_alt word_less_nat_alt)
    moreover from this(2) have "PDE_IDX w \<noteq> 1023" by (metis less_irrefl unat_1023)
    ultimately have "pm' (pde_at f w) = pm' (pde_at (cr3 s) w)" using nd(2) [of w] by simp
    then show ?thesis by (simp add: mmu_def pte_at_def)
  qed
  moreover have "mmu f pm' w = None" if "w < 0xc0000000" for w
  proof -
    have "unat (PDE_IDX w) < 768" using that by (simp add: unat_PDE_IDX word_less_nat_alt)
    then show ?thesis using nd(1) by (simp add: mmu_def present_def)
  qed
  moreover have "recursive_pd f pm'" by (rule new_dir_tables(3) [OF pm'(3) ff maps_okD(1) [OF ok c]])
  moreover have "maps_ok (insert f D) (free_all s) pm'"
    by (rule maps_ok_new_dir [OF ok' c f(1) _ ff pm'(3)]) (simp add: data_frame_tables [OF ok assms(4) f(2) pm'(2)] f(2))
  ultimately show ?thesis using pm'(1) d(8) by (intro exI [of _ "s\<lparr>pmem := pm'\<rparr>"]) simp
qed

theorem new_page_dir_space_witness:
  "\<exists>s'. fill_page_dir 0xc0100000 sample_kmem = Inr s' \<and> recursive_pd 0x200000 (pmem s') \<and>
     mmu 0x200000 (pmem s') 0xc0100000 = mmu 0x100000 (pmem s') 0xc0100000 \<and> mmu 0x200000 (pmem s') 0x8048000 = None"
proof -
  have m: "maps_to sample_tables 0x100000 0xc0100000 0x200000"
    by (subst sample_maps_to) (simp_all add: sample_D_def PDE_IDX_def PTE_IDX_def)
  have z: "\<forall>i<1024. sample_tables (0x200000 + of_nat i * 4) = 0"
  proof (intro allI impI)
    fix i :: nat assume "i < 1024"
    define x where "x = 0x200000 + (of_nat i * 4 :: u32)"
    have "frame_of x = 0x200000" unfolding x_def by (rule frame_of_word) (use \<open>i < 1024\<close> in \<open>simp_all add: frame_of_def\<close>)
    then have "sample_tables x = 0" by (auto simp: sample_tables_def frame_of_def)
    then show "sample_tables (0x200000 + of_nat i * 4) = 0" by (simp add: x_def)
  qed
  have "frame_of 0xc0100000 = (0xc0100000 :: u32)" by (simp add: frame_of_def)
  then show ?thesis
    using new_page_dir_space [OF sample_alloc_inv, of "0xc0100000" "0x200000"] m z by (auto simp: sample_D_def)
qed

end
