(* ===== verification/Program.thy ===== *)
theory Program
  imports Page_Dir
begin

text \<open>
  Sequential programs over the operations that may block: combinators for straight-line code, loops
  with local variables and early exits, words of memory, and the calls of \<^verbatim>\<open>printk\<close> and \<^verbatim>\<open>sprintf\<close> with
  literal formats. \<open>runs R m Q\<close> is total correctness of an operation whose thread, whenever it is
  switched away from in a state \<open>s\<close>, is resumed in a state \<open>s'\<close> with \<open>R s s'\<close>.
\<close>

section \<open>Combinators\<close>

type_synonym ('s, 'a) prog = "'s \<Rightarrow> ('s, 'a) kop"

definition ret :: "'a \<Rightarrow> ('s, 'a) prog" where
  "ret x s = Done x s"

definition stop :: "halt \<Rightarrow> ('s, 'a) prog" where
  "stop e s = Halt e"

definition pbind :: "('s, 'a) prog \<Rightarrow> ('a \<Rightarrow> ('s, 'b) prog) \<Rightarrow> ('s, 'b) prog" where
  "pbind m f s = kbind (m s) f"

definition pseq :: "('s, 'a) prog \<Rightarrow> ('s, 'b) prog \<Rightarrow> ('s, 'b) prog" where
  "pseq m n = pbind m (\<lambda>_. n)"

text \<open>Statements in a row, and statements in a row followed by what gives the value.\<close>

fun steps :: "('s, unit) prog list \<Rightarrow> ('s, unit) prog" where
  "steps [] = ret ()"
| "steps [m] = m"
| "steps (m # n # ms) = pseq m (steps (n # ms))"

abbreviation after :: "('s, unit) prog list \<Rightarrow> ('s, 'a) prog \<Rightarrow> ('s, 'a) prog" where
  "after ms n \<equiv> pseq (steps ms) n"

definition reads :: "('s \<Rightarrow> 'a) \<Rightarrow> ('s, 'a) prog" where
  "reads f s = Done (f s) s"

definition modifies :: "('s \<Rightarrow> 's) \<Rightarrow> ('s, unit) prog" where
  "modifies f s = Done () (f s)"

text \<open>An expression, a statement and an assertion that may stop the kernel.\<close>

definition asks :: "('s \<Rightarrow> 'a res) \<Rightarrow> ('s, 'a) prog" where
  "asks f s = (case f s of Inl e \<Rightarrow> Halt e | Inr x \<Rightarrow> Done x s)"

definition does :: "('s \<Rightarrow> 's res) \<Rightarrow> ('s, unit) prog" where
  "does f s = klift (f s)"

definition demand :: "bool \<Rightarrow> string \<Rightarrow> ('s, unit) prog" where
  "demand c msg s = kassert c msg (Done () s)"

definition whenp :: "bool \<Rightarrow> ('s, unit) prog \<Rightarrow> ('s, unit) prog" where
  "whenp c m = (if c then m else ret ())"

lemma prog_simps [simp]:
  "ret x s = Done x s" "stop e s = Halt e" "pbind m f s = kbind (m s) f"
  "pseq m n s = kbind (m s) (\<lambda>_. n)" "reads g s = Done (g s) s" "modifies h s = Done () (h s)"
  "demand c msg s = kassert c msg (Done () s)" "does i s = klift (i s)"
  "whenp True u = u" "whenp False u = ret ()"
  by (simp_all add: ret_def stop_def pbind_def pseq_def reads_def modifies_def demand_def does_def whenp_def)

lemma asks_simps [simp]:
  "f s = Inr x \<Longrightarrow> asks f s = Done x s"
  "f s = Inl e \<Longrightarrow> asks f s = Halt e"
  by (simp_all add: asks_def)

lemma kbind_assoc: "kbind (kbind m f) g = kbind m (\<lambda>x s. kbind (f x s) g)"
proof (coinduction arbitrary: m rule: kop.coinduct_strong)
  case Eq_kop
  show ?case by (cases m) (auto simp: rel_fun_def)
qed

section \<open>Loops\<close>

text \<open>
  \<open>kiter body x\<close> repeats \<open>body\<close>, which returns the local variables for the next round (\<open>Inl\<close>) or leaves
  the loop (\<open>Inr\<close>). As with \<open>kwhile\<close>, a loop that goes on for ever without blocking is \<open>LOOP\<close>.
\<close>

partial_function (option) ispin ::
    "('x \<Rightarrow> 's \<Rightarrow> ('s, 'x + 'r) kop) \<Rightarrow> 'x \<Rightarrow> 's \<Rightarrow> ('s, 'x + 'r) kop option" where
  "ispin body v s =
     (case body v s of
        Done y s' \<Rightarrow> (case y of Inl v' \<Rightarrow> ispin body v' s' | Inr r \<Rightarrow> Some (Done (Inr r) s'))
      | Halt e \<Rightarrow> Some (Halt e) | Block s' k \<Rightarrow> Some (Block s' k))"

primcorec iloop :: "('x \<Rightarrow> 's \<Rightarrow> ('s, 'x + 'r) kop) \<Rightarrow> ('s, 'x + 'r) kop \<Rightarrow> ('s, 'r) kop" where
  "iloop body m =
     (case m of Halt e \<Rightarrow> Halt e
      | Block s k \<Rightarrow> Block s (\<lambda>s'. iloop body (k s'))
      | Done y s \<Rightarrow>
          (case y of Inr r \<Rightarrow> Done r s
           | Inl x \<Rightarrow>
               (case ispin body x s of
                  None \<Rightarrow> Halt LOOP
                | Some r \<Rightarrow> (case r of Done z s' \<Rightarrow> Done (projr z) s' | Halt e \<Rightarrow> Halt e
                              | Block s' k \<Rightarrow> Block s' (\<lambda>s''. iloop body (k s''))))))"

definition kiter :: "('x \<Rightarrow> ('s, 'x + 'r) prog) \<Rightarrow> 'x \<Rightarrow> ('s, 'r) prog" where
  "kiter body x s = iloop body (Done (Inl x) s)"

abbreviation again :: "'x \<Rightarrow> ('s, 'x + 'r) prog" where "again x \<equiv> ret (Inl x)"
abbreviation leave :: "'r \<Rightarrow> ('s, 'x + 'r) prog" where "leave r \<equiv> ret (Inr r)"

lemma iloop_simps [simp]:
  "iloop body (Halt e) = Halt e"
  "iloop body (Block s k) = Block s (\<lambda>s'. iloop body (k s'))"
  "iloop body (Done (Inr r) s) = Done r s"
  "iloop body (Done (Inl x) s) = kiter body x s"
  by (simp_all add: kiter_def) (subst iloop.code, simp)+

lemma iloop_kbind: "iloop body m = kbind m (\<lambda>y. case y of Inl x \<Rightarrow> kiter body x | Inr r \<Rightarrow> ret r)"
proof (coinduction arbitrary: m rule: kop.coinduct_strong)
  case Eq_kop
  show ?case
  proof (cases m)
    case (Done y s)
    then show ?thesis by (cases y) (auto simp: rel_fun_def kop.rel_refl)
  next
    case (Block s k)
    then show ?thesis by (auto simp: rel_fun_def)
  qed simp
qed

lemma kiter_unfold:
  "kiter body x s = kbind (body x s) (\<lambda>y. case y of Inl x' \<Rightarrow> kiter body x' | Inr r \<Rightarrow> ret r)"
proof (cases "body x s")
  case (Done y s')
  show ?thesis
  proof (cases y)
    case (Inl x')
    with Done have "ispin body x s = ispin body x' s'" by (subst ispin.simps) simp
    then have "kiter body x s = kiter body x' s'" unfolding kiter_def by (subst (1 2) iloop.code) simp
    then show ?thesis using Done Inl by simp
  next
    case (Inr r)
    with Done have "ispin body x s = Some (Done (Inr r) s')" by (subst ispin.simps) simp
    then show ?thesis using Done Inr unfolding kiter_def by (subst iloop.code) simp
  qed
next
  case (Halt e)
  then have "ispin body x s = Some (Halt e)" by (subst ispin.simps) simp
  then show ?thesis using Halt unfolding kiter_def by (subst iloop.code) simp
next
  case (Block s' k)
  then have "ispin body x s = Some (Block s' k)" by (subst ispin.simps) simp
  then have "kiter body x s = Block s' (\<lambda>s''. iloop body (k s''))"
    unfolding kiter_def by (subst iloop.code) simp
  then show ?thesis using Block by (simp add: iloop_kbind)
qed

text \<open>A loop with an invariant that never leaves and never blocks does not end.\<close>

lemma kiter_LOOP:
  assumes "I x s" and step: "\<And>x s. I x s \<Longrightarrow> \<exists>x' s'. body x s = Done (Inl x') s' \<and> I x' s'"
  shows "kiter body x s = Halt LOOP"
proof -
  have "ispin body x s = None"
  proof (rule ccontr)
    assume "ispin body x s \<noteq> None"
    then obtain r where r: "ispin body x s = Some r" by auto
    have "body = body \<longrightarrow> \<not> I x s"
    proof (rule ispin.raw_induct [of "\<lambda>b x s r. b = body \<longrightarrow> \<not> I x s", OF _ r], intro impI notI)
      fix f b x s r
      assume IH: "\<And>b x s r. f b x s = Some r \<Longrightarrow> b = body \<longrightarrow> \<not> I x s"
        and eq: "(case b x s of
            Done y s' \<Rightarrow> (case y of Inl x' \<Rightarrow> f b x' s' | Inr r \<Rightarrow> Some (Done (Inr r) s'))
          | Halt e \<Rightarrow> Some (Halt e) | Block s' k \<Rightarrow> Some (Block s' k)) = Some r"
        and "b = body" "I x s"
      with step [of x s] obtain x' s' where "b x s = Done (Inl x') s'" "I x' s'" by auto
      then show False using eq IH [of b x' s' r] \<open>b = body\<close> by simp
    qed
    then show False using assms(1) by simp
  qed
  then show ?thesis unfolding kiter_def by (subst iloop.code) simp
qed

section \<open>Total correctness\<close>

inductive runs :: "('s \<Rightarrow> 's \<Rightarrow> bool) \<Rightarrow> ('s, 'a) kop \<Rightarrow> ('a \<Rightarrow> 's \<Rightarrow> bool) \<Rightarrow> bool" for R where
  runs_Done: "Q x s \<Longrightarrow> runs R (Done x s) Q"
| runs_Block: "(\<And>s'. R s s' \<Longrightarrow> runs R (k s') Q) \<Longrightarrow> runs R (Block s k) Q"

inductive_cases runs_HaltE [elim!]: "runs R (Halt e) Q"
inductive_cases runs_DoneE [elim!]: "runs R (Done x s) Q"
inductive_cases runs_BlockE: "runs R (Block s k) Q"

lemma runs_Done_iff [simp]: "runs R (Done x s) Q \<longleftrightarrow> Q x s"
  by (auto intro: runs.intros)

lemma runs_Halt_iff [simp]: "\<not> runs R (Halt e) Q"
  by auto

lemma runs_Block_iff: "runs R (Block s k) Q \<longleftrightarrow> (\<forall>s'. R s s' \<longrightarrow> runs R (k s') Q)"
  by (auto intro: runs.intros elim: runs_BlockE)

lemma runs_mono:
  assumes "runs R m Q" and "\<And>x s. Q x s \<Longrightarrow> Q' x s"
  shows "runs R m Q'"
  using assms by (induction rule: runs.induct) (auto intro: runs.intros)

lemma runs_kbind:
  assumes "runs R m Q" and "\<And>x s. Q x s \<Longrightarrow> runs R (f x s) Q'"
  shows "runs R (kbind m f) Q'"
  using assms by (induction rule: runs.induct) (auto intro: runs.intros)

lemma runs_rely:
  assumes "runs R m Q" and "\<And>s s'. R' s s' \<Longrightarrow> R s s'"
  shows "runs R' m Q"
  using assms by (induction rule: runs.induct) (auto intro: runs.intros)

lemma runs_conj:
  assumes "runs R m Q" and "runs R m Q'"
  shows "runs R m (\<lambda>x s. Q x s \<and> Q' x s)"
  using assms by (induction rule: runs.induct) (auto intro: runs.intros simp: runs_Block_iff)

text \<open>A loop whose rounds keep an invariant and decrease a measure of the local variables.\<close>

lemma runs_kiter:
  fixes meas :: "'x \<Rightarrow> nat"
  assumes "I x s"
    and "\<And>x s. I x s \<Longrightarrow> runs R (body x s) (\<lambda>y s'. case y of Inl x' \<Rightarrow> I x' s' \<and> meas x' < meas x | Inr r \<Rightarrow> Q r s')"
  shows "runs R (kiter body x s) Q"
  using assms(1)
proof (induction "meas x" arbitrary: x s rule: less_induct)
  case less
  show ?case
    by (subst kiter_unfold, rule runs_kbind [OF assms(2) [OF less.prems]])
      (auto split: sum.splits intro: less.hyps)
qed

text \<open>An operation that runs under a relation that other threads can comply with returns.\<close>

lemma runs_returns:
  assumes "runs R m Q" and "\<And>s. \<exists>s'. R s s'"
  shows "\<exists>x s. returns m x s \<and> Q x s"
  using assms(1)
proof (induction rule: runs.induct)
  case (runs_Block s k Q)
  then show ?case using assms(2) [of s] by (metis returns.resumed)
qed (auto intro: returns.finished)

section \<open>Words in memory\<close>

text \<open>\<open>load_u32\<close> is in Lib_String; words are stored in little-endian order.\<close>

definition store_u32 :: "addr \<Rightarrow> u32 \<Rightarrow> mem \<Rightarrow> mem" where
  "store_u32 a v m = m(a := ucast v, a + 1 := ucast (drop_bit 8 v), a + 2 := ucast (drop_bit 16 v),
     a + 3 := ucast (drop_bit 24 v))"

primrec store_words :: "addr \<Rightarrow> u32 list \<Rightarrow> mem \<Rightarrow> mem" where
  "store_words a [] m = m"
| "store_words a (w # ws) m = store_words (a + 4) ws (store_u32 a w m)"

definition peek :: "addr \<Rightarrow> ('a machine_scheme, u32) prog" where
  "peek a = reads (\<lambda>s. load_u32 a (mem s))"

definition poke :: "addr \<Rightarrow> u32 \<Rightarrow> ('a machine_scheme, unit) prog" where
  "poke a v = modifies (\<lambda>s. s\<lparr>mem := store_u32 a v (mem s)\<rparr>)"

definition peek_byte :: "addr \<Rightarrow> ('a machine_scheme, u8) prog" where
  "peek_byte a = reads (\<lambda>s. mem s a)"

definition poke_byte :: "addr \<Rightarrow> u8 \<Rightarrow> ('a machine_scheme, unit) prog" where
  "poke_byte a v = modifies (\<lambda>s. s\<lparr>mem := (mem s)(a := v)\<rparr>)"

text \<open>A routine of \<^verbatim>\<open>lib/string.c\<close> that changes memory, with its value and without.\<close>

definition on_mem :: "(mem \<Rightarrow> mem res) \<Rightarrow> ('a machine_scheme, unit) prog" where
  "on_mem f = does (upd_mem f)"

definition on_mem_val :: "(mem \<Rightarrow> ('v \<times> mem) res) \<Rightarrow> ('a machine_scheme, 'v) prog" where
  "on_mem_val f s = klift_val (res_bind (f (mem s)) (\<lambda>(v, m). Inr (v, s\<lparr>mem := m\<rparr>)))"

definition of_mem :: "(mem \<Rightarrow> 'v res) \<Rightarrow> ('a machine_scheme, 'v) prog" where
  "of_mem f = asks (\<lambda>s. f (mem s))"

section \<open>Literals and formatted output\<close>

text \<open>
  \<open>lits\<close> gives the addresses at which the string literals of the kernel image lie; nothing changes it.
  Functions with local arrays take an address \<open>sp\<close>: the stack below \<open>sp\<close> is free for their arrays and
  for the functions they call. A variadic call stores the address of the format and the arguments there.
\<close>

record image = procs +
  lits :: "string \<Rightarrow> addr"

definition push_args :: "addr \<Rightarrow> string \<Rightarrow> u32 list \<Rightarrow> 'a image_scheme \<Rightarrow> 'a image_scheme" where
  "push_args frame fmt ws s = s\<lparr>mem := store_words frame (lits s fmt # ws) (mem s)\<rparr>"

definition frame_of :: "addr \<Rightarrow> u32 list \<Rightarrow> addr" where
  "frame_of sp ws = sp - 4 * of_nat (Suc (length ws))"

definition say :: "addr \<Rightarrow> string \<Rightarrow> u32 list \<Rightarrow> ('a image_scheme, unit) prog" where
  "say sp fmt ws = (let frame = frame_of sp ws in
     steps [modifies (push_args frame fmt ws), printk (frame - 1024) frame])"

definition sprint :: "addr \<Rightarrow> addr \<Rightarrow> string \<Rightarrow> u32 list \<Rightarrow> ('a image_scheme, unit) prog" where
  "sprint sp dst fmt ws = (let frame = frame_of sp ws in
     pseq (modifies (push_args frame fmt ws)) (pseq (on_mem_val (sprintf dst frame)) (ret ())))"

end
