(* ===== verification/Ide.thy ===== *)
theory Ide
  imports Program
begin

text \<open>
  \<^verbatim>\<open>device/ide.c\<close>: the driver of the ATA channels. Disks, channels and partitions are in typed stores by
  address; their names, list elements, locks and semaphores are at their offsets in memory and in the
  stores of those types. The device is known by its ports only: \<open>ios\<close> is the sequence of port accesses
  so far and \<open>answers\<close> what a port gives when it is read after such a sequence, so the device is any
  function of its history. What a documented ATA device answers is stated as a predicate in Ata.
\<close>

section \<open>State\<close>

datatype io_event = OutB u16 u8 | OutW u16 u16 | InB u16 | InW u16

text \<open>
  \<^verbatim>\<open>struct partition\<close> (64 bytes): \<^verbatim>\<open>part_tag\<close> at 12, \<^verbatim>\<open>name\<close> at 20, \<^verbatim>\<open>open_inodes\<close> at 48. \<^verbatim>\<open>struct disk\<close> (784
  bytes): \<^verbatim>\<open>name\<close> at 0, primary partitions from 16, logical partitions from 272. \<^verbatim>\<open>struct ide_channel\<close> (1632
  bytes): \<^verbatim>\<open>name\<close> at 0, \<^verbatim>\<open>lock\<close> at 12, \<^verbatim>\<open>disk_done\<close> at 44, \<^verbatim>\<open>devices\<close> from 64.
\<close>

record partition =
  start_lba :: u32
  part_sec_cnt :: u32
  my_disk :: addr
  sb :: addr
  block_bitmap :: bitmap
  inode_bitmap :: bitmap

record disk =
  my_channel :: addr
  dev_no :: u8

record ide_channel =
  port_base :: u16
  irq_no :: u8
  expecting_intr :: bool

record ide = image +
  partitions :: "addr \<Rightarrow> partition"
  disks :: "addr \<Rightarrow> disk"
  ide_channels :: "addr \<Rightarrow> ide_channel"
  channels :: addr
  channel_cnt :: u8
  ext_lba_base :: u32
  p_no :: u8
  l_no :: u8
  partition_list :: addr
  fn_intr_hd_handler :: addr
  ios :: "io_event list"
  answers :: "io_event list \<Rightarrow> u16 \<Rightarrow> u16"

definition part_tag :: "addr \<Rightarrow> addr" where "part_tag p = p + 12"
definition part_of_tag :: "addr \<Rightarrow> addr" where "part_of_tag e = e - 12"
definition part_name :: "addr \<Rightarrow> addr" where "part_name p = p + 20"
definition open_inodes :: "addr \<Rightarrow> addr" where "open_inodes p = p + 48"
definition primary_partition :: "addr \<Rightarrow> u32 \<Rightarrow> addr" where "primary_partition hdisk i = hdisk + 16 + 64 * i"
definition logical_partition :: "addr \<Rightarrow> u32 \<Rightarrow> addr" where "logical_partition hdisk i = hdisk + 272 + 64 * i"
definition channel_lock :: "addr \<Rightarrow> addr" where "channel_lock ch = ch + 12"
definition disk_done :: "addr \<Rightarrow> addr" where "disk_done ch = ch + 44"
definition devices :: "addr \<Rightarrow> u32 \<Rightarrow> addr" where "devices ch i = ch + 64 + 784 * i"
definition channel_at :: "addr \<Rightarrow> u32 \<Rightarrow> addr" where "channel_at chs i = chs + 1632 * i"

definition upd_part :: "addr \<Rightarrow> (partition \<Rightarrow> partition) \<Rightarrow> ('a ide_scheme, unit) prog" where
  "upd_part p f = modifies (\<lambda>s. s\<lparr>partitions := (partitions s)(p := f (partitions s p))\<rparr>)"

definition upd_disk :: "addr \<Rightarrow> (disk \<Rightarrow> disk) \<Rightarrow> ('a ide_scheme, unit) prog" where
  "upd_disk d f = modifies (\<lambda>s. s\<lparr>disks := (disks s)(d := f (disks s d))\<rparr>)"

definition upd_channel :: "addr \<Rightarrow> (ide_channel \<Rightarrow> ide_channel) \<Rightarrow> ('a ide_scheme, unit) prog" where
  "upd_channel c f = modifies (\<lambda>s. s\<lparr>ide_channels := (ide_channels s)(c := f (ide_channels s c))\<rparr>)"

section \<open>Ports\<close>

definition ide_outb :: "u16 \<Rightarrow> u8 \<Rightarrow> ('a ide_scheme, unit) prog" where
  "ide_outb port data = modifies (\<lambda>s. s\<lparr>ios := ios s @ [OutB port data]\<rparr>)"

definition ide_inb :: "u16 \<Rightarrow> ('a ide_scheme, u8) prog" where
  "ide_inb port s = Done (ucast (answers s (ios s) port)) (s\<lparr>ios := ios s @ [InB port]\<rparr>)"

primrec insw :: "u16 \<Rightarrow> addr \<Rightarrow> nat \<Rightarrow> 'a ide_scheme \<Rightarrow> 'a ide_scheme" where
  "insw port dst 0 s = s"
| "insw port dst (Suc n) s =
     (let w = answers s (ios s) port in
      insw port (dst + 2) n (s\<lparr>ios := ios s @ [InW port],
        mem := (mem s)(dst := ucast w, dst + 1 := ucast (drop_bit 8 w))\<rparr>))"

primrec outsw :: "u16 \<Rightarrow> addr \<Rightarrow> nat \<Rightarrow> 'a ide_scheme \<Rightarrow> 'a ide_scheme" where
  "outsw port src 0 s = s"
| "outsw port src (Suc n) s =
     outsw port (src + 2) n (s\<lparr>ios := ios s @
       [OutW port (ucast (mem s src) OR push_bit 8 (ucast (mem s (src + 1))))]\<rparr>)"

text \<open>The port of register \<open>r\<close> of the channel to which the disk \<open>hdisk\<close> belongs.\<close>

definition reg :: "u16 \<Rightarrow> addr \<Rightarrow> 'a ide_scheme \<Rightarrow> u16" where
  "reg r hdisk s = port_base (ide_channels s (my_channel (disks s hdisk))) + r"

abbreviation (input) reg_data :: u16 where "reg_data \<equiv> 0"
abbreviation (input) reg_sec_cnt :: u16 where "reg_sec_cnt \<equiv> 2"
abbreviation (input) reg_lba_l :: u16 where "reg_lba_l \<equiv> 3"
abbreviation (input) reg_lba_m :: u16 where "reg_lba_m \<equiv> 4"
abbreviation (input) reg_lba_h :: u16 where "reg_lba_h \<equiv> 5"
abbreviation (input) reg_dev :: u16 where "reg_dev \<equiv> 6"
abbreviation (input) reg_status :: u16 where "reg_status \<equiv> 7"
abbreviation (input) reg_cmd :: u16 where "reg_cmd \<equiv> 7"

abbreviation (input) BIT_ALT_STAT_BSY :: u8 where "BIT_ALT_STAT_BSY \<equiv> 0x80"
abbreviation (input) BIT_ALT_STAT_DRQ :: u8 where "BIT_ALT_STAT_DRQ \<equiv> 0x8"
abbreviation (input) BIT_DEV_MBS :: u8 where "BIT_DEV_MBS \<equiv> 0xa0"
abbreviation (input) BIT_DEV_LBA :: u8 where "BIT_DEV_LBA \<equiv> 0x40"
abbreviation (input) BIT_DEV_DEV :: u8 where "BIT_DEV_DEV \<equiv> 0x10"
abbreviation (input) CMD_IDENTIFY :: u8 where "CMD_IDENTIFY \<equiv> 0xec"
abbreviation (input) CMD_READ_SECTOR :: u8 where "CMD_READ_SECTOR \<equiv> 0x20"
abbreviation (input) CMD_WRITE_SECTOR :: u8 where "CMD_WRITE_SECTOR \<equiv> 0x30"

abbreviation (input) max_lba :: u32 where "max_lba \<equiv> 80 * 1024 * 1024 div 512 - 1"

section \<open>Commands\<close>

definition select_disk :: "addr \<Rightarrow> ('a ide_scheme, unit) prog" where
  "select_disk hdisk =
     pbind (reads (\<lambda>s. (reg reg_dev hdisk s, dev_no (disks s hdisk)))) (\<lambda>(port, d).
       ide_outb port (if d = 1 then BIT_DEV_MBS OR BIT_DEV_LBA OR BIT_DEV_DEV else BIT_DEV_MBS OR BIT_DEV_LBA))"

definition select_sector :: "addr \<Rightarrow> u32 \<Rightarrow> u8 \<Rightarrow> ('a ide_scheme, unit) prog" where
  "select_sector hdisk lba sec_cnt =
     pseq (demand (lba < max_lba) ''lba < max_lba'')
      (pbind (reads (\<lambda>s. (\<lambda>r. reg r hdisk s, dev_no (disks s hdisk)))) (\<lambda>(port, d).
        steps [ide_outb (port reg_sec_cnt) sec_cnt,
          ide_outb (port reg_lba_l) (ucast lba),
          ide_outb (port reg_lba_m) (ucast (drop_bit 8 lba)),
          ide_outb (port reg_lba_h) (ucast (drop_bit 16 lba)),
          ide_outb (port reg_dev)
            (BIT_DEV_MBS OR BIT_DEV_LBA OR (if d = 1 then BIT_DEV_DEV else 0) OR ucast (drop_bit 24 lba))]))"

definition cmd_out :: "addr \<Rightarrow> u8 \<Rightarrow> ('a ide_scheme, unit) prog" where
  "cmd_out channel cmd =
     pseq (upd_channel channel (\<lambda>c. c\<lparr>expecting_intr := True\<rparr>))
      (pbind (reads (\<lambda>s. port_base (ide_channels s channel) + reg_cmd)) (\<lambda>port. ide_outb port cmd))"

text \<open>\<^verbatim>\<open>sec_cnt\<close> has eight bits, and 0 stands for 256 sectors; half as many words as bytes are moved.\<close>

definition size_in_byte :: "u8 \<Rightarrow> u32" where
  "size_in_byte sec_cnt = (if sec_cnt = 0 then 256 * 512 else ucast sec_cnt * 512)"

definition read_from_sector :: "addr \<Rightarrow> addr \<Rightarrow> u8 \<Rightarrow> ('a ide_scheme, unit) prog" where
  "read_from_sector hdisk dst sec_cnt =
     modifies (\<lambda>s. insw (reg reg_data hdisk s) dst (unat (size_in_byte sec_cnt div 2)) s)"

definition write2sector :: "addr \<Rightarrow> addr \<Rightarrow> u8 \<Rightarrow> ('a ide_scheme, unit) prog" where
  "write2sector hdisk src sec_cnt =
     modifies (\<lambda>s. outsw (reg reg_data hdisk s) src (unat (size_in_byte sec_cnt div 2)) s)"

text \<open>
  \<^verbatim>\<open>time_limit -= 10 >= 0\<close> subtracts the value 1 of the comparison, so \<^verbatim>\<open>time_limit\<close>, a 16-bit number that
  begins at 30000, takes the values 29999 down to 1 in the rounds of the loop.
\<close>

definition busy_wait :: "addr \<Rightarrow> ('a ide_scheme, bool) prog" where
  "busy_wait hdisk = kiter (\<lambda>time_limit :: u16.
     let time_limit = time_limit - 1 in
     if time_limit \<noteq> 0
     then pbind (reads (reg reg_status hdisk)) (\<lambda>port. pbind (ide_inb port) (\<lambda>st.
            if st AND BIT_ALT_STAT_BSY = 0
            then pbind (ide_inb port) (\<lambda>st'. leave (st' AND BIT_ALT_STAT_DRQ \<noteq> 0))
            else pseq (mtime_sleep 10) (again time_limit)))
     else leave False) (30 * 1000)"

text \<open>\<^verbatim>\<open>PANIC(error)\<close> with a message built by \<^verbatim>\<open>sprintf\<close> in a local array of 64 bytes; the halt value shows its format.\<close>

definition disk_panic :: "addr \<Rightarrow> string \<Rightarrow> u32 list \<Rightarrow> ('a ide_scheme, unit) prog" where
  "disk_panic sp fmt ws = pseq (sprint (sp - 64) (sp - 64) fmt ws) (stop (PANIC fmt))"

definition sectors_now :: "u32 \<Rightarrow> u32 \<Rightarrow> u32" where
  "sectors_now sec_done sec_cnt = (if sec_done + 256 \<le> sec_cnt then 256 else sec_cnt - sec_done)"

text \<open>A round of the loop of \<open>ide_read\<close>, for the sectors from \<open>sec_done\<close> on.\<close>

definition read_round :: "addr \<Rightarrow> addr \<Rightarrow> addr \<Rightarrow> u32 \<Rightarrow> addr \<Rightarrow> u32 \<Rightarrow> u32 \<Rightarrow> ('a ide_scheme, u32 + unit) prog" where
  "read_round sp hdisk ch lba dst sec_cnt sec_done =
     (if sec_done < sec_cnt
      then let sec_every = sectors_now sec_done sec_cnt in
        after [select_sector hdisk (lba + sec_done) (ucast sec_every),
          cmd_out ch CMD_READ_SECTOR,
          sema_down (disk_done ch)]
        (pbind (busy_wait hdisk) (\<lambda>ready.
          after [whenp (\<not> ready) (disk_panic sp ''%s read sector %d failed!\<newline>'' [hdisk, lba]),
            read_from_sector hdisk (dst + sec_done * 512) (ucast sec_every)]
          (again (sec_done + sec_every))))
      else leave ())"

definition ide_read :: "addr \<Rightarrow> addr \<Rightarrow> u32 \<Rightarrow> addr \<Rightarrow> u32 \<Rightarrow> ('a ide_scheme, unit) prog" where
  "ide_read sp hdisk lba dst sec_cnt =
     pbind (reads (\<lambda>s. my_channel (disks s hdisk))) (\<lambda>ch. steps [
       demand (sec_cnt > 0) ''sec_cnt > 0'',
       demand (lba \<le> max_lba) ''lba <= max_lba'',
       lock_acquire (channel_lock ch),
       select_disk hdisk,
       kiter (read_round sp hdisk ch lba dst sec_cnt) 0,
       does (lock_release (channel_lock ch))])"

definition write_round :: "addr \<Rightarrow> addr \<Rightarrow> addr \<Rightarrow> u32 \<Rightarrow> addr \<Rightarrow> u32 \<Rightarrow> u32 \<Rightarrow> ('a ide_scheme, u32 + unit) prog" where
  "write_round sp hdisk ch lba src sec_cnt sec_done =
     (if sec_done < sec_cnt
      then let sec_every = sectors_now sec_done sec_cnt in
        after [select_sector hdisk (lba + sec_done) (ucast sec_every),
          cmd_out ch CMD_WRITE_SECTOR]
        (pbind (busy_wait hdisk) (\<lambda>ready.
          after [whenp (\<not> ready) (disk_panic sp ''%s read sector %d failed!\<newline>'' [hdisk, lba]),
            write2sector hdisk (src + sec_done * 512) (ucast sec_every),
            sema_down (disk_done ch)]
          (again (sec_done + sec_every))))
      else leave ())"

definition ide_write :: "addr \<Rightarrow> addr \<Rightarrow> u32 \<Rightarrow> addr \<Rightarrow> u32 \<Rightarrow> ('a ide_scheme, unit) prog" where
  "ide_write sp hdisk lba src sec_cnt =
     pbind (reads (\<lambda>s. my_channel (disks s hdisk))) (\<lambda>ch. steps [
       demand (lba \<le> max_lba) ''lba <= max_lba'',
       demand (sec_cnt > 0) ''sec_cnt > 0'',
       lock_acquire (channel_lock ch),
       select_disk hdisk,
       kiter (write_round sp hdisk ch lba src sec_cnt) 0,
       does (lock_release (channel_lock ch))])"

definition intr_hd_handler :: "u8 \<Rightarrow> ('a ide_scheme, unit) prog" where
  "intr_hd_handler vec_nr =
     pseq (demand (vec_nr = 0x2e \<or> vec_nr = 0x2f) ''irq_no == 0x2e || irq_no == 0x2f'')
      (let ch_no = vec_nr - 0x2e in
       pbind (reads (\<lambda>s. let ch = channel_at (channels s) (ucast ch_no) in (ch, ide_channels s ch))) (\<lambda>(ch, c).
         pseq (demand (irq_no c = vec_nr) ''channel->irq_no == irq_no'')
          (whenp (expecting_intr c)
            (steps [upd_channel ch (\<lambda>c. c\<lparr>expecting_intr := False\<rparr>),
               does (sema_up (disk_done ch)),
               pseq (ide_inb (port_base c + reg_status)) (ret ())]))))"

section \<open>Initialisation\<close>

definition swap_pairs_bytes :: "addr \<Rightarrow> addr \<Rightarrow> u32 \<Rightarrow> ('a machine_scheme, unit) prog" where
  "swap_pairs_bytes src dst len =
     pbind (kiter (\<lambda>(idx, p).
        if idx < len
        then pbind (peek_byte p) (\<lambda>a. pseq (poke_byte (dst + (idx + 1)) a)
            (pbind (peek_byte (p + 1)) (\<lambda>b. pseq (poke_byte (dst + idx) b) (again (idx + 2, p + 2)))))
        else leave idx) (0, src))
      (\<lambda>idx. poke_byte (dst + idx) 0)"

text \<open>
  The local arrays \<^verbatim>\<open>id_info\<close> and \<^verbatim>\<open>buf\<close> have 512 and 64 bytes. The second call of \<open>swap_pairs_bytes\<close> is
  written with \<^verbatim>\<open>sn_start\<close> and \<^verbatim>\<open>sn_len\<close> in the source, not with \<^verbatim>\<open>md_start\<close> and \<^verbatim>\<open>md_len\<close>.
\<close>

definition identify_disk :: "addr \<Rightarrow> addr \<Rightarrow> ('a ide_scheme, unit) prog" where
  "identify_disk sp0 hdisk =
     (let id_info = sp0 - 512; text = id_info - 64; sp = text in
      pbind (reads (\<lambda>s. my_channel (disks s hdisk))) (\<lambda>ch.
        after [select_disk hdisk,
          cmd_out ch CMD_IDENTIFY,
          sema_down (disk_done ch)]
        (pbind (busy_wait hdisk) (\<lambda>ready. 
          after [whenp (\<not> ready) (disk_panic sp ''%s identify sector failed!!!\<newline>'' [hdisk]),
            read_from_sector hdisk id_info 1,
            swap_pairs_bytes (id_info + 20) text 20,
            say sp '' disk %s info: \<newline>   SN: %s\<newline>'' [hdisk, text],
            on_mem (memset text 0 64),
            swap_pairs_bytes (id_info + 20) text 20,
            say sp ''   MODULE: %s\<newline>'' [text]]
          (pbind (peek (id_info + 120)) (\<lambda>sectors. steps [
            say sp ''   SECTORS: %d\<newline>'' [sectors],
            say sp ''   CAPACITY: %dMB\<newline>'' [sectors * 512 div 1024 div 1024]]))))))"

text \<open>Recording a partition of the table entry at \<open>p\<close>: the assignments that the two branches share.\<close>

definition record_partition :: "addr \<Rightarrow> addr \<Rightarrow> addr \<Rightarrow> u32 \<Rightarrow> addr \<Rightarrow> u32 \<Rightarrow> ('a ide_scheme, unit) prog" where
  "record_partition sp hdisk part ext_lba p number =
     pbind (peek (p + 8)) (\<lambda>lba. pbind (peek (p + 12)) (\<lambda>cnt. steps [
       upd_part part (\<lambda>r. r\<lparr>start_lba := ext_lba + lba\<rparr>),
       upd_part part (\<lambda>r. r\<lparr>part_sec_cnt := cnt\<rparr>),
       upd_part part (\<lambda>r. r\<lparr>my_disk := hdisk\<rparr>),
       modifies (\<lambda>s. list_append (partition_list s) (part_tag part) s),
       sprint sp (part_name part) ''%s%d'' [hdisk, number]]))"

text \<open>
  The loop over the four entries of a partition table; \<open>scan\<close> is the recursive call, \<open>bs\<close> the sector. It
  leaves with \<open>False\<close> where \<^verbatim>\<open>partition_scan\<close> returns without freeing the sector.
\<close>

definition scan_table :: "(u32 \<Rightarrow> ('a ide_scheme, unit) prog) \<Rightarrow> addr \<Rightarrow> addr \<Rightarrow> u32 \<Rightarrow> addr \<Rightarrow> ('a ide_scheme, bool) prog" where
  "scan_table scan sp hdisk ext_lba bs = kiter (\<lambda>(part_num :: u8, p).
     if part_num < 4
     then pbind (peek_byte (p + 4)) (\<lambda>fs_type.
       let next = again (part_num + 1, p + 16) in
       if fs_type = 0x5
       then pbind (peek (p + 8)) (\<lambda>lba. pbind (reads ext_lba_base) (\<lambda>base.
              if base \<noteq> 0 then pseq (scan (lba + base)) next
              else pseq (modifies (\<lambda>s. s\<lparr>ext_lba_base := lba\<rparr>)) (pseq (scan lba) next)))
       else if fs_type \<noteq> 0
       then if ext_lba = 0
            then pbind (reads p_no) (\<lambda>i.
                   pseq (record_partition sp hdisk (primary_partition hdisk (ucast i)) ext_lba p (ucast i + 1))
                  (pseq (modifies (\<lambda>s. s\<lparr>p_no := p_no s + 1\<rparr>))
                  (pbind (reads p_no) (\<lambda>j. pseq (demand (j < 4) ''p_no < 4'') next))))
            else pbind (reads l_no) (\<lambda>i.
                   pseq (record_partition sp hdisk (logical_partition hdisk (ucast i)) ext_lba p (ucast i + 5))
                  (pseq (modifies (\<lambda>s. s\<lparr>l_no := l_no s + 1\<rparr>))
                  (pbind (reads l_no) (\<lambda>j. if j \<ge> 8 then leave False else next))))
       else next)
     else leave True) (0, bs + 446)"

text \<open>
  The recursion of \<^verbatim>\<open>partition_scan\<close> follows the extended partitions, which are data of the disk; a chain
  deeper than the first argument (on the machine, one that overflows the stack) is \<open>LOOP\<close>.
\<close>

primrec partition_scan :: "nat \<Rightarrow> addr \<Rightarrow> addr \<Rightarrow> u32 \<Rightarrow> ('a ide_scheme, unit) prog" where
  "partition_scan 0 sp hdisk ext_lba = stop LOOP"
| "partition_scan (Suc n) sp hdisk ext_lba =
     pbind (sys_malloc 512) (\<lambda>bs.
     pseq (ide_read sp hdisk ext_lba bs 1)
      (pbind (scan_table (partition_scan n (sp - 64) hdisk) sp hdisk ext_lba bs) (\<lambda>all.
        whenp all (sys_free bs))))"

definition partition_info :: "addr \<Rightarrow> addr \<Rightarrow> u32 \<Rightarrow> ('a ide_scheme, bool) prog" where
  "partition_info sp pelem arg =
     (let part = part_of_tag pelem in
      pbind (reads (\<lambda>s. partitions s part)) (\<lambda>r.
        pseq (say sp ''  %s start_lba:0x%x, sec_cnt:0x%x\<newline>'' [part_name part, start_lba r, part_sec_cnt r])
         (ret False)))"

text \<open>\<^verbatim>\<open>list_traversal\<close> with a callback that may block.\<close>

definition list_traversal_prog ::
    "addr \<Rightarrow> (addr \<Rightarrow> u32 \<Rightarrow> ('a lists_scheme, bool) prog) \<Rightarrow> u32 \<Rightarrow> ('a lists_scheme, addr) prog" where
  "list_traversal_prog plist func arg =
     pbind (reads (list_empty plist)) (\<lambda>empty.
       if empty then ret NULL
       else pbind (reads (\<lambda>s. nxt (nodes s (head_of plist)))) (kiter (\<lambda>elem.
              if elem \<noteq> tail_of plist
              then pbind (func elem arg) (\<lambda>found.
                     if found then leave elem else pbind (reads (\<lambda>s. nxt (nodes s elem))) again)
              else leave NULL)))"

text \<open>One disk of a channel; \<open>fuel\<close> is the depth allowed to \<open>partition_scan\<close>.\<close>

definition init_disk :: "nat \<Rightarrow> addr \<Rightarrow> addr \<Rightarrow> u8 \<Rightarrow> u8 \<Rightarrow> ('a ide_scheme, unit) prog" where
  "init_disk fuel sp channel channel_no dev =
     (let hdisk = devices channel (ucast dev) in steps [
        upd_disk hdisk (\<lambda>d. d\<lparr>my_channel := channel\<rparr>),
        upd_disk hdisk (\<lambda>d. d\<lparr>dev_no := dev\<rparr>),
        sprint sp hdisk ''sd%c'' [0x61 + ucast channel_no * 2 + ucast dev],
        identify_disk sp hdisk,
        whenp (dev \<noteq> 0) (partition_scan fuel sp hdisk 0),
        modifies (\<lambda>s. s\<lparr>p_no := 0, l_no := 0\<rparr>)])"

definition init_channel :: "nat \<Rightarrow> addr \<Rightarrow> addr \<Rightarrow> u8 \<Rightarrow> ('a ide_scheme, unit) prog" where
  "init_channel fuel sp channel channel_no = steps [
     sprint sp channel ''ide%d'' [ucast channel_no],
     upd_channel channel (\<lambda>c. if channel_no = 0 then c\<lparr>port_base := 0x1f0, irq_no := 0x20 + 14\<rparr>
       else if channel_no = 1 then c\<lparr>port_base := 0x170, irq_no := 0x20 + 15\<rparr> else c),
     upd_channel channel (\<lambda>c. c\<lparr>expecting_intr := False\<rparr>),
     modifies (lock_init (channel_lock channel)),
     modifies (sema_init (disk_done channel) 0),
     modifies (\<lambda>s. s\<lparr>irq := register_handler (irq_no (ide_channels s channel)) (fn_intr_hd_handler s) (irq s)\<rparr>),
     kiter (\<lambda>dev :: u8. if dev < 2 then pseq (init_disk fuel sp channel channel_no dev) (again (dev + 1))
       else leave ()) 0]"

definition ide_init :: "nat \<Rightarrow> addr \<Rightarrow> ('a ide_scheme, unit) prog" where
  "ide_init fuel sp =
     pseq (say sp ''ide_init start\<newline>'' [])
     (pbind (peek_byte 0x475) (\<lambda>hd_cnt. steps [
       demand (hd_cnt > 0) ''hd_cnt > 0'',
       modifies (\<lambda>s. list_init (partition_list s) s),
       modifies (\<lambda>s. s\<lparr>channel_cnt := ucast (DIV_ROUND_UP (ucast hd_cnt) 2)\<rparr>),
       kiter (\<lambda>channel_no :: u8. pbind (reads (\<lambda>s. (channel_cnt s, channels s))) (\<lambda>(cnt, chs).
         if channel_no < cnt
         then pseq (init_channel fuel sp (channel_at chs (ucast channel_no)) channel_no) (again (channel_no + 1))
         else leave ())) 0,
       say sp '' all partition info\<newline>'' [],
       pbind (reads partition_list) (\<lambda>l. pseq (list_traversal_prog l (partition_info sp) NULL) (ret ())),
       say sp ''ide_init done\<newline>'' []]))"

end
