(* ===== verification/Fs_State.thy ===== *)
theory Fs_State
  imports Ide
begin

text \<open>
  The state of the file system and the tables that all its parts share: the super block and the bitmaps
  of a partition, the system-wide file table and the descriptors of a thread (from \<^verbatim>\<open>fs/file.c\<close>).
  Inodes, directory entries and super blocks are bytes in memory at their C offsets, because the code
  copies them between memory and disk; directories and open files are in typed stores by address. The
  list element of an inode is in the store of list elements.
\<close>

section \<open>State\<close>

record dir =
  dir_inode :: addr
  dir_pos :: u32

record open_file =
  fd_pos :: u32
  fd_flag :: u32
  fd_inode :: addr

record fsys = ide +
  cur_partition :: addr
  root_dir :: addr
  dirs :: "addr \<Rightarrow> dir"
  file_table :: addr
  files :: "addr \<Rightarrow> open_file"

text \<open>Offsets in \<^verbatim>\<open>struct inode\<close> (76 bytes), \<^verbatim>\<open>struct dir_entry\<close> (24 bytes), \<^verbatim>\<open>struct dir\<close> (520 bytes).\<close>

abbreviation (input) sizeof_inode :: u32 where "sizeof_inode \<equiv> 76"
abbreviation (input) sizeof_dir_entry :: u32 where "sizeof_dir_entry \<equiv> 24"
abbreviation (input) sizeof_dir :: u32 where "sizeof_dir \<equiv> 520"

definition i_no :: "addr \<Rightarrow> addr" where "i_no inode = inode"
definition i_size :: "addr \<Rightarrow> addr" where "i_size inode = inode + 4"
definition i_open_cnts :: "addr \<Rightarrow> addr" where "i_open_cnts inode = inode + 8"
definition write_deny :: "addr \<Rightarrow> addr" where "write_deny inode = inode + 12"
definition i_sectors :: "addr \<Rightarrow> u32 \<Rightarrow> addr" where "i_sectors inode i = inode + 16 + 4 * i"
definition inode_tag :: "addr \<Rightarrow> addr" where "inode_tag inode = inode + 68"
definition inode_of_tag :: "addr \<Rightarrow> addr" where "inode_of_tag e = e - 68"

definition de_filename :: "addr \<Rightarrow> addr" where "de_filename de = de"
definition de_i_no :: "addr \<Rightarrow> addr" where "de_i_no de = de + 16"
definition de_f_type :: "addr \<Rightarrow> addr" where "de_f_type de = de + 20"

definition dir_buf :: "addr \<Rightarrow> addr" where "dir_buf d = d + 8"

abbreviation (input) FT_UNKNOWN :: u32 where "FT_UNKNOWN \<equiv> 0"
abbreviation (input) FT_REGULAR :: u32 where "FT_REGULAR \<equiv> 1"
abbreviation (input) FT_DIRECTORY :: u32 where "FT_DIRECTORY \<equiv> 2"

abbreviation (input) SECTOR_SIZE :: u32 where "SECTOR_SIZE \<equiv> 512"
abbreviation (input) BLOCK_SIZE :: u32 where "BLOCK_SIZE \<equiv> 512"
abbreviation (input) MAX_FILE_OPEN :: u32 where "MAX_FILE_OPEN \<equiv> 32"

text \<open>Offsets in \<^verbatim>\<open>struct super_block\<close> (512 bytes), and reading a member of the super block of a partition.\<close>

abbreviation (input) sb_magic :: u32 where "sb_magic \<equiv> 0"
abbreviation (input) sb_sec_cnt :: u32 where "sb_sec_cnt \<equiv> 4"
abbreviation (input) sb_inode_cnt :: u32 where "sb_inode_cnt \<equiv> 8"
abbreviation (input) sb_part_lba_base :: u32 where "sb_part_lba_base \<equiv> 12"
abbreviation (input) sb_block_bitmap_lba :: u32 where "sb_block_bitmap_lba \<equiv> 16"
abbreviation (input) sb_block_bitmap_sects :: u32 where "sb_block_bitmap_sects \<equiv> 20"
abbreviation (input) sb_inode_bitmap_lba :: u32 where "sb_inode_bitmap_lba \<equiv> 24"
abbreviation (input) sb_inode_bitmap_sects :: u32 where "sb_inode_bitmap_sects \<equiv> 28"
abbreviation (input) sb_inode_table_lba :: u32 where "sb_inode_table_lba \<equiv> 32"
abbreviation (input) sb_inode_table_sects :: u32 where "sb_inode_table_sects \<equiv> 36"
abbreviation (input) sb_data_start_lba :: u32 where "sb_data_start_lba \<equiv> 40"
abbreviation (input) sb_root_inode_no :: u32 where "sb_root_inode_no \<equiv> 44"
abbreviation (input) sb_dir_entry_size :: u32 where "sb_dir_entry_size \<equiv> 48"

definition sb_field :: "addr \<Rightarrow> u32 \<Rightarrow> 'a ide_scheme \<Rightarrow> u32" where
  "sb_field part off s = load_u32 (sb (partitions s part) + off) (mem s)"

definition the_disk :: "addr \<Rightarrow> 'a ide_scheme \<Rightarrow> addr" where
  "the_disk part s = my_disk (partitions s part)"

definition upd_dir :: "addr \<Rightarrow> (dir \<Rightarrow> dir) \<Rightarrow> ('a fsys_scheme, unit) prog" where
  "upd_dir d f = modifies (\<lambda>s. s\<lparr>dirs := (dirs s)(d := f (dirs s d))\<rparr>)"

definition file_at :: "'a fsys_scheme \<Rightarrow> u32 \<Rightarrow> addr" where
  "file_at s i = file_table s + 12 * i"

definition upd_file :: "addr \<Rightarrow> (open_file \<Rightarrow> open_file) \<Rightarrow> ('a fsys_scheme, unit) prog" where
  "upd_file a f = modifies (\<lambda>s. s\<lparr>files := (files s)(a := f (files s a))\<rparr>)"

text \<open>Unsigned division; a zero divisor raises the divide error, whose handler spins.\<close>

definition divide_u32 :: "u32 \<Rightarrow> u32 \<Rightarrow> ('s, u32) prog" where
  "divide_u32 a b = (if b = 0 then stop LOOP else ret (a div b))"

text \<open>Kernel memory for a running process: \<^verbatim>\<open>pgdir\<close> is set to \<open>NULL\<close> around the call.\<close>

definition as_kernel :: "('a threads_scheme, 'v) prog \<Rightarrow> ('a threads_scheme, 'v) prog" where
  "as_kernel m =
     pbind (reads (\<lambda>s. let cur = running_thread s in (cur, pgdir (tasks s cur)))) (\<lambda>(cur, bak).
     pseq (modifies (upd_task cur (\<lambda>r. r\<lparr>pgdir := NULL\<rparr>)))
      (pbind m (\<lambda>v. pseq (modifies (upd_task cur (\<lambda>r. r\<lparr>pgdir := bak\<rparr>))) (ret v))))"

section \<open>Descriptors\<close>

definition get_free_slot_in_global :: "addr \<Rightarrow> ('a fsys_scheme, u32) prog" where
  "get_free_slot_in_global sp =
     pbind (kiter (\<lambda>fd_idx. pbind (reads (\<lambda>s. fd_inode (files s (file_at s fd_idx)))) (\<lambda>i.
         if fd_idx < MAX_FILE_OPEN \<and> i \<noteq> NULL then again (fd_idx + 1) else leave fd_idx)) 3)
      (\<lambda>fd_idx. if fd_idx = MAX_FILE_OPEN
        then pseq (say sp ''exceed max open files\<newline>'' []) (ret (- 1))
        else ret fd_idx)"

text \<open>\<^verbatim>\<open>MAX_FILES_OPEN_PER_PROC\<close> is 8, the length of \<open>fd_table\<close>.\<close>

definition pcb_fd_install :: "addr \<Rightarrow> u32 \<Rightarrow> ('a fsys_scheme, u32) prog" where
  "pcb_fd_install sp global_fd_idx =
     pbind (reads running_thread) (\<lambda>cur.
     pbind (kiter (\<lambda>local_fd_idx :: u8.
         if local_fd_idx < 8
         then pbind (reads (\<lambda>s. fd_table (tasks s cur) ! unat local_fd_idx)) (\<lambda>fd.
                if fd = - 1
                then pseq (modifies (upd_task cur (\<lambda>r. r\<lparr>fd_table := (fd_table r)[unat local_fd_idx := global_fd_idx]\<rparr>)))
                       (leave local_fd_idx)
                else again (local_fd_idx + 1))
         else leave local_fd_idx) 3)
      (\<lambda>local_fd_idx. if local_fd_idx = 8
        then pseq (say sp ''exceed max open files_open_proc\<newline>'' []) (ret (- 1))
        else ret (ucast local_fd_idx)))"

section \<open>Bitmaps\<close>

datatype bitmap_type = INODE_BITMAP | BLOCK_BITMAP

definition inode_bitmap_alloc :: "addr \<Rightarrow> ('a ide_scheme, u32) prog" where
  "inode_bitmap_alloc part =
     pbind (reads (\<lambda>s. inode_bitmap (partitions s part))) (\<lambda>btmp.
     pbind (of_mem (bitmap_scan btmp 1)) (\<lambda>bit_idx.
       if bit_idx = - 1 then ret (- 1)
       else pseq (on_mem (bitmap_set btmp bit_idx 1)) (ret bit_idx)))"

definition block_bitmap_alloc :: "addr \<Rightarrow> ('a ide_scheme, u32) prog" where
  "block_bitmap_alloc part =
     pbind (reads (\<lambda>s. block_bitmap (partitions s part))) (\<lambda>btmp.
     pbind (of_mem (bitmap_scan btmp 1)) (\<lambda>block_idx.
       if block_idx = - 1 then ret (- 1)
       else pseq (on_mem (bitmap_set btmp block_idx 1))
             (reads (\<lambda>s. sb_field part sb_data_start_lba s + block_idx))))"

definition bitmap_sync :: "addr \<Rightarrow> addr \<Rightarrow> u32 \<Rightarrow> bitmap_type \<Rightarrow> ('a ide_scheme, unit) prog" where
  "bitmap_sync sp part bit_idx btmp =
     (let off_sec = bit_idx div 4096; off_size = off_sec * BLOCK_SIZE in
      pbind (reads (\<lambda>s. case btmp of
          INODE_BITMAP \<Rightarrow> (sb_field part sb_inode_bitmap_lba s + off_sec,
                           bits (inode_bitmap (partitions s part)) + off_size)
        | BLOCK_BITMAP \<Rightarrow> (sb_field part sb_block_bitmap_lba s + off_sec,
                           bits (block_bitmap (partitions s part)) + off_size)))
       (\<lambda>(sec_lba, bitmap_off).
      pbind (reads (the_disk part)) (\<lambda>hdisk. ide_write sp hdisk sec_lba bitmap_off 1)))"

end
