(* ===== verification/Inode.thy ===== *)
theory Inode
  imports Fs_State
begin

text \<open>
  \<^verbatim>\<open>fs/inode.c\<close>: the position of an inode in the inode table on disk, writing it back, opening and closing
  it through the list of open inodes of its partition, and releasing it with its blocks.
\<close>

section \<open>The routines\<close>

record inode_position =
  two_sec :: bool
  sec_lba :: u32
  off_size :: u32

definition inode_position_of :: "u32 \<Rightarrow> u32 \<Rightarrow> inode_position" where
  "inode_position_of inode_table_lba inode_no =
     (let inode_off_size_in_bytes = inode_no * sizeof_inode;
          inode_off_sec = inode_off_size_in_bytes div 512;
          off_in_sec = inode_off_size_in_bytes mod 512;
          left_size = 512 - off_in_sec
      in \<lparr>two_sec = left_size < sizeof_inode, sec_lba = inode_table_lba + inode_off_sec, off_size = off_in_sec\<rparr>)"

definition inode_locate :: "addr \<Rightarrow> u32 \<Rightarrow> ('a ide_scheme, inode_position) prog" where
  "inode_locate part inode_no =
     pseq (demand (inode_no < 4096) ''inode_no < 4096'')
      (reads (\<lambda>s. inode_position_of (sb_field part sb_inode_table_lba s) inode_no))"

text \<open>\<^verbatim>\<open>ASSERT(inode_pos.sec_lba <= (part->start_lba + part->sec_cnt))\<close>\<close>

definition check_position :: "addr \<Rightarrow> inode_position \<Rightarrow> ('a ide_scheme, unit) prog" where
  "check_position part pos =
     pbind (reads (\<lambda>s. start_lba (partitions s part) + part_sec_cnt (partitions s part))) (\<lambda>end_lba.
       demand (sec_lba pos \<le> end_lba) ''inode_pos.sec_lba <= (part->start_lba + part->sec_cnt)'')"

text \<open>
  Reading the one or two sectors of an inode, changing its bytes in the buffer and writing the sectors
  back, as \<open>inode_sync\<close> and \<open>inode_delete\<close> do.
\<close>

definition rewrite_inode :: "addr \<Rightarrow> addr \<Rightarrow> inode_position \<Rightarrow> (addr \<Rightarrow> mem \<Rightarrow> mem res) \<Rightarrow> addr \<Rightarrow> ('a ide_scheme, unit) prog" where
  "rewrite_inode sp part pos change inode_buf =
     (let n = (if two_sec pos then 2 else 1) in
      pbind (reads (the_disk part)) (\<lambda>hdisk. steps [
        ide_read sp hdisk (sec_lba pos) inode_buf n,
        on_mem (change (inode_buf + off_size pos)),
        ide_write sp hdisk (sec_lba pos) inode_buf n]))"

text \<open>\<open>inode_no\<close> is a \<^verbatim>\<open>uint8_t\<close>; the local \<^verbatim>\<open>pure_inode\<close> is at the top of the stack.\<close>

definition inode_sync :: "addr \<Rightarrow> addr \<Rightarrow> addr \<Rightarrow> addr \<Rightarrow> ('a ide_scheme, unit) prog" where
  "inode_sync sp0 part inode io_buf =
     (let pure_inode = sp0 - sizeof_inode; sp = pure_inode in
      pbind (peek (i_no inode)) (\<lambda>no. let inode_no = ucast no :: u8 in
      pbind (inode_locate part (ucast inode_no)) (\<lambda>pos. steps [
        check_position part pos,
        on_mem (memcpy pure_inode inode sizeof_inode),
        poke (i_open_cnts pure_inode) 0,
        poke (write_deny pure_inode) 0,
        poke (inode_tag pure_inode + 4) NULL,
        poke (inode_tag pure_inode) NULL,
        rewrite_inode sp part pos (\<lambda>p. memcpy p pure_inode sizeof_inode) io_buf])))"

definition find_open_inode :: "addr \<Rightarrow> u32 \<Rightarrow> ('a ide_scheme, addr) prog" where
  "find_open_inode part inode_no =
     (let l = open_inodes part in
      pbind (reads (\<lambda>s. nxt (nodes s (head_of l)))) (kiter (\<lambda>elem.
        if elem \<noteq> tail_of l
        then let inode_found = inode_of_tag elem in
          pbind (peek (i_no inode_found)) (\<lambda>no.
            if no = inode_no
            then pbind (peek (i_open_cnts inode_found)) (\<lambda>c.
                   pseq (poke (i_open_cnts inode_found) (c + 1)) (leave inode_found))
            else pbind (reads (\<lambda>s. nxt (nodes s elem))) again)
        else leave NULL)))"

text \<open>The part of \<open>inode_open\<close> that reads the inode from disk.\<close>

definition load_inode :: "addr \<Rightarrow> addr \<Rightarrow> u32 \<Rightarrow> ('a fsys_scheme, addr) prog" where
  "load_inode sp part inode_no =
     pbind (inode_locate part inode_no) (\<lambda>pos.
     pbind (as_kernel (sys_malloc sizeof_inode)) (\<lambda>inode_found.
     pbind (sys_malloc (if two_sec pos then 1024 else 512)) (\<lambda>inode_buf.
     pbind (reads (the_disk part)) (\<lambda>hdisk. after [
       ide_read sp hdisk (sec_lba pos) inode_buf (if two_sec pos then 2 else 1),
       on_mem (memcpy inode_found (inode_buf + off_size pos) sizeof_inode),
       modifies (list_push (open_inodes part) (inode_tag inode_found)),
       poke (i_open_cnts inode_found) 1,
       sys_free inode_buf]
      (ret inode_found)))))"

definition inode_open :: "addr \<Rightarrow> addr \<Rightarrow> u32 \<Rightarrow> ('a fsys_scheme, addr) prog" where
  "inode_open sp part inode_no =
     pbind (find_open_inode part inode_no) (\<lambda>found.
       if found \<noteq> NULL then ret found else load_inode sp part inode_no)"

definition inode_close :: "addr \<Rightarrow> ('a fsys_scheme, unit) prog" where
  "inode_close inode s0 =
     (let (old_status, s1) = disable_intr s0 in
      pbind (peek (i_open_cnts inode)) (\<lambda>c. steps [
        poke (i_open_cnts inode) (c - 1),
        whenp (c - 1 = 0) (steps [
          modifies (list_remove (inode_tag inode)),
          as_kernel (sys_free inode)]),
        modifies (\<lambda>s. snd (set_intr_status old_status s))]) s1)"

definition inode_init :: "u32 \<Rightarrow> addr \<Rightarrow> ('a machine_scheme, unit) prog" where
  "inode_init inode_no new_inode = steps [
     poke (i_no new_inode) inode_no,
     poke (i_size new_inode) 0,
     poke (i_open_cnts new_inode) 0,
     poke (write_deny new_inode) 1,
     kiter (\<lambda>sector_idx :: u8. if sector_idx < 13
       then pseq (poke (i_sectors new_inode (ucast sector_idx)) 0) (again (sector_idx + 1))
       else leave ()) 0]"

definition inode_delete :: "addr \<Rightarrow> addr \<Rightarrow> u32 \<Rightarrow> addr \<Rightarrow> ('a ide_scheme, unit) prog" where
  "inode_delete sp part inode_no io_buf =
     pseq (demand (inode_no < 4096) ''inode_no < 4096'')
      (pbind (inode_locate part inode_no) (\<lambda>pos. steps [
        check_position part pos,
        rewrite_inode sp part pos (\<lambda>p. memset p 0 sizeof_inode) io_buf]))"

text \<open>
  The direct blocks of an inode, copied into the array \<open>all_blocks\<close>; several routines begin with this
  loop, with an index of 8 or of 32 bits.
\<close>

definition copy_direct :: "addr \<Rightarrow> addr \<Rightarrow> ('a machine_scheme, unit) prog" where
  "copy_direct all_blocks inode = kiter (\<lambda>block_idx :: u32.
     if block_idx < 12
     then pbind (peek (i_sectors inode block_idx)) (\<lambda>lba.
            pseq (poke (all_blocks + 4 * block_idx) lba) (again (block_idx + 1)))
     else leave ()) 0"

text \<open>Marking a bit of a bitmap of \<open>part\<close> as free, and writing the sector with the bit to disk.\<close>

definition free_block_bit :: "addr \<Rightarrow> u32 \<Rightarrow> ('a ide_scheme, unit) prog" where
  "free_block_bit part idx = does (\<lambda>s. upd_mem (bitmap_set (block_bitmap (partitions s part)) idx 0) s)"

definition free_inode_bit :: "addr \<Rightarrow> u32 \<Rightarrow> ('a ide_scheme, unit) prog" where
  "free_inode_bit part idx = does (\<lambda>s. upd_mem (bitmap_set (inode_bitmap (partitions s part)) idx 0) s)"

definition sync_cur :: "addr \<Rightarrow> u32 \<Rightarrow> bitmap_type \<Rightarrow> ('a fsys_scheme, unit) prog" where
  "sync_cur sp idx btmp = pbind (reads cur_partition) (\<lambda>cur. bitmap_sync sp cur idx btmp)"

definition release_block :: "addr \<Rightarrow> addr \<Rightarrow> u32 \<Rightarrow> ('a fsys_scheme, unit) prog" where
  "release_block sp part lba =
     pbind (reads (sb_field part sb_data_start_lba)) (\<lambda>start. let block_bitmap_idx = lba - start in steps [
       demand (block_bitmap_idx > 0) ''block_bitmap_idx > 0'',
       free_block_bit part block_bitmap_idx,
       sync_cur sp block_bitmap_idx BLOCK_BITMAP])"

definition clear_local :: "addr \<Rightarrow> nat \<Rightarrow> ('a machine_scheme, unit) prog" where
  "clear_local a n = modifies (\<lambda>s. s\<lparr>mem := memset_loop n a 0 (mem s)\<rparr>)"

definition inode_release :: "addr \<Rightarrow> addr \<Rightarrow> u32 \<Rightarrow> ('a fsys_scheme, unit) prog" where
  "inode_release sp0 part inode_no =
     (let all_blocks = sp0 - 560; sp = all_blocks in
      pbind (inode_open sp part inode_no) (\<lambda>inode_to_del.
      pbind (peek (i_no inode_to_del)) (\<lambda>no. after [
        demand (no = inode_no) ''inode_to_del->i_no == inode_no'',
        clear_local all_blocks 560,
        copy_direct all_blocks inode_to_del]
     (pbind (peek (i_sectors inode_to_del 12)) (\<lambda>indirect.
      pbind (if indirect \<noteq> 0
             then pbind (reads (the_disk part)) (\<lambda>hdisk. after [
                    ide_read sp hdisk indirect (all_blocks + 48) 1,
                    release_block sp part indirect]
                   (ret (140 :: u8)))
             else ret 12) (\<lambda>block_cnt. steps [
        kiter (\<lambda>block_idx. if block_idx < block_cnt
          then pbind (peek (all_blocks + 4 * ucast block_idx)) (\<lambda>lba.
                 pseq (whenp (lba \<noteq> 0) (release_block sp part lba)) (again (block_idx + 1)))
          else leave ()) 0,
        free_inode_bit part inode_no,
        sync_cur sp inode_no INODE_BITMAP,
        pbind (sys_malloc 1024) (\<lambda>io_buf. steps [inode_delete sp part inode_no io_buf, sys_free io_buf]),
        inode_close inode_to_del]))))))"

end
