(* ===== verification/Dir.thy ===== *)
theory Dir
  imports Inode
begin

text \<open>
  \<^verbatim>\<open>fs/dir.c\<close>: opening and closing directories, looking up, adding and deleting directory entries, reading
  a directory entry by entry.
\<close>

section \<open>The routines\<close>

definition open_root_dir :: "addr \<Rightarrow> addr \<Rightarrow> ('a fsys_scheme, unit) prog" where
  "open_root_dir sp part =
     pbind (reads (sb_field part sb_root_inode_no)) (\<lambda>no.
     pbind (inode_open sp part no) (\<lambda>inode.
     pbind (reads root_dir) (\<lambda>root. steps [
       upd_dir root (\<lambda>d. d\<lparr>dir_inode := inode\<rparr>),
       upd_dir root (\<lambda>d. d\<lparr>dir_pos := 0\<rparr>)])))"

definition dir_open :: "addr \<Rightarrow> addr \<Rightarrow> u32 \<Rightarrow> ('a fsys_scheme, addr) prog" where
  "dir_open sp part inode_no =
     pbind (sys_malloc sizeof_dir) (\<lambda>pdir.
     pbind (inode_open sp part inode_no) (\<lambda>inode. after [
       upd_dir pdir (\<lambda>d. d\<lparr>dir_inode := inode\<rparr>),
       upd_dir pdir (\<lambda>d. d\<lparr>dir_pos := 0\<rparr>)]
      (ret pdir)))"

text \<open>The indirect block table, read into the array from element 12 on if the inode has one.\<close>

definition read_indirect :: "addr \<Rightarrow> addr \<Rightarrow> addr \<Rightarrow> addr \<Rightarrow> ('a ide_scheme, bool) prog" where
  "read_indirect sp part inode all_blocks =
     pbind (peek (i_sectors inode 12)) (\<lambda>indirect.
       if indirect \<noteq> 0
       then pbind (reads (the_disk part)) (\<lambda>hdisk.
              pseq (ide_read sp hdisk indirect (all_blocks + 48) 1) (ret True))
       else ret False)"

text \<open>The entries of one sector in the buffer at \<open>p_de\<close>: the one whose name is \<open>name\<close>, if any.\<close>

definition find_name :: "u32 \<Rightarrow> addr \<Rightarrow> addr \<Rightarrow> ('a machine_scheme, addr) prog" where
  "find_name dir_entry_cnt name = (\<lambda>p_de. kiter (\<lambda>(dir_entry_idx, p_de).
     if dir_entry_idx < dir_entry_cnt
     then pbind (of_mem (strcmp (de_filename p_de) name)) (\<lambda>r.
            if r = 0 then leave p_de else again (dir_entry_idx + 1, p_de + sizeof_dir_entry))
     else leave NULL) (0, p_de))"

definition search_dir_entry :: "addr \<Rightarrow> addr \<Rightarrow> addr \<Rightarrow> addr \<Rightarrow> addr \<Rightarrow> ('a fsys_scheme, bool) prog" where
  "search_dir_entry sp part pdir name dir_e =
     pbind (sys_malloc (48 + 512)) (\<lambda>all_blocks.
     if all_blocks = NULL
     then pseq (say sp ''search_dir_entry: sys_malloc for all blocks failed'' []) (ret False)
     else
       pbind (reads (\<lambda>s. dir_inode (dirs s pdir))) (\<lambda>inode.
       pseq (copy_direct all_blocks inode)
      (pseq (read_indirect sp part inode all_blocks)
      (pbind (sys_malloc SECTOR_SIZE) (\<lambda>sector.
       pbind (reads (sb_field part sb_dir_entry_size)) (\<lambda>dir_entry_size.
       pbind (divide_u32 SECTOR_SIZE dir_entry_size) (\<lambda>dir_entry_cnt.
       pbind (reads (the_disk part)) (\<lambda>hdisk.
       kiter (\<lambda>block_idx.
         if block_idx < 140
         then pbind (peek (all_blocks + 4 * block_idx)) (\<lambda>lba.
           if lba = 0 then again (block_idx + 1)
           else pseq (ide_read sp hdisk lba sector 1)
             (pbind (find_name dir_entry_cnt name sector) (\<lambda>p_de.
               if p_de \<noteq> NULL
               then after [on_mem (memcpy dir_e p_de dir_entry_size), sys_free sector, sys_free all_blocks] (leave True)
               else after [on_mem (memset sector 0 SECTOR_SIZE)] (again (block_idx + 1)))))
         else after [sys_free sector, sys_free all_blocks] (leave False)) 0)))))))) "

definition dir_close :: "addr \<Rightarrow> ('a fsys_scheme, unit) prog" where
  "dir_close d =
     pbind (reads root_dir) (\<lambda>root.
       if d = root then ret ()
       else pbind (reads (\<lambda>s. dir_inode (dirs s d))) (\<lambda>inode. steps [inode_close inode, sys_free d]))"

text \<open>\<^verbatim>\<open>MAX_FILE_NAME_LEN\<close> is 16.\<close>

definition create_dir_entry :: "addr \<Rightarrow> u32 \<Rightarrow> u8 \<Rightarrow> addr \<Rightarrow> ('a machine_scheme, unit) prog" where
  "create_dir_entry filename inode_no file_type p_de =
     pbind (of_mem (strlen filename)) (\<lambda>len.
       pseq (demand (len \<le> 16) ''strlen(filename) <= MAX_FILE_NAME_LEN'')
      (pbind (of_mem (strlen filename)) (\<lambda>n. steps [
         on_mem (memcpy (de_filename p_de) filename n),
         poke (de_i_no p_de) inode_no,
         poke (de_f_type p_de) (ucast file_type)])))"

text \<open>The address of the first entry without a type in the sector at \<open>dir_e\<close>, or \<open>NULL\<close>.\<close>

definition find_unused :: "u32 \<Rightarrow> addr \<Rightarrow> ('a machine_scheme, addr) prog" where
  "find_unused dir_entrys_per_sec dir_e = kiter (\<lambda>dir_entry_idx :: u8.
     if ucast dir_entry_idx < dir_entrys_per_sec
     then let de = dir_e + sizeof_dir_entry * ucast dir_entry_idx in
       pbind (peek (de_f_type de)) (\<lambda>t. if t = FT_UNKNOWN then leave de else again (dir_entry_idx + 1))
     else leave NULL) 0"

text \<open>
  A new block for the directory, where \<open>all_blocks\<close> has no block at \<open>block_idx\<close>: its address in the inode,
  or in the indirect table, or, for \<open>block_idx\<close> 12, in a new indirect table. \<open>False\<close> if the partition is full.
\<close>

definition dir_new_block :: "addr \<Rightarrow> addr \<Rightarrow> addr \<Rightarrow> u8 \<Rightarrow> ('a fsys_scheme, bool) prog" where
  "dir_new_block sp inode all_blocks block_idx =
     pbind (reads cur_partition) (\<lambda>cur.
     pbind (reads (\<lambda>s. (the_disk cur s, sb_field cur sb_data_start_lba s))) (\<lambda>(hdisk, start).
     pbind (block_bitmap_alloc cur) (\<lambda>block_lba.
     if block_lba = - 1
     then pseq (say sp ''alloc block bitmap for sync_dir_entry failed\<newline>'' []) (ret False)
     else let block_bitmap_idx = block_lba - start in after [
       demand (block_bitmap_idx \<noteq> - 1) ''block_bitmap_idx != -1'',
       bitmap_sync sp cur block_bitmap_idx BLOCK_BITMAP]
      (if block_idx < 12
       then after [poke (i_sectors inode (ucast block_idx)) block_lba,
               poke (all_blocks + 4 * ucast block_idx) block_lba] (ret True)
       else if block_idx = 12
       then pseq (poke (i_sectors inode 12) block_lba)
         (pbind (block_bitmap_alloc cur) (\<lambda>block_lba.
          if block_lba = - 1
          then pbind (peek (i_sectors inode 12)) (\<lambda>table. after [
                 free_block_bit cur (table - start),
                 poke (i_sectors inode 12) 0,
                 say sp ''alloc block bitmap for sync_dir_entry failed\<newline>'' []] (ret False))
          else let block_bitmap_idx = block_lba - start in after [
                 demand (block_bitmap_idx \<noteq> - 1) ''block_bitmap_idx != -1'',
                 bitmap_sync sp cur block_bitmap_idx BLOCK_BITMAP,
                 poke (all_blocks + 48) block_lba,
                 pbind (peek (i_sectors inode 12)) (\<lambda>table. ide_write sp hdisk table (all_blocks + 48) 1)]
                (ret True)))
       else after [poke (all_blocks + 4 * ucast block_idx) block_lba,
              pbind (peek (i_sectors inode 12)) (\<lambda>table. ide_write sp hdisk table (all_blocks + 48) 1)]
             (ret True)))))"

text \<open>The local array \<^verbatim>\<open>all_blocks\<close> is cleared and gets the direct blocks only, not the indirect table.\<close>

definition sync_dir_entry :: "addr \<Rightarrow> addr \<Rightarrow> addr \<Rightarrow> addr \<Rightarrow> ('a fsys_scheme, bool) prog" where
  "sync_dir_entry sp0 parent_dir p_de io_buf =
     (let all_blocks = sp0 - 560; sp = all_blocks in
      pbind (reads (\<lambda>s. dir_inode (dirs s parent_dir))) (\<lambda>inode.
      pbind (peek (i_size inode)) (\<lambda>dir_size.
      pbind (reads (\<lambda>s. sb_field (cur_partition s) sb_dir_entry_size s)) (\<lambda>dir_entry_size.
      pbind (divide_u32 512 dir_entry_size) (\<lambda>dir_entrys_per_sec. after [
        demand (dir_size mod dir_entry_size = 0) ''dir_size % dir_entry_size == 0'',
        clear_local all_blocks 560,
        copy_direct all_blocks inode]
     (let grow = pbind (peek (i_size inode)) (\<lambda>n. poke (i_size inode) (n + dir_entry_size)) in
      pbind (reads (\<lambda>s. the_disk (cur_partition s) s)) (\<lambda>hdisk.
      kiter (\<lambda>block_idx :: u8.
        if block_idx < 140
        then pbind (peek (all_blocks + 4 * ucast block_idx)) (\<lambda>lba.
          if lba = 0
          then pbind (dir_new_block sp inode all_blocks block_idx) (\<lambda>ok.
            if \<not> ok then leave False
            else pseq (on_mem (memset io_buf 0 512))
                (pseq (on_mem (memcpy io_buf p_de dir_entry_size))
                (pbind (peek (all_blocks + 4 * ucast block_idx)) (\<lambda>lba. after [
                   ide_write sp hdisk lba io_buf 1, grow] (leave True)))))
          else pseq (ide_read sp hdisk lba io_buf 1)
             (pbind (find_unused dir_entrys_per_sec io_buf) (\<lambda>de.
               if de \<noteq> NULL
               then after [on_mem (memcpy de p_de dir_entry_size), ide_write sp hdisk lba io_buf 1, grow] (leave True)
               else again (block_idx + 1))))
        else pseq (say sp ''directory is full!\<newline>'' []) (leave False)) 0)))))))"

text \<open>
  One sector of \<open>delete_dir_entry\<close>: the number of entries other than \<^verbatim>\<open>.\<close> and \<^verbatim>\<open>..\<close>, the entry with the
  inode number (\<open>NULL\<close> if none), and whether the sector is the first one of the directory. The source
  tests the assertion that no other entry was found before it records one.
\<close>

definition scan_entries :: "u32 \<Rightarrow> u32 \<Rightarrow> addr \<Rightarrow> ('a image_scheme, u8 \<times> addr \<times> bool) prog" where
  "scan_entries dir_entrys_per_sec inode_no dir_e =
     pbind (reads (\<lambda>s. (lits s ''.'', lits s ''..''))) (\<lambda>(dot, dotdot).
     kiter (\<lambda>(dir_entry_idx :: u8, cnt :: u8, found, is_first).
       if ucast dir_entry_idx < dir_entrys_per_sec
       then let de = dir_e + sizeof_dir_entry * ucast dir_entry_idx in
         pbind (peek (de_f_type de)) (\<lambda>t.
           if t \<noteq> FT_UNKNOWN
           then pbind (of_mem (strcmp (de_filename de) dot)) (\<lambda>c.
             if c = 0 then again (dir_entry_idx + 1, cnt, found, True)
             else pbind (of_mem (strcmp (de_filename de) dotdot)) (\<lambda>c'.
               if c' \<noteq> 0
               then pbind (peek (de_i_no de)) (\<lambda>no.
                 if no = inode_no
                 then pseq (demand (found = NULL) ''dir_entry_found == NULL'')
                        (again (dir_entry_idx + 1, cnt + 1, de, is_first))
                 else again (dir_entry_idx + 1, cnt + 1, found, is_first))
               else again (dir_entry_idx + 1, cnt, found, is_first)))
           else again (dir_entry_idx + 1, cnt, found, is_first))
       else leave (cnt, found, is_first)) (0, 0, NULL, False))"

text \<open>
  \<^verbatim>\<open>while(indirect_block_idx < 140) { if(all_blocks[indirect_block_idx] != 0) indirect_blocks++; }\<close>:
  the index is not advanced.
\<close>

definition count_indirect :: "addr \<Rightarrow> ('a machine_scheme, u32) prog" where
  "count_indirect all_blocks = kiter (\<lambda>(indirect_block_idx, indirect_blocks).
     if indirect_block_idx < 140
     then pbind (peek (all_blocks + 4 * indirect_block_idx)) (\<lambda>lba.
            again (indirect_block_idx, if lba \<noteq> 0 then indirect_blocks + 1 else indirect_blocks))
     else leave indirect_blocks) (12 :: u32, 0)"

text \<open>Giving back a directory's block that holds no other entry.\<close>

definition drop_dir_block :: "addr \<Rightarrow> addr \<Rightarrow> addr \<Rightarrow> addr \<Rightarrow> u32 \<Rightarrow> u32 \<Rightarrow> ('a fsys_scheme, unit) prog" where
  "drop_dir_block sp part inode all_blocks block_idx lba =
     pbind (reads (sb_field part sb_data_start_lba)) (\<lambda>start. steps [
       free_block_bit part (lba - start),
       sync_cur sp (lba - start) BLOCK_BITMAP,
       if block_idx < 12 then poke (i_sectors inode block_idx) 0
       else pbind (count_indirect all_blocks) (\<lambda>indirect_blocks.
         pseq (demand (indirect_blocks \<ge> 1) ''indirect_blocks >= 1'')
        (pbind (peek (i_sectors inode 12)) (\<lambda>table.
          if indirect_blocks > 1
          then steps [poke (all_blocks + 4 * block_idx) 0,
                 pbind (reads (the_disk part)) (\<lambda>hdisk. ide_write sp hdisk table (all_blocks + 48) 1)]
          else steps [free_block_bit part (table - start),
                 sync_cur sp (table - start) BLOCK_BITMAP,
                 poke (i_sectors inode 12) 0])))])"

definition delete_dir_entry :: "addr \<Rightarrow> addr \<Rightarrow> addr \<Rightarrow> u32 \<Rightarrow> addr \<Rightarrow> ('a fsys_scheme, bool) prog" where
  "delete_dir_entry sp0 part pdir inode_no io_buf =
     (let all_blocks = sp0 - 560; sp = all_blocks in
      pbind (reads (\<lambda>s. dir_inode (dirs s pdir))) (\<lambda>inode.
      after [clear_local all_blocks 560, copy_direct all_blocks inode]
     (pseq (read_indirect sp part inode all_blocks)
     (pbind (reads (sb_field part sb_dir_entry_size)) (\<lambda>dir_entry_size.
      pbind (divide_u32 SECTOR_SIZE dir_entry_size) (\<lambda>dir_entrys_per_sec.
      pbind (reads (the_disk part)) (\<lambda>hdisk.
      kiter (\<lambda>block_idx.
        if block_idx < 140
        then pbind (peek (all_blocks + 4 * block_idx)) (\<lambda>lba.
          if lba = 0 then again (block_idx + 1)
          else after [on_mem (memset io_buf 0 SECTOR_SIZE), ide_read sp hdisk lba io_buf 1]
           (pbind (scan_entries dir_entrys_per_sec inode_no io_buf) (\<lambda>(cnt, found, is_first).
              if found = NULL then again (block_idx + 1)
              else after [
                demand (cnt \<ge> 1) ''dir_entry_cnt >= 1'',
                if cnt = 1 \<and> \<not> is_first then drop_dir_block sp part inode all_blocks block_idx lba
                else steps [on_mem (memset found 0 dir_entry_size), ide_write sp hdisk lba io_buf 1]]
               (pbind (peek (i_size inode)) (\<lambda>n. after [
                demand (n \<ge> dir_entry_size) ''dir_inode->i_size >= dir_entry_size'',
                poke (i_size inode) (n - dir_entry_size),
                on_mem (memset io_buf 0 (SECTOR_SIZE * 2)),
                inode_sync sp part inode io_buf] (leave True))))))
        else leave False) 0)))))))"

text \<open>
  One sector of \<open>dir_read\<close>, in the buffer at \<open>dir_e\<close>: entries with a type before the position are counted,
  the one at the position is returned; \<open>Inl\<close> is the offset reached at the end of the sector.
\<close>

definition read_entry :: "u32 \<Rightarrow> u32 \<Rightarrow> addr \<Rightarrow> addr \<Rightarrow> u32 \<Rightarrow> ('a fsys_scheme, u32 + addr) prog" where
  "read_entry dir_entry_per_sec dir_entry_size d dir_e offset0 = kiter (\<lambda>(dir_entry_idx, cur_dir_entry_offset).
     if dir_entry_idx < dir_entry_per_sec
     then let de = dir_e + sizeof_dir_entry * dir_entry_idx in
       pbind (peek (de_f_type de)) (\<lambda>t.
         if t \<noteq> FT_UNKNOWN
         then pbind (reads (\<lambda>s. dir_pos (dirs s d))) (\<lambda>pos.
           if cur_dir_entry_offset < pos
           then again (dir_entry_idx + 1, cur_dir_entry_offset + dir_entry_size)
           else after [demand (cur_dir_entry_offset = pos) ''cur_dir_entry_offset == dir->dir_pos'',
                  upd_dir d (\<lambda>r. r\<lparr>dir_pos := dir_pos r + dir_entry_size\<rparr>)] (leave (Inr de)))
         else again (dir_entry_idx + 1, cur_dir_entry_offset))
     else leave (Inl cur_dir_entry_offset)) (0, offset0)"

definition dir_read :: "addr \<Rightarrow> addr \<Rightarrow> ('a fsys_scheme, addr) prog" where
  "dir_read sp0 d =
     (let all_blocks = sp0 - 560; sp = all_blocks; dir_e = dir_buf d in
      pbind (reads (\<lambda>s. (dir_inode (dirs s d), cur_partition s))) (\<lambda>(inode, cur).
      after [clear_local all_blocks 560, copy_direct all_blocks inode]
     (pbind (read_indirect sp cur inode all_blocks) (\<lambda>has_indirect.
      let block_cnt = (if has_indirect then 140 else 12) in
      pbind (reads (sb_field cur sb_dir_entry_size)) (\<lambda>dir_entry_size.
      pbind (divide_u32 SECTOR_SIZE dir_entry_size) (\<lambda>dir_entry_per_sec.
      pbind (reads (the_disk cur)) (\<lambda>hdisk.
      kiter (\<lambda>(block_idx, cur_dir_entry_offset).
        if block_idx < block_cnt
        then pbind (peek (i_size inode)) (\<lambda>size. pbind (reads (\<lambda>s. dir_pos (dirs s d))) (\<lambda>pos.
          if pos \<ge> size then leave NULL
          else pbind (peek (all_blocks + 4 * block_idx)) (\<lambda>lba.
            if lba = 0 then again (block_idx + 1, cur_dir_entry_offset)
            else after [on_mem (memset dir_e 0 512), ide_read sp hdisk lba dir_e 1]
             (pbind (read_entry dir_entry_per_sec dir_entry_size d dir_e cur_dir_entry_offset) (\<lambda>r.
                case r of Inl offset \<Rightarrow> again (block_idx + 1, offset) | Inr de \<Rightarrow> leave de)))))
        else leave NULL) (0, 0))))))))"

definition dir_is_empty :: "addr \<Rightarrow> ('a fsys_scheme, bool) prog" where
  "dir_is_empty d = reads (\<lambda>s.
     load_u32 (i_size (dir_inode (dirs s d))) (mem s) = sb_field (cur_partition s) sb_dir_entry_size s * 2)"

definition dir_remove :: "addr \<Rightarrow> addr \<Rightarrow> addr \<Rightarrow> ('a fsys_scheme, u32) prog" where
  "dir_remove sp parent_dir child_dir =
     pbind (reads (\<lambda>s. (dir_inode (dirs s child_dir), cur_partition s))) (\<lambda>(child, cur).
     pseq (kiter (\<lambda>block_idx :: u32. if sint block_idx < 13
         then pbind (peek (i_sectors child block_idx)) (\<lambda>lba.
                pseq (demand (lba = 0) ''child_dir_inode->i_sectors[block_idx] == 0'') (again (block_idx + 1)))
         else leave ()) 1)
      (pbind (sys_malloc (SECTOR_SIZE * 2)) (\<lambda>io_buf.
        if io_buf = NULL
        then pseq (say sp ''dir_is_empty: sys_malloc for io_buf failed\<newline>'' []) (ret (- 1))
        else pbind (peek (i_no child)) (\<lambda>no.
          pseq (delete_dir_entry sp cur parent_dir no io_buf)
         (pbind (peek (i_no child)) (\<lambda>no. after [
            inode_release sp cur no, sys_free io_buf] (ret 0)))))))"

end
