(* ===== verification/File_Ops.thy ===== *)
theory File_Ops
  imports Dir
begin

text \<open>
  \<^verbatim>\<open>fs/file.c\<close>: creating, opening, closing, writing and reading files. Its tables of descriptors and its
  bitmap routines are in Fs_State.
\<close>

section \<open>Creating, opening and closing\<close>

text \<open>
  The rollback of \<^verbatim>\<open>file_create\<close>: from \<open>step\<close> on the cases fall through, then the buffer is freed.
\<close>

definition create_rollback :: "nat \<Rightarrow> addr \<Rightarrow> addr \<Rightarrow> u32 \<Rightarrow> addr \<Rightarrow> ('a fsys_scheme, u32) prog" where
  "create_rollback step slot inode no io_buf =
     pbind (reads cur_partition) (\<lambda>cur. after [
       whenp (step \<ge> 3) (upd_file slot (\<lambda>f. f\<lparr>fd_pos := 0, fd_flag := 0, fd_inode := NULL\<rparr>)),
       whenp (step \<ge> 2) (sys_free inode),
       free_inode_bit cur no,
       sys_free io_buf]
      (ret (- 1)))"

text \<open>From the new directory entry on; the local \<^verbatim>\<open>new_dir_entry\<close> is at \<open>de\<close>.\<close>

definition create_entry :: "addr \<Rightarrow> addr \<Rightarrow> addr \<Rightarrow> addr \<Rightarrow> u32 \<Rightarrow> addr \<Rightarrow> addr \<Rightarrow> u32 \<Rightarrow> addr \<Rightarrow> ('a fsys_scheme, u32) prog" where
  "create_entry sp de parent_dir filename no inode slot fd_table_idx io_buf =
     after [on_mem (memset de 0 sizeof_dir_entry),
       create_dir_entry filename no 1 de]
     (pbind (sync_dir_entry sp parent_dir de io_buf) (\<lambda>ok.
       if \<not> ok
       then pseq (say sp ''in file_create: sync_dir_entry failed.\<newline>'' []) (create_rollback 3 slot inode no io_buf)
       else
         pbind (reads cur_partition) (\<lambda>cur.
         pbind (reads (\<lambda>s. dir_inode (dirs s parent_dir))) (\<lambda>parent_inode. after [
           on_mem (memset io_buf 0 1024),
           inode_sync sp cur parent_inode io_buf,
           on_mem (memset io_buf 0 1024),
           inode_sync sp cur inode io_buf,
           bitmap_sync sp cur no INODE_BITMAP,
           modifies (list_push (open_inodes cur) (inode_tag inode)),
           poke (i_open_cnts inode) 1,
           sys_free io_buf]
          (pcb_fd_install sp fd_table_idx)))))"

definition file_create :: "addr \<Rightarrow> addr \<Rightarrow> addr \<Rightarrow> u8 \<Rightarrow> ('a fsys_scheme, u32) prog" where
  "file_create sp0 parent_dir filename flag =
     (let de = sp0 - sizeof_dir_entry; sp = de in
      pbind (sys_malloc 1024) (\<lambda>io_buf.
      if io_buf = NULL
      then pseq (say sp ''in file_create: sys_malloc for io_buf failed.\<newline>'' []) (ret (- 1))
      else pbind (reads cur_partition) (\<lambda>cur. pbind (inode_bitmap_alloc cur) (\<lambda>no.
      if no = - 1 then pseq (say sp ''alloc inode bitmap failed\<newline>'' []) (ret (- 1))
      else pbind (sys_malloc sizeof_inode) (\<lambda>inode.
      if inode = NULL
      then pseq (say sp ''file_create: sys_malloc for inode failed.\<newline>'' []) (create_rollback 1 NULL inode no io_buf)
      else pseq (inode_init no inode) (pbind (get_free_slot_in_global sp) (\<lambda>fd_table_idx.
      if fd_table_idx = - 1
      then pseq (say sp ''in file_create: get_free_lsot_in_global failed.\<newline>'' []) (create_rollback 2 NULL inode no io_buf)
      else pbind (reads (\<lambda>s. file_at s fd_table_idx)) (\<lambda>slot. after [
        upd_file slot (\<lambda>f. f\<lparr>fd_inode := inode\<rparr>),
        upd_file slot (\<lambda>f. f\<lparr>fd_pos := 0\<rparr>),
        upd_file slot (\<lambda>f. f\<lparr>fd_flag := ucast flag\<rparr>),
        poke (write_deny inode) 0]
       (create_entry sp de parent_dir filename no inode slot fd_table_idx io_buf)))))))))"

definition writable :: "u32 \<Rightarrow> bool" where
  "writable flag \<longleftrightarrow> flag AND 1 \<noteq> 0 \<or> flag AND 2 \<noteq> 0"

definition file_open :: "addr \<Rightarrow> u32 \<Rightarrow> u8 \<Rightarrow> ('a fsys_scheme, u32) prog" where
  "file_open sp inode_no flag =
     pbind (get_free_slot_in_global sp) (\<lambda>fd_idx.
     if fd_idx = - 1 then pseq (say sp ''exceed max open files'' []) (ret (- 1))
     else pbind (reads (\<lambda>s. (cur_partition s, file_at s fd_idx))) (\<lambda>(cur, slot).
     pbind (inode_open sp cur inode_no) (\<lambda>inode. after [
       upd_file slot (\<lambda>f. f\<lparr>fd_inode := inode\<rparr>),
       upd_file slot (\<lambda>f. f\<lparr>fd_pos := 0\<rparr>),
       upd_file slot (\<lambda>f. f\<lparr>fd_flag := ucast flag\<rparr>)]
      (if writable (ucast flag)
       then (\<lambda>s. let (old_status, s1) = disable_intr s in
         if load_u32 (write_deny inode) (mem s1) = 0
         then after [poke (write_deny inode) 1, modifies (\<lambda>t. snd (set_intr_status old_status t))]
                (pcb_fd_install sp fd_idx) s1
         else after [modifies (\<lambda>t. snd (set_intr_status old_status t)),
                say sp ''file can't be written now, try again later\<newline>'' []] (ret (- 1)) s1)
       else pcb_fd_install sp fd_idx))))"

definition file_close :: "addr \<Rightarrow> ('a fsys_scheme, u32) prog" where
  "file_close f =
     (if f = NULL then ret (- 1)
      else pbind (reads (\<lambda>s. fd_inode (files s f))) (\<lambda>inode. after [
        poke (write_deny inode) 0,
        inode_close inode,
        upd_file f (\<lambda>r. r\<lparr>fd_inode := NULL\<rparr>)]
       (ret 0)))"

section \<open>Writing\<close>

text \<open>\<^verbatim>\<open>block_bitmap_idx\<close> is a \<^verbatim>\<open>uint8_t\<close>.\<close>

definition new_block_idx :: "u32 \<Rightarrow> ('a fsys_scheme, u8) prog" where
  "new_block_idx block_lba =
     reads (\<lambda>s. ucast (block_lba - sb_field (cur_partition s) sb_data_start_lba s))"

text \<open>
  The loops that allocate the blocks from \<open>block_idx\<close> up to \<open>file_will_use_blocks\<close>; \<open>put\<close> stores the
  address of a new block, \<open>msg\<close> is printed if there is none, and then the value is \<open>False\<close>.
\<close>

definition alloc_blocks :: "addr \<Rightarrow> string \<Rightarrow> (u32 \<Rightarrow> u32 \<Rightarrow> ('a fsys_scheme, unit) prog) \<Rightarrow> u32 \<Rightarrow> u32 \<Rightarrow> ('a fsys_scheme, bool) prog" where
  "alloc_blocks sp msg put file_will_use_blocks = kiter (\<lambda>block_idx.
     if block_idx < file_will_use_blocks
     then pbind (reads cur_partition) (\<lambda>cur. pbind (block_bitmap_alloc cur) (\<lambda>block_lba.
       if block_lba = - 1 then pseq (say sp msg []) (leave False)
       else pseq (put block_idx block_lba)
           (pbind (new_block_idx block_lba) (\<lambda>idx.
             pseq (bitmap_sync sp cur (ucast idx) BLOCK_BITMAP) (again (block_idx + 1))))))
     else leave True)"

definition put_direct :: "addr \<Rightarrow> addr \<Rightarrow> u32 \<Rightarrow> u32 \<Rightarrow> ('a machine_scheme, unit) prog" where
  "put_direct inode all_blocks block_idx block_lba =
     pbind (peek (i_sectors inode block_idx)) (\<lambda>old. steps [
       demand (old = 0) ''file->fd_inode->i_sectors[block_idx] == 0'',
       poke (all_blocks + 4 * block_idx) block_lba,
       poke (i_sectors inode block_idx) block_lba])"

definition put_indirect :: "addr \<Rightarrow> u32 \<Rightarrow> u32 \<Rightarrow> ('a machine_scheme, unit) prog" where
  "put_indirect all_blocks block_idx block_lba = poke (all_blocks + 4 * block_idx) block_lba"

definition copy_block_addr :: "addr \<Rightarrow> addr \<Rightarrow> u32 \<Rightarrow> ('a machine_scheme, unit) prog" where
  "copy_block_addr inode all_blocks block_idx =
     pbind (peek (i_sectors inode block_idx)) (poke (all_blocks + 4 * block_idx))"

definition indirect_must_exist :: "addr \<Rightarrow> string \<Rightarrow> ('a machine_scheme, unit) prog" where
  "indirect_must_exist inode msg = pbind (peek (i_sectors inode 12)) (\<lambda>t. demand (t \<noteq> 0) msg)"

definition read_table :: "addr \<Rightarrow> addr \<Rightarrow> addr \<Rightarrow> ('a fsys_scheme, unit) prog" where
  "read_table sp inode all_blocks =
     pbind (peek (i_sectors inode 12)) (\<lambda>table. pbind (reads (\<lambda>s. the_disk (cur_partition s) s)) (\<lambda>hdisk.
       ide_read sp hdisk table (all_blocks + 48) 1))"

definition write_table :: "addr \<Rightarrow> u32 \<Rightarrow> addr \<Rightarrow> ('a fsys_scheme, unit) prog" where
  "write_table sp table all_blocks =
     pbind (reads (\<lambda>s. the_disk (cur_partition s) s)) (\<lambda>hdisk. ide_write sp hdisk table (all_blocks + 48) 1)"

text \<open>
  Collecting the addresses of the blocks to be written in \<open>all_blocks\<close>, with new blocks where the file
  grows: the direct blocks suffice (situation 1), the file grows into the indirect table (2), or it
  is there already (3, whose loop starts at block 0). \<open>False\<close>: a block could not be allocated.
\<close>

definition collect_blocks :: "addr \<Rightarrow> addr \<Rightarrow> addr \<Rightarrow> u32 \<Rightarrow> u32 \<Rightarrow> ('a fsys_scheme, bool) prog" where
  "collect_blocks sp inode all_blocks has will =
     (if will - has = 0
      then if will \<le> 12 then pseq (copy_block_addr inode all_blocks (has - 1)) (ret True)
           else after [indirect_must_exist inode ''file->fd_inode->i_sectors[12] != 0'', read_table sp inode all_blocks]
                 (ret True)
      else if will \<le> 12
      then pseq (pbind (peek (i_sectors inode (has - 1))) (\<lambda>lba.
               demand (lba \<noteq> 0) ''file->fd_inode->i_sectors[block_idx] != 0''))
          (pseq (copy_block_addr inode all_blocks (has - 1))
            (alloc_blocks sp ''file_write: block_bitmap_alloc for situation 1 failed\<newline>'' (put_direct inode all_blocks) will has))
      else if has \<le> 12 \<and> will > 12
      then pseq (copy_block_addr inode all_blocks (has - 1))
          (pbind (reads cur_partition) (\<lambda>cur. pbind (block_bitmap_alloc cur) (\<lambda>table.
            if table = - 1
            then pseq (say sp ''file_write: block_bitmap_alloc for situation2 failed\<newline>'' []) (ret False)
            else pseq (pbind (peek (i_sectors inode 12)) (\<lambda>t. demand (t = 0) ''file->fd_inode->i_sectors[12] == 0''))
                (pseq (poke (i_sectors inode 12) table)
                (pbind (alloc_blocks sp ''file_write: block_bitmap_alloc for situation 2 failed\<newline>''
                     (\<lambda>block_idx. if block_idx < 12 then put_direct inode all_blocks block_idx
                        else put_indirect all_blocks block_idx) will has) (\<lambda>ok.
                  if ok then pseq (write_table sp table all_blocks) (ret True) else ret False))))))
      else if has > 12
      then after [indirect_must_exist inode ''file->fd_inode->i_sectors[12] != 0'', read_table sp inode all_blocks]
          (pbind (peek (i_sectors inode 12)) (\<lambda>table.
            pbind (alloc_blocks sp ''file_write: block_bitmap_alloc for situation 2 failed\<newline>'' (put_indirect all_blocks) will 0) (\<lambda>ok.
              if ok then pseq (write_table sp table all_blocks) (ret True) else ret False)))
      else ret True)"

definition write_loop :: "addr \<Rightarrow> addr \<Rightarrow> addr \<Rightarrow> addr \<Rightarrow> addr \<Rightarrow> u32 \<Rightarrow> addr \<Rightarrow> ('a fsys_scheme, u32) prog" where
  "write_loop sp f inode io_buf all_blocks count src0 =
     kiter (\<lambda>(src, bytes_written, size_left, first_write_block).
       if bytes_written < count
       then pseq (on_mem (memset io_buf 0 BLOCK_SIZE))
        (pbind (peek (i_size inode)) (\<lambda>size.
         let sec_idx = size div BLOCK_SIZE in
         pbind (peek (all_blocks + 4 * sec_idx)) (\<lambda>sec_lba.
         let sec_off_bytes = size mod BLOCK_SIZE; sec_left_bytes = BLOCK_SIZE - sec_off_bytes;
             chunk_size = (if size_left < sec_left_bytes then size_left else sec_left_bytes) in
         pbind (reads (\<lambda>s. the_disk (cur_partition s) s)) (\<lambda>hdisk. after [
           whenp first_write_block (ide_read sp hdisk sec_lba io_buf 1),
           on_mem (memcpy (io_buf + sec_off_bytes) src chunk_size),
           ide_write sp hdisk sec_lba io_buf 1,
           say sp ''file write at lba 0x%x\<newline>'' [sec_lba],
           pbind (peek (i_size inode)) (\<lambda>n. poke (i_size inode) (n + chunk_size)),
           upd_file f (\<lambda>r. r\<lparr>fd_pos := fd_pos r + chunk_size\<rparr>)]
          (again (src + chunk_size, bytes_written + chunk_size, size_left - chunk_size, False))))))
       else leave bytes_written) (src0, 0, count, True)"

text \<open>The first block of an empty file; \<open>False\<close> if there is none.\<close>

definition first_block :: "addr \<Rightarrow> addr \<Rightarrow> ('a fsys_scheme, bool) prog" where
  "first_block sp inode =
     pbind (peek (i_sectors inode 0)) (\<lambda>lba.
     if lba \<noteq> 0 then ret True
     else pbind (reads cur_partition) (\<lambda>cur. pbind (block_bitmap_alloc cur) (\<lambda>block_lba.
       if block_lba = - 1
       then pseq (say sp ''file_write: block_bitmap_alloc for block_lba failed\<newline>'' []) (ret False)
       else pseq (poke (i_sectors inode 0) block_lba)
           (pbind (new_block_idx block_lba) (\<lambda>idx. after [
             demand (idx \<noteq> 0) ''block_bitmap_idx != 0'',
             bitmap_sync sp cur (ucast idx) BLOCK_BITMAP] (ret True))))))"

definition file_write :: "addr \<Rightarrow> addr \<Rightarrow> addr \<Rightarrow> u32 \<Rightarrow> ('a fsys_scheme, u32) prog" where
  "file_write sp f src count =
     pbind (reads (\<lambda>s. fd_inode (files s f))) (\<lambda>inode.
     pbind (peek (i_size inode)) (\<lambda>size0.
     if size0 + count > BLOCK_SIZE * 140
     then pseq (say sp ''exceed max file size 71689 bytes, write file failed.\<newline>'' []) (ret (- 1))
     else pbind (sys_malloc 512) (\<lambda>io_buf.
     if io_buf = NULL then pseq (say sp ''file_write: sys_malloc for io_buf failed\<newline>'' []) (ret (- 1))
     else pbind (sys_malloc (BLOCK_SIZE + 48)) (\<lambda>all_blocks.
     if all_blocks = NULL then pseq (say sp ''file_write: sys_malloc for all_block failed\<newline>'' []) (ret (- 1))
     else pbind (first_block sp inode) (\<lambda>ok.
     if \<not> ok then ret (- 1)
     else pbind (peek (i_size inode)) (\<lambda>size.
       let has = size div BLOCK_SIZE + 1; will = (size + count) div BLOCK_SIZE + 1 in
       pseq (demand (will \<le> 140) ''file_will_use_blocks <= 140'')
      (pbind (collect_blocks sp inode all_blocks has will) (\<lambda>ok.
       if \<not> ok then ret (- 1)
       else pseq (pbind (peek (i_size inode)) (\<lambda>n. upd_file f (\<lambda>r. r\<lparr>fd_pos := n - 1\<rparr>)))
        (pbind (write_loop sp f inode io_buf all_blocks count src) (\<lambda>bytes_written.
         pbind (reads cur_partition) (\<lambda>cur. after [
           inode_sync sp cur inode io_buf,
           sys_free all_blocks,
           sys_free io_buf] (ret bytes_written))))))))))))"

section \<open>Reading\<close>

definition copy_range :: "addr \<Rightarrow> addr \<Rightarrow> (u32 \<Rightarrow> bool) \<Rightarrow> u32 \<Rightarrow> ('a machine_scheme, unit) prog" where
  "copy_range inode all_blocks cond = kiter (\<lambda>block_idx.
     if cond block_idx then pseq (copy_block_addr inode all_blocks block_idx) (again (block_idx + 1))
     else leave ())"

definition collect_for_read :: "addr \<Rightarrow> addr \<Rightarrow> addr \<Rightarrow> u32 \<Rightarrow> u32 \<Rightarrow> ('a fsys_scheme, unit) prog" where
  "collect_for_read sp inode all_blocks start_idx end_idx =
     (if end_idx - start_idx = 0
      then pseq (demand (end_idx = start_idx) ''block_read_end_idx == block_read_start_idx'')
            (if end_idx < 12 then copy_block_addr inode all_blocks end_idx else read_table sp inode all_blocks)
      else if end_idx < 12 then copy_range inode all_blocks (\<lambda>i. i \<le> end_idx) start_idx
      else if start_idx < 12 \<and> end_idx \<ge> 12
      then steps [copy_range inode all_blocks (\<lambda>i. i < 12) start_idx,
             indirect_must_exist inode ''file->fd_inode->i_sectors[12]!=0'',
             read_table sp inode all_blocks]
      else steps [indirect_must_exist inode ''file->fd_inode->i_sectors[12]!=0'',
             read_table sp inode all_blocks])"

definition read_loop :: "addr \<Rightarrow> addr \<Rightarrow> addr \<Rightarrow> addr \<Rightarrow> addr \<Rightarrow> u32 \<Rightarrow> addr \<Rightarrow> ('a fsys_scheme, u32) prog" where
  "read_loop sp f inode io_buf all_blocks size0 dst0 =
     kiter (\<lambda>(dst, bytes_read, size_left).
       if bytes_read < size0
       then pbind (reads (\<lambda>s. fd_pos (files s f))) (\<lambda>pos.
         pbind (peek (all_blocks + 4 * (pos div BLOCK_SIZE))) (\<lambda>sec_lba.
         pbind (peek (i_size inode)) (\<lambda>size.
         let sec_off_bytes = pos mod BLOCK_SIZE; sec_left_bytes = size - sec_off_bytes;
             chunk_size = (if size_left < sec_left_bytes then size_left else sec_left_bytes) in
         pbind (reads (\<lambda>s. the_disk (cur_partition s) s)) (\<lambda>hdisk. after [
           on_mem (memset io_buf 0 BLOCK_SIZE),
           ide_read sp hdisk sec_lba io_buf 1,
           on_mem (memcpy dst (io_buf + sec_off_bytes) chunk_size),
           upd_file f (\<lambda>r. r\<lparr>fd_pos := fd_pos r + chunk_size\<rparr>)]
          (again (dst + chunk_size, bytes_read + chunk_size, size_left - chunk_size))))))
       else leave bytes_read) (dst0, 0, size0)"

text \<open>The read begins with the number of bytes that are left in the file if fewer than \<open>count\<close> are.\<close>

definition file_read :: "addr \<Rightarrow> addr \<Rightarrow> addr \<Rightarrow> u32 \<Rightarrow> ('a fsys_scheme, u32) prog" where
  "file_read sp f dst count =
     pbind (reads (\<lambda>s. (fd_inode (files s f), fd_pos (files s f)))) (\<lambda>(inode, pos).
     pbind (peek (i_size inode)) (\<lambda>isize.
     let size0 = (if pos + count > isize then isize - pos else count) in
     if pos + count > isize \<and> size0 = 0 then ret (- 1)
     else pbind (sys_malloc BLOCK_SIZE) (\<lambda>io_buf.
       pseq (whenp (io_buf = NULL) (say sp ''file_read: sys_malloc for io_buf failed\<newline>'' []))
      (pbind (sys_malloc (BLOCK_SIZE + 48)) (\<lambda>all_blocks.
       if all_blocks = NULL then pseq (say sp ''file_read: sys_malloc for all_blocks failed\<newline>'' []) (ret (- 1))
       else pbind (reads (\<lambda>s. fd_pos (files s f))) (\<lambda>pos.
         let start_idx = pos div BLOCK_SIZE; end_idx = (pos + size0) div BLOCK_SIZE in after [
           demand (start_idx < 139 \<and> end_idx < 139) ''block_read_start_idx < 139 && block_read_end_idx <139'',
           collect_for_read sp inode all_blocks start_idx end_idx]
        (pbind (read_loop sp f inode io_buf all_blocks size0 dst) (\<lambda>bytes_read. after [
           sys_free all_blocks,
           sys_free io_buf] (ret bytes_read)))))))))"

end
