(* ===== verification/Fs.thy ===== *)
theory Fs
  imports File_Ops
begin

text \<open>
  \<^verbatim>\<open>fs/fs.c\<close>: formatting and mounting a partition, resolving path names, and the system calls on files
  and directories.
\<close>

section \<open>Mounting\<close>

definition alloc_or_panic :: "u32 \<Rightarrow> string \<Rightarrow> ('a kmem_scheme, addr) prog" where
  "alloc_or_panic n msg = pbind (sys_malloc n) (\<lambda>p. if p = NULL then stop (PANIC msg) else ret p)"

text \<open>Reading a bitmap of the partition; \<open>lba_off\<close> and \<open>sects_off\<close> are members of the super block at \<open>sb_buf\<close>.\<close>

definition load_bitmap :: "addr \<Rightarrow> addr \<Rightarrow> addr \<Rightarrow> u32 \<Rightarrow> u32 \<Rightarrow> (bitmap \<Rightarrow> ('a ide_scheme, unit) prog) \<Rightarrow> ('a ide_scheme, unit) prog" where
  "load_bitmap sp hdisk sb_buf lba_off sects_off put =
     pbind (peek (sb_buf + sects_off)) (\<lambda>sects.
     pbind (alloc_or_panic (sects * SECTOR_SIZE) ''alloc memory failed'') (\<lambda>p.
     pseq (put \<lparr>btmp_bytes_len = sects * SECTOR_SIZE, bits = p\<rparr>)
      (pbind (peek (sb_buf + lba_off)) (\<lambda>lba. ide_read sp hdisk lba p sects))))"

definition mount_partition :: "addr \<Rightarrow> addr \<Rightarrow> u32 \<Rightarrow> ('a fsys_scheme, bool) prog" where
  "mount_partition sp pelem arg =
     (let part = part_of_tag pelem in
      pbind (of_mem (strcmp (part_name part) arg)) (\<lambda>r.
      if r \<noteq> 0 then ret False
      else pseq (modifies (\<lambda>s. s\<lparr>cur_partition := part\<rparr>))
       (pbind (reads (the_disk part)) (\<lambda>hdisk.
        pbind (sys_malloc SECTOR_SIZE) (\<lambda>sb_buf.
        pbind (alloc_or_panic 512 ''alloc memory failed!'') (\<lambda>sb_mem.
        pbind (reads (\<lambda>s. start_lba (partitions s part))) (\<lambda>base. after [
          upd_part part (\<lambda>p. p\<lparr>sb := sb_mem\<rparr>),
          on_mem (memset sb_buf 0 SECTOR_SIZE),
          ide_read sp hdisk (base + 1) sb_buf 1,
          on_mem (memcpy sb_mem sb_buf 512),
          load_bitmap sp hdisk sb_buf sb_block_bitmap_lba sb_block_bitmap_sects
            (\<lambda>b. upd_part part (\<lambda>p. p\<lparr>block_bitmap := b\<rparr>)),
          load_bitmap sp hdisk sb_buf sb_inode_bitmap_lba sb_inode_bitmap_sects
            (\<lambda>b. upd_part part (\<lambda>p. p\<lparr>inode_bitmap := b\<rparr>)),
          modifies (list_init (open_inodes part)),
          say sp ''mount %s done!\<newline>'' [part_name part]]
         (ret True))))))))"

section \<open>Formatting\<close>

text \<open>The layout of a file system on a partition: the super block that \<^verbatim>\<open>partition_format\<close> writes.\<close>

record super_block =
  f_sec_cnt :: u32
  f_part_lba_base :: u32
  f_block_bitmap_lba :: u32
  f_block_bitmap_sects :: u32
  f_inode_bitmap_lba :: u32
  f_inode_bitmap_sects :: u32
  f_inode_table_lba :: u32
  f_inode_table_sects :: u32
  f_data_start_lba :: u32

abbreviation (input) MAX_FILES_PER_PART :: u32 where "MAX_FILES_PER_PART \<equiv> 4096"
abbreviation (input) BITS_PER_SECTOR :: u32 where "BITS_PER_SECTOR \<equiv> 4096"

definition format_free_sects :: "u32 \<Rightarrow> u32" where
  "format_free_sects sects =
     sects - (1 + 1 + DIV_ROUND_UP MAX_FILES_PER_PART BITS_PER_SECTOR +
       DIV_ROUND_UP (sizeof_inode * MAX_FILES_PER_PART) SECTOR_SIZE)"

definition block_bitmap_bit_len :: "u32 \<Rightarrow> u32" where
  "block_bitmap_bit_len sects =
     (let free_sects = format_free_sects sects in free_sects - DIV_ROUND_UP free_sects BITS_PER_SECTOR)"

definition format_layout :: "u32 \<Rightarrow> u32 \<Rightarrow> super_block" where
  "format_layout base sects =
     (let bb_lba = base + 2;
          bb_sects = DIV_ROUND_UP (block_bitmap_bit_len sects) BITS_PER_SECTOR;
          ib_lba = bb_lba + bb_sects;
          ib_sects = DIV_ROUND_UP MAX_FILES_PER_PART BITS_PER_SECTOR;
          it_lba = ib_lba + ib_sects;
          it_sects = DIV_ROUND_UP (sizeof_inode * MAX_FILES_PER_PART) SECTOR_SIZE
      in \<lparr>f_sec_cnt = sects, f_part_lba_base = base, f_block_bitmap_lba = bb_lba, f_block_bitmap_sects = bb_sects,
          f_inode_bitmap_lba = ib_lba, f_inode_bitmap_sects = ib_sects, f_inode_table_lba = it_lba,
          f_inode_table_sects = it_sects, f_data_start_lba = it_lba + it_sects\<rparr>)"

text \<open>The members of the local \<^verbatim>\<open>struct super_block sb\<close> in order; the padding is not initialised.\<close>

definition super_block_words :: "super_block \<Rightarrow> u32 list" where
  "super_block_words l =
     [0x19590318, f_sec_cnt l, MAX_FILES_PER_PART, f_part_lba_base l, f_block_bitmap_lba l, f_block_bitmap_sects l,
      f_inode_bitmap_lba l, f_inode_bitmap_sects l, f_inode_table_lba l, f_inode_table_sects l, f_data_start_lba l,
      0, sizeof_dir_entry]"

definition write_words :: "addr \<Rightarrow> u32 list \<Rightarrow> ('a machine_scheme, unit) prog" where
  "write_words a ws = modifies (\<lambda>s. s\<lparr>mem := store_words a ws (mem s)\<rparr>)"

definition format_buf_size :: "super_block \<Rightarrow> u32" where
  "format_buf_size l =
     (let n = (if f_block_bitmap_sects l \<ge> f_inode_bitmap_sects l then f_block_bitmap_sects l else f_inode_bitmap_sects l)
      in (if n \<ge> f_inode_table_sects l then n else f_inode_table_sects l) * SECTOR_SIZE)"

definition or_byte :: "addr \<Rightarrow> u8 \<Rightarrow> ('a machine_scheme, unit) prog" where
  "or_byte a v = modifies (\<lambda>s. s\<lparr>mem := (mem s)(a := mem s a OR v)\<rparr>)"

definition and_byte :: "addr \<Rightarrow> u8 \<Rightarrow> ('a machine_scheme, unit) prog" where
  "and_byte a v = modifies (\<lambda>s. s\<lparr>mem := (mem s)(a := mem s a AND v)\<rparr>)"

text \<open>
  The block bitmap in the buffer at \<open>b\<close>: block 0 is taken, and from the byte with the last bit on the
  sector is set to ones; then the bits up to and including \<open>bit_len % 8\<close> of that byte are cleared.
\<close>

definition format_block_bitmap :: "u32 \<Rightarrow> addr \<Rightarrow> ('a machine_scheme, unit) prog" where
  "format_block_bitmap bit_len b =
     (let last_byte = bit_len div 8; last_bit = ucast (bit_len mod 8) :: u8;
          last_size = SECTOR_SIZE - last_byte mod SECTOR_SIZE in steps [
        or_byte b 0x01,
        on_mem (memset (b + last_byte) 0xff last_size),
        kiter (\<lambda>bit_idx :: u8. if bit_idx \<le> last_bit
          then pseq (and_byte (b + last_byte) (NOT (push_bit (unat bit_idx) 1))) (again (bit_idx + 1))
          else leave ()) 0])"

text \<open>The entry at \<open>de\<close> for a directory, its name the \<open>n\<close> bytes of the literal \<open>name\<close>.\<close>

definition put_dir_entry :: "addr \<Rightarrow> string \<Rightarrow> u32 \<Rightarrow> u32 \<Rightarrow> ('a image_scheme, unit) prog" where
  "put_dir_entry de name n no =
     pbind (reads (\<lambda>s. lits s name)) (\<lambda>lit. steps [
       on_mem (memcpy (de_filename de) lit n),
       poke (de_i_no de) no,
       poke (de_f_type de) FT_DIRECTORY])"

definition format_info :: string where
  "format_info = ''   magic:0x%x\<newline>   part_lba_base:0x%x\<newline>   all_sectors:0x%x\<newline>   inode_cnt:0x%x\<newline>   block_bitmap_lba:0x%x\<newline>   block_bitmap_sectors:0x%x\<newline>   inode_bitmap_lba:0x%x\<newline>   inode_bitmap_sectors:0x%x\<newline>   inode_table_lba:0x%x\<newline>   inode_table_sectors:0x%x\<newline>   data_start_lba:0x%x\<newline>''"

definition partition_format :: "addr \<Rightarrow> addr \<Rightarrow> ('a ide_scheme, unit) prog" where
  "partition_format sp0 part =
     (let sb_loc = sp0 - 512; sp = sb_loc in
      pbind (reads (\<lambda>s. partitions s part)) (\<lambda>p.
      let l = format_layout (start_lba p) (part_sec_cnt p); bit_len = block_bitmap_bit_len (part_sec_cnt p);
          hdisk = my_disk p; buf_size = format_buf_size l in
      after [
        write_words sb_loc (super_block_words l),
        say sp ''%s info: \<newline>'' [part_name part],
        say sp format_info [0x19590318, f_part_lba_base l, f_sec_cnt l, MAX_FILES_PER_PART, f_block_bitmap_lba l,
          f_block_bitmap_sects l, f_inode_bitmap_lba l, f_inode_bitmap_sects l, f_inode_table_lba l,
          f_inode_table_sects l, f_data_start_lba l],
        ide_write sp hdisk (start_lba p + 1) sb_loc 1,
        say sp ''super_block_lba: 0x%x\<newline>'' [start_lba p + 1]]
     (pbind (sys_malloc buf_size) (\<lambda>b. steps [
        format_block_bitmap bit_len b,
        ide_write sp hdisk (f_block_bitmap_lba l) b (f_block_bitmap_sects l),
        on_mem (memset b 0 buf_size),
        or_byte b 0x1,
        ide_write sp hdisk (f_inode_bitmap_lba l) b (f_inode_bitmap_sects l),
        on_mem (memset b 0 buf_size),
        poke (i_size b) (sizeof_dir_entry * 2),
        poke (i_no b) 0,
        poke (i_sectors b 0) (f_data_start_lba l),
        ide_write sp hdisk (f_inode_table_lba l) b (f_inode_table_sects l),
        on_mem (memset b 0 buf_size),
        put_dir_entry b ''.'' 1 0,
        put_dir_entry (b + sizeof_dir_entry) ''..'' 2 0,
        ide_write sp hdisk (f_data_start_lba l) b 1,
        say sp ''    root_dir_lba:0x%x\<newline>'' [f_data_start_lba l],
        say sp ''%s format done\<newline>'' [part_name part],
        sys_free b]))))"

text \<open>
  The partitions of the slave disk of a channel. \<open>part_idx\<close> is handed from disk to disk: the source sets
  it to 0 before the first disk only.
\<close>

definition scan_partitions :: "addr \<Rightarrow> addr \<Rightarrow> addr \<Rightarrow> u8 \<Rightarrow> ('a ide_scheme, u8) prog" where
  "scan_partitions sp sb_buf hdisk part_idx0 = kiter (\<lambda>(part_idx, part).
     if part_idx < 12
     then let part = (if part_idx = 4 then logical_partition hdisk 0 else part) in
       pseq (pbind (reads (\<lambda>s. partitions s part)) (\<lambda>p.
         whenp (part_sec_cnt p \<noteq> 0) (steps [
           on_mem (memset sb_buf 0 SECTOR_SIZE),
           ide_read sp hdisk (start_lba p + 1) sb_buf 1,
           pbind (peek (sb_buf + sb_magic)) (\<lambda>magic.
             if magic = 0x19590318 then say sp ''%s has filesystem\<newline>'' [part_name part]
             else steps [say sp ''formatting %s's partition %s...... \<newline>'' [hdisk, part_name part],
                    partition_format sp part])])))
        (again (part_idx + 1, part + 64))
     else leave part_idx) (part_idx0, primary_partition hdisk 0)"

text \<open>The local \<^verbatim>\<open>default_part\<close>, 8 bytes holding \<^verbatim>\<open>sdb1\<close>, is at the top of the stack.\<close>

definition filesys_init :: "addr \<Rightarrow> ('a fsys_scheme, unit) prog" where
  "filesys_init sp0 =
     (let default_part = sp0 - 8; sp = default_part in
      pbind (alloc_or_panic SECTOR_SIZE ''alloc memory failed!'') (\<lambda>sb_buf. steps [
        say sp ''searching filesystem......\<newline>'' [],
        kiter (\<lambda>(channel_no :: u8, part_idx).
          pbind (reads (\<lambda>s. (channel_cnt s, channels s))) (\<lambda>(cnt, chs).
          if channel_no < cnt
          then pbind (scan_partitions sp sb_buf (devices (channel_at chs (ucast channel_no)) 1) part_idx) (\<lambda>i.
                 again (channel_no + 1, i))
          else leave ())) (0, 0),
        sys_free sb_buf,
        write_words default_part [0x31626473, 0],
        pbind (reads partition_list) (\<lambda>l.
          pseq (list_traversal_prog l (mount_partition sp) default_part) (ret ())),
        pbind (reads cur_partition) (open_root_dir sp),
        kiter (\<lambda>fd_idx. if fd_idx < MAX_FILE_OPEN
          then pbind (reads (\<lambda>s. file_at s fd_idx)) (\<lambda>a.
                 pseq (upd_file a (\<lambda>f. f\<lparr>fd_inode := NULL\<rparr>)) (again (fd_idx + 1)))
          else leave ()) 0]))"

end
