(* ===== verification/Fs_Calls.thy ===== *)
theory Fs_Calls
  imports Fs
begin

text \<open>
  The second half of \<^verbatim>\<open>fs/fs.c\<close>: path names and the system calls. A \<^verbatim>\<open>struct path_search_record\<close> (520 bytes) has
  its path as bytes at its address; its other two members are passed and returned as values. Values of
  type \<^verbatim>\<open>int32_t\<close> are words, -1 among them.
\<close>

section \<open>Path names\<close>

definition skip_slashes :: "addr \<Rightarrow> ('a machine_scheme, addr) prog" where
  "skip_slashes = kiter (\<lambda>p. pbind (peek_byte (p + 1)) (\<lambda>c. if c = 0x2f then again (p + 1) else leave (p + 1)))"

definition copy_name :: "addr \<Rightarrow> addr \<Rightarrow> ('a machine_scheme, addr) prog" where
  "copy_name pathname name_store = kiter (\<lambda>(p, q). pbind (peek_byte p) (\<lambda>c.
     if c \<noteq> 0x2f \<and> c \<noteq> 0 then pseq (poke_byte q c) (again (p + 1, q + 1)) else leave p)) (pathname, name_store)"

definition path_parse :: "addr \<Rightarrow> addr \<Rightarrow> ('a machine_scheme, addr) prog" where
  "path_parse pathname name_store =
     pbind (peek_byte pathname) (\<lambda>c.
     pbind (if c = 0x2f then skip_slashes pathname else ret pathname) (\<lambda>p.
     pbind (copy_name p name_store) (\<lambda>p.
     pbind (peek_byte p) (\<lambda>c. ret (if c = 0 then NULL else p)))))"

text \<open>The local array \<^verbatim>\<open>name\<close> has 16 bytes and is not initialised.\<close>

definition path_depth_cnt :: "addr \<Rightarrow> addr \<Rightarrow> ('a machine_scheme, u32) prog" where
  "path_depth_cnt sp0 pathname =
     (let name = sp0 - 16 in
      pseq (demand (pathname \<noteq> NULL) ''pathname != NULL'')
     (pbind (path_parse pathname name) (\<lambda>p. kiter (\<lambda>(p, depth).
        pbind (peek_byte name) (\<lambda>c.
          if c \<noteq> 0
          then pseq (on_mem (memset name 0 16))
              (pbind (if p \<noteq> NULL then path_parse p name else ret p) (\<lambda>p. again (p, depth + 1)))
          else leave depth)) (p, 0))))"

record path_search_record =
  parent_dir :: addr
  file_type :: u32

definition streq_lit :: "addr \<Rightarrow> string \<Rightarrow> ('a image_scheme, bool) prog" where
  "streq_lit p lit = pbind (reads (\<lambda>s. lits s lit)) (\<lambda>q. pbind (of_mem (strcmp p q)) (\<lambda>r. ret (r = 0)))"

text \<open>\<^verbatim>\<open>!strcmp(p, "/") || !strcmp(p, "/.") || !strcmp(p, "/..")\<close>\<close>

definition is_root_path :: "addr \<Rightarrow> ('a image_scheme, bool) prog" where
  "is_root_path p =
     pbind (streq_lit p ''/'') (\<lambda>a. if a then ret True
       else pbind (streq_lit p ''/.'') (\<lambda>b. if b then ret True else streq_lit p ''/..''))"

definition strcat_prog :: "addr \<Rightarrow> addr \<Rightarrow> ('a machine_scheme, unit) prog" where
  "strcat_prog dst src = pseq (on_mem_val (strcat dst src)) (ret ())"

text \<open>
  The walk of \<^verbatim>\<open>search_file\<close> along the path: locals are the rest of the path, the directory reached and the
  number of its parent. It leaves with the value to be returned, or with \<open>Inr\<close> of the parent's number
  at the end of the path.
\<close>

definition search_walk :: "addr \<Rightarrow> addr \<Rightarrow> addr \<Rightarrow> addr \<Rightarrow> addr \<Rightarrow> addr
    \<Rightarrow> ('a fsys_scheme, ((u32 \<times> u32) + u32) \<times> addr) prog" where
  "search_walk sp searched_path dir_e name sub_path0 root =
     kiter (\<lambda>(sub_path, pdir, parent_inode_no).
       pbind (peek_byte name) (\<lambda>c.
       if c = 0 then leave (Inr parent_inode_no, pdir)
       else pbind (of_mem (strlen searched_path)) (\<lambda>len.
         pbind (reads (\<lambda>s. (lits s ''/'', cur_partition s))) (\<lambda>(slash, cur). after [
           demand (len < 512) ''strlen(searched_record->searched_path) < 512'',
           strcat_prog searched_path slash,
           strcat_prog searched_path name]
        (pbind (search_dir_entry sp cur pdir name dir_e) (\<lambda>found.
         if \<not> found then leave (Inl (- 1, FT_UNKNOWN), pdir)
         else pseq (on_mem (memset name 0 16))
          (pbind (if sub_path \<noteq> NULL then path_parse sub_path name else ret sub_path) (\<lambda>sub_path.
           pbind (peek (de_f_type dir_e)) (\<lambda>t. pbind (peek (de_i_no dir_e)) (\<lambda>no.
             if t = FT_DIRECTORY
             then pbind (reads (\<lambda>s. load_u32 (i_no (dir_inode (dirs s pdir))) (mem s))) (\<lambda>parent_inode_no.
                    pseq (dir_close pdir) (pbind (dir_open sp cur no) (\<lambda>d. again (sub_path, d, parent_inode_no))))
             else if t = FT_REGULAR then leave (Inl (no, FT_REGULAR), pdir)
             else again (sub_path, pdir, parent_inode_no)))))))))))
     (sub_path0, root, 0)"

definition search_file :: "addr \<Rightarrow> addr \<Rightarrow> addr \<Rightarrow> ('a fsys_scheme, u32 \<times> path_search_record) prog" where
  "search_file sp0 pathname searched_path =
     (let dir_e = sp0 - sizeof_dir_entry; name = dir_e - 16; sp = name in
      pbind (is_root_path pathname) (\<lambda>is_root.
      pbind (reads root_dir) (\<lambda>root.
      if is_root
      then pseq (poke_byte searched_path 0) (ret (0, \<lparr>parent_dir = root, file_type = FT_DIRECTORY\<rparr>))
      else pbind (of_mem (strlen pathname)) (\<lambda>path_len.
        pbind (peek_byte pathname) (\<lambda>c. after [
          demand (c = 0x2f \<and> path_len < 512 \<and> path_len > 1)
            ''pathname[0] == '/' && path_len < MAX_PATH_LEN && path_len > 1'',
          clear_local name 16]
       (pbind (path_parse pathname name) (\<lambda>sub_path.
        pbind (search_walk sp searched_path dir_e name sub_path root) (\<lambda>(r, pdir).
        case r of
          Inl (no, t) \<Rightarrow> ret (no, \<lparr>parent_dir = pdir, file_type = t\<rparr>)
        | Inr parent_inode_no \<Rightarrow>
            pseq (dir_close pdir)
           (pbind (reads cur_partition) (\<lambda>cur.
            pbind (dir_open sp cur parent_inode_no) (\<lambda>d.
            pbind (peek (de_i_no dir_e)) (\<lambda>no.
              ret (no, \<lparr>parent_dir = d, file_type = FT_DIRECTORY\<rparr>)))))))))))))"

text \<open>\<^verbatim>\<open>memset(&searched_record, 0, sizeof(struct path_search_record)); search_file(pathname, &searched_record)\<close>\<close>

definition fresh_search :: "addr \<Rightarrow> addr \<Rightarrow> addr \<Rightarrow> ('a fsys_scheme, u32 \<times> path_search_record) prog" where
  "fresh_search sp pathname searched_path =
     pseq (on_mem (memset searched_path 0 520)) (search_file sp pathname searched_path)"

section \<open>Open, close, read, write, seek\<close>

abbreviation (input) O_CREAT :: u8 where "O_CREAT \<equiv> 4"

definition sys_open :: "addr \<Rightarrow> addr \<Rightarrow> u8 \<Rightarrow> ('a fsys_scheme, u32) prog" where
  "sys_open sp0 pathname flags =
     (let searched_path = sp0 - 520; sp = searched_path in
      pbind (of_mem (strlen pathname)) (\<lambda>len.
      pbind (peek_byte (pathname + (len - 1))) (\<lambda>c.
      if c = 0x2f then pseq (say sp ''can't open a directory %s \<newline>'' [pathname]) (ret (- 1))
      else pseq (demand (flags \<le> 7) ''flags <= 7'')
     (pseq (on_mem (memset searched_path 0 520))
     (pbind (path_depth_cnt sp pathname) (\<lambda>pathname_depth.
      pbind (search_file sp pathname searched_path) (\<lambda>(inode_no, r).
      let found = (inode_no \<noteq> - 1); fail = pseq (dir_close (parent_dir r)) (ret (- 1)) in
      if file_type r = FT_DIRECTORY
      then pseq (say sp ''can't open a directory with open(), use opendir() to instead\<newline>'' []) fail
      else pbind (path_depth_cnt sp searched_path) (\<lambda>path_searched_depth.
      if pathname_depth \<noteq> path_searched_depth
      then pseq (say sp ''cannot access %s : Not a directory, subpath %s is't exist\<newline>'' [pathname, searched_path]) fail
      else if \<not> found \<and> flags AND O_CREAT = 0
      then pbind (of_mem (strrchr searched_path 0x2f)) (\<lambda>p.
             pseq (say sp ''in path %s, file %s is't exist\<newline>'' [searched_path, p + 1]) fail)
      else if found \<and> flags AND O_CREAT \<noteq> 0
      then pseq (say sp ''%s has already exist!\<newline>'' [pathname]) fail
      else if flags AND O_CREAT \<noteq> 0
      then pseq (say sp ''creating file\<newline>'' [])
            (pbind (of_mem (strrchr pathname 0x2f)) (\<lambda>p.
             pbind (file_create sp (parent_dir r) (p + 1) flags) (\<lambda>fd.
               pseq (dir_close (parent_dir r)) (ret fd))))
      else file_open sp inode_no flags))))))))"

text \<open>
  \<^verbatim>\<open>cur->fd_table[local_fd]\<close>; the array has 8 elements, and behind it in the control block lies the element
  \<^verbatim>\<open>general_tag\<close> of the ready list.
\<close>

definition fd_word :: "addr \<Rightarrow> u32 \<Rightarrow> 'a threads_scheme \<Rightarrow> u32" where
  "fd_word cur i s =
     (if i < 8 then fd_table (tasks s cur) ! unat i
      else if i = 8 then front (nodes s (general_tag cur))
      else if i = 9 then nxt (nodes s (general_tag cur))
      else load_u32 (cur + 36 + 4 * i) (mem s))"

definition fd_local2global :: "u32 \<Rightarrow> ('a fsys_scheme, u32) prog" where
  "fd_local2global local_fd =
     pbind (reads (\<lambda>s. fd_word (running_thread s) local_fd s)) (\<lambda>global_fd.
       pseq (demand (sint global_fd \<ge> 0 \<and> sint global_fd < 32) ''global_fd >= 0 && global_fd < MAX_FILE_OPEN'')
        (ret global_fd))"

definition sys_close :: "u32 \<Rightarrow> ('a fsys_scheme, u32) prog" where
  "sys_close fd =
     (if sint fd > 2
      then pbind (fd_local2global fd) (\<lambda>g.
           pbind (reads (\<lambda>s. file_at s g)) (\<lambda>slot.
           pbind (file_close slot) (\<lambda>r.
             pseq (modifies (\<lambda>s. upd_task (running_thread s) (\<lambda>t. t\<lparr>fd_table := (fd_table t)[unat fd := - 1]\<rparr>) s))
              (ret r))))
      else ret (- 1))"

text \<open>The local \<^verbatim>\<open>tmp_buf\<close> has 1024 bytes; \<^verbatim>\<open>stdout_no\<close> is 1.\<close>

definition sys_write :: "addr \<Rightarrow> u32 \<Rightarrow> addr \<Rightarrow> u32 \<Rightarrow> ('a fsys_scheme, u32) prog" where
  "sys_write sp0 fd src count =
     (let tmp_buf = sp0 - 1024; sp = tmp_buf in
      if sint fd < 0 then pseq (say sp ''sys_write: fd error\<newline>'' []) (ret (- 1))
      else if fd = 1
      then after [clear_local tmp_buf 1024, on_mem (memcpy tmp_buf src count), console_put_str tmp_buf] (ret count)
      else pbind (fd_local2global fd) (\<lambda>g.
           pbind (reads (\<lambda>s. file_at s g)) (\<lambda>wr_file.
           pbind (reads (\<lambda>s. fd_flag (files s wr_file))) (\<lambda>flag.
             if writable flag then file_write sp wr_file src count
             else pbind (reads (\<lambda>s. lits s ''sys_write: not allowed to write file                 without flag O_RDWR or O_WRONLY\<newline>'')) (\<lambda>lit.
                    pseq (console_put_str lit) (ret (- 1)))))))"

definition sys_read :: "addr \<Rightarrow> u32 \<Rightarrow> addr \<Rightarrow> u32 \<Rightarrow> ('a fsys_scheme, u32) prog" where
  "sys_read sp fd dst count =
     (if sint fd < 0 then pseq (say sp ''sys_read: fd error\<newline>'' []) (ret (- 1))
      else pseq (demand (dst \<noteq> NULL) ''buf != NULL'')
          (pbind (fd_local2global fd) (\<lambda>g.
           pbind (reads (\<lambda>s. file_at s g)) (\<lambda>slot. file_read sp slot dst count))))"

text \<open>\<^verbatim>\<open>SEEK_SET\<close>, \<^verbatim>\<open>SEEK_CUR\<close> and \<^verbatim>\<open>SEEK_END\<close> are 1, 2 and 3; positions are computed as \<^verbatim>\<open>int32_t\<close>.\<close>

definition seek_pos :: "u8 \<Rightarrow> u32 \<Rightarrow> u32 \<Rightarrow> u32 \<Rightarrow> u32" where
  "seek_pos whence pos file_size offset =
     (if whence = 1 then offset else if whence = 2 then pos + offset else file_size + offset)"

definition sys_lseek :: "addr \<Rightarrow> u32 \<Rightarrow> u32 \<Rightarrow> u8 \<Rightarrow> ('a fsys_scheme, u32) prog" where
  "sys_lseek sp fd offset whence =
     (if sint fd < 0 then pseq (say sp ''sys_lseek: fd error\<newline>'' []) (ret (- 1))
      else pseq (demand (whence > 0 \<and> whence < 4) ''whence > 0 && whence < 4'')
          (pbind (fd_local2global fd) (\<lambda>g.
           pbind (reads (\<lambda>s. file_at s g)) (\<lambda>pf.
           pbind (reads (\<lambda>s. (fd_pos (files s pf), load_u32 (i_size (fd_inode (files s pf))) (mem s)))) (\<lambda>(pos, file_size).
             let new_pos = seek_pos whence pos file_size offset in
             if sint new_pos < 0 \<or> sint new_pos > sint (file_size - 1) then ret (- 1)
             else pseq (upd_file pf (\<lambda>f. f\<lparr>fd_pos := new_pos\<rparr>)) (reads (\<lambda>s. fd_pos (files s pf))))))))"

section \<open>Unlink and directories\<close>

text \<open>The index of an open file with the inode number, or 32.\<close>

definition find_open_file :: "u32 \<Rightarrow> ('a fsys_scheme, u32) prog" where
  "find_open_file inode_no = kiter (\<lambda>open_file_idx.
     pbind (reads (\<lambda>s. let i = fd_inode (files s (file_at s open_file_idx))
         in i \<noteq> NULL \<and> load_u32 (i_no i) (mem s) = inode_no)) (\<lambda>used.
       if open_file_idx < MAX_FILE_OPEN \<and> \<not> used then again (open_file_idx + 1) else leave open_file_idx)) 0"

definition sys_unlink :: "addr \<Rightarrow> addr \<Rightarrow> ('a fsys_scheme, u32) prog" where
  "sys_unlink sp0 pathname =
     (let searched_path = sp0 - 520; sp = searched_path in
      pbind (of_mem (strlen pathname)) (\<lambda>len.
      pseq (demand (len < 512) ''strlen(pathname) < MAX_PATH_LEN'')
     (pbind (fresh_search sp pathname searched_path) (\<lambda>(inode_no, r).
      let fail = pseq (dir_close (parent_dir r)) (ret (- 1)) in
      pseq (demand (inode_no \<noteq> 0) ''inode_no != 0'')
     (if inode_no = - 1 then pseq (say sp ''file %s not found!\<newline>'' [pathname]) fail
      else if file_type r = FT_DIRECTORY
      then pseq (say sp ''file %s is s directory, use remdir() to delete.\<newline>'' [pathname]) fail
      else pbind (find_open_file inode_no) (\<lambda>open_file_idx.
      if open_file_idx < MAX_FILE_OPEN
      then after [dir_close (parent_dir r),
             say sp ''file %s is in use, not allow to delete!\<newline>'' [pathname]] (ret (- 1))
      else pseq (demand (open_file_idx = MAX_FILE_OPEN) ''open_file_idx == MAX_FILE_OPEN'')
     (pbind (sys_malloc (SECTOR_SIZE * 2)) (\<lambda>io_buf.
      if io_buf = NULL
      then after [dir_close (parent_dir r), say sp ''sys_unlink: fail to malloc for io_buf\<newline>'' []] (ret (- 1))
      else pbind (reads cur_partition) (\<lambda>cur.
        pseq (delete_dir_entry sp cur (parent_dir r) inode_no io_buf)
       (after [inode_release sp cur inode_no, sys_free io_buf, dir_close (parent_dir r)] (ret 0)))))))))))"

text \<open>
  The rollback of \<open>sys_mkdir\<close>: step 2 clears the bit of \<open>inode_no\<close>, which is -1 if no inode was found; step
  1 closes the parent directory; neither does both.
\<close>

definition mkdir_rollback :: "nat \<Rightarrow> u32 \<Rightarrow> path_search_record \<Rightarrow> addr \<Rightarrow> ('a fsys_scheme, u32) prog" where
  "mkdir_rollback step inode_no r io_buf =
     pbind (reads cur_partition) (\<lambda>cur. after [
       if step = 2 then free_inode_bit cur inode_no else dir_close (parent_dir r),
       sys_free io_buf]
      (ret (- 1)))"

text \<open>
  From the new data block on. \<^verbatim>\<open>new_dir_inode\<close> is at \<open>inode\<close>, \<^verbatim>\<open>new_dir_entry\<close> at \<open>de\<close>;
  \<^verbatim>\<open>sizeof(SECTOR_SIZE * 2)\<close> is 4, the size of an \<^verbatim>\<open>int\<close>.
\<close>

definition mkdir_block :: "addr \<Rightarrow> addr \<Rightarrow> addr \<Rightarrow> addr \<Rightarrow> u32 \<Rightarrow> path_search_record \<Rightarrow> addr \<Rightarrow> u32 \<Rightarrow> ('a fsys_scheme, u32) prog" where
  "mkdir_block sp inode de dirname inode_no r io_buf block_lba =
     pbind (reads cur_partition) (\<lambda>cur.
     pbind (reads (\<lambda>s. (the_disk cur s, sb_field cur sb_data_start_lba s, sb_field cur sb_dir_entry_size s,
         dir_inode (dirs s (parent_dir r))))) (\<lambda>(hdisk, start, dir_entry_size, parent_inode).
     pseq (poke (i_sectors inode 0) block_lba)
    (let block_bitmap_idx = block_lba - start in after [
       demand (block_bitmap_idx \<noteq> 0) ''block_bitmap_idx != 0'',
       bitmap_sync sp cur block_bitmap_idx BLOCK_BITMAP,
       on_mem (memset io_buf 0 4),
       put_dir_entry io_buf ''.'' 1 inode_no,
       pbind (peek (i_no parent_inode)) (put_dir_entry (io_buf + sizeof_dir_entry) ''..'' 2),
       pbind (peek (i_sectors inode 0)) (\<lambda>lba. ide_write sp hdisk lba io_buf 1),
       poke (i_size inode) (2 * dir_entry_size),
       on_mem (memset de 0 sizeof_dir_entry),
       create_dir_entry dirname inode_no 2 de,
       on_mem (memset io_buf 0 (SECTOR_SIZE * 2))]
    (pbind (sync_dir_entry sp (parent_dir r) de io_buf) (\<lambda>ok.
     if \<not> ok
     then pseq (say sp ''sys_mkdir: sync_dir_entry to disk failed!\<newline>'' []) (mkdir_rollback 2 inode_no r io_buf)
     else after [
       on_mem (memset io_buf 0 (SECTOR_SIZE * 2)),
       inode_sync sp cur parent_inode io_buf,
       on_mem (memset io_buf 0 (SECTOR_SIZE * 2)),
       inode_sync sp cur inode io_buf,
       bitmap_sync sp cur inode_no INODE_BITMAP,
       sys_free io_buf,
       dir_close (parent_dir r)]
      (ret 0))))))"

definition sys_mkdir :: "addr \<Rightarrow> addr \<Rightarrow> ('a fsys_scheme, u32) prog" where
  "sys_mkdir sp0 pathname =
     (let searched_path = sp0 - 520; inode = searched_path - sizeof_inode; de = inode - sizeof_dir_entry; sp = de in
      pbind (sys_malloc (SECTOR_SIZE * 2)) (\<lambda>io_buf.
      if io_buf = NULL then pseq (say sp ''sys_mkdir: sys_malloc for io_buf failed\<newline>'' []) (ret (- 1))
      else pbind (fresh_search sp pathname searched_path) (\<lambda>(inode_no, r).
      if inode_no \<noteq> - 1
      then pseq (say sp ''sys_mkdir: file or directory %s exist!\<newline>'' [pathname]) (mkdir_rollback 1 inode_no r io_buf)
      else pbind (path_depth_cnt sp pathname) (\<lambda>pathname_depth.
      pbind (path_depth_cnt sp searched_path) (\<lambda>path_searched_depth.
      if pathname_depth \<noteq> path_searched_depth
      then pseq (say sp ''sys_mkdir:  cannot access %s: Not a directory,                 subpath %s is not exist\<newline>'' [pathname, searched_path])
            (mkdir_rollback 1 inode_no r io_buf)
      else pbind (of_mem (strrchr searched_path 0x2f)) (\<lambda>p. let dirname = p + 1 in
      pbind (reads cur_partition) (\<lambda>cur.
      pbind (inode_bitmap_alloc cur) (\<lambda>inode_no.
      if inode_no = - 1
      then pseq (say sp ''sys_mkdir: allocate inode failed\<newline>'' []) (mkdir_rollback 2 inode_no r io_buf)
      else pseq (inode_init inode_no inode)
     (pbind (block_bitmap_alloc cur) (\<lambda>block_lba.
      if block_lba = - 1
      then pseq (say sp ''sys_mkdir: block_bitmap_alloc for block_lba failed\<newline>'' []) (mkdir_rollback 2 inode_no r io_buf)
      else mkdir_block sp inode de dirname inode_no r io_buf block_lba))))))))))"

text \<open>The source tests \<^verbatim>\<open>name[0] == '.'\<close> where \<^verbatim>\<open>name[0]\<close> is known to be a slash, so only \<^verbatim>\<open>"/"\<close> takes the short way.\<close>

definition sys_opendir :: "addr \<Rightarrow> addr \<Rightarrow> ('a fsys_scheme, addr) prog" where
  "sys_opendir sp0 name =
     (let searched_path = sp0 - 520; sp = searched_path in
      pbind (of_mem (strlen name)) (\<lambda>len.
      pseq (demand (len < 512) ''strlen(name) < MAX_PATH_LEN'')
     (pbind (peek_byte name) (\<lambda>c0. pbind (peek_byte (name + 1)) (\<lambda>c1.
      if c0 = 0x2f \<and> (c1 = 0 \<or> c0 = 0x2e) then reads root_dir
      else pbind (fresh_search sp name searched_path) (\<lambda>(inode_no, r).
        pbind (if inode_no = - 1
          then pseq (say sp ''In %s, sub path %s not exist\<newline>'' [name, searched_path]) (ret NULL)
          else if file_type r = FT_REGULAR then pseq (say sp ''%s is regular file!\<newline>'' [name]) (ret NULL)
          else if file_type r = FT_DIRECTORY then pbind (reads cur_partition) (\<lambda>cur. dir_open sp cur inode_no)
          else ret NULL) (\<lambda>d.
        pseq (dir_close (parent_dir r)) (ret d))))))))"

definition sys_closedir :: "addr \<Rightarrow> ('a fsys_scheme, u32) prog" where
  "sys_closedir d = (if d \<noteq> NULL then pseq (dir_close d) (ret 0) else ret (- 1))"

definition sys_readdir :: "addr \<Rightarrow> addr \<Rightarrow> ('a fsys_scheme, addr) prog" where
  "sys_readdir sp d = pseq (demand (d \<noteq> NULL) ''dir!=NULL'') (dir_read sp d)"

definition sys_rewinddir :: "addr \<Rightarrow> ('a fsys_scheme, unit) prog" where
  "sys_rewinddir d = upd_dir d (\<lambda>r. r\<lparr>dir_pos := 0\<rparr>)"

text \<open>The local record is not cleared before \<open>search_file\<close> appends to its path.\<close>

definition sys_rmdir :: "addr \<Rightarrow> addr \<Rightarrow> ('a fsys_scheme, u32) prog" where
  "sys_rmdir sp0 pathname =
     (let searched_path = sp0 - 520; sp = searched_path in
      pbind (search_file sp pathname searched_path) (\<lambda>(inode_no, r).
      pbind (if inode_no = - 1
          then pseq (say sp ''sys_rmdir: %s isn't exist.\<newline>'' [pathname]) (ret (- 1))
          else if file_type r = FT_REGULAR
          then pseq (say sp ''sys_rmdir can't remove regular file, use sys_unlink!\<newline>'' []) (ret (- 1))
          else pbind (reads cur_partition) (\<lambda>cur. pbind (dir_open sp cur inode_no) (\<lambda>d.
            pbind (dir_is_empty d) (\<lambda>empty.
            pbind (if \<not> empty then pseq (say sp ''sys_rmdir: %s is not empty.!\<newline>'' [pathname]) (ret (- 1))
              else pbind (dir_remove sp (parent_dir r) d) (\<lambda>v. ret (if v = 0 then 0 else - 1))) (\<lambda>retval.
            pseq (dir_close d) (ret retval)))))) (\<lambda>retval.
      pseq (dir_close (parent_dir r)) (ret retval))))"

section \<open>The working directory\<close>

definition get_parent_dir_inode_nr :: "addr \<Rightarrow> u32 \<Rightarrow> addr \<Rightarrow> ('a fsys_scheme, u32) prog" where
  "get_parent_dir_inode_nr sp child_node_nr io_buf =
     pbind (reads cur_partition) (\<lambda>cur.
     pbind (inode_open sp cur child_node_nr) (\<lambda>inode.
     pbind (peek (i_sectors inode 0)) (\<lambda>block_lba.
     pbind (reads (\<lambda>s. (sb_field cur sb_data_start_lba s, the_disk cur s))) (\<lambda>(start, hdisk). after [
       demand (block_lba \<ge> start) ''block_lba >= cur_partition->sb->data_start_lba'',
       inode_close inode,
       ide_read sp hdisk block_lba io_buf 1]
      (let de = io_buf + sizeof_dir_entry in
       pbind (peek (de_i_no de)) (\<lambda>no. pbind (peek (de_f_type de)) (\<lambda>t.
         pseq (demand (no < 4096 \<and> t = FT_DIRECTORY) ''dir_e[1].i_no < 4096 && dir_e[1].f_type == FT_DIRECTORY'')
          (ret no))))))))"

definition find_inode_entry :: "u32 \<Rightarrow> u32 \<Rightarrow> addr \<Rightarrow> ('a machine_scheme, addr) prog" where
  "find_inode_entry dir_entrys_per_sec c_inode_nr dir_e = kiter (\<lambda>dir_e_idx :: u8.
     if ucast dir_e_idx < dir_entrys_per_sec
     then let de = dir_e + sizeof_dir_entry * ucast dir_e_idx in
       pbind (peek (de_i_no de)) (\<lambda>no. if no = c_inode_nr then leave de else again (dir_e_idx + 1))
     else leave NULL) 0"

definition get_child_dir_name :: "addr \<Rightarrow> u32 \<Rightarrow> u32 \<Rightarrow> addr \<Rightarrow> addr \<Rightarrow> ('a fsys_scheme, u32) prog" where
  "get_child_dir_name sp0 p_inode_nr c_inode_nr path io_buf =
     (let all_blocks = sp0 - 560; sp = all_blocks in
      pbind (reads (\<lambda>s. (cur_partition s, lits s ''/''))) (\<lambda>(cur, slash).
      pbind (inode_open sp cur p_inode_nr) (\<lambda>inode.
      after [clear_local all_blocks 560, copy_direct all_blocks inode]
     (pbind (read_indirect sp cur inode all_blocks) (\<lambda>has_indirect.
      let block_cnt = (if has_indirect then 140 else 12 :: u32) in
      pseq (inode_close inode)
     (pbind (reads (sb_field cur sb_dir_entry_size)) (\<lambda>dir_entry_size.
      pbind (divide_u32 512 dir_entry_size) (\<lambda>dir_entrys_per_sec.
      pbind (reads (the_disk cur)) (\<lambda>hdisk.
      kiter (\<lambda>block_idx :: u8.
        if ucast block_idx < block_cnt
        then pbind (peek (all_blocks + 4 * ucast block_idx)) (\<lambda>lba.
          if lba \<noteq> 0
          then pseq (ide_read sp hdisk lba io_buf 1)
            (pbind (find_inode_entry dir_entrys_per_sec c_inode_nr io_buf) (\<lambda>de.
              if de \<noteq> NULL
              then after [strcat_prog path slash, strcat_prog path (de_filename de)] (leave 0)
              else again (block_idx + 1)))
          else again (block_idx + 1))
        else leave (- 1)) 0)))))))))"

text \<open>Turning the path round, component by component; \<open>len\<close> is a \<^verbatim>\<open>uint16_t\<close>.\<close>

definition reverse_path :: "addr \<Rightarrow> addr \<Rightarrow> ('a machine_scheme, unit) prog" where
  "reverse_path dst full_path_reverse = kiter (\<lambda>_.
     pbind (of_mem (strrchr full_path_reverse 0x2f)) (\<lambda>last_slash.
       if last_slash \<noteq> NULL
       then pbind (of_mem (strlen dst)) (\<lambda>n. let len = ucast n :: u16 in
              pseq (on_mem_val (strcpy (dst + ucast len) last_slash))
             (pseq (poke_byte last_slash 0) (again ())))
       else leave ())) ()"

definition sys_getcwd :: "addr \<Rightarrow> addr \<Rightarrow> u32 \<Rightarrow> ('a fsys_scheme, addr) prog" where
  "sys_getcwd sp0 dst n =
     (let full_path_reverse = sp0 - 512; sp = full_path_reverse in
      pseq (demand (dst \<noteq> NULL) ''buf != NULL'')
     (pbind (sys_malloc (SECTOR_SIZE * 2)) (\<lambda>io_buf.
      if io_buf = NULL then ret NULL
      else pbind (reads (\<lambda>s. cwd_inode_nr (tasks s (running_thread s)))) (\<lambda>child0.
      pseq (demand (sint child0 \<ge> 0 \<and> sint child0 < 4096) ''child_inode_nr >= 0 && child_inode_nr < 4096'')
     (if child0 = 0 then after [poke_byte dst 0x2f, poke_byte (dst + 1) 0] (ret dst)
      else after [on_mem (memset dst 0 n), clear_local full_path_reverse 512]
     (pbind (kiter (\<lambda>child_inode_nr.
          if child_inode_nr \<noteq> 0
          then pbind (get_parent_dir_inode_nr sp child_inode_nr io_buf) (\<lambda>parent_inode_nr.
               pbind (get_child_dir_name sp parent_inode_nr child_inode_nr full_path_reverse io_buf) (\<lambda>v.
                 if v = - 1 then leave False else again parent_inode_nr))
          else leave True) child0) (\<lambda>ok.
      if \<not> ok then after [sys_free io_buf] (ret NULL)
      else pbind (of_mem (strlen full_path_reverse)) (\<lambda>len. after [
        demand (len \<le> n) ''strlen(full_path_reverse) <= size'',
        reverse_path dst full_path_reverse,
        sys_free io_buf] (ret dst)))))))))"

definition sys_chdir :: "addr \<Rightarrow> addr \<Rightarrow> ('a fsys_scheme, u32) prog" where
  "sys_chdir sp0 path =
     (let searched_path = sp0 - 520; sp = searched_path in
      pbind (fresh_search sp path searched_path) (\<lambda>(inode_no, r).
      pbind (if inode_no = - 1 then ret (- 1)
        else if file_type r = FT_DIRECTORY
        then pseq (modifies (\<lambda>s. upd_task (running_thread s) (\<lambda>t. t\<lparr>cwd_inode_nr := inode_no\<rparr>) s)) (ret 0)
        else pseq (say sp ''sys_dir: %s is regular file or other!\<newline>'' [path]) (ret (- 1))) (\<lambda>v.
      pseq (dir_close (parent_dir r)) (ret v))))"

text \<open>\<^verbatim>\<open>struct stat\<close>: \<^verbatim>\<open>st_ino\<close> at 0, \<^verbatim>\<open>st_size\<close> at 4, \<^verbatim>\<open>st_filetype\<close> at 8.\<close>

definition sys_stat :: "addr \<Rightarrow> addr \<Rightarrow> addr \<Rightarrow> ('a fsys_scheme, u32) prog" where
  "sys_stat sp0 path dst =
     (let searched_path = sp0 - 520; sp = searched_path in
      pbind (is_root_path path) (\<lambda>is_root.
      if is_root
      then pbind (reads (\<lambda>s. load_u32 (i_size (dir_inode (dirs s (root_dir s)))) (mem s))) (\<lambda>n. after [
             poke (dst + 8) FT_DIRECTORY, poke dst 0, poke (dst + 4) n] (ret 0))
      else pbind (fresh_search sp path searched_path) (\<lambda>(inode_no, r).
        pbind (if inode_no = - 1
          then pseq (say sp ''sys_stat: search_file %s failed\<newline>'' [path]) (ret (- 1))
          else pbind (reads cur_partition) (\<lambda>cur. pbind (inode_open sp cur inode_no) (\<lambda>target.
            pbind (peek (i_size target)) (\<lambda>n. after [
              poke (dst + 4) n, poke (dst + 8) (file_type r), poke dst inode_no] (ret 0))))) (\<lambda>v.
        pseq (dir_close (parent_dir r)) (ret v)))))"

end
