(* ===== verification/Syscall.thy ===== *)
theory Syscall
  imports Fs_Calls
begin

text \<open>
  The way from a user program into the kernel and the start of the kernel: the table of system calls
  (\<^verbatim>\<open>userprog/syscall_init.c\<close>), the handler of interrupt 0x80 (\<^verbatim>\<open>kernel/kernel.S\<close>), the stubs of
  \<^verbatim>\<open>lib/user/syscall.c\<close>, \<^verbatim>\<open>printf\<close> of \<^verbatim>\<open>lib/stdio.c\<close>, \<^verbatim>\<open>panic_spin\<close> of \<^verbatim>\<open>kernel/debug.c\<close> and \<^verbatim>\<open>init_all\<close> of
  \<^verbatim>\<open>kernel/init.c\<close>.
\<close>

section \<open>System calls\<close>

text \<open>The addresses of the functions that the table can hold are parts of the state that nothing changes.\<close>

record usys = fsys +
  syscall_table :: "addr list"
  fn_sys_getpid :: addr
  fn_sys_write :: addr
  fn_sys_malloc :: addr
  fn_sys_free :: addr

abbreviation (input) SYS_GETPID :: u32 where "SYS_GETPID \<equiv> 0"
abbreviation (input) SYS_WRITE :: u32 where "SYS_WRITE \<equiv> 1"
abbreviation (input) SYS_MALLOC :: u32 where "SYS_MALLOC \<equiv> 2"
abbreviation (input) SYS_FREE :: u32 where "SYS_FREE \<equiv> 3"

definition put_lit :: "string \<Rightarrow> ('a image_scheme, unit) prog" where
  "put_lit lit = pbind (reads (\<lambda>s. lits s lit)) (\<lambda>p. does (put_str p))"

definition set_syscall :: "u32 \<Rightarrow> ('a usys_scheme \<Rightarrow> addr) \<Rightarrow> ('a usys_scheme, unit) prog" where
  "set_syscall nr fn = modifies (\<lambda>s. s\<lparr>syscall_table := (syscall_table s)[unat nr := fn s]\<rparr>)"

definition syscall_init :: "('a usys_scheme, unit) prog" where
  "syscall_init = steps [
     put_lit ''syscall_init start\<newline>'',
     set_syscall SYS_GETPID fn_sys_getpid,
     set_syscall SYS_WRITE fn_sys_write,
     set_syscall SYS_MALLOC fn_sys_malloc,
     set_syscall SYS_FREE fn_sys_free,
     put_lit ''syscall_init done\<newline>'']"

text \<open>
  \<^verbatim>\<open>call [syscall_table + eax * 4]\<close> with the registers as arguments; \<open>sp\<close> is the kernel stack. A word of the
  table that is no function of the kernel is a jump to a page that is not code; a number beyond the
  table takes a word behind it. What \<^verbatim>\<open>sys_free\<close> leaves in \<^verbatim>\<open>eax\<close> is not used by its caller.
\<close>

definition syscall_handler :: "addr \<Rightarrow> u32 \<Rightarrow> u32 \<Rightarrow> u32 \<Rightarrow> u32 \<Rightarrow> ('a usys_scheme, u32) prog" where
  "syscall_handler sp eax ebx ecx edx =
     pbind (reads (\<lambda>s. (if eax < 32 then syscall_table s ! unat eax else NULL,
         fn_sys_getpid s, fn_sys_write s, fn_sys_malloc s, fn_sys_free s))) (\<lambda>(f, getpid, write, malloc, free).
       if f = getpid then reads sys_getpid
       else if f = write then sys_write sp ebx ecx edx
       else if f = malloc then sys_malloc ebx
       else if f = free then pseq (sys_free ebx) (ret 0)
       else stop (PAGE_FAULT f))"

text \<open>
  The macros that raise the interrupt; a register that a macro does not set is 0 here, and the functions
  called through it do not read it.
\<close>

definition syscall0 :: "addr \<Rightarrow> u32 \<Rightarrow> ('a usys_scheme, u32) prog" where
  "syscall0 sp nr = syscall_handler sp nr 0 0 0"

definition syscall1 :: "addr \<Rightarrow> u32 \<Rightarrow> u32 \<Rightarrow> ('a usys_scheme, u32) prog" where
  "syscall1 sp nr arg1 = syscall_handler sp nr arg1 0 0"

definition syscall2 :: "addr \<Rightarrow> u32 \<Rightarrow> u32 \<Rightarrow> u32 \<Rightarrow> ('a usys_scheme, u32) prog" where
  "syscall2 sp nr arg1 arg2 = syscall_handler sp nr arg1 arg2 0"

definition syscall3 :: "addr \<Rightarrow> u32 \<Rightarrow> u32 \<Rightarrow> u32 \<Rightarrow> u32 \<Rightarrow> ('a usys_scheme, u32) prog" where
  "syscall3 sp nr arg1 arg2 arg3 = syscall_handler sp nr arg1 arg2 arg3"

text \<open>The stubs of user programs.\<close>

definition getpid :: "addr \<Rightarrow> ('a usys_scheme, u32) prog" where
  "getpid sp = syscall0 sp SYS_GETPID"

definition user_write :: "addr \<Rightarrow> u32 \<Rightarrow> addr \<Rightarrow> u32 \<Rightarrow> ('a usys_scheme, u32) prog" where
  "user_write sp fd src count = syscall3 sp SYS_WRITE fd src count"

definition user_malloc :: "addr \<Rightarrow> u32 \<Rightarrow> ('a usys_scheme, addr) prog" where
  "user_malloc sp n = syscall1 sp SYS_MALLOC n"

definition user_free :: "addr \<Rightarrow> addr \<Rightarrow> ('a usys_scheme, unit) prog" where
  "user_free sp ptr = pseq (syscall1 sp SYS_FREE ptr) (ret ())"

text \<open>
  \<open>printf(format, ...)\<close>: \<open>args\<close> is the address of its parameter \<open>format\<close>, \<open>dst\<close> that of its local array of 1024
  bytes, which its initialiser clears; \<open>ksp\<close> is the kernel stack.
\<close>

definition printf :: "addr \<Rightarrow> addr \<Rightarrow> addr \<Rightarrow> ('a usys_scheme, u32) prog" where
  "printf ksp dst args =
     pseq (clear_local dst 1024)
    (pbind (peek args) (\<lambda>format.
     pseq (on_mem_val (vsprintf dst format args))
    (pbind (of_mem (strlen dst)) (\<lambda>len. user_write ksp 1 dst len))))"

section \<open>Panic and start-up\<close>

definition panic_spin :: "addr \<Rightarrow> u32 \<Rightarrow> addr \<Rightarrow> addr \<Rightarrow> ('a image_scheme, unit) prog" where
  "panic_spin filename line func condition = steps [
     modifies (\<lambda>s. snd (disable_intr s)),
     put_lit ''\<newline>\<newline>\<newline>!!!! error !!!!'',
     put_lit ''filename: '', does (put_str filename), put_lit ''\<newline>'',
     put_lit ''line: 0x'', modifies (put_int line), put_lit ''\<newline>'',
     put_lit ''function: '', does (put_str func), put_lit ''\<newline>'',
     put_lit ''condition: '', does (put_str condition), put_lit ''\<newline>'',
     kiter again ()]"

text \<open>
  \<open>init_all\<close>; the addresses of the interrupt stubs and handlers and of the interrupt table are arguments,
  \<open>fuel\<close> bounds the recursion of \<^verbatim>\<open>partition_scan\<close>.
\<close>

definition init_all :: "nat \<Rightarrow> addr \<Rightarrow> (nat \<Rightarrow> addr) \<Rightarrow> addr \<Rightarrow> addr \<Rightarrow> addr \<Rightarrow> addr \<Rightarrow> addr \<Rightarrow> ('a usys_scheme, unit) prog" where
  "init_all fuel sp entries fn_syscall_handler fn_general idt_addr fn_timer fn_keyboard = steps [
     put_lit ''init all\<newline>'',
     modifies (\<lambda>s. s\<lparr>irq := idt_init entries fn_syscall_handler fn_general idt_addr (irq s)\<rparr>),
     does mem_init,
     thread_init,
     modifies (timer_init fn_timer),
     modifies console_init,
     modifies (keyboard_init fn_keyboard),
     modifies tss_init,
     syscall_init,
     modifies (\<lambda>s. snd (enable_intr s)),
     ide_init fuel sp,
     filesys_init sp]"

end
