(* ===== verification/Ata.thy ===== *)
theory Ata
  imports Ide
begin

text \<open>
  What the driver relies on: an ATA device behind the ports of a channel, as a state machine on the port
  accesses, and what \<^verbatim>\<open>ide_read\<close> and \<^verbatim>\<open>ide_write\<close> do with it. A thread that waits for the disk is resumed
  after the interrupt handler of the channel ran; \<open>disk_resumed\<close> is what the other threads may do
  meanwhile.
\<close>

section \<open>The device\<close>

text \<open>
  The registers, the transfer in progress (position of its next byte, words left) and the contents of
  the two drives, byte by byte. A sector has 512 bytes, a count of 0 stands for 256 sectors.
\<close>

datatype transfer = NoXfer | Reading nat nat | Writing nat nat

record ata =
  r_count :: u8
  r_lba_l :: u8
  r_lba_m :: u8
  r_lba_h :: u8
  r_dev :: u8
  xfer :: transfer
  platter :: "bool \<Rightarrow> nat \<Rightarrow> u8"

definition ata_lba :: "ata \<Rightarrow> nat" where
  "ata_lba d = unat (r_lba_l d) + 2 ^ 8 * unat (r_lba_m d) + 2 ^ 16 * unat (r_lba_h d) + 2 ^ 24 * unat (r_dev d AND 0xf)"

definition ata_sectors :: "ata \<Rightarrow> nat" where
  "ata_sectors d = (if r_count d = 0 then 256 else unat (r_count d))"

definition slave :: "ata \<Rightarrow> bool" where
  "slave d = bit (r_dev d) 4"

definition ata_command :: "u8 \<Rightarrow> ata \<Rightarrow> ata" where
  "ata_command cmd d =
     (if cmd = CMD_READ_SECTOR then d\<lparr>xfer := Reading (512 * ata_lba d) (256 * ata_sectors d)\<rparr>
      else if cmd = CMD_WRITE_SECTOR then d\<lparr>xfer := Writing (512 * ata_lba d) (256 * ata_sectors d)\<rparr>
      else d\<lparr>xfer := NoXfer\<rparr>)"

definition put_word :: "nat \<Rightarrow> u16 \<Rightarrow> ata \<Rightarrow> ata" where
  "put_word b w d = d\<lparr>platter := (platter d)(slave d := (platter d (slave d))(b := ucast w, b + 1 := ucast (drop_bit 8 w)))\<rparr>"

definition get_word :: "nat \<Rightarrow> ata \<Rightarrow> u16" where
  "get_word b d = ucast (platter d (slave d) b) OR push_bit 8 (ucast (platter d (slave d) (b + 1)))"

fun ata_step :: "u16 \<Rightarrow> ata \<Rightarrow> io_event \<Rightarrow> ata" where
  "ata_step P d (OutB p v) =
     (if p = P + reg_sec_cnt then d\<lparr>r_count := v\<rparr>
      else if p = P + reg_lba_l then d\<lparr>r_lba_l := v\<rparr>
      else if p = P + reg_lba_m then d\<lparr>r_lba_m := v\<rparr>
      else if p = P + reg_lba_h then d\<lparr>r_lba_h := v\<rparr>
      else if p = P + reg_dev then d\<lparr>r_dev := v\<rparr>
      else if p = P + reg_cmd then ata_command v d else d)"
| "ata_step P d (OutW p w) =
     (if p = P then case xfer d of Writing b (Suc n) \<Rightarrow> (put_word b w d)\<lparr>xfer := Writing (b + 2) n\<rparr> | _ \<Rightarrow> d
      else d)"
| "ata_step P d (InB p) = d"
| "ata_step P d (InW p) =
     (if p = P then case xfer d of Reading b (Suc n) \<Rightarrow> d\<lparr>xfer := Reading (b + 2) n\<rparr> | _ \<Rightarrow> d else d)"

definition ata_run :: "u16 \<Rightarrow> ata \<Rightarrow> io_event list \<Rightarrow> ata" where
  "ata_run P d0 h = foldl (ata_step P) d0 h"

text \<open>
  The answers of the ports: while words of a read command are left, the data port gives the next one, and
  whenever the driver polls the status during a transfer the device is ready with data.
\<close>

definition pending :: "ata \<Rightarrow> bool" where
  "pending d = (case xfer d of NoXfer \<Rightarrow> False | Reading b n \<Rightarrow> n > 0 | Writing b n \<Rightarrow> n > 0)"

definition ready_status :: "u16 \<Rightarrow> bool" where
  "ready_status st \<longleftrightarrow> (ucast st :: u8) AND BIT_ALT_STAT_BSY = 0 \<and> (ucast st :: u8) AND BIT_ALT_STAT_DRQ \<noteq> 0"

definition ata_answers :: "u16 \<Rightarrow> ata \<Rightarrow> (io_event list \<Rightarrow> u16 \<Rightarrow> u16) \<Rightarrow> bool" where
  "ata_answers P d0 ans \<longleftrightarrow> (\<forall>h. let d = ata_run P d0 h in
     (\<forall>b n. xfer d = Reading b (Suc n) \<longrightarrow> ans h P = get_word b d) \<and>
     (pending d \<longrightarrow> ready_status (ans h (P + reg_status))))"

text \<open>A device with these answers.\<close>

definition ata_ports :: "u16 \<Rightarrow> ata \<Rightarrow> io_event list \<Rightarrow> u16 \<Rightarrow> u16" where
  "ata_ports P d0 h p =
     (let d = ata_run P d0 h in
      if p = P + reg_status then (if pending d then 0x58 else 0x50)
      else if p = P then (case xfer d of Reading b (Suc n) \<Rightarrow> get_word b d | _ \<Rightarrow> 0) else 0)"

lemma ata_ports_answers: "ata_answers P d0 (ata_ports P d0)"
  by (auto simp: ata_answers_def ata_ports_def Let_def ready_status_def)

lemma ata_run_snoc [simp]: "ata_run P d0 (h @ [e]) = ata_step P (ata_run P d0 h) e"
  by (simp add: ata_run_def)

lemma ata_run_append: "ata_run P d0 (h @ k) = foldl (ata_step P) (ata_run P d0 h) k"
  by (simp add: ata_run_def)

section \<open>Moving words\<close>

lemma get_word_bytes:
  "(ucast (get_word b d) :: u8) = platter d (slave d) b"
  "(ucast (drop_bit 8 (get_word b d)) :: u8) = platter d (slave d) (b + 1)"
  unfolding get_word_def
  by (rule bit_word_eqI; auto simp: bit_unsigned_iff bit_or_iff bit_push_bit_iff bit_drop_bit_eq dest: bit_imp_le_length; fail)+

lemma word_bytes:
  fixes a b :: u8
  shows "(ucast (ucast a OR push_bit 8 (ucast b) :: u16) :: u8) = a"
    and "(ucast (drop_bit 8 (ucast a OR push_bit 8 (ucast b) :: u16)) :: u8) = b"
  by (rule bit_word_eqI; auto simp: bit_unsigned_iff bit_or_iff bit_push_bit_iff bit_drop_bit_eq dest: bit_imp_le_length; fail)+

lemma ata_answers_word:
  assumes "ata_answers P d0 ans" and "xfer (ata_run P d0 h) = Reading b (Suc n)"
  shows "ans h P = get_word b (ata_run P d0 h)"
  using assms by (simp add: ata_answers_def Let_def)

lemma ata_answers_ready:
  assumes "ata_answers P d0 ans" and "pending (ata_run P d0 h)"
  shows "ready_status (ans h (P + reg_status))"
  using assms by (simp add: ata_answers_def Let_def)

definition drive_bytes :: "ata \<Rightarrow> nat \<Rightarrow> nat \<Rightarrow> u8 list" where
  "drive_bytes d b n = map (platter d (slave d)) [b..<b + n]"

lemma insw_reads:
  assumes "ata_answers P d0 (answers s)" and "xfer (ata_run P d0 (ios s)) = Reading b (n + k)"
  shows "\<exists>h. insw P dst n s = s\<lparr>ios := h, mem := put_bytes dst (drive_bytes (ata_run P d0 (ios s)) b (2 * n)) (mem s)\<rparr> \<and>
    ata_run P d0 h = (ata_run P d0 (ios s))\<lparr>xfer := Reading (b + 2 * n) k\<rparr>"
  using assms
proof (induction n arbitrary: s b dst)
  case 0
  then show ?case by (intro exI [of _ "ios s"]) (simp add: drive_bytes_def)
next
  case (Suc n)
  let ?d = "ata_run P d0 (ios s)"
  let ?w = "answers s (ios s) P"
  let ?s = "s\<lparr>ios := ios s @ [InW P], mem := (mem s)(dst := ucast ?w, dst + 1 := ucast (drop_bit 8 ?w))\<rparr>"
  have w: "?w = get_word b ?d" using ata_answers_word [OF Suc.prems(1)] Suc.prems(2) by simp
  have d: "ata_run P d0 (ios ?s) = ?d\<lparr>xfer := Reading (b + 2) (n + k)\<rparr>" using Suc.prems(2) by simp
  have "drive_bytes ?d b (2 * Suc n) = platter ?d (slave ?d) b # platter ?d (slave ?d) (b + 1) # drive_bytes ?d (b + 2) (2 * n)"
    by (simp add: drive_bytes_def upt_rec [of b] upt_rec [of "Suc b"])
  moreover have "drive_bytes (ata_run P d0 (ios ?s)) (b + 2) (2 * n) = drive_bytes ?d (b + 2) (2 * n)"
    by (simp only: d) (simp add: drive_bytes_def slave_def)
  ultimately have "put_bytes dst (drive_bytes ?d b (2 * Suc n)) (mem s) =
      put_bytes (dst + 2) (drive_bytes (ata_run P d0 (ios ?s)) (b + 2) (2 * n)) (mem ?s)"
    by (simp add: w get_word_bytes add.assoc)
  moreover have "\<exists>h. insw P (dst + 2) n ?s =
      ?s\<lparr>ios := h, mem := put_bytes (dst + 2) (drive_bytes (ata_run P d0 (ios ?s)) (b + 2) (2 * n)) (mem ?s)\<rparr> \<and>
      ata_run P d0 h = (ata_run P d0 (ios ?s))\<lparr>xfer := Reading (b + 2 + 2 * n) k\<rparr>"
    by (rule Suc.IH) (use Suc.prems(1) d in simp_all)
  then obtain h where "insw P (dst + 2) n ?s =
      ?s\<lparr>ios := h, mem := put_bytes (dst + 2) (drive_bytes (ata_run P d0 (ios ?s)) (b + 2) (2 * n)) (mem ?s)\<rparr>"
    "ata_run P d0 h = (ata_run P d0 (ios ?s))\<lparr>xfer := Reading (b + 2 + 2 * n) k\<rparr>" by blast
  ultimately have "insw P dst (Suc n) s = s\<lparr>ios := h, mem := put_bytes dst (drive_bytes ?d b (2 * Suc n)) (mem s)\<rparr>"
    "ata_run P d0 h = ?d\<lparr>xfer := Reading (b + 2 * Suc n) k\<rparr>"
    unfolding d by (simp_all add: Let_def)
  then show ?case by blast
qed

lemma put_word_pair:
  "put_word b (ucast x OR push_bit 8 (ucast y)) d =
     d\<lparr>platter := (platter d)(slave d := (platter d (slave d))(b := x, b + 1 := y))\<rparr>"
  by (simp only: put_word_def word_bytes)

lemma slave_simps [simp]: "slave (d\<lparr>platter := p\<rparr>) = slave d" "slave (d\<lparr>xfer := x\<rparr>) = slave d"
  by (simp_all add: slave_def)

text \<open>The contents of the drives with bytes of memory written from \<open>b\<close> on.\<close>

definition put_drive :: "nat \<Rightarrow> nat \<Rightarrow> (nat \<Rightarrow> u8) \<Rightarrow> ata \<Rightarrow> ata" where
  "put_drive b n f d = d\<lparr>platter := (platter d)(slave d := (\<lambda>x. if b \<le> x \<and> x < b + n then f (x - b) else platter d (slave d) x))\<rparr>"

lemma put_drive_0 [simp]: "put_drive b 0 f d = d"
proof -
  have "(\<lambda>x. if b \<le> x \<and> x < b then f (x - b) else platter d (slave d) x) = platter d (slave d)" by (rule ext) (simp add: not_less [symmetric])
  then show ?thesis by (simp add: put_drive_def)
qed

lemma outsw_writes:
  assumes "xfer (ata_run P d0 (ios s)) = Writing b (n + k)"
  shows "\<exists>h. outsw P src n s = s\<lparr>ios := h\<rparr> \<and>
    ata_run P d0 h = (put_drive b (2 * n) (\<lambda>i. mem s (src + of_nat i)) (ata_run P d0 (ios s)))\<lparr>xfer := Writing (b + 2 * n) k\<rparr>"
  using assms
proof (induction n arbitrary: s b src)
  case 0
  then show ?case by (intro exI [of _ "ios s"]) simp
next
  case (Suc n)
  let ?d = "ata_run P d0 (ios s)"
  let ?w = "ucast (mem s src) OR push_bit 8 (ucast (mem s (src + 1))) :: u16"
  let ?s = "s\<lparr>ios := ios s @ [OutW P ?w]\<rparr>"
  have d: "ata_run P d0 (ios ?s) = (put_word b ?w ?d)\<lparr>xfer := Writing (b + 2) (n + k)\<rparr>" using Suc.prems by simp
  have "\<exists>h. outsw P (src + 2) n ?s = ?s\<lparr>ios := h\<rparr> \<and>
     ata_run P d0 h = (put_drive (b + 2) (2 * n) (\<lambda>i. mem ?s (src + 2 + of_nat i)) (ata_run P d0 (ios ?s)))
       \<lparr>xfer := Writing (b + 2 + 2 * n) k\<rparr>"
    by (rule Suc.IH, unfold d) simp
  then obtain h where h: "outsw P (src + 2) n ?s = ?s\<lparr>ios := h\<rparr>"
    "ata_run P d0 h = (put_drive (b + 2) (2 * n) (\<lambda>i. mem ?s (src + 2 + of_nat i)) (ata_run P d0 (ios ?s)))
       \<lparr>xfer := Writing (b + 2 + 2 * n) k\<rparr>" by blast
  have "(if b + 2 \<le> x \<and> x < b + 2 + 2 * n then mem s (src + 2 + of_nat (x - (b + 2)))
      else ((platter ?d (slave ?d))(b := mem s src, b + 1 := mem s (src + 1))) x) =
      (if b \<le> x \<and> x < b + 2 * Suc n then mem s (src + of_nat (x - b)) else platter ?d (slave ?d) x)" for x
  proof (cases "b + 2 \<le> x")
    case True
    then obtain j where "x = b + 2 + j" using le_Suc_ex by blast
    then show ?thesis by (simp add: algebra_simps)
  next
    case False
    then have "x = b \<or> x = b + 1 \<or> x < b" by arith
    then show ?thesis by auto
  qed
  then have "put_drive (b + 2) (2 * n) (\<lambda>i. mem s (src + 2 + of_nat i)) ((put_word b ?w ?d)\<lparr>xfer := Writing (b + 2) (n + k)\<rparr>)
      = (put_drive b (2 * Suc n) (\<lambda>i. mem s (src + of_nat i)) ?d)\<lparr>xfer := Writing (b + 2) (n + k)\<rparr>"
    unfolding put_word_pair put_drive_def by (simp cong: if_cong)
  then have "ata_run P d0 h = (put_drive b (2 * Suc n) (\<lambda>i. mem s (src + of_nat i)) ?d)\<lparr>xfer := Writing (b + 2 * Suc n) k\<rparr>"
    using h(2) unfolding d by simp
  then show ?case using h(1) by (intro exI [of _ h]) simp
qed

end
