(* ===== verification/Disk_Io.thy ===== *)
theory Disk_Io
  imports Ata
begin

text \<open>
  Total correctness of \<^verbatim>\<open>ide_read\<close> and \<^verbatim>\<open>ide_write\<close>, with the blocking on the semaphore of the channel, and
  of the interrupt handler that ends the wait.
\<close>

section \<open>Waiting for a semaphore\<close>

lemma running_thread_eflags [simp]: "running_thread (s\<lparr>eflags := e\<rparr>) = running_thread s"
  by (simp add: running_thread_def)

lemma sema_down_waits:
  fixes s :: "'a sync_scheme"
  assumes inv: "sched_inv s T rs" and ok: "waiters_ok s T m ws" and v: "sema_value s m = 0"
    and ni: "running_thread s \<noteq> idle_thread s"
  obtains s1 k where "sema_down m s = Block s1 k" and "mem s1 = mem s" and "threads.more s1 = threads.more s"
    and "idle_thread s1 = idle_thread s"
    and "sched_inv s1 T (tl (if rs = [] then [idle_thread s] else rs))" and "waiters_ok s1 T m (ws @ [running_thread s])"
    and "\<forall>s2. sema_value s2 m = 1 \<longrightarrow> (\<exists>e. k s2 = Done () ((set_sema m 0 s2)\<lparr>eflags := e\<rparr>))"
proof -
  obtain old s0 where d: "disable_intr s = (old, s0)" by (cases "disable_intr s")
  note f = disable_intr_fields [OF d]
  have i0: "sched_inv s0 T rs" "waiters_ok s0 T m ws" "sema_value s0 m = 0" "running_thread s0 \<noteq> idle_thread s0"
    using inv ok v ni by (subst f(1), simp add: sched_inv_eflags running_thread_def)+
  have e0: "mem s0 = mem s" "threads.more s0 = threads.more s" "idle_thread s0 = idle_thread s"
    "running_thread s0 = running_thread s"
    by (subst f(1), simp add: running_thread_def)+
  obtain s1 where s1: "sema_wait m s0 = Block s1 (\<lambda>s2. Done () (snd (set_intr_status INT_OFF s2)))"
    "sched_inv s1 T (tl (if rs = [] then [idle_thread s0] else rs))" "waiters_ok s1 T m (ws @ [running_thread s0])"
    "threads.more s1 = threads.more s0" "idle_thread s1 = idle_thread s0" "mem s1 = mem s0"
    using sema_wait_spec [OF i0(1,2) f(2) i0(4)] by metis
  define k :: "'a sync_scheme \<Rightarrow> ('a sync_scheme, unit) kop" where "k = (\<lambda>s2. kbind (kwhile (\<lambda>s. sema_value s m = 0) (sema_wait m) (snd (set_intr_status INT_OFF s2)))
    (\<lambda>_. sema_take m old))"
  have "sema_down m s = Block s1 k"
    using i0(3) s1(1) unfolding sema_down_def d by (subst kwhile_unfold) (simp add: k_def)
  moreover have "\<exists>e. k s2 = Done () ((set_sema m 0 s2)\<lparr>eflags := e\<rparr>)" if "sema_value s2 m = 1" for s2
  proof -
    let ?t = "snd (set_intr_status INT_OFF s2)"
    have t: "?t = s2\<lparr>eflags := eflags ?t\<rparr>" by (rule set_intr_status_fields)
    have "sema_value ?t m = 1" using that by (subst t) simp
    then have "k s2 = Done () (snd (set_intr_status old (set_sema m 0 ?t)))"
      unfolding k_def by (subst kwhile_unfold) (simp add: sema_take_def Let_def)
    moreover have "snd (set_intr_status old (set_sema m 0 ?t)) =
        (set_sema m 0 s2)\<lparr>eflags := eflags (snd (set_intr_status old (set_sema m 0 ?t)))\<rparr>"
      by (subst set_intr_status_fields, subst t) (simp add: set_sema_def)
    ultimately show ?thesis by metis
  qed
  ultimately show ?thesis using that s1(2-6) unfolding e0 by blast
qed

section \<open>The state between operations\<close>

text \<open>
  \<open>disk_wf T t hdisk s\<close>: the thread \<open>t\<close> runs, nobody waits for the channel of the disk or for the end of a
  command. \<open>disk_idle\<close>: the channel is free; \<open>disk_held\<close>: the thread holds its lock.
\<close>

definition chan :: "addr \<Rightarrow> 'a ide_scheme \<Rightarrow> addr" where
  "chan hdisk s = my_channel (disks s hdisk)"

definition disk_wf :: "addr set \<Rightarrow> addr \<Rightarrow> addr \<Rightarrow> 'a ide_scheme \<Rightarrow> bool" where
  "disk_wf T t hdisk s \<longleftrightarrow>
     (\<exists>rs. sched_inv s T rs) \<and> waiters_ok s T (disk_done (chan hdisk s)) [] \<and> sema_value s (disk_done (chan hdisk s)) = 0 \<and>
     running_thread s = t \<and> t \<noteq> idle_thread s \<and> t \<noteq> NULL \<and> list_empty (channel_lock (chan hdisk s) + 8) s \<and>
     channel_lock (chan hdisk s) \<noteq> NULL"

definition disk_idle :: "addr set \<Rightarrow> addr \<Rightarrow> addr \<Rightarrow> 'a ide_scheme \<Rightarrow> bool" where
  "disk_idle T t hdisk s \<longleftrightarrow> disk_wf T t hdisk s \<and> lock_holder s (channel_lock (chan hdisk s)) \<noteq> t \<and>
     sema_value s (channel_lock (chan hdisk s) + 4) = 1 \<and> holder_repeat_nr s (channel_lock (chan hdisk s)) = 0"

definition disk_held :: "addr set \<Rightarrow> addr \<Rightarrow> addr \<Rightarrow> 'a ide_scheme \<Rightarrow> bool" where
  "disk_held T t hdisk s \<longleftrightarrow> disk_wf T t hdisk s \<and> lock_holder s (channel_lock (chan hdisk s)) = t \<and>
     sema_value s (channel_lock (chan hdisk s) + 4) = 0 \<and> holder_repeat_nr s (channel_lock (chan hdisk s)) = 1"

definition port_of :: "addr \<Rightarrow> 'a ide_scheme \<Rightarrow> u16" where
  "port_of hdisk s = port_base (ide_channels s (chan hdisk s))"

text \<open>What no operation on the disk changes, apart from memory, the history of the ports and the lock.\<close>

definition disk_same :: "addr \<Rightarrow> 'a ide_scheme \<Rightarrow> 'a ide_scheme \<Rightarrow> bool" where
  "disk_same hdisk s s' \<longleftrightarrow> disks s' = disks s \<and> partitions s' = partitions s \<and> answers s' = answers s \<and>
     lits s' = lits s \<and> port_of hdisk s' = port_of hdisk s \<and> ide.more s' = ide.more s"

lemma disk_same_refl [simp]: "disk_same hdisk s s"
  by (simp add: disk_same_def)

lemma disk_same_trans: "disk_same hdisk s s' \<Longrightarrow> disk_same hdisk s' s'' \<Longrightarrow> disk_same hdisk s s''"
  by (simp add: disk_same_def)

definition same_on :: "addr set \<Rightarrow> mem \<Rightarrow> mem \<Rightarrow> bool" where
  "same_on A m m' \<longleftrightarrow> (\<forall>x\<in>A. m' x = m x)"

lemma same_on_refl [simp]: "same_on A m m"
  by (simp add: same_on_def)

lemma same_on_trans: "same_on A m m' \<Longrightarrow> same_on A m' m'' \<Longrightarrow> same_on A m m''"
  by (simp add: same_on_def)

lemma same_on_put_bytes: "same_on A m m' \<Longrightarrow> same_on A (put_bytes p cs m) (put_bytes p cs m')"
  by (induction cs arbitrary: p m m') (auto simp: same_on_def)

text \<open>
  How a thread \<open>t\<close> that waits for the disk is resumed: the interrupt handler read the status and gave the
  semaphore, and the other threads neither used the disk or the file system nor changed the memory
  \<open>A\<close>. \<open>s\<close> is the state in which \<open>t\<close> was switched away from.
\<close>

definition disk_resumed :: "addr set \<Rightarrow> addr \<Rightarrow> addr \<Rightarrow> addr set \<Rightarrow> 'a ide_scheme \<Rightarrow> 'a ide_scheme \<Rightarrow> bool" where
  "disk_resumed T t hdisk A s s' \<longleftrightarrow>
     (\<exists>rs. sched_inv s' T rs) \<and> waiters_ok s' T (disk_done (chan hdisk s)) [] \<and> running_thread s' = t \<and>
     idle_thread s' = idle_thread s \<and> list_empty (channel_lock (chan hdisk s) + 8) s' \<and>
     lock_holder s' (channel_lock (chan hdisk s)) = lock_holder s (channel_lock (chan hdisk s)) \<and>
     holder_repeat_nr s' (channel_lock (chan hdisk s)) = holder_repeat_nr s (channel_lock (chan hdisk s)) \<and>
     sema_value s' (channel_lock (chan hdisk s) + 4) = sema_value s (channel_lock (chan hdisk s) + 4) \<and>
     sema_value s' (disk_done (chan hdisk s)) = 1 \<and>
     same_on A (mem s) (mem s') \<and> disk_same hdisk s s' \<and> ios s' = ios s @ [InB (port_of hdisk s + reg_status)]"

lemma threads_more_eq:
  fixes s s' :: "'a threads_scheme"
  assumes "threads.more s' = threads.more s"
  shows "s' = s\<lparr>eflags := eflags s', nodes := nodes s', esp := esp s', cr3 := cr3 s', mem := mem s', pmem := pmem s',
    tasks := tasks s', thread_ready_list := thread_ready_list s', thread_all_list := thread_all_list s',
    main_thread := main_thread s', idle_thread := idle_thread s', thread_tag := thread_tag s', tss_esp0 := tss_esp0 s'\<rparr>"
  using assms by (cases s; cases s') simp

lemma threads_more_ide:
  assumes "threads.more s' = threads.more (s :: 'a ide_scheme)"
  shows "sema_value s' = sema_value s" "lock_holder s' = lock_holder s" "holder_repeat_nr s' = holder_repeat_nr s"
    "disks s' = disks s" "partitions s' = partitions s" "answers s' = answers s" "lits s' = lits s"
    "ide_channels s' = ide_channels s" "ide.more s' = ide.more s" "ios s' = ios s"
    "channels s' = channels s"
proof -
  obtain a b c d e f g h i j k l m where eq: "s' = s\<lparr>eflags := a, nodes := b, esp := c, cr3 := d, mem := e, pmem := f,
    tasks := g, thread_ready_list := h, thread_all_list := i, main_thread := j, idle_thread := k, thread_tag := l,
    tss_esp0 := m\<rparr>" using threads_more_eq [OF assms] by blast
  show "sema_value s' = sema_value s" "lock_holder s' = lock_holder s" "holder_repeat_nr s' = holder_repeat_nr s"
    "disks s' = disks s" "partitions s' = partitions s" "answers s' = answers s" "lits s' = lits s"
    "ide_channels s' = ide_channels s" "ide.more s' = ide.more s" "ios s' = ios s" "channels s' = channels s"
    unfolding eq by simp_all
qed

lemma lock_cells: "channel_lock c + 4 \<noteq> disk_done c" "disk_done c \<noteq> channel_lock c + 4" "disk_done c \<noteq> channel_lock c"
  by (simp_all add: channel_lock_def disk_done_def)

lemma disk_wait:
  fixes s :: "'a ide_scheme"
  assumes "disk_held T t hdisk s" and "c = chan hdisk s"
  shows "runs (disk_resumed T t hdisk A) (sema_down (disk_done c) s) (\<lambda>_ s'.
    disk_held T t hdisk s' \<and> same_on A (mem s) (mem s') \<and> disk_same hdisk s s' \<and>
    ios s' = ios s @ [InB (port_of hdisk s + reg_status)])"
proof -
  let ?c = "chan hdisk s" and ?m = "disk_done (chan hdisk s)"
  obtain rs where inv: "sched_inv s T rs" using assms by (auto simp: disk_held_def disk_wf_def)
  have ok: "waiters_ok s T ?m []" "sema_value s ?m = 0" "running_thread s \<noteq> idle_thread s" "running_thread s = t"
    using assms by (auto simp: disk_held_def disk_wf_def)
  obtain s1 k where s1: "sema_down ?m s = Block s1 k" "mem s1 = mem s" "threads.more s1 = threads.more s"
    "idle_thread s1 = idle_thread s" "sched_inv s1 T (tl (if rs = [] then [idle_thread s] else rs))"
    "waiters_ok s1 T ?m ([] @ [running_thread s])"
    "\<forall>s2. sema_value s2 ?m = 1 \<longrightarrow> (\<exists>e. k s2 = Done () ((set_sema ?m 0 s2)\<lparr>eflags := e\<rparr>))"
    using sema_down_waits [OF inv ok(1-3)] .
  note m = threads_more_ide [OF s1(3)]
  have c: "chan hdisk s1 = ?c" "port_of hdisk s1 = port_of hdisk s" using m by (simp_all add: chan_def port_of_def)
  show ?thesis unfolding assms(2) s1(1) runs_Block_iff
  proof (intro allI impI)
    fix s2 assume r: "disk_resumed T t hdisk A s1 s2"
    then have v: "sema_value s2 ?m = 1" by (simp add: disk_resumed_def c)
    then obtain e where e: "k s2 = Done () ((set_sema ?m 0 s2)\<lparr>eflags := e\<rparr>)" using s1(7) by blast
    let ?s' = "(set_sema ?m 0 s2)\<lparr>eflags := e\<rparr>"
    have d2: "disks s2 = disks s" "ios s2 = ios s @ [InB (port_of hdisk s + reg_status)]"
      using r m c by (simp_all add: disk_resumed_def disk_same_def)
    have c2: "chan hdisk ?s' = ?c" using d2 by (simp add: chan_def set_sema_def)
    have "disk_held T t hdisk ?s'"
      using r assms(1) s1(4) lock_cells [of ?c] unfolding disk_held_def disk_wf_def disk_resumed_def c2 c m
      by (auto simp: sched_inv_eflags list_empty_def)
    moreover have "disk_same hdisk s ?s'" "same_on A (mem s) (mem ?s')" "ios ?s' = ios s @ [InB (port_of hdisk s + reg_status)]"
      using r m c s1(2) d2 by (simp_all add: disk_resumed_def disk_same_def port_of_def chan_def set_sema_def)
    ultimately show "runs (disk_resumed T t hdisk A) (k s2) (\<lambda>_ s'. disk_held T t hdisk s' \<and> same_on A (mem s) (mem s') \<and>
        disk_same hdisk s s' \<and> ios s' = ios s @ [InB (port_of hdisk s + reg_status)])"
      using e by simp
  qed
qed

end
