(* ===== verification/Disk_Rw.thy ===== *)
theory Disk_Rw
  imports Disk_Io
begin

lemma sched_inv_ide [simp]:
  fixes s :: "'a ide_scheme"
  shows "sched_inv (s\<lparr>ios := h\<rparr>) T rs = sched_inv s T rs" "sched_inv (s\<lparr>ide_channels := c\<rparr>) T rs = sched_inv s T rs"
    "sched_inv (s\<lparr>mem := m\<rparr>) T rs = sched_inv s T rs"
  by (simp_all add: sched_inv_def sched_wf_def running_thread_def ready_list_def kstack_ok_def task_space_ok_def)

lemma disk_wf_ide [simp]:
  fixes s :: "'a ide_scheme"
  shows "disk_wf T t hdisk (s\<lparr>ios := h\<rparr>) = disk_wf T t hdisk s"
    "disk_wf T t hdisk (s\<lparr>ide_channels := c\<rparr>) = disk_wf T t hdisk s"
    "disk_wf T t hdisk (s\<lparr>mem := m\<rparr>) = disk_wf T t hdisk s"
  by (simp_all add: disk_wf_def chan_def waiters_ok_def running_thread_def list_empty_def)

lemma disk_held_ide [simp]:
  fixes s :: "'a ide_scheme"
  shows "disk_held T t hdisk (s\<lparr>ios := h\<rparr>) = disk_held T t hdisk s"
    "disk_held T t hdisk (s\<lparr>ide_channels := c\<rparr>) = disk_held T t hdisk s"
    "disk_held T t hdisk (s\<lparr>mem := m\<rparr>) = disk_held T t hdisk s"
  by (simp_all add: disk_held_def) (simp_all add: chan_def)

lemma unat_drop_bit32: "unat (drop_bit k (w :: u32)) = unat w div 2 ^ k"
proof -
  have "unat (drop_bit k w) = drop_bit k (unat w)"
    by (simp add: unsigned_drop_bit_eq take_bit_nat_eq_self)
  then show ?thesis by (simp add: drop_bit_eq_div)
qed

lemma unat_ucast8: "unat (ucast (w :: u32) :: u8) = unat w mod 256"
  by (simp add: unsigned_ucast_eq take_bit_eq_mod)

lemma lba_bytes:
  fixes lba :: u32
  assumes "unat lba < 2 ^ 24"
  shows "unat (ucast lba :: u8) + 2 ^ 8 * unat (ucast (drop_bit 8 lba) :: u8) + 2 ^ 16 * unat (ucast (drop_bit 16 lba) :: u8) = unat lba"
proof -
  let ?n = "unat lba"
  have q: "?n div 65536 = ?n div 256 div 256" by (simp add: div_mult2_eq [symmetric])
  have "?n div 256 div 256 mod 256 = ?n div 256 div 256" using assms by (simp add: div_mult2_eq [symmetric])
  then have "?n mod 256 + 256 * (?n div 256 mod 256) + 65536 * (?n div 65536 mod 256) = ?n"
    using mult_div_mod_eq [of 256 ?n] mult_div_mod_eq [of 256 "?n div 256"] unfolding q by linarith
  moreover have "(2 :: nat) ^ 8 = 256" "(2 :: nat) ^ 16 = 65536" by simp_all
  ultimately show ?thesis unfolding unat_ucast8 unat_drop_bit32 by (simp only:)
qed

lemma lba_high:
  fixes lba :: u32
  assumes "unat lba < 2 ^ 24"
  shows "(ucast (drop_bit 24 lba) :: u8) = 0"
proof -
  have "unat (drop_bit 24 lba) = 0" using assms unfolding unat_drop_bit32 by simp
  then have "drop_bit 24 lba = 0" using unat_eq_zero by blast
  then show ?thesis by (simp only: unsigned_0)
qed

lemma dev_bits:
  "bit (0xa0 OR 0x40 OR (if b then 0x10 else 0) OR 0 :: u8) 4 = b" "(0xa0 OR 0x40 OR (if b then 0x10 else 0) OR 0 :: u8) AND 0xf = 0"
  by (cases b; simp add: bit_eq_iff)+

text \<open>
  The port writes of a command for the sectors from \<open>lba\<close> on: the device then transfers them from or to the
  selected drive.
\<close>

definition sector_events :: "u16 \<Rightarrow> bool \<Rightarrow> u32 \<Rightarrow> u8 \<Rightarrow> u8 \<Rightarrow> io_event list" where
  "sector_events P sl lba n cmd = [OutB (P + reg_sec_cnt) n, OutB (P + reg_lba_l) (ucast lba),
     OutB (P + reg_lba_m) (ucast (drop_bit 8 lba)), OutB (P + reg_lba_h) (ucast (drop_bit 16 lba)),
     OutB (P + reg_dev) (BIT_DEV_MBS OR BIT_DEV_LBA OR (if sl then BIT_DEV_DEV else 0) OR ucast (drop_bit 24 lba)),
     OutB (P + reg_cmd) cmd]"

definition sectors_of :: "u8 \<Rightarrow> nat" where
  "sectors_of n = (if n = 0 then 256 else unat n)"

lemma sector_events_run:
  assumes "unat lba < 2 ^ 24" and "d' = foldl (ata_step P) d (sector_events P sl lba n cmd)"
  shows "platter d' = platter d" "slave d' = sl"
    "cmd = CMD_READ_SECTOR \<Longrightarrow> xfer d' = Reading (512 * unat lba) (256 * sectors_of n)"
    "cmd = CMD_WRITE_SECTOR \<Longrightarrow> xfer d' = Writing (512 * unat lba) (256 * sectors_of n)"
proof -
  define v :: u8 where "v = BIT_DEV_MBS OR BIT_DEV_LBA OR (if sl then BIT_DEV_DEV else 0) OR 0"
  have v: "bit v 4 = sl" "v AND 0xf = 0" unfolding v_def by (rule dev_bits)+
  let ?d = "d\<lparr>r_count := n, r_lba_l := ucast lba, r_lba_m := ucast (drop_bit 8 lba), r_lba_h := ucast (drop_bit 16 lba), r_dev := v\<rparr>"
  have d': "d' = ata_command cmd ?d"
    unfolding assms(2) sector_events_def lba_high [OF assms(1)] v_def by simp
  have "ata_lba ?d = unat lba" using lba_bytes [OF assms(1)] v by (simp add: ata_lba_def)
  moreover have "ata_sectors ?d = sectors_of n" by (simp add: ata_sectors_def sectors_of_def)
  moreover have "slave ?d = sl" using v by (simp add: slave_def)
  moreover have "slave (ata_command cmd ?d) = slave ?d" "platter (ata_command cmd ?d) = platter d"
    by (simp_all add: ata_command_def)
  ultimately show "platter d' = platter d" "slave d' = sl"
    "cmd = CMD_READ_SECTOR \<Longrightarrow> xfer d' = Reading (512 * unat lba) (256 * sectors_of n)"
    "cmd = CMD_WRITE_SECTOR \<Longrightarrow> xfer d' = Writing (512 * unat lba) (256 * sectors_of n)"
    by (simp_all add: d' ata_command_def)
qed


section \<open>Reading\<close>

definition is_slave :: "addr \<Rightarrow> 'a ide_scheme \<Rightarrow> bool" where
  "is_slave hdisk s \<longleftrightarrow> dev_no (disks s hdisk) = 1"

text \<open>The device of the channel of \<open>hdisk\<close> after the accesses so far, from \<open>d0\<close> on.\<close>

definition device :: "ata \<Rightarrow> addr \<Rightarrow> 'a ide_scheme \<Rightarrow> ata" where
  "device d0 hdisk s = ata_run (port_of hdisk s) d0 (ios s)"

definition expect :: "addr \<Rightarrow> 'a ide_scheme \<Rightarrow> 'a ide_scheme" where
  "expect ch s = s\<lparr>ide_channels := (ide_channels s)(ch := (ide_channels s ch)\<lparr>expecting_intr := True\<rparr>)\<rparr>"

lemma select_cmd:
  fixes s :: "'a ide_scheme"
  assumes "lba < max_lba" and "ch = chan hdisk s"
  shows "kbind (select_sector hdisk lba n s) (\<lambda>_. cmd_out ch cmd) =
    Done () ((expect ch s)\<lparr>ios := ios s @ sector_events (port_of hdisk s) (is_slave hdisk s) lba n cmd\<rparr>)"
  using assms by (simp add: select_sector_def cmd_out_def sector_events_def is_slave_def expect_def ide_outb_def upd_channel_def
    reg_def port_of_def chan_def)

lemma expect_simps [simp]:
  "port_of hdisk (expect ch s) = port_of hdisk s" "disks (expect ch s) = disks s" "mem (expect ch s) = mem s"
  "ios (expect ch s) = ios s" "answers (expect ch s) = answers s" "chan hdisk (expect ch s) = chan hdisk s"
  "disk_same hdisk s (expect ch s)" "disk_held T t hdisk (expect ch s) = disk_held T t hdisk s"
  by (simp_all add: expect_def port_of_def chan_def disk_same_def)

lemma port_of_simps [simp]:
  "port_of hdisk (s\<lparr>ios := h\<rparr>) = port_of hdisk s" "port_of hdisk (s\<lparr>mem := m\<rparr>) = port_of hdisk s"
  "chan hdisk (s\<lparr>ios := h\<rparr>) = chan hdisk s" "chan hdisk (s\<lparr>mem := m\<rparr>) = chan hdisk s"
  "disk_same hdisk s (s\<lparr>ios := h\<rparr>)" "disk_same hdisk s (s\<lparr>mem := m\<rparr>)" "disk_same hdisk s (s\<lparr>ios := h, mem := m\<rparr>)"
  by (simp_all add: port_of_def chan_def disk_same_def)

lemma busy_wait_ready:
  fixes s :: "'a ide_scheme"
  assumes "ata_answers (port_of hdisk s) d0 (answers s)" and "pending (device d0 hdisk s)"
  shows "busy_wait hdisk s = Done True (s\<lparr>ios := ios s @ [InB (port_of hdisk s + reg_status), InB (port_of hdisk s + reg_status)]\<rparr>)"
proof -
  let ?p = "port_of hdisk s + reg_status"
  have "ready_status (answers s (ios s) ?p)" "ready_status (answers s (ios s @ [InB ?p]) ?p)"
    by (rule ata_answers_ready [OF assms(1)], use assms(2) in \<open>simp add: device_def\<close>)+
  moreover have "reg reg_status hdisk s = ?p" by (simp add: reg_def port_of_def chan_def)
  ultimately show ?thesis unfolding busy_wait_def by (subst kiter_unfold) (simp add: ide_inb_def ready_status_def)
qed

lemma sectors_now_eq:
  assumes "dn < sc" and "unat sc \<le> 163839"
  shows "unat (sectors_now dn sc) = min 256 (unat sc - unat dn)" and "unat (dn + sectors_now dn sc) = unat dn + min 256 (unat sc - unat dn)"
    and "sectors_of (ucast (sectors_now dn sc)) = min 256 (unat sc - unat dn)"
    and "unat (size_in_byte (ucast (sectors_now dn sc)) div 2) = 256 * min 256 (unat sc - unat dn)"
proof -
  let ?k = "min 256 (unat sc - unat dn)"
  have l: "unat dn < unat sc" using assms(1) by (simp add: word_less_nat_alt)
  have s: "unat (dn + 256) = unat dn + 256" using unat_add_of_nat [of "dn" 256] l assms(2) by simp
  show 1: "unat (sectors_now dn sc) = ?k"
    using l s unat_sub [of "dn" sc] by (auto simp: sectors_now_def word_le_nat_alt min_def)
  show "unat (dn + sectors_now dn sc) = unat dn + ?k"
    using l assms(2) by (subst unat_word_ariths(1)) (simp add: 1)
  have u: "unat (ucast (sectors_now dn sc) :: u8) = ?k mod 256" by (simp only: unat_ucast8 1)
  have k: "0 < ?k" "?k \<le> 256" using l by simp_all
  show c: "sectors_of (ucast (sectors_now dn sc)) = ?k"
  proof (cases "?k = 256")
    case True
    then have "ucast (sectors_now dn sc) = (0 :: u8)" using u by (simp add: unat_eq_zero)
    then show ?thesis using True by (simp add: sectors_of_def)
  next
    case False
    then have "unat (ucast (sectors_now dn sc) :: u8) = ?k" using u k by simp
    then show ?thesis using k by (auto simp: sectors_of_def)
  qed
  have "unat (size_in_byte n div 2) = 256 * sectors_of n" for n :: u8
  proof (cases "n = 0")
    case False
    have b: "unat n < 256" using unsigned_less [of n, where ?'a = nat] by simp
    have "unat (ucast n * 512 :: u32) = unat n * 512"
      by (subst unat_word_ariths(2)) (use b in \<open>simp add: unsigned_ucast_eq take_bit_nat_eq_self\<close>)
    then show ?thesis using False by (simp add: size_in_byte_def sectors_of_def unat_div)
  qed (simp add: size_in_byte_def sectors_of_def)
  then show "unat (size_in_byte (ucast (sectors_now dn sc)) div 2) = 256 * ?k" using c by simp
qed


lemma steps3: "steps [a, b, c] s = kbind (kbind (a s) (\<lambda>_. b)) (\<lambda>_. c)"
  by (simp add: kbind_assoc pseq_def pbind_def [abs_def])

lemma device_ios:
  "device d0 hdisk (s\<lparr>ios := h\<rparr>) = ata_run (port_of hdisk s) d0 h" "device d0 hdisk (s\<lparr>mem := m\<rparr>) = device d0 hdisk s"
  by (simp_all add: device_def)

text \<open>The bytes of \<open>n\<close> sectors of the drive of \<open>hdisk\<close>, from sector \<open>lba\<close> on.\<close>

definition sectors :: "ata \<Rightarrow> addr \<Rightarrow> 'a ide_scheme \<Rightarrow> nat \<Rightarrow> nat \<Rightarrow> u8 list" where
  "sectors d0 hdisk s lba n = map (platter (device d0 hdisk s) (is_slave hdisk s)) [512 * lba..<512 * (lba + n)]"

lemma sectors_append:
  "sectors d0 hdisk s a n @ sectors d0 hdisk s (a + n) k = sectors d0 hdisk s a (n + k)"
  using upt_add_eq_append [of "512 * a" "512 * (a + n)" "512 * k"]
  by (simp add: sectors_def algebra_simps flip: map_append)

text \<open>The state of the device once a round has programmed its sectors and given its command.\<close>

lemma round_command:
  fixes s :: "'a ide_scheme"
  assumes bound: "unat lba + unat sc \<le> 163839" and dn: "dn < sc"
    and d1: "d1 = ata_run (port_of hdisk s) d0
      (ios s @ sector_events (port_of hdisk s) (is_slave hdisk s) (lba + dn) (ucast (sectors_now dn sc)) cmd)"
  shows "lba + dn < max_lba" "platter d1 = platter (device d0 hdisk s)" "slave d1 = is_slave hdisk s"
    "cmd = CMD_READ_SECTOR \<Longrightarrow> xfer d1 = Reading (512 * (unat lba + unat dn)) (256 * min 256 (unat sc - unat dn))"
    "cmd = CMD_WRITE_SECTOR \<Longrightarrow> xfer d1 = Writing (512 * (unat lba + unat dn)) (256 * min 256 (unat sc - unat dn))"
proof -
  have l: "unat dn < unat sc" using dn by (simp add: word_less_nat_alt)
  have u: "unat (lba + dn) = unat lba + unat dn" using l bound by (subst unat_word_ariths(1)) simp
  show "lba + dn < max_lba" using l bound u by (simp add: word_less_nat_alt)
  have lba: "unat (lba + dn) < 2 ^ 24" using l bound u by simp
  have d: "d1 = foldl (ata_step (port_of hdisk s)) (device d0 hdisk s)
      (sector_events (port_of hdisk s) (is_slave hdisk s) (lba + dn) (ucast (sectors_now dn sc)) cmd)"
    by (simp add: d1 device_def ata_run_append)
  have k: "sectors_of (ucast (sectors_now dn sc)) = min 256 (unat sc - unat dn)" by (rule sectors_now_eq(3) [OF dn]) (use bound in simp)
  note r = sector_events_run [OF lba d]
  show "platter d1 = platter (device d0 hdisk s)" "slave d1 = is_slave hdisk s" by (rule r(1), rule r(2))
  show "cmd = CMD_READ_SECTOR \<Longrightarrow> xfer d1 = Reading (512 * (unat lba + unat dn)) (256 * min 256 (unat sc - unat dn))"
    using r(3) unfolding u k .
  show "cmd = CMD_WRITE_SECTOR \<Longrightarrow> xfer d1 = Writing (512 * (unat lba + unat dn)) (256 * min 256 (unat sc - unat dn))"
    using r(4) unfolding u k .
qed

text \<open>The transfer of a round: the device is ready, and its sectors go through the data register.\<close>

lemma read_transfer:
  fixes s :: "'a ide_scheme"
  assumes ans: "ata_answers (port_of hdisk s) d0 (answers s)" and x: "xfer (device d0 hdisk s) = Reading b (256 * k)" "0 < k"
    and n: "unat (size_in_byte n div 2) = 256 * k"
  obtains s3 h where "busy_wait hdisk s = Done True s3"
    and "read_from_sector hdisk dst n s3 = Done () (s\<lparr>ios := h, mem := put_bytes dst (drive_bytes (device d0 hdisk s) b (512 * k)) (mem s)\<rparr>)"
    and "platter (ata_run (port_of hdisk s) d0 h) = platter (device d0 hdisk s)"
proof -
  let ?P = "port_of hdisk s"
  have "pending (device d0 hdisk s)" using x by (simp add: pending_def)
  note bw = busy_wait_ready [OF ans this]
  let ?s3 = "s\<lparr>ios := ios s @ [InB (?P + reg_status), InB (?P + reg_status)]\<rparr>"
  have dev3: "ata_run ?P d0 (ios ?s3) = device d0 hdisk s" by (simp add: device_def ata_run_append)
  obtain h where h: "insw ?P dst (256 * k) ?s3 = ?s3\<lparr>ios := h, mem := put_bytes dst (drive_bytes (device d0 hdisk s) b (2 * (256 * k))) (mem ?s3)\<rparr>"
    "ata_run ?P d0 h = (device d0 hdisk s)\<lparr>xfer := Reading (b + 2 * (256 * k)) 0\<rparr>"
    using insw_reads [of ?P d0 ?s3 b "256 * k" 0 dst] ans x(1) unfolding dev3 by auto
  have "reg reg_data hdisk ?s3 = ?P" by (simp add: reg_def port_of_def chan_def)
  then have "read_from_sector hdisk dst n ?s3 =
      Done () (s\<lparr>ios := h, mem := put_bytes dst (drive_bytes (device d0 hdisk s) b (512 * k)) (mem s)\<rparr>)"
    using h(1) by (simp add: read_from_sector_def n)
  then show ?thesis using that [OF bw] h(2) by simp
qed

lemma read_round_spec:
  fixes s :: "'a ide_scheme"
  assumes held: "disk_held T t hdisk s" and ch: "ch = chan hdisk s" and ans: "ata_answers (port_of hdisk s) d0 (answers s)"
    and bound: "unat lba + unat sc \<le> 163839" and dn: "dn < sc"
  shows "runs (disk_resumed T t hdisk A) (read_round sp hdisk ch lba dst sc dn s) (\<lambda>r s'.
    r = Inl (dn + sectors_now dn sc) \<and> disk_held T t hdisk s' \<and> disk_same hdisk s s' \<and>
    platter (device d0 hdisk s') = platter (device d0 hdisk s) \<and>
    same_on A (put_bytes (dst + dn * 512) (sectors d0 hdisk s (unat lba + unat dn) (min 256 (unat sc - unat dn))) (mem s)) (mem s'))"
proof -
  let ?P = "port_of hdisk s" and ?k = "min 256 (unat sc - unat dn)" and ?n = "ucast (sectors_now dn sc) :: u8"
  have bw: "unat (size_in_byte ?n div 2) = 256 * ?k" by (rule sectors_now_eq(4) [OF dn]) (use bound in simp)
  have k0: "0 < ?k" using dn by (simp add: word_less_nat_alt)
  let ?h = "ios s @ sector_events ?P (is_slave hdisk s) (lba + dn) ?n CMD_READ_SECTOR"
  let ?s1 = "(expect ch s)\<lparr>ios := ?h\<rparr>"
  define d1 where "d1 = ata_run ?P d0 ?h"
  note d1 = round_command [OF bound dn d1_def]
  have held1: "disk_held T t hdisk ?s1" using held by simp
  have ch1: "ch = chan hdisk ?s1" using ch by simp
  have same1: "disk_same hdisk s ?s1" by (rule disk_same_trans [of hdisk s "expect ch s"]) simp_all
  have wait: "runs (disk_resumed T t hdisk A) (sema_down (disk_done ch) ?s1) (\<lambda>_ s2.
      disk_held T t hdisk s2 \<and> same_on A (mem s) (mem s2) \<and> disk_same hdisk s s2 \<and> ios s2 = ?h @ [InB (?P + reg_status)])"
    by (rule runs_mono [OF disk_wait [OF held1 ch1, of A]]) (auto intro: disk_same_trans [OF same1])
  have rest: "runs (disk_resumed T t hdisk A)
      (kbind (busy_wait hdisk s2) (\<lambda>ready. after [whenp (\<not> ready) (disk_panic sp ''%s read sector %d failed!\<newline>'' [hdisk, lba]),
         read_from_sector hdisk (dst + dn * 512) ?n] (again (dn + sectors_now dn sc))))
      (\<lambda>r s'. r = Inl (dn + sectors_now dn sc) \<and> disk_held T t hdisk s' \<and> disk_same hdisk s s' \<and>
        platter (device d0 hdisk s') = platter (device d0 hdisk s) \<and>
        same_on A (put_bytes (dst + dn * 512) (sectors d0 hdisk s (unat lba + unat dn) ?k) (mem s)) (mem s'))"
    if s2: "disk_held T t hdisk s2" "same_on A (mem s) (mem s2)" "disk_same hdisk s s2" "ios s2 = ?h @ [InB (?P + reg_status)]" for s2
  proof -
    have p: "port_of hdisk s2 = ?P" "answers s2 = answers s" using s2(3) by (simp_all add: disk_same_def)
    have dev2: "device d0 hdisk s2 = d1" by (simp add: device_def p s2(4) d1_def ata_run_append)
    have bytes: "drive_bytes d1 (512 * (unat lba + unat dn)) (512 * ?k) = sectors d0 hdisk s (unat lba + unat dn) ?k"
      by (simp add: drive_bytes_def sectors_def d1(2,3) algebra_simps)
    have ans2: "ata_answers (port_of hdisk s2) d0 (answers s2)" and x2: "xfer (device d0 hdisk s2) = Reading (512 * (unat lba + unat dn)) (256 * ?k)"
      using ans p d1(4) dev2 by simp_all
    obtain s3 h where h: "busy_wait hdisk s2 = Done True s3" "read_from_sector hdisk (dst + dn * 512) ?n s3 =
        Done () (s2\<lparr>ios := h, mem := put_bytes (dst + dn * 512) (sectors d0 hdisk s (unat lba + unat dn) ?k) (mem s2)\<rparr>)"
      (is "_ = Done () ?s4") "platter (ata_run ?P d0 h) = platter d1"
      by (rule read_transfer [OF ans2 x2 k0 bw, of "dst + dn * 512", unfolded dev2 bytes p])
    then have eq: "kbind (busy_wait hdisk s2) (\<lambda>ready. after [whenp (\<not> ready) (disk_panic sp ''%s read sector %d failed!\<newline>'' [hdisk, lba]),
         read_from_sector hdisk (dst + dn * 512) ?n] (again (dn + sectors_now dn sc))) = Done (Inl (dn + sectors_now dn sc)) ?s4"
      by simp
    have held4: "disk_held T t hdisk ?s4" using s2(1) by simp
    have same4: "disk_same hdisk s ?s4" by (rule disk_same_trans [OF s2(3)]) simp
    have plat4: "platter (device d0 hdisk ?s4) = platter (device d0 hdisk s)"
      using h(3) d1(2) by (simp add: device_def p)
    have mem4: "same_on A (put_bytes (dst + dn * 512) (sectors d0 hdisk s (unat lba + unat dn) ?k) (mem s)) (mem ?s4)"
      using same_on_put_bytes [OF s2(2)] by simp
    show ?thesis unfolding eq runs_Done_iff using held4 same4 plat4 mem4 by blast
  qed
  have "runs (disk_resumed T t hdisk A) (kbind (sema_down (disk_done ch) ?s1) (\<lambda>_ s2.
      kbind (busy_wait hdisk s2) (\<lambda>ready. after [whenp (\<not> ready) (disk_panic sp ''%s read sector %d failed!\<newline>'' [hdisk, lba]),
         read_from_sector hdisk (dst + dn * 512) ?n] (again (dn + sectors_now dn sc)))))
      (\<lambda>r s'. r = Inl (dn + sectors_now dn sc) \<and> disk_held T t hdisk s' \<and> disk_same hdisk s s' \<and>
        platter (device d0 hdisk s') = platter (device d0 hdisk s) \<and>
        same_on A (put_bytes (dst + dn * 512) (sectors d0 hdisk s (unat lba + unat dn) ?k) (mem s)) (mem s'))"
    by (rule runs_kbind [OF wait], rule rest) simp_all
  moreover have "read_round sp hdisk ch lba dst sc dn s = kbind (sema_down (disk_done ch) ?s1)
      (\<lambda>_. pbind (busy_wait hdisk) (\<lambda>ready. after [whenp (\<not> ready) (disk_panic sp ''%s read sector %d failed!\<newline>'' [hdisk, lba]),
         read_from_sector hdisk (dst + dn * 512) ?n] (again (dn + sectors_now dn sc))))"
    unfolding read_round_def Let_def pseq_def pbind_def [abs_def] steps3
    using dn select_cmd [OF d1(1) ch, of ?n CMD_READ_SECTOR] by simp
  ultimately show ?thesis unfolding pbind_def [abs_def] by (simp only:)
qed


lemma read_loop_spec:
  fixes s :: "'a ide_scheme"
  assumes held: "disk_held T t hdisk s" and ch: "ch = chan hdisk s" and ans: "ata_answers (port_of hdisk s) d0 (answers s)"
    and bound: "unat lba + unat sc \<le> 163839"
  shows "runs (disk_resumed T t hdisk A) (kiter (read_round sp hdisk ch lba dst sc) 0 s) (\<lambda>_ s'.
    disk_held T t hdisk s' \<and> disk_same hdisk s s' \<and> platter (device d0 hdisk s') = platter (device d0 hdisk s) \<and>
    same_on A (put_bytes dst (sectors d0 hdisk s (unat lba) (unat sc)) (mem s)) (mem s'))"
proof -
  let ?I = "\<lambda>dn s'. dn \<le> sc \<and> disk_held T t hdisk s' \<and> disk_same hdisk s s' \<and>
    platter (device d0 hdisk s') = platter (device d0 hdisk s) \<and>
    same_on A (put_bytes dst (sectors d0 hdisk s (unat lba) (unat dn)) (mem s)) (mem s')"
  show ?thesis
  proof (rule runs_kiter [where I = ?I and meas = "\<lambda>dn. unat sc - unat dn"])
    show "?I 0 s" using held by (simp add: sectors_def)
    fix dn s' assume I: "?I dn s'"
    show "runs (disk_resumed T t hdisk A) (read_round sp hdisk ch lba dst sc dn s') (\<lambda>y s''.
        case y of Inl dn' \<Rightarrow> ?I dn' s'' \<and> unat sc - unat dn' < unat sc - unat dn
        | Inr r \<Rightarrow> disk_held T t hdisk s'' \<and> disk_same hdisk s s'' \<and> platter (device d0 hdisk s'') = platter (device d0 hdisk s) \<and>
            same_on A (put_bytes dst (sectors d0 hdisk s (unat lba) (unat sc)) (mem s)) (mem s''))"
    proof (cases "dn < sc")
      case False
      then have "dn = sc" using I by simp
      then show ?thesis using I by (simp add: read_round_def)
    next
      case True
      let ?k = "min 256 (unat sc - unat dn)"
      have l: "unat dn < unat sc" using True by (simp add: word_less_nat_alt)
      have round: "unat dn + ?k \<le> unat sc" "unat sc - (unat dn + ?k) < unat sc - unat dn" using l by arith+
      have same: "disk_same hdisk s s'" using I by simp
      have c': "ch = chan hdisk s'" and a': "ata_answers (port_of hdisk s') d0 (answers s')"
        using ch ans same by (simp_all add: disk_same_def chan_def)
      have sl: "is_slave hdisk s' = is_slave hdisk s" using same by (simp add: disk_same_def is_slave_def)
      have sec': "sectors d0 hdisk s' b n = sectors d0 hdisk s b n" for b n
        using I sl by (simp add: sectors_def)
      have u: "unat (dn + sectors_now dn sc) = unat dn + ?k" by (rule sectors_now_eq(2) [OF True]) (use bound in simp)
      have off: "dn * 512 = of_nat (length (sectors d0 hdisk s (unat lba) (unat dn)))"
        by (simp add: sectors_def mult.commute algebra_simps)
      have cat: "sectors d0 hdisk s (unat lba) (unat dn) @ sectors d0 hdisk s (unat lba + unat dn) ?k
          = sectors d0 hdisk s (unat lba) (unat dn + ?k)"
        by (rule sectors_append)
      show ?thesis
      proof (rule runs_mono [OF read_round_spec [OF _ c' a' bound True, of T t A sp dst]])
        show "disk_held T t hdisk s'" using I by simp
        fix y s'' assume q: "y = Inl (dn + sectors_now dn sc) \<and> disk_held T t hdisk s'' \<and> disk_same hdisk s' s'' \<and>
          platter (device d0 hdisk s'') = platter (device d0 hdisk s') \<and>
          same_on A (put_bytes (dst + dn * 512) (sectors d0 hdisk s' (unat lba + unat dn) ?k) (mem s')) (mem s'')"
        have "same_on A (put_bytes (dst + dn * 512) (sectors d0 hdisk s (unat lba + unat dn) ?k)
            (put_bytes dst (sectors d0 hdisk s (unat lba) (unat dn)) (mem s))) (mem s'')"
          using q same_on_trans [OF same_on_put_bytes] I unfolding sec' by blast
        then have "same_on A (put_bytes dst (sectors d0 hdisk s (unat lba) (unat dn + ?k)) (mem s)) (mem s'')"
          unfolding off put_bytes_append [symmetric] cat .
        then show "case y of Inl dn' \<Rightarrow> ?I dn' s'' \<and> unat sc - unat dn' < unat sc - unat dn
          | Inr r \<Rightarrow> disk_held T t hdisk s'' \<and> disk_same hdisk s s'' \<and> platter (device d0 hdisk s'') = platter (device d0 hdisk s) \<and>
            same_on A (put_bytes dst (sectors d0 hdisk s (unat lba) (unat sc)) (mem s)) (mem s'')"
          using q I round disk_same_trans [OF same] by (simp add: u word_le_nat_alt)
      qed
    qed
  qed
qed

section \<open>The lock of the channel\<close>

lemma disk_lock:
  fixes s :: "'a ide_scheme"
  assumes "disk_idle T t hdisk s" and "L = channel_lock (chan hdisk s)"
  shows "lock_acquire L s = Done () (locked L s)" and "disk_held T t hdisk (locked L s)" and "disk_same hdisk s (locked L s)"
    and "device d0 hdisk (locked L s) = device d0 hdisk s" and "mem (locked L s) = mem s"
proof -
  have "lock_idle L s" using assms by (simp add: disk_idle_def disk_wf_def lock_idle_def add.commute)
  then show "lock_acquire L s = Done () (locked L s)" by (rule lock_acquire_idle)
  have f: "disks (locked L s) = disks s" "partitions (locked L s) = partitions s" "answers (locked L s) = answers s"
    "lits (locked L s) = lits s" "ide_channels (locked L s) = ide_channels s" "ide.more (locked L s) = ide.more s"
    "ios (locked L s) = ios s"
    by (simp_all add: locked_def set_repeat_def set_holder_def set_sema_def)
  have c: "chan hdisk (locked L s) = chan hdisk s" by (simp add: chan_def f)
  show "disk_held T t hdisk (locked L s)"
    using assms lock_cells [of "chan hdisk s"] unfolding disk_held_def disk_idle_def disk_wf_def c
    by (auto simp: locked_def list_empty_def)
  show "disk_same hdisk s (locked L s)" by (simp add: disk_same_def port_of_def c f)
  show "device d0 hdisk (locked L s) = device d0 hdisk s" by (simp add: device_def port_of_def c f)
  show "mem (locked L s) = mem s" by simp
qed

lemma disk_unlock:
  fixes s :: "'a ide_scheme"
  assumes "disk_held T t hdisk s" and "L = channel_lock (chan hdisk s)"
  shows "lock_release L s = Inr (unlocked L s)" and "disk_idle T t hdisk (unlocked L s)" and "disk_same hdisk s (unlocked L s)"
    and "device d0 hdisk (unlocked L s) = device d0 hdisk s" and "mem (unlocked L s) = mem s"
proof -
  show "lock_release L s = Inr (unlocked L s)"
    using assms by (intro lock_release_idle) (simp_all add: disk_held_def disk_wf_def add.commute)
  have f: "disks (unlocked L s) = disks s" "partitions (unlocked L s) = partitions s" "answers (unlocked L s) = answers s"
    "lits (unlocked L s) = lits s" "ide_channels (unlocked L s) = ide_channels s" "ide.more (unlocked L s) = ide.more s"
    "ios (unlocked L s) = ios s"
    by (simp_all add: unlocked_def set_repeat_def set_holder_def set_sema_def)
  have c: "chan hdisk (unlocked L s) = chan hdisk s" by (simp add: chan_def f)
  show "disk_idle T t hdisk (unlocked L s)"
    using assms lock_cells [of "chan hdisk s"] unfolding disk_held_def disk_idle_def disk_wf_def c
    by (auto simp: unlocked_def list_empty_def)
  show "disk_same hdisk s (unlocked L s)" by (simp add: disk_same_def port_of_def c f)
  show "device d0 hdisk (unlocked L s) = device d0 hdisk s" by (simp add: device_def port_of_def c f)
  show "mem (unlocked L s) = mem s" by simp
qed

lemma select_disk_eq:
  fixes s :: "'a ide_scheme"
  shows "\<exists>v. select_disk hdisk s = Done () (s\<lparr>ios := ios s @ [OutB (port_of hdisk s + reg_dev) v]\<rparr>)"
  unfolding select_disk_def ide_outb_def reg_def port_of_def chan_def
  by (intro exI [of _ "if dev_no (disks s hdisk) = 1 then BIT_DEV_MBS OR BIT_DEV_LBA OR BIT_DEV_DEV else BIT_DEV_MBS OR BIT_DEV_LBA"]) simp

lemma device_select: "platter (device d0 hdisk (s\<lparr>ios := ios s @ [OutB (port_of hdisk s + reg_dev) v]\<rparr>)) = platter (device d0 hdisk s)"
  by (simp add: device_def)

lemma steps4: "steps [a, b, c, d] s = kbind (a s) (\<lambda>_ s. kbind (b s) (\<lambda>_ s. kbind (c s) (\<lambda>_ s. d s)))"
  by (simp add: pseq_def pbind_def [abs_def])

text \<open>
  The frame of both transfers: the lock of the channel is taken, the drive selected, and the lock given
  back after the loop.
\<close>

lemma transfer_spec:
  fixes s :: "'a ide_scheme"
  assumes idle: "disk_idle T t hdisk s" and L: "L = channel_lock (chan hdisk s)"
    and loop: "\<And>s1. disk_held T t hdisk s1 \<Longrightarrow> disk_same hdisk s s1 \<Longrightarrow> mem s1 = mem s \<Longrightarrow>
      platter (device d0 hdisk s1) = platter (device d0 hdisk s) \<Longrightarrow>
      runs R (body s1) (\<lambda>_ s2. disk_held T t hdisk s2 \<and> disk_same hdisk s1 s2 \<and> Q (platter (device d0 hdisk s2)) (mem s2))"
  shows "runs R (steps [lock_acquire L, select_disk hdisk, body, does (lock_release L)] s)
    (\<lambda>_ s'. disk_idle T t hdisk s' \<and> disk_same hdisk s s' \<and> Q (platter (device d0 hdisk s')) (mem s'))"
proof -
  obtain v where v: "select_disk hdisk (locked L s) = Done () ((locked L s)\<lparr>ios := ios (locked L s) @ [OutB (port_of hdisk (locked L s) + reg_dev) v]\<rparr>)"
    (is "_ = Done () ?s1") using select_disk_eq by blast
  note l = disk_lock [OF idle L]
  have s1: "disk_held T t hdisk ?s1" "disk_same hdisk s ?s1" "mem ?s1 = mem s" "platter (device d0 hdisk ?s1) = platter (device d0 hdisk s)"
    using l(2,3) disk_same_trans [OF l(3)] by (simp_all add: device_select l(4,5))
  have "runs R (kbind (body ?s1) (\<lambda>_. does (lock_release L)))
    (\<lambda>_ s'. disk_idle T t hdisk s' \<and> disk_same hdisk s s' \<and> Q (platter (device d0 hdisk s')) (mem s'))"
  proof (rule runs_kbind [OF loop [OF s1]])
    fix x s2 assume q: "disk_held T t hdisk s2 \<and> disk_same hdisk ?s1 s2 \<and> Q (platter (device d0 hdisk s2)) (mem s2)"
    have same: "disk_same hdisk s s2" using q disk_same_trans [OF s1(2)] by blast
    then have L2: "L = channel_lock (chan hdisk s2)" by (simp add: L chan_def disk_same_def)
    note u = disk_unlock [OF conjunct1 [OF q] L2]
    show "runs R (does (lock_release L) s2)
      (\<lambda>_ s'. disk_idle T t hdisk s' \<and> disk_same hdisk s s' \<and> Q (platter (device d0 hdisk s')) (mem s'))"
      using q u(1,2,4,5) disk_same_trans [OF same u(3)] by simp
  qed
  then show ?thesis unfolding steps4 l(1) kbind_simps by (simp add: v)
qed

lemma ide_read_spec:
  fixes s :: "'a ide_scheme"
  assumes "disk_idle T t hdisk s" and "ata_answers (port_of hdisk s) d0 (answers s)"
    and "0 < sc" and "unat lba + unat sc \<le> 163839"
  shows "runs (disk_resumed T t hdisk A) (ide_read sp hdisk lba dst sc s) (\<lambda>_ s'.
    disk_idle T t hdisk s' \<and> disk_same hdisk s s' \<and> platter (device d0 hdisk s') = platter (device d0 hdisk s) \<and>
    same_on A (put_bytes dst (sectors d0 hdisk s (unat lba) (unat sc)) (mem s)) (mem s'))"
proof -
  let ?L = "channel_lock (chan hdisk s)"
  have lba: "lba \<le> max_lba" using assms(4) by (simp add: word_le_nat_alt)
  have eq: "ide_read sp hdisk lba dst sc s = steps [lock_acquire ?L, select_disk hdisk,
      kiter (read_round sp hdisk (chan hdisk s) lba dst sc) 0, does (lock_release ?L)] s"
    using assms(3) lba by (simp add: ide_read_def chan_def)
  show ?thesis unfolding eq
  proof (rule transfer_spec [OF assms(1) refl, where Q = "\<lambda>p m. p = platter (device d0 hdisk s) \<and>
      same_on A (put_bytes dst (sectors d0 hdisk s (unat lba) (unat sc)) (mem s)) m"])
    fix s1 assume h: "disk_held T t hdisk s1" and same: "disk_same hdisk s s1" and m: "mem s1 = mem s"
      and p: "platter (device d0 hdisk s1) = platter (device d0 hdisk s)"
    have a: "ata_answers (port_of hdisk s1) d0 (answers s1)" and c: "chan hdisk s = chan hdisk s1"
      and sec: "sectors d0 hdisk s1 = sectors d0 hdisk s"
      using assms(2) same p by (simp_all add: disk_same_def chan_def sectors_def is_slave_def [abs_def] sectors_def [abs_def])
    show "runs (disk_resumed T t hdisk A) (kiter (read_round sp hdisk (chan hdisk s) lba dst sc) 0 s1)
      (\<lambda>_ s2. disk_held T t hdisk s2 \<and> disk_same hdisk s1 s2 \<and> platter (device d0 hdisk s2) = platter (device d0 hdisk s) \<and>
        same_on A (put_bytes dst (sectors d0 hdisk s (unat lba) (unat sc)) (mem s)) (mem s2))"
      using read_loop_spec [OF h c a assms(4)] unfolding sec m p .
  qed
qed

section \<open>Writing\<close>

text \<open>The contents of the drives with \<open>n\<close> sectors from \<open>lba\<close> on replaced.\<close>

definition put_sectors :: "bool \<Rightarrow> nat \<Rightarrow> nat \<Rightarrow> (nat \<Rightarrow> u8) \<Rightarrow> (bool \<Rightarrow> nat \<Rightarrow> u8) \<Rightarrow> bool \<Rightarrow> nat \<Rightarrow> u8" where
  "put_sectors sl lba n f p = p(sl := (\<lambda>x. if 512 * lba \<le> x \<and> x < 512 * (lba + n) then f (x - 512 * lba) else p sl x))"

lemma put_sectors_0 [simp]: "put_sectors sl lba 0 f p = p"
  by (auto simp: put_sectors_def fun_eq_iff)

lemma put_sectors_append:
  "put_sectors sl (lba + n) k (\<lambda>i. f (512 * n + i)) (put_sectors sl lba n f p) = put_sectors sl lba (n + k) f p"
proof (intro ext)
  fix b x
  show "put_sectors sl (lba + n) k (\<lambda>i. f (512 * n + i)) (put_sectors sl lba n f p) b x = put_sectors sl lba (n + k) f p b x"
    by (cases "b = sl") (auto simp: put_sectors_def algebra_simps)
qed

lemma put_sectors_cong:
  "(\<And>i. i < 512 * n \<Longrightarrow> f i = g i) \<Longrightarrow> put_sectors sl lba n f p = put_sectors sl lba n g p"
  by (auto simp: put_sectors_def fun_eq_iff)

lemma write_transfer:
  fixes s :: "'a ide_scheme"
  assumes ans: "ata_answers (port_of hdisk s) d0 (answers s)" and x: "xfer (device d0 hdisk s) = Writing (512 * b) (256 * k)" "0 < k"
    and n: "unat (size_in_byte n div 2) = 256 * k"
  obtains s3 h where "busy_wait hdisk s = Done True s3" and "write2sector hdisk src n s3 = Done () (s\<lparr>ios := h\<rparr>)"
    and "platter (ata_run (port_of hdisk s) d0 h) =
      put_sectors (slave (device d0 hdisk s)) b k (\<lambda>i. mem s (src + of_nat i)) (platter (device d0 hdisk s))"
proof -
  let ?P = "port_of hdisk s"
  have "pending (device d0 hdisk s)" using x by (simp add: pending_def)
  note bw = busy_wait_ready [OF ans this]
  let ?s3 = "s\<lparr>ios := ios s @ [InB (?P + reg_status), InB (?P + reg_status)]\<rparr>"
  have dev3: "ata_run ?P d0 (ios ?s3) = device d0 hdisk s" by (simp add: device_def ata_run_append)
  have x3: "xfer (ata_run ?P d0 (ios ?s3)) = Writing (512 * b) (256 * k + 0)" unfolding dev3 x(1) by simp
  obtain h where h: "outsw ?P src (256 * k) ?s3 = ?s3\<lparr>ios := h\<rparr>"
    "ata_run ?P d0 h = (put_drive (512 * b) (2 * (256 * k)) (\<lambda>i. mem ?s3 (src + of_nat i)) (device d0 hdisk s))
       \<lparr>xfer := Writing (512 * b + 2 * (256 * k)) 0\<rparr>"
    using outsw_writes [OF x3, of src] unfolding dev3 by blast
  have "512 * b + 2 * (256 * k) = 512 * (b + k)" by simp
  then have "platter (ata_run ?P d0 h) =
      put_sectors (slave (device d0 hdisk s)) b k (\<lambda>i. mem s (src + of_nat i)) (platter (device d0 hdisk s))"
    unfolding h(2) put_drive_def put_sectors_def by (simp cong: if_cong)
  moreover have "reg reg_data hdisk ?s3 = ?P" by (simp add: reg_def port_of_def chan_def)
  ultimately show ?thesis using that [OF bw] h(1) by (simp add: write2sector_def n)
qed

lemma write_round_spec:
  fixes s :: "'a ide_scheme"
  assumes held: "disk_held T t hdisk s" and ch: "ch = chan hdisk s" and ans: "ata_answers (port_of hdisk s) d0 (answers s)"
    and bound: "unat lba + unat sc \<le> 163839" and dn: "dn < sc"
  shows "runs (disk_resumed T t hdisk A) (write_round sp hdisk ch lba src sc dn s) (\<lambda>r s'.
    r = Inl (dn + sectors_now dn sc) \<and> disk_held T t hdisk s' \<and> disk_same hdisk s s' \<and> same_on A (mem s) (mem s') \<and>
    platter (device d0 hdisk s') = put_sectors (is_slave hdisk s) (unat lba + unat dn) (min 256 (unat sc - unat dn))
      (\<lambda>i. mem s (src + dn * 512 + of_nat i)) (platter (device d0 hdisk s)))"
proof -
  let ?P = "port_of hdisk s" and ?k = "min 256 (unat sc - unat dn)" and ?n = "ucast (sectors_now dn sc) :: u8"
  let ?plat = "put_sectors (is_slave hdisk s) (unat lba + unat dn) ?k (\<lambda>i. mem s (src + dn * 512 + of_nat i)) (platter (device d0 hdisk s))"
  have bw: "unat (size_in_byte ?n div 2) = 256 * ?k" by (rule sectors_now_eq(4) [OF dn]) (use bound in simp)
  have k0: "0 < ?k" using dn by (simp add: word_less_nat_alt)
  let ?h = "ios s @ sector_events ?P (is_slave hdisk s) (lba + dn) ?n CMD_WRITE_SECTOR"
  let ?s1 = "(expect ch s)\<lparr>ios := ?h\<rparr>"
  define d1 where "d1 = ata_run ?P d0 ?h"
  note d1 = round_command [OF bound dn d1_def]
  have dev1: "device d0 hdisk ?s1 = d1" by (simp add: device_ios d1_def)
  have ans1: "ata_answers (port_of hdisk ?s1) d0 (answers ?s1)" and x1: "xfer (device d0 hdisk ?s1) = Writing (512 * (unat lba + unat dn)) (256 * ?k)"
    using ans d1(5) dev1 by simp_all
  obtain s2 h where h: "busy_wait hdisk ?s1 = Done True s2" "write2sector hdisk (src + dn * 512) ?n s2 = Done () ((expect ch s)\<lparr>ios := h\<rparr>)"
    and plat: "platter (ata_run ?P d0 h) = ?plat"
    using write_transfer [OF ans1 x1 k0 bw, of "src + dn * 512", unfolded dev1] d1(2,3) by auto
  let ?s3 = "(expect ch s)\<lparr>ios := h\<rparr>"
  have held3: "disk_held T t hdisk ?s3" using held by simp
  have ch3: "ch = chan hdisk ?s3" using ch by simp
  have same3: "disk_same hdisk s ?s3" by (rule disk_same_trans [of hdisk s "expect ch s"]) simp_all
  have wait: "runs (disk_resumed T t hdisk A) (sema_down (disk_done ch) ?s3) (\<lambda>_ s'.
      disk_held T t hdisk s' \<and> disk_same hdisk s s' \<and> same_on A (mem s) (mem s') \<and> platter (device d0 hdisk s') = ?plat)"
  proof (rule runs_mono [OF disk_wait [OF held3 ch3, of A]])
    fix x s' assume q: "disk_held T t hdisk s' \<and> same_on A (mem ?s3) (mem s') \<and> disk_same hdisk ?s3 s' \<and>
      ios s' = ios ?s3 @ [InB (port_of hdisk ?s3 + reg_status)]"
    have same: "disk_same hdisk s s'" using q disk_same_trans [OF same3] by blast
    moreover have "device d0 hdisk s' = ata_run ?P d0 h" using q same by (simp add: device_def disk_same_def)
    ultimately show "disk_held T t hdisk s' \<and> disk_same hdisk s s' \<and> same_on A (mem s) (mem s') \<and> platter (device d0 hdisk s') = ?plat"
      using q plat by simp
  qed
  have "write_round sp hdisk ch lba src sc dn s = kbind (sema_down (disk_done ch) ?s3) (\<lambda>_. again (dn + sectors_now dn sc))"
    unfolding write_round_def Let_def
    using dn h select_cmd [OF d1(1) ch, of ?n CMD_WRITE_SECTOR] by simp
  moreover have "runs (disk_resumed T t hdisk A) (kbind (sema_down (disk_done ch) ?s3) (\<lambda>_. again (dn + sectors_now dn sc)))
    (\<lambda>r s'. r = Inl (dn + sectors_now dn sc) \<and> disk_held T t hdisk s' \<and> disk_same hdisk s s' \<and> same_on A (mem s) (mem s') \<and>
      platter (device d0 hdisk s') = ?plat)"
    by (rule runs_kbind [OF wait]) simp
  ultimately show ?thesis by (simp only:)
qed

lemma write_loop_spec:
  fixes s :: "'a ide_scheme"
  assumes held: "disk_held T t hdisk s" and ch: "ch = chan hdisk s" and ans: "ata_answers (port_of hdisk s) d0 (answers s)"
    and bound: "unat lba + unat sc \<le> 163839" and A: "\<forall>i<512 * unat sc. src + of_nat i \<in> A"
  shows "runs (disk_resumed T t hdisk A) (kiter (write_round sp hdisk ch lba src sc) 0 s) (\<lambda>_ s'.
    disk_held T t hdisk s' \<and> disk_same hdisk s s' \<and> same_on A (mem s) (mem s') \<and>
    platter (device d0 hdisk s') = put_sectors (is_slave hdisk s) (unat lba) (unat sc) (\<lambda>i. mem s (src + of_nat i)) (platter (device d0 hdisk s)))"
proof -
  let ?plat = "\<lambda>n. put_sectors (is_slave hdisk s) (unat lba) n (\<lambda>i. mem s (src + of_nat i)) (platter (device d0 hdisk s))"
  let ?I = "\<lambda>dn s'. dn \<le> sc \<and> disk_held T t hdisk s' \<and> disk_same hdisk s s' \<and> same_on A (mem s) (mem s') \<and>
    platter (device d0 hdisk s') = ?plat (unat dn)"
  show ?thesis
  proof (rule runs_kiter [where I = ?I and meas = "\<lambda>dn. unat sc - unat dn"])
    show "?I 0 s" using held by simp
    fix dn s' assume I: "?I dn s'"
    show "runs (disk_resumed T t hdisk A) (write_round sp hdisk ch lba src sc dn s') (\<lambda>y s''.
        case y of Inl dn' \<Rightarrow> ?I dn' s'' \<and> unat sc - unat dn' < unat sc - unat dn
        | Inr r \<Rightarrow> disk_held T t hdisk s'' \<and> disk_same hdisk s s'' \<and> same_on A (mem s) (mem s'') \<and>
            platter (device d0 hdisk s'') = ?plat (unat sc))"
    proof (cases "dn < sc")
      case False
      then have "dn = sc" using I by simp
      then show ?thesis using I by (simp add: write_round_def)
    next
      case True
      let ?k = "min 256 (unat sc - unat dn)"
      have l: "unat dn < unat sc" using True by (simp add: word_less_nat_alt)
      have round: "unat dn + ?k \<le> unat sc" "unat sc - (unat dn + ?k) < unat sc - unat dn" using l by arith+
      have same: "disk_same hdisk s s'" using I by simp
      have c': "ch = chan hdisk s'" and a': "ata_answers (port_of hdisk s') d0 (answers s')" and sl: "is_slave hdisk s' = is_slave hdisk s"
        using ch ans same by (simp_all add: disk_same_def chan_def is_slave_def)
      have u: "unat (dn + sectors_now dn sc) = unat dn + ?k" by (rule sectors_now_eq(2) [OF True]) (use bound in simp)
      have src: "mem s' (src + dn * 512 + of_nat i) = mem s (src + of_nat (512 * unat dn + i))" if "i < 512 * ?k" for i
      proof -
        have "512 * unat dn + i < 512 * unat sc" using that round(1) by linarith
        then have "src + of_nat (512 * unat dn + i) \<in> A" using A by blast
        then show ?thesis using I by (simp add: same_on_def add.assoc mult.commute)
      qed
      have "put_sectors (is_slave hdisk s') (unat lba + unat dn) ?k (\<lambda>i. mem s' (src + dn * 512 + of_nat i)) (?plat (unat dn))
          = put_sectors (is_slave hdisk s) (unat lba + unat dn) ?k (\<lambda>i. mem s (src + of_nat (512 * unat dn + i))) (?plat (unat dn))"
        unfolding sl by (rule put_sectors_cong) (rule src)
      also have "\<dots> = ?plat (unat dn + ?k)" by (rule put_sectors_append)
      finally have cat: "put_sectors (is_slave hdisk s') (unat lba + unat dn) ?k (\<lambda>i. mem s' (src + dn * 512 + of_nat i)) (?plat (unat dn))
          = ?plat (unat dn + ?k)" .
      show ?thesis
      proof (rule runs_mono [OF write_round_spec [OF _ c' a' bound True, of T t A sp src]])
        show "disk_held T t hdisk s'" using I by simp
        fix y s'' assume q: "y = Inl (dn + sectors_now dn sc) \<and> disk_held T t hdisk s'' \<and> disk_same hdisk s' s'' \<and>
          same_on A (mem s') (mem s'') \<and> platter (device d0 hdisk s'') = put_sectors (is_slave hdisk s') (unat lba + unat dn) ?k
            (\<lambda>i. mem s' (src + dn * 512 + of_nat i)) (platter (device d0 hdisk s'))"
        then have "platter (device d0 hdisk s'') = ?plat (unat dn + ?k)" using I cat by simp
        then show "case y of Inl dn' \<Rightarrow> ?I dn' s'' \<and> unat sc - unat dn' < unat sc - unat dn
          | Inr r \<Rightarrow> disk_held T t hdisk s'' \<and> disk_same hdisk s s'' \<and> same_on A (mem s) (mem s'') \<and>
            platter (device d0 hdisk s'') = ?plat (unat sc)"
          using q I round disk_same_trans [OF same] same_on_trans [of A "mem s" "mem s'"] by (simp add: u word_le_nat_alt)
      qed
    qed
  qed
qed

lemma ide_write_spec:
  fixes s :: "'a ide_scheme"
  assumes "disk_idle T t hdisk s" and "ata_answers (port_of hdisk s) d0 (answers s)"
    and "0 < sc" and "unat lba + unat sc \<le> 163839" and "\<forall>i<512 * unat sc. src + of_nat i \<in> A"
  shows "runs (disk_resumed T t hdisk A) (ide_write sp hdisk lba src sc s) (\<lambda>_ s'.
    disk_idle T t hdisk s' \<and> disk_same hdisk s s' \<and> same_on A (mem s) (mem s') \<and>
    platter (device d0 hdisk s') = put_sectors (is_slave hdisk s) (unat lba) (unat sc) (\<lambda>i. mem s (src + of_nat i)) (platter (device d0 hdisk s)))"
proof -
  let ?L = "channel_lock (chan hdisk s)"
  let ?plat = "put_sectors (is_slave hdisk s) (unat lba) (unat sc) (\<lambda>i. mem s (src + of_nat i)) (platter (device d0 hdisk s))"
  have lba: "lba \<le> max_lba" using assms(4) by (simp add: word_le_nat_alt)
  have eq: "ide_write sp hdisk lba src sc s = steps [lock_acquire ?L, select_disk hdisk,
      kiter (write_round sp hdisk (chan hdisk s) lba src sc) 0, does (lock_release ?L)] s"
    using assms(3) lba by (simp add: ide_write_def chan_def)
  have "runs (disk_resumed T t hdisk A) (steps [lock_acquire ?L, select_disk hdisk,
      kiter (write_round sp hdisk (chan hdisk s) lba src sc) 0, does (lock_release ?L)] s)
      (\<lambda>_ s'. disk_idle T t hdisk s' \<and> disk_same hdisk s s' \<and> platter (device d0 hdisk s') = ?plat \<and> same_on A (mem s) (mem s'))"
  proof (rule transfer_spec [OF assms(1) refl, where Q = "\<lambda>p m. p = ?plat \<and> same_on A (mem s) m"])
    fix s1 assume h: "disk_held T t hdisk s1" and same: "disk_same hdisk s s1" and m: "mem s1 = mem s"
      and p: "platter (device d0 hdisk s1) = platter (device d0 hdisk s)"
    have a: "ata_answers (port_of hdisk s1) d0 (answers s1)" and c: "chan hdisk s = chan hdisk s1" and sl: "is_slave hdisk s1 = is_slave hdisk s"
      using assms(2) same by (simp_all add: disk_same_def chan_def is_slave_def)
    show "runs (disk_resumed T t hdisk A) (kiter (write_round sp hdisk (chan hdisk s) lba src sc) 0 s1)
      (\<lambda>_ s2. disk_held T t hdisk s2 \<and> disk_same hdisk s1 s2 \<and> platter (device d0 hdisk s2) = ?plat \<and> same_on A (mem s) (mem s2))"
      by (rule runs_mono [OF write_loop_spec [OF h c a assms(4,5)]]) (simp add: m p sl)
  qed
  then show ?thesis unfolding eq by (rule runs_mono) simp
qed

end
