(* ===== verification/Disk.thy ===== *)
theory Disk
  imports Disk_Rw
begin

text \<open>
  The disk driver as its clients see it: \<^verbatim>\<open>ide_read\<close> and \<^verbatim>\<open>ide_write\<close> transfer sectors between memory and the
  selected drive, and the interrupt handler resumes the thread that waits for them.
\<close>

section \<open>The interrupt of the disk\<close>

text \<open>What giving a semaphore to its only waiter leaves alone.\<close>

lemma sema_up_frame:
  fixes s :: "'a sync_scheme"
  assumes inv: "sched_inv s T rs" and ok: "waiters_ok s T m [w]" and v: "sema_value s m = 0" and up: "sema_up m s = Inr s'"
  shows "mem s' = mem s" and "thread_ready_list s' = thread_ready_list s"
    and "x \<notin> {m + 4, m + 12, thread_ready_list s, thread_ready_list s + 8} \<union> general_tag ` T \<Longrightarrow> nodes s' x = nodes s x"
proof -
  obtain old s1 where d: "disable_intr s = (old, s1)" by (cases "disable_intr s")
  note f = disable_intr_fields [OF d]
  have s1: "sched_inv s1 T rs" "waiters_ok s1 T m [w]"
    using inv ok by (subst f(1), simp add: sched_inv_eflags)+
  have e1: "mem s1 = mem s" "nodes s1 = nodes s" "thread_ready_list s1 = thread_ready_list s" "sema_value s1 m = 0"
    using v by (subst f(1), simp)+
  let ?s2 = "list_remove (general_tag w) s1"
  let ?s3 = "set_status w TASK_READY (list_push (thread_ready_list ?s2) (general_tag w) ?s2)"
  note p = waiters_pop [OF s1]
  have w: "w \<in> T" "task_status_of ?s2 w = TASK_BLOCKED" "w \<notin> set rs"
    using waiters_okD(2,4) [OF s1(2)] waiters_not_ready(1) [OF s1] by auto
  have b: "blocked_status (task_status_of ?s2 w)" by (simp add: w(2) [simplified] blocked_status_def)
  have wf: "sched_wf ?s2 T rs" using p(2) by (simp add: sched_inv_def)
  have rl: "ready_list ?s2 rs" by (rule sched_wfD(1) [OF wf])
  have unblock: "thread_unblock w ?s2 = Inr ?s3" by (rule thread_unblock_eq [OF rl w(3) b])
  have empty: "\<not> list_empty (m + 4) s1" using list_empty_iff [OF waiters_okD(1) [OF s1(2)]] by simp
  have "sema_value ?s3 m = 0" using e1(4) more_sync(1) [of ?s3 s1] by simp
  then have s': "s' = snd (set_intr_status old (set_sema m 1 ?s3))"
    using up unblock p(1) empty e1(4) by (simp add: sema_up_def d Let_def)
  show "mem s' = mem s" "thread_ready_list s' = thread_ready_list s"
    unfolding s' by (subst set_intr_status_fields, simp add: set_sema_def e1)+
  assume x: "x \<notin> {m + 4, m + 12, thread_ready_list s, thread_ready_list s + 8} \<union> general_tag ` T"
  have T: "set rs \<subseteq> T" using wf by (simp add: sched_wf_def)
  have fresh: "general_tag w \<notin> set (list_cells (thread_ready_list s) (map general_tag rs))"
    using sched_wfD(6,7) [OF wf w(1)] w(3) e1(3) by auto
  have "nodes (list_push (thread_ready_list ?s2) (general_tag w) ?s2) x = nodes ?s2 x"
    by (rule list_push_other [where xs = "map general_tag rs"])
      (use rl fresh x T w(1) e1(3) in \<open>auto simp: ready_list_def set_list_cells\<close>)
  moreover have "nodes ?s2 x = nodes s1 x"
    by (rule list_remove_other [where l = "m + 4" and xs = "[]" and ys = "[]"])
      (use waiters_okD(1) [OF s1(2)] x in \<open>auto simp: set_list_cells\<close>)
  moreover have "nodes s' = nodes ?s3"
    unfolding s' by (subst set_intr_status_fields) (simp add: set_sema_def)
  ultimately show "nodes s' x = nodes s x" using e1(2) by simp
qed

lemma sync_more_eq:
  fixes s s' :: "'a sync_scheme"
  assumes "sync.more s' = sync.more s"
  shows "s' = s\<lparr>eflags := eflags s', nodes := nodes s', esp := esp s', cr3 := cr3 s', mem := mem s', pmem := pmem s',
    tasks := tasks s', thread_ready_list := thread_ready_list s', thread_all_list := thread_all_list s',
    main_thread := main_thread s', idle_thread := idle_thread s', thread_tag := thread_tag s', tss_esp0 := tss_esp0 s',
    sema_value := sema_value s', lock_holder := lock_holder s', holder_repeat_nr := holder_repeat_nr s'\<rparr>"
  using assms by (cases s; cases s') simp

lemma ide_more_fields:
  fixes s s' :: "'a ide_scheme"
  assumes "sync.more s' = sync.more s"
  shows "disks s' = disks s" "partitions s' = partitions s" "answers s' = answers s" "lits s' = lits s"
    "ide_channels s' = ide_channels s" "ide.more s' = ide.more s" "ios s' = ios s" "channels s' = channels s"
proof -
  obtain a b c d e f g h i j k l m n p q where eq: "s' = s\<lparr>eflags := a, nodes := b, esp := c, cr3 := d, mem := e, pmem := f,
    tasks := g, thread_ready_list := h, thread_all_list := i, main_thread := j, idle_thread := k, thread_tag := l,
    tss_esp0 := m, sema_value := n, lock_holder := p, holder_repeat_nr := q\<rparr>" using sync_more_eq [OF assms] by blast
  show "disks s' = disks s" "partitions s' = partitions s" "answers s' = answers s" "lits s' = lits s"
    "ide_channels s' = ide_channels s" "ide.more s' = ide.more s" "ios s' = ios s" "channels s' = channels s"
    unfolding eq by simp_all
qed

text \<open>A thread waits for the end of a command on the channel of \<open>hdisk\<close>, whose interrupt is \<open>vec\<close>.\<close>

definition waits_for_disk :: "addr set \<Rightarrow> addr \<Rightarrow> addr \<Rightarrow> u8 \<Rightarrow> 'a ide_scheme \<Rightarrow> bool" where
  "waits_for_disk T t hdisk vec s \<longleftrightarrow>
     (\<exists>rs. sched_inv s T rs) \<and> waiters_ok s T (disk_done (chan hdisk s)) [t] \<and> sema_value s (disk_done (chan hdisk s)) = 0 \<and>
     waiters_ok s T (channel_lock (chan hdisk s) + 4) [] \<and>
     (vec = 0x2e \<or> vec = 0x2f) \<and> chan hdisk s = channel_at (channels s) (ucast (vec - 0x2e)) \<and>
     irq_no (ide_channels s (chan hdisk s)) = vec \<and> expecting_intr (ide_channels s (chan hdisk s))"

section \<open>A disk\<close>

text \<open>
  The channel of the second drive at \<open>0x1f0\<close>; the main thread runs, another thread is ready or, in
  \<open>sample_blocked\<close>, waits for the end of a command.
\<close>

definition sample_node :: "addr \<Rightarrow> addr \<Rightarrow> list_elem" where
  "sample_node f n = \<lparr>front = f, nxt = n\<rparr>"

definition sample_ide :: "node_store \<Rightarrow> task_status \<Rightarrow> u8 \<Rightarrow> (io_event list \<Rightarrow> u16 \<Rightarrow> u16) \<Rightarrow> ide" where
  "sample_ide ns st v ans =
     \<lparr>eflags = 0x202, nodes = ns, esp = 0xc009efe0, cr3 = 0x100000, mem = (\<lambda>_. 7), pmem = sample_pmem,
      tasks = (\<lambda>t. sample_task t (if t = 0xc009e000 then TASK_RUNNING else if t = 0xc0101000 then st else TASK_BLOCKED)),
      thread_ready_list = 0xc0005000, thread_all_list = 0xc0005010, main_thread = 0xc009e000,
      idle_thread = 0xc0100000, thread_tag = NULL, tss_esp0 = 0,
      sema_value = (\<lambda>_. 0)(0xc000b010 := v), lock_holder = (\<lambda>_. NULL), holder_repeat_nr = (\<lambda>_. 0),
      ioqueues = ioqueues sample_ioqs, irq = sample_irq, total_ticks = 7,
      ctrl_status = False, shift_status = False, alt_status = False, caps_lock_status = False, ext_scancode = False,
      kbd_buf = 0xc0006000, kernel_pool = sample_kpool, user_pool = sample_upool, kernel_vaddr = sample_kva,
      k_block_desc = 0xc0007000, block_descs = (\<lambda>_. \<lparr>mem_block_size = 0, blocks_per_arena = 0\<rparr>),
      arenas = (\<lambda>_. \<lparr>desc = 0, cnt = 0, large = False\<rparr>), console_lock = 0xc0009000, screen = [],
      tss = tss.make 0 0 0 0 0 0 0 0 0 0 0 0 0 0 0 0 0 0 0 0 0 0 0 0 0 0, tss_addr = 0xc0009100,
      gdt = (\<lambda>_. gdt_desc.make 0 0 0 0 0 0), gdtr = 0, tr = 0, pid_lock = 0xc0009200, next_pid = 3,
      intr_stacks = (\<lambda>_. intr_stack.make 0 0 0 0 0 0 0 0 0 0 0 0 0 0 0 0 0 0 0),
      thread_stacks = (\<lambda>_. thread_stack.make 0 0 0 0 0 0 0 0), fn_kernel_thread = 0xc0001000, fn_start_process = 0xc0001100,
      fn_idle = 0xc0001200, lit_main_thread = 0xc0002000, lit_idle = 0xc0002010, lits = (\<lambda>_. 0xc0002100),
      partitions = (\<lambda>_. \<lparr>start_lba = 0, part_sec_cnt = 0, my_disk = 0xc000b040, sb = NULL,
        block_bitmap = \<lparr>btmp_bytes_len = 0, bits = 0\<rparr>, inode_bitmap = \<lparr>btmp_bytes_len = 0, bits = 0\<rparr>\<rparr>),
      disks = (\<lambda>_. \<lparr>my_channel = 0xc000b000, dev_no = 1\<rparr>),
      ide_channels = (\<lambda>_. \<lparr>port_base = 0x1f0, irq_no = 0x2e, expecting_intr = True\<rparr>), channels = 0xc000b000, channel_cnt = 1,
      ext_lba_base = 0, p_no = 0, l_no = 0, partition_list = 0xc000c000, fn_intr_hd_handler = 0xc0001300, ios = [],
      answers = ans\<rparr>"

definition sample_nodes :: node_store where
  "sample_nodes = (\<lambda>_. sample_node 0 0)(
     0xc0005000 := sample_node 0 (general_tag 0xc0101000), general_tag 0xc0101000 := sample_node 0xc0005000 0xc0005008,
     0xc0005008 := sample_node (general_tag 0xc0101000) 0,
     0xc000b014 := sample_node 0 0xc000b01c, 0xc000b01c := sample_node 0xc000b014 0,
     0xc000b030 := sample_node 0 0xc000b038, 0xc000b038 := sample_node 0xc000b030 0)"

definition sample_device :: ata where
  "sample_device = \<lparr>r_count = 0, r_lba_l = 0, r_lba_m = 0, r_lba_h = 0, r_dev = 0, xfer = NoXfer,
     platter = (\<lambda>sl x. if sl then of_nat x else 0)\<rparr>"

definition sample_disk :: ide where
  "sample_disk = sample_ide sample_nodes TASK_READY 1 (ata_ports 0x1f0 sample_device)"

lemma sample_ide_fields [simp]:
  "tasks (sample_ide ns st v ans) = (\<lambda>t. sample_task t (if t = 0xc009e000 then TASK_RUNNING else if t = 0xc0101000 then st else TASK_BLOCKED))"
  "esp (sample_ide ns st v ans) = 0xc009efe0" "cr3 (sample_ide ns st v ans) = 0x100000" "pmem (sample_ide ns st v ans) = sample_pmem"
  "thread_ready_list (sample_ide ns st v ans) = 0xc0005000" "idle_thread (sample_ide ns st v ans) = 0xc0100000"
  "running_thread (sample_ide ns st v ans) = 0xc009e000" "nodes (sample_ide ns st v ans) = ns"
  "sema_value (sample_ide ns st v ans) = (\<lambda>_. 0)(0xc000b010 := v)" "lock_holder (sample_ide ns st v ans) = (\<lambda>_. NULL)"
  "holder_repeat_nr (sample_ide ns st v ans) = (\<lambda>_. 0)" "chan h (sample_ide ns st v ans) = 0xc000b000"
  "port_of h (sample_ide ns st v ans) = 0x1f0" "answers (sample_ide ns st v ans) = ans" "mem (sample_ide ns st v ans) = (\<lambda>_. 7)"
  "channels (sample_ide ns st v ans) = 0xc000b000" "is_slave h (sample_ide ns st v ans)" "ios (sample_ide ns st v ans) = []"
  "ide_channels (sample_ide ns st v ans) = (\<lambda>_. \<lparr>port_base = 0x1f0, irq_no = 0x2e, expecting_intr = True\<rparr>)"
  by (simp_all add: sample_ide_def running_thread_def chan_def port_of_def is_slave_def)

lemma sample_ide_inv:
  assumes "dlist ns 0xc0005000 (map general_tag rs)" and "rs = (if st = TASK_READY then [0xc0101000] else [])"
    and "st = TASK_READY \<or> st = TASK_BLOCKED"
  shows "sched_inv (sample_ide ns st v ans) sample_T rs"
proof -
  have "sched_wf (sample_ide ns st v ans) sample_T rs"
    by (rule sched_wfI) (use assms in \<open>auto simp: ready_list_def sample_space sample_task_def general_tag_def kstack_ok_def task_space_ok_def\<close>)
  then show ?thesis by (simp add: sched_inv_def sample_task_def)
qed

lemma sample_lists:
  "dlist sample_nodes 0xc0005000 [general_tag 0xc0101000]" "dlist sample_nodes 0xc000b014 []" "dlist sample_nodes 0xc000b030 []"
  by (simp_all add: dlist_def list_cells_def sample_nodes_def general_tag_def sample_node_def)

lemma sample_disk_idle: "disk_idle sample_T 0xc009e000 0xc000b040 sample_disk"
proof -
  have "sched_inv sample_disk sample_T [0xc0101000]"
    unfolding sample_disk_def by (rule sample_ide_inv) (simp_all add: sample_lists)
  moreover have "waiters_ok sample_disk sample_T 0xc000b02c []"
    unfolding sample_disk_def waiters_ok_def by (simp add: sample_lists general_tag_def)
  moreover have "list_empty 0xc000b014 sample_disk"
    unfolding sample_disk_def by (simp add: list_empty_iff [of _ _ "[]"] sample_lists)
  ultimately show ?thesis
    by (auto simp: disk_idle_def disk_wf_def sample_disk_def channel_lock_def disk_done_def)
qed

section \<open>Properties\<close>





text \<open>
  C13: the disk interrupt. When a thread waits for the end of a command, the handler of the channel's interrupt
  clears \<^verbatim>\<open>expecting_intr\<close>, gives the semaphore and reads the status, without failing an assertion, and the
  next preemption resumes the waiting thread, in a state as the transfers rely on.
\<close>

theorem disk_interrupt_resumes:
  fixes s :: "'a ide_scheme"
  assumes "waits_for_disk T t hdisk vec s"
  shows "\<exists>s1 s2. intr_hd_handler vec s = Done () s1 \<and> \<not> expecting_intr (ide_channels s1 (chan hdisk s)) \<and>
    schedule (cli s1) = Block s2 (\<lambda>s'. Done () s') \<and> disk_resumed T t hdisk A s s2"
proof -
  let ?c = "chan hdisk s"
  let ?m = "disk_done ?c"
  let ?s0 = "s\<lparr>ide_channels := (ide_channels s)(?c := (ide_channels s ?c)\<lparr>expecting_intr := False\<rparr>)\<rparr>"
  obtain rs where inv: "sched_inv s T rs" using assms by (auto simp: waits_for_disk_def)
  have a: "waiters_ok s T ?m [t]" "sema_value s ?m = 0" "waiters_ok s T (channel_lock ?c + 4) []"
    "vec = 0x2e \<or> vec = 0x2f" "?c = channel_at (channels s) (ucast (vec - 0x2e))"
    "irq_no (ide_channels s ?c) = vec" "expecting_intr (ide_channels s ?c)"
    using assms unfolding waits_for_disk_def by blast+
  have i0: "sched_inv ?s0 T rs" "waiters_ok ?s0 T ?m [t]" "sema_value ?s0 ?m = 0"
    using inv a(1,2) by (simp_all add: waiters_ok_def)
  obtain s1 where s1: "sema_up ?m ?s0 = Inr s1" "sched_inv s1 T (take 1 [t] @ rs)" "waiters_ok s1 T ?m (drop 1 [t])"
    "sema_value s1 = (sema_value ?s0)(?m := 1)" "lock_holder s1 = lock_holder ?s0" "holder_repeat_nr s1 = holder_repeat_nr ?s0"
    "running_thread s1 = running_thread ?s0" "idle_thread s1 = idle_thread ?s0"
    "get_intr_status s1 = get_intr_status ?s0" "sync.more s1 = sync.more ?s0"
    using sema_up_spec [OF i0] .
  note m1 = ide_more_fields [OF s1(10)]
  note frame = sema_up_frame [OF i0 s1(1)]
  let ?p = "port_base (ide_channels s ?c) + reg_status"
  let ?s2 = "s1\<lparr>ios := ios s1 @ [InB ?p]\<rparr>"
  have h: "intr_hd_handler vec s = Done () ?s2"
    using a(4,6,7) s1(1) unfolding intr_hd_handler_def by (auto simp: Let_def a(5) [symmetric] upd_channel_def ide_inb_def)
  have i2: "sched_inv ?s2 T (t # rs)" using s1(2) by simp
  obtain s3 where s3: "schedule (cli ?s2) = Block s3 (\<lambda>s'. Done () s')" "switched (cli ?s2) s3 T ((t # rs) @ [running_thread ?s2])"
    using schedule_preempt_spec [OF i2] .
  have f3: "mem s3 = mem s1" "idle_thread s3 = idle_thread s1" "threads.more s3 = threads.more ?s2"
    using s3(2) by (simp_all add: switched_def sched_frame_def cli_def)
  note m3 = threads_more_ide [OF f3(3)]
  have T: "set ((t # rs) @ [running_thread ?s2]) \<subseteq> T"
    using sched_wfD(2,3) [of ?s2 T "t # rs"] i2 by (auto simp: sched_inv_def sched_wf_def)
  have rl: "{thread_ready_list ?s2, thread_ready_list ?s2 + 8} \<inter> general_tag ` T = {}"
    using i2 by (simp add: sched_inv_def sched_wf_def)
  have w3: "waiters_ok s3 T ?m []"
    by (rule waiters_ok_switched [OF _ s3(2) T]) (use s1(3) rl in \<open>simp_all add: cli_def waiters_ok_def\<close>)
  let ?x = "channel_lock ?c + 8"
  have x: "?x \<notin> {thread_ready_list s, thread_ready_list s + 8} \<union> general_tag ` T" "list_empty ?x s"
    using a(3) list_empty_iff [OF waiters_okD(1) [OF a(3)]] by (auto simp: waiters_ok_def add.commute)
  have "nodes s1 ?x = nodes ?s0 ?x" by (rule frame(3)) (use x in \<open>auto simp: channel_lock_def disk_done_def\<close>)
  moreover have "nodes s3 ?x = nodes (cli ?s2) ?x"
  proof -
    have rl2: "thread_ready_list (cli ?s2) = thread_ready_list s" using frame(2) by (simp add: cli_def)
    have "nodes_frame (cli ?s2) s3 (set ((t # rs) @ [running_thread ?s2]))" using s3(2) unfolding switched_def by blast
    moreover have "?x \<notin> {thread_ready_list s, thread_ready_list s + 8} \<union> general_tag ` set ((t # rs) @ [running_thread ?s2])"
      using x(1) image_mono [OF T, of general_tag] by blast
    ultimately show ?thesis unfolding nodes_frame_def rl2 by blast
  qed
  ultimately have empty: "list_empty ?x s3" using x(2) by (simp add: list_empty_def cli_def)
  have "disk_resumed T t hdisk A s s3"
    unfolding disk_resumed_def disk_same_def port_of_def chan_def
    using s3(2) w3 empty s1(4-6,8) lock_cells [of ?c] f3 frame(1) m1 m3
    by (auto simp: switched_def chan_def)
  moreover have "\<not> expecting_intr (ide_channels ?s2 ?c)" using m1 by simp
  ultimately show ?thesis using h s3(1) by blast
qed

definition sample_waiting :: node_store where
  "sample_waiting = (\<lambda>_. sample_node 0 0)(
     0xc0005000 := sample_node 0 0xc0005008, 0xc0005008 := sample_node 0xc0005000 0,
     0xc000b014 := sample_node 0 0xc000b01c, 0xc000b01c := sample_node 0xc000b014 0,
     0xc000b030 := sample_node 0 (general_tag 0xc0101000), general_tag 0xc0101000 := sample_node 0xc000b030 0xc000b038,
     0xc000b038 := sample_node (general_tag 0xc0101000) 0)"

definition sample_blocked :: ide where
  "sample_blocked = sample_ide sample_waiting TASK_BLOCKED 0 (ata_ports 0x1f0 sample_device)"

lemma waiting_lists:
  "dlist sample_waiting 0xc0005000 []" "dlist sample_waiting 0xc000b014 []" "dlist sample_waiting 0xc000b030 [general_tag 0xc0101000]"
  by (simp_all add: dlist_def list_cells_def sample_waiting_def general_tag_def sample_node_def)

lemma sample_blocked_waits: "waits_for_disk sample_T 0xc0101000 0xc000b040 0x2e sample_blocked"
proof -
  have "sched_inv sample_blocked sample_T []"
    unfolding sample_blocked_def by (rule sample_ide_inv) (simp_all add: waiting_lists)
  moreover have "waiters_ok sample_blocked sample_T 0xc000b02c [0xc0101000]" "waiters_ok sample_blocked sample_T 0xc000b010 []"
    unfolding sample_blocked_def waiters_ok_def using waiting_lists by (simp_all add: general_tag_def sample_task_def)
  ultimately show ?thesis
    by (auto simp: waits_for_disk_def sample_blocked_def channel_lock_def disk_done_def channel_at_def)
qed

theorem disk_interrupt_resumes_witness:
  "\<exists>s1 s2. intr_hd_handler 0x2e sample_blocked = Done () s1 \<and> schedule (cli s1) = Block s2 (\<lambda>s'. Done () s') \<and>
     running_thread s2 = 0xc0101000 \<and> disk_resumed sample_T 0xc0101000 0xc000b040 UNIV sample_blocked s2"
  using disk_interrupt_resumes [OF sample_blocked_waits, of UNIV] unfolding disk_resumed_def by blast

end
