(* ===== verification/Block_Device.thy ===== *)
theory Block_Device
  imports Disk
begin

text \<open>
  The disk as an interface: what the file system relies on of \<^verbatim>\<open>ide_read\<close> and \<^verbatim>\<open>ide_write\<close>, as a locale, and the
  interpretation of it on the driver.
\<close>

section \<open>The interface\<close>

text \<open>
  A device with 512-byte sectors, used by a thread that may be switched away from: \<open>R\<close> is how the thread is
  resumed, \<open>A\<close> the memory that others leave alone meanwhile.
\<close>

locale block_device =
  fixes rd wr :: "u32 \<Rightarrow> addr \<Rightarrow> u32 \<Rightarrow> 's \<Rightarrow> ('s, unit) kop"
    and ok :: "'s \<Rightarrow> bool" and contents :: "'s \<Rightarrow> nat \<Rightarrow> u8" and memory :: "'s \<Rightarrow> mem"
    and R :: "'s \<Rightarrow> 's \<Rightarrow> bool" and A :: "addr set" and limit :: nat
  assumes limit: "limit \<le> 2 ^ 20"
    and rd_runs: "ok s \<Longrightarrow> 0 < n \<Longrightarrow> unat lba + unat n \<le> limit \<Longrightarrow> runs R (rd lba dst n s) (\<lambda>_ s'. ok s' \<and>
      contents s' = contents s \<and>
      same_on A (put_bytes dst (map (contents s) [512 * unat lba..<512 * (unat lba + unat n)]) (memory s)) (memory s'))"
    and wr_runs: "ok s \<Longrightarrow> 0 < n \<Longrightarrow> unat lba + unat n \<le> limit \<Longrightarrow> (\<And>i. i < 512 * unat n \<Longrightarrow> src + of_nat i \<in> A) \<Longrightarrow>
      runs R (wr lba src n s) (\<lambda>_ s'. ok s' \<and> same_on A (memory s) (memory s') \<and>
        contents s' = (\<lambda>x. if 512 * unat lba \<le> x \<and> x < 512 * (unat lba + unat n)
          then memory s (src + of_nat (x - 512 * unat lba)) else contents s x))"
begin

text \<open>Sectors that are written and read again come back.\<close>

lemma write_read:
  assumes "ok s" and "0 < n" and "unat lba + unat n \<le> limit" and "\<And>i. i < 512 * unat n \<Longrightarrow> src + of_nat i \<in> A"
    and dst: "\<And>i. i < 512 * unat n \<Longrightarrow> dst + of_nat i \<in> A"
  shows "runs R (kbind (wr lba src n s) (\<lambda>_. rd lba dst n)) (\<lambda>_ s'. ok s' \<and>
    (\<forall>i<512 * unat n. memory s' (dst + of_nat i) = memory s (src + of_nat i)))"
proof (rule runs_kbind [OF wr_runs [OF assms(1-4)]])
  fix x s1
  assume q: "ok s1 \<and> same_on A (memory s) (memory s1) \<and> contents s1 = (\<lambda>x. if 512 * unat lba \<le> x \<and> x < 512 * (unat lba + unat n)
    then memory s (src + of_nat (x - 512 * unat lba)) else contents s x)"
  let ?cs = "map (contents s1) [512 * unat lba..<512 * (unat lba + unat n)]"
  have len: "length ?cs = 512 * unat n" "length ?cs \<le> 2 ^ 32" using assms(3) limit by (simp_all add: algebra_simps)
  have cs: "?cs ! i = memory s (src + of_nat i)" if "i < 512 * unat n" for i
    using q that by (simp add: algebra_simps)
  show "runs R (rd lba dst n s1) (\<lambda>_ s'. ok s' \<and> (\<forall>i<512 * unat n. memory s' (dst + of_nat i) = memory s (src + of_nat i)))"
  proof (rule runs_mono [OF rd_runs [of s1 n lba dst]])
    show "ok s1" using q by simp
    fix y s2 assume r: "ok s2 \<and> contents s2 = contents s1 \<and> same_on A (put_bytes dst ?cs (memory s1)) (memory s2)"
    have "memory s2 (dst + of_nat i) = memory s (src + of_nat i)" if i: "i < 512 * unat n" for i
    proof -
      have "memory s2 (dst + of_nat i) = put_bytes dst ?cs (memory s1) (dst + of_nat i)"
        using r dst [OF i] by (simp add: same_on_def)
      also have "\<dots> = ?cs ! i" using i len by (intro put_bytes_at) simp_all
      finally show ?thesis using cs [OF i] by simp
    qed
    then show "ok s2 \<and> (\<forall>i<512 * unat n. memory s2 (dst + of_nat i) = memory s (src + of_nat i))" using r by blast
  qed (use assms in simp_all)
qed

text \<open>Writing one place of the device does not show at another.\<close>

lemma write_other:
  assumes "ok s" and "0 < n" and "unat lba + unat n \<le> limit" and "\<And>i. i < 512 * unat n \<Longrightarrow> src + of_nat i \<in> A"
    and "0 < k" and "unat other + unat k \<le> limit" and "unat other + unat k \<le> unat lba \<or> unat lba + unat n \<le> unat other"
  shows "runs R (kbind (wr lba src n s) (\<lambda>_. rd other dst k)) (\<lambda>_ s'. ok s' \<and>
    same_on A (put_bytes dst (map (contents s) [512 * unat other..<512 * (unat other + unat k)]) (memory s)) (memory s'))"
proof (rule runs_kbind [OF wr_runs [OF assms(1-4)]])
  fix x s1
  assume q: "ok s1 \<and> same_on A (memory s) (memory s1) \<and> contents s1 = (\<lambda>x. if 512 * unat lba \<le> x \<and> x < 512 * (unat lba + unat n)
    then memory s (src + of_nat (x - 512 * unat lba)) else contents s x)"
  have "map (contents s1) [512 * unat other..<512 * (unat other + unat k)] = map (contents s) [512 * unat other..<512 * (unat other + unat k)]"
    using q assms(7) by auto
  note same = this
  show "runs R (rd other dst k s1) (\<lambda>_ s'. ok s' \<and>
    same_on A (put_bytes dst (map (contents s) [512 * unat other..<512 * (unat other + unat k)]) (memory s)) (memory s'))"
  proof (rule runs_mono [OF rd_runs [of s1 k other dst, unfolded same]])
    show "ok s1" "0 < k" "unat other + unat k \<le> limit" using q assms(5,6) by simp_all
    fix y s2 assume r: "ok s2 \<and> contents s2 = contents s1 \<and>
      same_on A (put_bytes dst (map (contents s) [512 * unat other..<512 * (unat other + unat k)]) (memory s1)) (memory s2)"
    have "same_on A (memory s) (memory s1)" using q by blast
    then show "ok s2 \<and> same_on A (put_bytes dst (map (contents s) [512 * unat other..<512 * (unat other + unat k)]) (memory s)) (memory s2)"
      using r same_on_trans [OF same_on_put_bytes] by blast
  qed
qed

end

section \<open>The driver\<close>

definition device_ok :: "addr set \<Rightarrow> addr \<Rightarrow> addr \<Rightarrow> ata \<Rightarrow> 'a ide_scheme \<Rightarrow> bool" where
  "device_ok T t hdisk d0 s \<longleftrightarrow> disk_idle T t hdisk s \<and> ata_answers (port_of hdisk s) d0 (answers s)"

definition drive :: "addr \<Rightarrow> ata \<Rightarrow> 'a ide_scheme \<Rightarrow> nat \<Rightarrow> u8" where
  "drive hdisk d0 s = platter (device d0 hdisk s) (is_slave hdisk s)"

interpretation ide: block_device "ide_read sp hdisk" "ide_write sp hdisk" "device_ok T t hdisk d0" "drive hdisk d0" mem
  "disk_resumed T t hdisk A" A 163839
  for sp hdisk T t d0 A
proof
  have same: "disk_same hdisk s s' \<Longrightarrow> is_slave hdisk s' = is_slave hdisk s \<and> port_of hdisk s' = port_of hdisk s \<and> answers s' = answers s"
    for s s' :: "'a ide_scheme" by (simp add: disk_same_def is_slave_def)
  show "(163839 :: nat) \<le> 2 ^ 20" by simp
  fix s :: "'a ide_scheme" and n lba :: u32 and dst
  assume ok: "device_ok T t hdisk d0 s" and n: "0 < n" "unat lba + unat n \<le> 163839"
  show "runs (disk_resumed T t hdisk A) (ide_read sp hdisk lba dst n s) (\<lambda>_ s'. device_ok T t hdisk d0 s' \<and> drive hdisk d0 s' = drive hdisk d0 s \<and>
    same_on A (put_bytes dst (map (drive hdisk d0 s) [512 * unat lba..<512 * (unat lba + unat n)]) (mem s)) (mem s'))"
    by (rule runs_mono [OF ide_read_spec [of T t hdisk s d0 n lba A sp dst]])
      (use ok n same in \<open>auto simp: device_ok_def drive_def sectors_def\<close>)
  assume A: "\<And>i. i < 512 * unat n \<Longrightarrow> dst + of_nat i \<in> A"
  show "runs (disk_resumed T t hdisk A) (ide_write sp hdisk lba dst n s) (\<lambda>_ s'. device_ok T t hdisk d0 s' \<and> same_on A (mem s) (mem s') \<and>
    drive hdisk d0 s' = (\<lambda>x. if 512 * unat lba \<le> x \<and> x < 512 * (unat lba + unat n)
      then mem s (dst + of_nat (x - 512 * unat lba)) else drive hdisk d0 s x))"
    by (rule runs_mono [OF ide_write_spec [of T t hdisk s d0 n lba dst A sp]])
      (use ok n same A in \<open>auto simp: device_ok_def drive_def put_sectors_def\<close>)
qed



end
