(* ===== verification/Inode_Disk.thy ===== *)
theory Inode_Disk
  imports Disk Inode
begin

text \<open>
  The inode table on disk: where inodes lie, and what \<^verbatim>\<open>inode_sync\<close> and \<^verbatim>\<open>inode_delete\<close> change of it.
\<close>

section \<open>Positions\<close>

lemma inode_position_spec:
  assumes "unat no < 4096" and "unat tbl \<le> 163839"
  defines "pos \<equiv> inode_position_of tbl no"
  shows "unat (sec_lba pos) = unat tbl + 76 * unat no div 512"
    and "512 * unat (sec_lba pos) + unat (off_size pos) = 512 * unat tbl + 76 * unat no"
    and "unat (off_size pos) + 76 \<le> 512 * (if two_sec pos then 2 else 1)"
    and "unat (off_size pos) < 512"
proof -
  have b: "unat (no * 76) = 76 * unat no" using assms(1) by (subst unat_word_ariths(2)) simp
  have o: "unat (off_size pos) = 76 * unat no mod 512"
    by (simp add: pos_def inode_position_of_def Let_def unat_mod b)
  have q: "unat (no * 76 div 512) = 76 * unat no div 512" by (simp add: unat_div b)
  have "76 * unat no div 512 < 608" using assms(1) by simp
  then show l: "unat (sec_lba pos) = unat tbl + 76 * unat no div 512"
    using assms(2) by (simp add: pos_def inode_position_of_def Let_def) (subst unat_word_ariths(1), simp add: q)
  show "512 * unat (sec_lba pos) + unat (off_size pos) = 512 * unat tbl + 76 * unat no"
    using mult_div_mod_eq [of 512 "76 * unat no"] unfolding l o by (simp add: algebra_simps)
  show lt: "unat (off_size pos) < 512" unfolding o by simp
  have "two_sec pos \<longleftrightarrow> 512 - off_size pos < 76" by (simp add: pos_def inode_position_of_def Let_def)
  moreover have "unat (512 - off_size pos) = 512 - unat (off_size pos)"
    using lt by (subst unat_sub) (simp_all add: word_le_nat_alt)
  ultimately show "unat (off_size pos) + 76 \<le> 512 * (if two_sec pos then 2 else 1)"
    using lt by (auto simp: word_less_nat_alt)
qed

section \<open>Rewriting an inode\<close>

text \<open>The contents of the drives with bytes replaced.\<close>

definition put_at :: "bool \<Rightarrow> nat \<Rightarrow> u8 list \<Rightarrow> (bool \<Rightarrow> nat \<Rightarrow> u8) \<Rightarrow> bool \<Rightarrow> nat \<Rightarrow> u8" where
  "put_at sl b cs p = p(sl := (\<lambda>x. if b \<le> x \<and> x < b + length cs then cs ! (x - b) else p sl x))"

lemma within_offset_iff:
  fixes a off :: u32
  assumes "i < 2 ^ 32" and "unat off + n \<le> 2 ^ 32"
  shows "within (a + of_nat i) (a + off) n \<longleftrightarrow> unat off \<le> i \<and> i < unat off + n"
proof
  assume "within (a + of_nat i) (a + off) n"
  then obtain j where j: "j < n" "a + of_nat i = a + off + of_nat j" using assms by (auto simp: within_iff)
  then have "(of_nat i :: u32) = of_nat (unat off + j)" by simp
  then have "i = unat off + j" using assms j(1) by (subst (asm) of_nat_eq_iff32) simp_all
  then show "unat off \<le> i \<and> i < unat off + n" using j(1) by simp
next
  assume i: "unat off \<le> i \<and> i < unat off + n"
  then have "(of_nat i :: u32) = off + of_nat (i - unat off)" "i - unat off < n" by (simp, arith)
  then show "within (a + of_nat i) (a + off) n"
    using within_offset [of "i - unat off" n "a + off"] i by (simp add: add.assoc)
qed

lemma put_sectors_put_at:
  fixes bp off :: u32
  assumes buf: "\<And>i. i < 512 * n \<Longrightarrow> m (bp + of_nat i) = p sl (512 * lba + i)"
    and b: "unat off + length cs \<le> 512 * n" "n \<le> 256"
  shows "put_sectors sl lba n (\<lambda>i. put_bytes (bp + off) cs m (bp + of_nat i)) p = put_at sl (512 * lba + unat off) cs p"
proof -
  have c: "length cs \<le> 2 ^ 32" using b by simp
  have byte: "put_bytes (bp + off) cs m (bp + of_nat i) =
      (if unat off \<le> i \<and> i < unat off + length cs then cs ! (i - unat off) else p sl (512 * lba + i))" if i: "i < 512 * n" for i
  proof (cases "unat off \<le> i \<and> i < unat off + length cs")
    case True
    then have "bp + of_nat i = bp + off + of_nat (i - unat off)" "i - unat off < length cs" by (simp, arith)
    then show ?thesis using True put_bytes_at [OF c, of "i - unat off" "bp + off" m] by (simp only:) simp
  next
    case False
    then have "\<not> within (bp + of_nat i) (bp + off) (length cs)"
      using i b by (subst within_offset_iff) auto
    then have "put_bytes (bp + off) cs m (bp + of_nat i) = p sl (512 * lba + i)" using put_bytes_other [OF c, of _ "bp + off" m] buf [OF i] by metis
    then show ?thesis using False by (simp only: if_False)
  qed
  show ?thesis
  proof (intro ext)
    fix d x
    show "put_sectors sl lba n (\<lambda>i. put_bytes (bp + off) cs m (bp + of_nat i)) p d x = put_at sl (512 * lba + unat off) cs p d x"
    proof (cases "512 * lba \<le> x \<and> x < 512 * (lba + n)")
      case True
      then obtain i where i: "x = 512 * lba + i" "i < 512 * n" by (intro that [of "x - 512 * lba"]) auto
      then show ?thesis using byte [OF i(2)] by (simp add: put_sectors_def put_at_def add.assoc)
    next
      case False
      then show ?thesis using b by (auto simp: put_sectors_def put_at_def)
    qed
  qed
qed

lemma disk_idle_mem [simp]: "disk_idle T t hdisk (s\<lparr>mem := m\<rparr>) = disk_idle T t hdisk (s :: 'a ide_scheme)"
  by (simp add: disk_idle_def)

lemma the_disk_same: "disk_same hdisk s s' \<Longrightarrow> the_disk part s' = the_disk part s"
  by (simp add: the_disk_def disk_same_def)

lemma is_slave_same: "disk_same hdisk s s' \<Longrightarrow> is_slave hdisk s' = is_slave hdisk s"
  by (simp add: is_slave_def disk_same_def)

text \<open>
  \<open>change\<close> replaces the bytes at its argument by \<open>cs\<close> whenever memory has the property \<open>K\<close>, which reading
  sectors into the buffer keeps.
\<close>

lemma rewrite_tail:
  fixes s s1 :: "'a ide_scheme"
  assumes idle: "disk_idle T t hdisk s1" and same1: "disk_same hdisk s s1" and ans: "ata_answers (port_of hdisk s) d0 (answers s)"
    and plat1: "platter (device d0 hdisk s1) = platter (device d0 hdisk s)"
    and bound: "0 < n32" "unat n32 = n" "n \<le> 2" "unat lba + n \<le> 163839"
    and off: "unat off + length cs \<le> 512 * n" and A: "\<And>i. i < 512 * n \<Longrightarrow> io_buf + of_nat i \<in> A"
    and mem1: "same_on A (put_bytes io_buf (sectors d0 hdisk s (unat lba) n) (mem s)) (mem s1)"
  defines "m2 \<equiv> put_bytes (io_buf + off) cs (mem s1)"
  shows "runs (disk_resumed T t hdisk A) (ide_write sp hdisk lba io_buf n32 (s1\<lparr>mem := m2\<rparr>)) (\<lambda>_ s'.
    disk_idle T t hdisk s' \<and> disk_same hdisk s s' \<and>
    platter (device d0 hdisk s') = put_at (is_slave hdisk s) (512 * unat lba + unat off) cs (platter (device d0 hdisk s)) \<and>
    (\<forall>x\<in>A. \<not> within x io_buf (512 * n) \<longrightarrow> mem s' x = mem s x))"
proof -
  let ?s2 = "s1\<lparr>mem := m2\<rparr>" and ?secs = "sectors d0 hdisk s (unat lba) n"
  have len: "length ?secs = 512 * n" "length ?secs \<le> 2 ^ 32" using bound(3) by (simp_all add: sectors_def algebra_simps)
  have idle2: "disk_idle T t hdisk ?s2" and ans2: "ata_answers (port_of hdisk ?s2) d0 (answers ?s2)"
    using idle same1 ans by (simp_all add: disk_same_def)
  have "mem s1 (io_buf + of_nat i) = platter (device d0 hdisk s) (is_slave hdisk s) (512 * unat lba + i)" if i: "i < 512 * n" for i
  proof -
    have "mem s1 (io_buf + of_nat i) = put_bytes io_buf ?secs (mem s) (io_buf + of_nat i)"
      using mem1 A [OF i] by (simp add: same_on_def)
    also have "\<dots> = ?secs ! i" using i len by (intro put_bytes_at) simp_all
    finally show ?thesis using i by (simp add: sectors_def)
  qed
  then have plat: "put_sectors (is_slave hdisk s) (unat lba) n (\<lambda>i. m2 (io_buf + of_nat i)) (platter (device d0 hdisk s)) =
      put_at (is_slave hdisk s) (512 * unat lba + unat off) cs (platter (device d0 hdisk s))"
    unfolding m2_def by (intro put_sectors_put_at) (use off bound(3) in simp_all)
  have frame: "m2 x = mem s x" if x: "x \<in> A" "\<not> within x io_buf (512 * n)" for x
  proof -
    have "\<not> within x (io_buf + off) (length cs)"
      using x(2) off bound(3) within_shift [of x io_buf "unat off" "length cs"] within_mono [of x io_buf "unat off + length cs" "512 * n"] by auto
    then have "m2 x = mem s1 x" unfolding m2_def using off bound(3) by (intro put_bytes_other) simp_all
    also have "\<dots> = put_bytes io_buf ?secs (mem s) x" using mem1 x(1) by (simp add: same_on_def)
    also have "\<dots> = mem s x" by (rule put_bytes_other [OF len(2)]) (use x(2) len in simp)
    finally show ?thesis .
  qed
  have wr: "runs (disk_resumed T t hdisk A) (ide_write sp hdisk lba io_buf n32 ?s2) (\<lambda>_ s'.
      disk_idle T t hdisk s' \<and> disk_same hdisk ?s2 s' \<and> same_on A m2 (mem s') \<and>
      platter (device d0 hdisk s') = put_sectors (is_slave hdisk ?s2) (unat lba) n (\<lambda>i. m2 (io_buf + of_nat i)) (platter (device d0 hdisk ?s2)))"
    using ide_write_spec [OF idle2 ans2 bound(1), of lba io_buf A sp] A bound(4) unfolding bound(2) by simp
  have same2: "disk_same hdisk s ?s2" by (rule disk_same_trans [OF same1]) simp
  show ?thesis
    by (rule runs_mono [OF wr])
      (use plat plat1 frame is_slave_same [OF same2] disk_same_trans [OF same2] in \<open>auto simp: device_ios same_on_def\<close>)
qed

lemma rewrite_inode_spec:
  fixes s :: "'a ide_scheme"
  assumes idle: "disk_idle T t hdisk s" and hd: "the_disk part s = hdisk" and ans: "ata_answers (port_of hdisk s) d0 (answers s)"
    and n: "n = (if two_sec pos then 2 else 1)" and bound: "unat (sec_lba pos) + n \<le> 163839"
    and off: "unat (off_size pos) + length cs \<le> 512 * n"
    and A: "\<And>i. i < 512 * n \<Longrightarrow> io_buf + of_nat i \<in> A"
    and change: "\<And>m. K m \<Longrightarrow> change (io_buf + off_size pos) m = Inr (put_bytes (io_buf + off_size pos) cs m)"
    and K: "\<And>bs m. length bs = 512 * n \<Longrightarrow> same_on A (put_bytes io_buf bs (mem s)) m \<Longrightarrow> K m"
  shows "runs (disk_resumed T t hdisk A) (rewrite_inode sp part pos change io_buf s) (\<lambda>_ s'.
    disk_idle T t hdisk s' \<and> disk_same hdisk s s' \<and>
    platter (device d0 hdisk s') = put_at (is_slave hdisk s) (512 * unat (sec_lba pos) + unat (off_size pos)) cs (platter (device d0 hdisk s)) \<and>
    (\<forall>x\<in>A. \<not> within x io_buf (512 * n) \<longrightarrow> mem s' x = mem s x))"
    (is "runs ?R _ ?Q")
proof -
  let ?n = "if two_sec pos then 2 else 1 :: u32" and ?lba = "sec_lba pos" and ?p = "io_buf + off_size pos"
  let ?secs = "sectors d0 hdisk s (unat ?lba) n"
  have n32: "unat ?n = n" "0 < ?n" "n \<le> 2" using n by (auto simp: word_less_nat_alt)
  have len: "length ?secs = 512 * n" by (simp add: sectors_def algebra_simps)
  have rd: "runs ?R (ide_read sp hdisk ?lba io_buf ?n s) (\<lambda>_ s1. disk_idle T t hdisk s1 \<and> disk_same hdisk s s1 \<and>
      platter (device d0 hdisk s1) = platter (device d0 hdisk s) \<and> same_on A (put_bytes io_buf ?secs (mem s)) (mem s1))"
    using ide_read_spec [OF idle ans n32(2)] bound unfolding n32(1) .
  have "runs ?R (kbind (ide_read sp hdisk ?lba io_buf ?n s) (\<lambda>_. steps [on_mem (change ?p), ide_write sp hdisk ?lba io_buf ?n])) ?Q"
  proof (rule runs_kbind [OF rd], elim conjE)
    fix s1 assume q: "disk_idle T t hdisk s1" "disk_same hdisk s s1" "platter (device d0 hdisk s1) = platter (device d0 hdisk s)"
      "same_on A (put_bytes io_buf ?secs (mem s)) (mem s1)"
    have "steps [on_mem (change ?p), ide_write sp hdisk ?lba io_buf ?n] s1 =
        ide_write sp hdisk ?lba io_buf ?n (s1\<lparr>mem := put_bytes ?p cs (mem s1)\<rparr>)"
      using change [OF K [OF len q(4)]] by (simp add: on_mem_def upd_mem_def)
    then show "runs ?R (steps [on_mem (change ?p), ide_write sp hdisk ?lba io_buf ?n] s1) ?Q"
      using rewrite_tail [OF q(1,2) ans q(3) n32(2,1,3) bound off A q(4)] by simp
  qed
  moreover have "rewrite_inode sp part pos change io_buf s = kbind (ide_read sp hdisk ?lba io_buf ?n s)
      (\<lambda>_. steps [on_mem (change ?p), ide_write sp hdisk ?lba io_buf ?n])"
    unfolding rewrite_inode_def Let_def by (simp add: hd)
  ultimately show ?thesis by (simp only:)
qed

section \<open>The inode on disk\<close>

text \<open>
  The 76 bytes of an inode in memory, and as they are stored: without the count of openers, the flag and
  the list element, which mean nothing on disk.
\<close>

definition inode_bytes :: "addr \<Rightarrow> mem \<Rightarrow> u8 list" where
  "inode_bytes inode m = map (\<lambda>i. m (inode + of_nat i)) [0..<76]"

definition pure_bytes :: "u8 list \<Rightarrow> u8 list" where
  "pure_bytes bs = take 8 bs @ replicate 8 0 @ take 52 (drop 16 bs) @ replicate 8 0"

lemma store_zero_at:
  assumes "i < 2 ^ 32" and "unat k + 4 \<le> 2 ^ 32"
  shows "store_u32 (p + k) 0 m (p + of_nat i) = (if unat k \<le> i \<and> i < unat k + 4 then 0 else m (p + of_nat i))"
proof -
  have "store_u32 (p + k) 0 m = put_bytes (p + k) (replicate 4 0) m"
    by (simp add: store_u32_def numeral_eq_Suc add.assoc)
  moreover have "put_bytes (p + k) (replicate 4 0) m (p + of_nat i) = 0" if "unat k \<le> i \<and> i < unat k + 4"
  proof -
    have "i - unat k < 4" "p + of_nat i = p + k + of_nat (i - unat k)" using that by auto
    then show ?thesis using put_bytes_at [of "replicate 4 0" "i - unat k" "p + k" m] by (simp add: add.assoc)
  qed
  moreover have "put_bytes (p + k) (replicate 4 0) m (p + of_nat i) = m (p + of_nat i)" if "\<not> (unat k \<le> i \<and> i < unat k + 4)"
    by (rule put_bytes_other) (use that assms in \<open>simp_all add: within_offset_iff\<close>)
  ultimately show ?thesis by simp
qed

text \<open>The copy of the inode on the stack.\<close>

definition pure_mem :: "addr \<Rightarrow> addr \<Rightarrow> mem \<Rightarrow> mem" where
  "pure_mem p inode m = store_u32 (p + 68) 0 (store_u32 (p + 72) 0 (store_u32 (p + 12) 0 (store_u32 (p + 8) 0 (memcpy_loop 76 p inode m))))"

lemma pure_mem_at:
  assumes "disjoint_regions p 76 inode 76" and "i < 76"
  shows "pure_mem p inode m (p + of_nat i) = pure_bytes (inode_bytes inode m) ! i"
proof -
  have "memcpy_loop 76 p inode m (p + of_nat i) = m (inode + of_nat i)"
    using assms within_offset [of i 76 p] by (simp add: memcpy_loop_eq)
  moreover have "i < 8 \<or> 8 \<le> i \<and> i < 12 \<or> 12 \<le> i \<and> i < 16 \<or> 16 \<le> i \<and> i < 68 \<or> 68 \<le> i \<and> i < 72 \<or> 72 \<le> i \<and> i < 76"
    using assms(2) by arith
  moreover have "i < 2 ^ 32" using assms(2) by simp
  ultimately show ?thesis unfolding pure_mem_def
    by (simp add: store_zero_at) (auto simp: pure_bytes_def inode_bytes_def nth_append)
qed

lemma pure_mem_other:
  assumes "disjoint_regions p 76 inode 76" and "\<not> within x p 76"
  shows "pure_mem p inode m x = m x"
proof -
  have "x = p + of_nat (unat (x - p))" by simp
  moreover have "76 \<le> unat (x - p)" using assms(2) by (simp add: within_def)
  moreover have "memcpy_loop 76 p inode m x = m x" using assms by (simp add: memcpy_loop_eq)
  ultimately show ?thesis unfolding pure_mem_def
    using store_zero_at [of "unat (x - p)" 68 p] store_zero_at [of "unat (x - p)" 72 p]
      store_zero_at [of "unat (x - p)" 12 p] store_zero_at [of "unat (x - p)" 8 p] by simp
qed

text \<open>
  The place of a call of \<open>inode_sync\<close>: the inode table of 608 sectors lies inside the partition and the disk,
  the copy on the stack, the inode and the buffer do not overlap, and no other thread changes the copy or
  the buffer.
\<close>

definition sync_ready :: "addr set \<Rightarrow> addr \<Rightarrow> addr \<Rightarrow> addr \<Rightarrow> addr \<Rightarrow> 'a ide_scheme \<Rightarrow> bool" where
  "sync_ready A sp0 part inode io_buf s \<longleftrightarrow>
     unat (sb_field part sb_inode_table_lba s) + 608 \<le> 163839 \<and>
     unat (sb_field part sb_inode_table_lba s) + 608 \<le> unat (start_lba (partitions s part) + part_sec_cnt (partitions s part)) \<and>
     inode \<noteq> NULL \<and> sp0 - 76 \<noteq> NULL \<and> \<not> within NULL io_buf 1024 \<and>
     disjoint_regions (sp0 - 76) 76 inode 76 \<and> disjoint_regions (sp0 - 76) 76 io_buf 1024 \<and>
     (\<forall>x. within x (sp0 - 76) 76 \<or> within x io_buf 1024 \<longrightarrow> x \<in> A)"

lemma memcpy_put_bytes:
  assumes "length cs = n" and "n < 2 ^ 32" and "d \<noteq> NULL" "p \<noteq> NULL" and "disjoint_regions p n d n"
    and "\<And>i. i < n \<Longrightarrow> m (p + of_nat i) = cs ! i"
  shows "memcpy d p (of_nat n) m = Inr (put_bytes d cs m)"
proof -
  have "memcpy_loop n d p m x = put_bytes d cs m x" for x
  proof (cases "within x d n")
    case True
    then obtain i where i: "i < n" "x = d + of_nat i" using assms(2) by (auto simp: within_iff)
    then show ?thesis
      using assms(1,2,5,6) True put_bytes_at [of cs i d m] by (simp add: memcpy_loop_eq disjoint_regions_sym)
  next
    case False
    then show ?thesis using assms(1,2,5) put_bytes_other [of cs x d m] by (simp add: memcpy_loop_eq disjoint_regions_sym)
  qed
  then have "memcpy_loop n d p m = put_bytes d cs m" by (rule ext)
  then show ?thesis using assms(2-4) by (simp add: memcpy_def unat_of_nat32)
qed

lemma sync_readyD:
  assumes "sync_ready A sp0 part inode io_buf s"
  shows "unat (sb_field part sb_inode_table_lba s) + 608 \<le> 163839"
    "unat (sb_field part sb_inode_table_lba s) + 608 \<le> unat (start_lba (partitions s part) + part_sec_cnt (partitions s part))"
    "inode \<noteq> NULL" "sp0 - 76 \<noteq> NULL" "\<not> within NULL io_buf 1024" "disjoint_regions (sp0 - 76) 76 inode 76"
    "disjoint_regions (sp0 - 76) 76 io_buf 1024" "\<And>x. within x (sp0 - 76) 76 \<or> within x io_buf 1024 \<Longrightarrow> x \<in> A"
  using assms unfolding sync_ready_def by blast+

text \<open>Where \<open>inode_sync\<close> puts an inode: the 8-bit variable keeps the number modulo 256.\<close>

definition inode_slot :: "addr \<Rightarrow> addr \<Rightarrow> 'a ide_scheme \<Rightarrow> inode_position" where
  "inode_slot part inode s =
     inode_position_of (sb_field part sb_inode_table_lba s) (ucast (ucast (load_u32 (i_no inode) (mem s)) :: u8))"

lemma inode_slot_spec:
  assumes ready: "sync_ready A sp0 part inode io_buf s"
  defines "pos \<equiv> inode_slot part inode s"
  shows "unat (sec_lba pos) \<le> unat (sb_field part sb_inode_table_lba s) + 38"
    and "512 * unat (sec_lba pos) + unat (off_size pos) =
      512 * unat (sb_field part sb_inode_table_lba s) + 76 * (unat (load_u32 (i_no inode) (mem s)) mod 256)"
    and "unat (off_size pos) + 76 \<le> 512 * (if two_sec pos then 2 else 1)"
proof -
  let ?no = "ucast (ucast (load_u32 (i_no inode) (mem s)) :: u8) :: u32"
  have no: "unat ?no = unat (load_u32 (i_no inode) (mem s)) mod 256" unfolding unat_ucast_u8 by (rule unat_ucast8)
  then have "unat ?no < 256" by simp
  moreover note ps = inode_position_spec [of ?no "sb_field part sb_inode_table_lba s", folded inode_slot_def pos_def]
  ultimately show "unat (sec_lba pos) \<le> unat (sb_field part sb_inode_table_lba s) + 38"
    "512 * unat (sec_lba pos) + unat (off_size pos) =
      512 * unat (sb_field part sb_inode_table_lba s) + 76 * (unat (load_u32 (i_no inode) (mem s)) mod 256)"
    "unat (off_size pos) + 76 \<le> 512 * (if two_sec pos then 2 else 1)"
    using sync_readyD(1) [OF ready] ps(1-3) no by auto
qed

lemma inode_sync_eq:
  fixes s :: "'a ide_scheme"
  assumes ready: "sync_ready A sp0 part inode io_buf s"
  shows "inode_sync sp0 part inode io_buf s = rewrite_inode (sp0 - 76) part (inode_slot part inode s)
    (\<lambda>q. memcpy q (sp0 - 76) 76) io_buf (s\<lparr>mem := pure_mem (sp0 - 76) inode (mem s)\<rparr>)"
proof -
  let ?no = "ucast (ucast (load_u32 (i_no inode) (mem s)) :: u8) :: u32"
  have "memcpy (sp0 - 76) inode 76 (mem s) = Inr (memcpy_loop 76 (sp0 - 76) inode (mem s))"
    using sync_readyD(3,4) [OF ready] by (simp add: memcpy_def)
  moreover have "check_position part (inode_slot part inode s) s = Done () s"
    using inode_slot_spec(1) [OF ready] sync_readyD(2) [OF ready] by (simp add: check_position_def word_le_nat_alt)
  moreover have "unat ?no < 256" unfolding unat_ucast_u8 unat_ucast8 by simp
  then have "?no < 4096" by (simp add: word_less_nat_alt)
  ultimately show ?thesis unfolding inode_sync_def Let_def
    by (simp add: peek_def inode_locate_def inode_slot_def [symmetric] on_mem_def upd_mem_def poke_def
      i_open_cnts_def write_deny_def inode_tag_def pure_mem_def add.assoc)
qed

text \<open>The copy on the stack survives the reading of the sectors, and is copied into them.\<close>

lemma pure_copy:
  assumes ready: "sync_ready A sp0 part inode io_buf s" and n: "n \<le> 2"
    and bs: "length bs = 512 * n" "same_on A (put_bytes io_buf bs (pure_mem (sp0 - 76) inode m0)) m" and i: "i < 76"
  shows "m (sp0 - 76 + of_nat i) = pure_bytes (inode_bytes inode m0) ! i"
proof -
  note r = sync_readyD [OF ready]
  have w: "within (sp0 - 76 + of_nat i) (sp0 - 76) 76" by (rule within_offset [OF i])
  then have "\<not> within (sp0 - 76 + of_nat i) io_buf 1024" using r(7) unfolding disjoint_regions_def by blast
  then have "\<not> within (sp0 - 76 + of_nat i) io_buf (512 * n)" using n by (simp add: within_def)
  then have "put_bytes io_buf bs (pure_mem (sp0 - 76) inode m0) (sp0 - 76 + of_nat i) = pure_bytes (inode_bytes inode m0) ! i"
    using bs(1) n pure_mem_at [OF r(6) i] by (subst put_bytes_other) simp_all
  then show ?thesis using bs(2) r(8) w by (simp add: same_on_def)
qed

lemma copy_pure:
  assumes ready: "sync_ready A sp0 part inode io_buf s" and off: "unat off + 76 \<le> 1024"
    and cs: "length cs = 76" "\<forall>i<76. m (sp0 - 76 + of_nat i) = cs ! i"
  shows "memcpy (io_buf + off) (sp0 - 76) 76 m = Inr (put_bytes (io_buf + off) cs m)"
proof -
  note r = sync_readyD [OF ready]
  have d: "within x (io_buf + off) 76 \<Longrightarrow> within x io_buf 1024" for x
    using within_shift [of x io_buf "unat off" 76] off by (auto simp: within_def)
  have "within (io_buf + off) io_buf 1024" by (rule d) (simp add: within_def)
  then have "io_buf + off \<noteq> NULL" using r(5) by metis
  moreover have "disjoint_regions (sp0 - 76) 76 (io_buf + off) 76" using r(7) d unfolding disjoint_regions_def by blast
  ultimately show ?thesis using memcpy_put_bytes [OF cs(1), of "io_buf + off" "sp0 - 76" m] r(4) cs(2) by simp
qed

lemma inode_sync_spec:
  fixes s :: "'a ide_scheme"
  assumes idle: "disk_idle T t hdisk s" and hd: "the_disk part s = hdisk" and ans: "ata_answers (port_of hdisk s) d0 (answers s)"
    and ready: "sync_ready A sp0 part inode io_buf s"
  shows "runs (disk_resumed T t hdisk A) (inode_sync sp0 part inode io_buf s) (\<lambda>_ s'.
    disk_idle T t hdisk s' \<and> disk_same hdisk s s' \<and>
    platter (device d0 hdisk s') = put_at (is_slave hdisk s)
      (512 * unat (sb_field part sb_inode_table_lba s) + 76 * (unat (load_u32 (i_no inode) (mem s)) mod 256))
      (pure_bytes (inode_bytes inode (mem s))) (platter (device d0 hdisk s)) \<and>
    (\<forall>x\<in>A. \<not> within x (sp0 - 76) 76 \<and> \<not> within x io_buf 1024 \<longrightarrow> mem s' x = mem s x))"
proof -
  let ?p = "sp0 - 76" and ?cs = "pure_bytes (inode_bytes inode (mem s))"
  define pos where "pos = inode_slot part inode s"
  define n where "n = (if two_sec pos then 2 else 1 :: nat)"
  note r = sync_readyD [OF ready]
  note slot = inode_slot_spec [OF ready, folded pos_def]
  have cs: "length ?cs = 76" by (simp add: pure_bytes_def inode_bytes_def)
  have n: "n \<le> 2" "unat (off_size pos) + 76 \<le> 512 * n" using slot(3) by (auto simp: n_def)
  have in_buf: "within x io_buf (512 * n) \<Longrightarrow> within x io_buf 1024" for x using n(1) by (auto simp: within_def)
  let ?s1 = "s\<lparr>mem := pure_mem ?p inode (mem s)\<rparr>"
  have spec: "runs (disk_resumed T t hdisk A) (rewrite_inode ?p part pos (\<lambda>q. memcpy q ?p 76) io_buf ?s1) (\<lambda>_ s'.
      disk_idle T t hdisk s' \<and> disk_same hdisk ?s1 s' \<and>
      platter (device d0 hdisk s') = put_at (is_slave hdisk ?s1) (512 * unat (sec_lba pos) + unat (off_size pos)) ?cs (platter (device d0 hdisk ?s1)) \<and>
      (\<forall>x\<in>A. \<not> within x io_buf (512 * n) \<longrightarrow> mem s' x = mem ?s1 x))"
  proof (rule rewrite_inode_spec [where K = "\<lambda>m. \<forall>i<76. m (?p + of_nat i) = ?cs ! i"])
    show "disk_idle T t hdisk ?s1" "the_disk part ?s1 = hdisk" "ata_answers (port_of hdisk ?s1) d0 (answers ?s1)"
      using idle hd ans by (simp_all add: the_disk_def)
    show "n = (if two_sec pos then 2 else 1)" by (simp add: n_def)
    show "unat (sec_lba pos) + n \<le> 163839" using slot(1) n(1) r(1) by simp
    show "unat (off_size pos) + length ?cs \<le> 512 * n" using n(2) cs by simp
    show "io_buf + of_nat i \<in> A" if "i < 512 * n" for i using in_buf [OF within_offset [OF that]] r(8) by blast
    show "memcpy (io_buf + off_size pos) ?p 76 m = Inr (put_bytes (io_buf + off_size pos) ?cs m)"
      if "\<forall>i<76. m (?p + of_nat i) = ?cs ! i" for m
      by (rule copy_pure [OF ready _ cs that]) (use n in simp)
    show "\<forall>i<76. m (?p + of_nat i) = ?cs ! i" if "length bs = 512 * n" "same_on A (put_bytes io_buf bs (mem ?s1)) m" for bs m
      using pure_copy [OF ready n(1) that(1)] that(2) by simp
  qed
  show ?thesis unfolding inode_sync_eq [OF ready] pos_def [symmetric] slot(2) [symmetric]
    by (rule runs_mono [OF spec])
      (use in_buf pure_mem_other [OF r(6)] in \<open>auto simp: disk_same_def is_slave_def device_ios\<close>)
qed

section \<open>Properties\<close>


definition sample_fs :: ide where
  "sample_fs = sample_disk\<lparr>partitions := (\<lambda>_. \<lparr>start_lba = 1, part_sec_cnt = 20000, my_disk = 0xc000b040, sb = 0x2000,
      block_bitmap = \<lparr>btmp_bytes_len = 512, bits = 0x7000\<rparr>, inode_bitmap = \<lparr>btmp_bytes_len = 512, bits = 0x8000\<rparr>\<rparr>),
      mem := (\<lambda>_. 0)(0x2020 := 3, 0x3000 := 5)\<rparr>"

lemma sample_fs_facts:
  "disk_idle sample_T 0xc009e000 0xc000b040 sample_fs" "the_disk p sample_fs = 0xc000b040"
  "ata_answers (port_of 0xc000b040 sample_fs) sample_device (answers sample_fs)" "is_slave 0xc000b040 sample_fs"
  "platter (device sample_device 0xc000b040 sample_fs) = (\<lambda>sl x. if sl then of_nat x else 0)"
  "partitions sample_fs p = \<lparr>start_lba = 1, part_sec_cnt = 20000, my_disk = 0xc000b040, sb = 0x2000,
      block_bitmap = \<lparr>btmp_bytes_len = 512, bits = 0x7000\<rparr>, inode_bitmap = \<lparr>btmp_bytes_len = 512, bits = 0x8000\<rparr>\<rparr>"
  "mem sample_fs = (\<lambda>_. 0)(0x2020 := 3, 0x3000 := 5)"
proof -
  have "disk_idle T t h (s\<lparr>partitions := q\<rparr>) = disk_idle T t h s" for T t h q and s :: ide
    by (simp add: disk_idle_def disk_wf_def chan_def sched_inv_def sched_wf_def waiters_ok_def running_thread_def list_empty_def
      ready_list_def kstack_ok_def task_space_ok_def)
  then show "disk_idle sample_T 0xc009e000 0xc000b040 sample_fs" using sample_disk_idle by (simp add: sample_fs_def)
  show "ata_answers (port_of 0xc000b040 sample_fs) sample_device (answers sample_fs)"
    using ata_ports_answers [of "0x1f0" sample_device] by (simp add: sample_fs_def sample_disk_def port_of_def chan_def)
  show "is_slave 0xc000b040 sample_fs" by (simp add: sample_fs_def sample_disk_def is_slave_def sample_ide_def)
  show "platter (device sample_device 0xc000b040 sample_fs) = (\<lambda>sl x. if sl then of_nat x else 0)"
    by (simp add: device_def ata_run_def sample_fs_def sample_disk_def) (simp add: sample_ide_def sample_device_def)
qed (simp_all add: sample_fs_def the_disk_def)


end
