(* ===== verification/Fs_Alloc.thy ===== *)
theory Fs_Alloc
  imports Block_Device Inode_Disk
begin

text \<open>
  Allocating an inode: the bitmap in memory, and its sector on disk after \<^verbatim>\<open>bitmap_sync\<close>.
\<close>

section \<open>In memory\<close>

lemma first_fit_one:
  assumes "\<exists>i<n. \<not> used i" and "n \<le> 2 ^ 31"
  shows "unat (first_fit used n 1) = (LEAST i. \<not> used i)" and "(LEAST i. \<not> used i) < n" and "first_fit used n 1 \<noteq> - 1"
proof -
  obtain i where i: "i < n" "\<not> used i" using assms(1) by blast
  have least: "\<not> used (LEAST i. \<not> used i)" "(LEAST i. \<not> used i) \<le> i" 
    using LeastI [of "\<lambda>i. \<not> used i", OF i(2)] Least_le [of "\<lambda>i. \<not> used i", OF i(2)] by simp_all
  have run: "free_run used n 1 k \<longleftrightarrow> k < n \<and> \<not> used k" for k by (auto simp: free_run_def)
  have "(LEAST k. free_run used n 1 k) = (LEAST i. \<not> used i)"
    unfolding run by (rule Least_equality) (use least i in \<open>auto intro: Least_le\<close>)
  then have ff: "first_fit used n 1 = of_nat (LEAST i. \<not> used i)" using i run by (auto simp: first_fit_def)
  show lt: "(LEAST i. \<not> used i) < n" using least(2) i(1) by simp
  then show u: "unat (first_fit used n 1) = (LEAST i. \<not> used i)" 
    unfolding ff using assms(2) by (simp add: unat_of_nat32)
  show "first_fit used n 1 \<noteq> - 1"
  proof
    assume "first_fit used n 1 = - 1"
    then have "(of_nat (Suc (LEAST i. \<not> used i)) :: u32) = of_nat 0" unfolding ff by (simp add: eq_neg_iff_add_eq_0 add.commute)
    then show False using lt assms(2) by (subst (asm) of_nat_eq_iff32) simp_all
  qed
qed

lemma inode_bitmap_alloc_spec:
  fixes s :: "'a ide_scheme"
  assumes bm: "bm = inode_bitmap (partitions s part)" "bm_wf bm" and free: "\<exists>i<bm_size bm. \<not> bm_bit (mem s) bm i"
  shows "\<exists>no m'. inode_bitmap_alloc part s = Done no (s\<lparr>mem := m'\<rparr>) \<and> unat no = (LEAST i. \<not> bm_bit (mem s) bm i) \<and>
    unat no < bm_size bm \<and> (\<forall>i<2 ^ 32. bm_bit m' bm i \<longleftrightarrow> i = unat no \<or> bm_bit (mem s) bm i) \<and>
    (\<forall>x. x \<noteq> bits bm + no div 8 \<longrightarrow> m' x = mem s x)"
proof -
  let ?no = "first_fit (bm_bit (mem s) bm) (bm_size bm) 1"
  have "bm_size bm \<le> 2 ^ 31" using bm(2) by (simp add: bm_wf_def)
  note ff = first_fit_one [OF free this]
  have scan: "bitmap_scan bm 1 (mem s) = Inr ?no" using bitmap_scan_eq [OF bm(2), of 1 "mem s"] free by simp
  obtain m' where m': "bitmap_set bm ?no 1 (mem s) = Inr m'"
    "\<forall>j<2 ^ 32. bm_bit m' bm j = (if j = unat ?no then (1 :: u8) = 1 else bm_bit (mem s) bm j)"
    "\<forall>x. x \<noteq> bits bm + ?no div 8 \<longrightarrow> m' x = mem s x"
    using bitmap_set_bits [of 1 bm ?no "mem s"] by blast
  have "inode_bitmap_alloc part s = Done ?no (s\<lparr>mem := m'\<rparr>)"
    using scan ff(3) m'(1) unfolding inode_bitmap_alloc_def
    by (simp add: bm(1) [symmetric] of_mem_def asks_def on_mem_def upd_mem_def)
  then show ?thesis using ff(1,2) m'(2,3) by (intro exI [of _ ?no] exI [of _ m']) auto
qed

section \<open>On disk\<close>

lemma drive_mem [simp]: "drive hdisk d0 (s\<lparr>mem := m\<rparr>) = drive hdisk d0 s" "device_ok T t hdisk d0 (s\<lparr>mem := m\<rparr>) = device_ok T t hdisk d0 s"
  by (simp_all add: drive_def device_ok_def device_ios is_slave_def)

text \<open>
  \<open>bitmap_sync\<close> for a bit of a bitmap of one sector writes that sector.
\<close>

lemma bitmap_sync_inode:
  fixes s :: "'a ide_scheme"
  assumes ok: "device_ok T t hdisk d0 s" and hd: "the_disk part s = hdisk" and no: "unat no < 4096"
    and lba: "unat (sb_field part sb_inode_bitmap_lba s) < 163839"
    and A: "\<And>i. i < 512 \<Longrightarrow> bits (inode_bitmap (partitions s part)) + of_nat i \<in> A"
  shows "runs (disk_resumed T t hdisk A) (bitmap_sync sp part no INODE_BITMAP s) (\<lambda>_ s'.
    device_ok T t hdisk d0 s' \<and> same_on A (mem s) (mem s') \<and>
    drive hdisk d0 s' = (\<lambda>x. let b = 512 * unat (sb_field part sb_inode_bitmap_lba s) in
      if b \<le> x \<and> x < b + 512 then mem s (bits (inode_bitmap (partitions s part)) + of_nat (x - b)) else drive hdisk d0 s x))"
proof -
  let ?lba = "sb_field part sb_inode_bitmap_lba s" and ?p = "bits (inode_bitmap (partitions s part))"
  have "unat (no div 4096) = 0" using no by (simp add: unat_div)
  then have "no div 4096 = 0" using unat_eq_zero by blast
  then have "bitmap_sync sp part no INODE_BITMAP s = ide_write sp hdisk ?lba ?p 1 s"
    by (simp add: bitmap_sync_def Let_def hd)
  moreover have "runs (disk_resumed T t hdisk A) (ide_write sp hdisk ?lba ?p 1 s) (\<lambda>_ s'.
      device_ok T t hdisk d0 s' \<and> same_on A (mem s) (mem s') \<and>
      drive hdisk d0 s' = (\<lambda>x. if 512 * unat ?lba \<le> x \<and> x < 512 * (unat ?lba + unat (1 :: u32))
        then mem s (?p + of_nat (x - 512 * unat ?lba)) else drive hdisk d0 s x))"
    by (rule ide.wr_runs [OF ok]) (use lba A in simp_all)
  moreover have "512 * (unat ?lba + unat (1 :: u32)) = 512 * unat ?lba + 512" by simp
  ultimately show ?thesis by (simp only: Let_def)
qed



end
