(* ===== verification/Fs_Layout.thy ===== *)
theory Fs_Layout
  imports Fs Inode_Disk
begin

text \<open>
  What \<^verbatim>\<open>partition_format\<close> puts where: the regions of a file system on its partition, and the block bitmap.
\<close>

section \<open>The regions\<close>

lemma unat_DIV_ROUND_UP:
  assumes "unat x + 4095 < 2 ^ 32"
  shows "unat (DIV_ROUND_UP x 4096) = (unat x + 4095) div 4096"
proof -
  have "unat (x + 4096 - 1) = unat x + 4095"
    using assms unat_add_of_nat [of x 4095] by (simp add: add.commute)
  then show ?thesis by (simp add: DIV_ROUND_UP_def unat_div)
qed

lemma format_sizes:
  assumes "612 < unat sects" and "unat sects < 2 ^ 31"
  shows "unat (format_free_sects sects) = unat sects - 611"
    and "unat (block_bitmap_bit_len sects) = unat sects - 611 - (unat sects - 611 + 4095) div 4096"
proof -
  have "format_free_sects sects = sects - 611" by (simp add: format_free_sects_def DIV_ROUND_UP_def)
  then show f: "unat (format_free_sects sects) = unat sects - 611"
    using assms by (simp add: unat_sub word_le_nat_alt)
  have d: "unat (DIV_ROUND_UP (format_free_sects sects) 4096) = (unat sects - 611 + 4095) div 4096"
    using assms f by (subst unat_DIV_ROUND_UP) simp_all
  have "(unat sects - 611 + 4095) div 4096 \<le> unat sects - 611" using assms(1) by simp
  then show "unat (block_bitmap_bit_len sects) = unat sects - 611 - (unat sects - 611 + 4095) div 4096"
    unfolding block_bitmap_bit_len_def Let_def using d f by (subst unat_sub) (simp_all add: word_le_nat_alt)
qed

lemma format_regions:
  assumes "612 < unat sects" and "unat base + unat sects < 2 ^ 31"
  defines "l \<equiv> format_layout base sects" and "n \<equiv> unat (block_bitmap_bit_len sects)"
  shows "unat (f_block_bitmap_lba l) = unat base + 2"
    and "unat (f_inode_bitmap_lba l) = unat (f_block_bitmap_lba l) + unat (f_block_bitmap_sects l)"
    and "unat (f_inode_table_lba l) = unat (f_inode_bitmap_lba l) + unat (f_inode_bitmap_sects l)"
    and "unat (f_data_start_lba l) = unat (f_inode_table_lba l) + unat (f_inode_table_sects l)"
    and "0 < n" and "n \<le> 4096 * unat (f_block_bitmap_sects l)" and "4096 \<le> 4096 * unat (f_inode_bitmap_sects l)"
    and "76 * 4096 \<le> 512 * unat (f_inode_table_sects l)"
    and "unat (f_data_start_lba l) + n \<le> unat base + unat sects"
proof -
  let ?f = "unat sects - 611"
  let ?d = "(?f + 4095) div 4096" and ?bb = "(n + 4095) div 4096"
  have s: "unat sects < 2 ^ 31" using assms(2) by simp
  have n: "n = ?f - ?d" unfolding n_def by (rule format_sizes(2) [OF assms(1) s])
  have d: "?d < ?f" "1 \<le> ?d" using assms(1) by (auto simp: less_mult_imp_div_less)
  have bb: "unat (f_block_bitmap_sects l) = ?bb"
    unfolding l_def format_layout_def Let_def n_def by (simp, subst unat_DIV_ROUND_UP) (use n n_def s in simp_all)
  have le: "?bb \<le> ?d" using n by (intro div_le_mono) simp
  have r: "DIV_ROUND_UP 4096 4096 = 1" "DIV_ROUND_UP 311296 512 = 608" by (simp_all add: DIV_ROUND_UP_def)
  have it: "unat (f_inode_bitmap_sects l) = 1" "unat (f_inode_table_sects l) = 608"
    by (simp_all add: l_def format_layout_def Let_def r)
  have w: "f_block_bitmap_lba l = base + 2" "f_inode_bitmap_lba l = base + 2 + f_block_bitmap_sects l"
    "f_inode_table_lba l = base + 3 + f_block_bitmap_sects l" "f_data_start_lba l = base + 611 + f_block_bitmap_sects l"
    by (simp_all add: l_def format_layout_def Let_def r ac_simps)
  have u: "unat (base + of_nat k + f_block_bitmap_sects l) = unat base + k + ?bb" if "k \<le> 611" for k
  proof -
    have k: "unat (base + of_nat k) = unat base + k" using that assms(1,2) by (intro unat_add_of_nat) simp
    have "unat base + k + ?bb < 2 ^ 32" using that assms(1,2) le d by simp
    then show ?thesis using k bb by (subst unat_word_ariths(1)) simp
  qed
  show 1: "unat (f_block_bitmap_lba l) = unat base + 2"
    unfolding w using assms(1,2) unat_add_of_nat [of base 2] by simp
  show "unat (f_inode_bitmap_lba l) = unat (f_block_bitmap_lba l) + unat (f_block_bitmap_sects l)" 
    "unat (f_inode_table_lba l) = unat (f_inode_bitmap_lba l) + unat (f_inode_bitmap_sects l)"
    "unat (f_data_start_lba l) = unat (f_inode_table_lba l) + unat (f_inode_table_sects l)"
    unfolding 1 it bb using u [of 2] u [of 3] u [of 611] by (simp_all add: w)
  show "0 < n" using n d by simp
  show "n \<le> 4096 * unat (f_block_bitmap_sects l)" unfolding bb by simp
  show "4096 \<le> 4096 * unat (f_inode_bitmap_sects l)" "76 * 4096 \<le> 512 * unat (f_inode_table_sects l)" using it by simp_all
  show "unat (f_data_start_lba l) + n \<le> unat base + unat sects"
  proof -
    have "unat (f_data_start_lba l) = unat base + 611 + ?bb" using u [of 611] by (simp add: w)
    moreover have "n + ?d = ?f" "?f + 611 = unat sects" using n d assms(1) by simp_all
    ultimately show ?thesis using le by linarith
  qed
qed

section \<open>The block bitmap\<close>

lemma clear_bits_loop:
  fixes lst :: u8 and s :: "'a machine_scheme"
  assumes "unat lst < 8" and "unat k \<le> Suc (unat lst)"
  shows "\<exists>v. kiter (\<lambda>bit_idx :: u8. if bit_idx \<le> lst
      then pseq (and_byte a (NOT (push_bit (unat bit_idx) 1))) (again (bit_idx + 1)) else leave ()) k s =
    Done () (s\<lparr>mem := (mem s)(a := v)\<rparr>) \<and> (\<forall>j<8. bit v j \<longleftrightarrow> bit (mem s a) j \<and> (j < unat k \<or> unat lst < j))"
  using assms(2)
proof (induction "Suc (unat lst) - unat k" arbitrary: k s)
  case 0
  then have "\<not> k \<le> lst" "unat k = Suc (unat lst)" by (auto simp: word_le_nat_alt)
  then show ?case by (subst kiter_unfold, intro exI [of _ "mem s a"]) auto
next
  case (Suc x)
  let ?v = "mem s a AND NOT (push_bit (unat k) 1)" and ?s = "s\<lparr>mem := (mem s)(a := mem s a AND NOT (push_bit (unat k) 1))\<rparr>"
  have k: "k \<le> lst" "unat k \<le> unat lst" using Suc.hyps(2) by (auto simp: word_le_nat_alt)
  have k1: "unat (k + 1) = Suc (unat k)" using k(2) assms(1) by (subst unat_word_ariths(1)) simp
  have x: "x = Suc (unat lst) - unat (k + 1)" "unat (k + 1) \<le> Suc (unat lst)" using Suc.hyps(2) k(2) k1 by simp_all
  obtain v where v: "kiter (\<lambda>bit_idx :: u8. if bit_idx \<le> lst
      then pseq (and_byte a (NOT (push_bit (unat bit_idx) 1))) (again (bit_idx + 1)) else leave ()) (k + 1) ?s =
      Done () (?s\<lparr>mem := (mem ?s)(a := v)\<rparr>)" "\<forall>j<8. bit v j \<longleftrightarrow> bit (mem ?s a) j \<and> (j < unat (k + 1) \<or> unat lst < j)"
    using Suc.hyps(1) [OF x, of ?s] by blast
  have "bit ?v j \<longleftrightarrow> bit (mem s a) j \<and> j \<noteq> unat k" if "j < 8" for j
    using that by (auto simp: bit_and_iff bit_not_iff bit_push_bit_iff bit_1_iff bit_exp_iff)
  then have "\<forall>j<8. bit v j \<longleftrightarrow> bit (mem s a) j \<and> (j < unat k \<or> unat lst < j)"
    using v(2) k(2) by (auto simp: k1 less_Suc_eq)
  then show ?case using v(1) k(1) by (subst kiter_unfold, intro exI [of _ v]) (simp add: and_byte_def)
qed

lemma bit_order:
  fixes i n :: nat
  shows "i div 8 = n div 8 \<Longrightarrow> n < i \<longleftrightarrow> n mod 8 < i mod 8" and "i div 8 < n div 8 \<Longrightarrow> i < n"
    and "i = 0 \<longleftrightarrow> i div 8 = 0 \<and> i mod 8 = 0"
proof -
  show "i div 8 = n div 8 \<Longrightarrow> n < i \<longleftrightarrow> n mod 8 < i mod 8" by (metis div_mult_mod_eq nat_add_left_cancel_less)
  show "i div 8 < n div 8 \<Longrightarrow> i < n" by (metis div_le_mono linorder_not_le)
  show "i = 0 \<longleftrightarrow> i div 8 = 0 \<and> i mod 8 = 0" by (metis div_0 div_mult_mod_eq mod_0 mult_0 add_0)
qed

lemma bit_255: "j < 8 \<Longrightarrow> bit (0xff :: u8) j"
proof -
  have "(0xff :: u8) = - 1" by simp
  then show "j < 8 \<Longrightarrow> bit (0xff :: u8) j" by (simp only: bit_minus_1_iff) simp
qed

text \<open>
  The bitmap that is written: a clear buffer becomes one in which block 0 is taken, and so is everything
  after bit \<open>bit_len\<close> to the end of its sector.
\<close>

lemma format_block_bitmap_bits:
  fixes s :: "'a machine_scheme"
  assumes len: "8 \<le> unat bit_len" "unat bit_len < 2 ^ 31" and b: "b + bit_len div 8 \<noteq> NULL" 
    and clear: "\<And>x. within x b (512 * Suc (unat bit_len div 4096)) \<Longrightarrow> mem s x = 0"
  shows "\<exists>m'. format_block_bitmap bit_len b s = Done () (s\<lparr>mem := m'\<rparr>) \<and>
    (\<forall>i<4096 * Suc (unat bit_len div 4096). bm_bit m' \<lparr>btmp_bytes_len = nb, bits = b\<rparr> i \<longleftrightarrow> i = 0 \<or> unat bit_len < i)"
proof -
  let ?n = "unat bit_len" and ?lb = "bit_len div 8"
  let ?size = "512 - ?lb mod 512" and ?lst = "ucast (bit_len mod 8) :: u8"
  have lb: "unat ?lb = ?n div 8" by (simp add: unat_div)
  have q: "?n div 4096 = ?n div 8 div 512" by (simp add: div_mult2_eq [symmetric])
  have m: "unat (?lb mod 512) = ?n div 8 mod 512" by (simp add: unat_mod lb)
  have size: "unat ?size = 512 - ?n div 8 mod 512"
    using m by (subst unat_sub) (simp_all add: word_le_nat_alt)
  have lst: "unat ?lst = ?n mod 8" by (simp add: unsigned_ucast_eq unat_mod take_bit_eq_mod)
  define m1 where "m1 = memset_loop (unat ?size) (b + ?lb) 0xff ((mem s)(b := mem s b OR 0x01))"
  have m1: "m1 (b + of_nat i) = (if ?n div 8 \<le> i then 0xff else if i = 0 then 1 else 0)" if i: "i < 512 * Suc (?n div 4096)" for i
  proof -
    have fill: "x + (512 - r) = 512 * Suc y" if "r < 512" "512 * y + r = x" for x r y :: nat using that by auto
    have e: "?n div 8 + unat ?size = 512 * Suc (?n div 4096)"
      unfolding size q by (rule fill) simp_all
    have "512 * Suc (?n div 4096) < 2 ^ 32" using len(2) by simp
    then have i32: "i < 2 ^ 32" "unat ?lb + unat ?size \<le> 2 ^ 32"
      using i unfolding e [symmetric] lb by (meson order.strict_trans order.strict_implies_order)+
    have "within (b + of_nat i) (b + ?lb) (unat ?size) \<longleftrightarrow> ?n div 8 \<le> i"
      using within_offset_iff [OF i32] e i lb by auto
    moreover have "mem s (b + of_nat i) = 0" "mem s b = 0"
      using clear [OF within_offset [OF i]] clear [of b] by (simp_all add: within_def)
    moreover have "b + of_nat i = b \<longleftrightarrow> i = 0" using of_nat_eq_iff32 [OF i32(1), of 0] by simp
    moreover have "unat ?size \<le> 2 ^ 32" using i32(2) by linarith
    ultimately show ?thesis by (simp add: m1_def memset_loop_eq)
  qed
  obtain v where v: "kiter (\<lambda>bit_idx :: u8. if bit_idx \<le> ?lst
      then pseq (and_byte (b + ?lb) (NOT (push_bit (unat bit_idx) 1))) (again (bit_idx + 1)) else leave ()) 0 (s\<lparr>mem := m1\<rparr>) =
      Done () ((s\<lparr>mem := m1\<rparr>)\<lparr>mem := (mem (s\<lparr>mem := m1\<rparr>))(b + ?lb := v)\<rparr>)"
    "\<forall>j<8. bit v j \<longleftrightarrow> bit (mem (s\<lparr>mem := m1\<rparr>) (b + ?lb)) j \<and> (j < unat (0 :: u8) \<or> unat ?lst < j)"
    using clear_bits_loop [of ?lst 0 "b + ?lb" "s\<lparr>mem := m1\<rparr>"] lst by auto
  have run: "format_block_bitmap bit_len b s = Done () (s\<lparr>mem := m1(b + ?lb := v)\<rparr>)"
    unfolding format_block_bitmap_def Let_def
    using b v(1) by (simp add: or_byte_def on_mem_def upd_mem_def memset_def m1_def [symmetric])
  have "bm_bit (m1(b + ?lb := v)) \<lparr>btmp_bytes_len = nb, bits = b\<rparr> i \<longleftrightarrow> i = 0 \<or> ?n < i"
    if i: "i < 4096 * Suc (?n div 4096)" for i
  proof -
    have i8: "i div 8 < 512 * Suc (?n div 4096)" using i by simp
    have "(of_nat (i div 8) :: u32) = ?lb \<longleftrightarrow> i div 8 = ?n div 8"
      using of_nat_eq_iff32 [of "i div 8" "?n div 8"] i len(2) by (simp add: of_nat_unat_div8)
    then have byte: "(m1(b + ?lb := v)) (b + of_nat (i div 8)) = (if i div 8 = ?n div 8 then v else m1 (b + of_nat (i div 8)))" by simp
    have vb: "bit v (i mod 8) \<longleftrightarrow> ?n mod 8 < i mod 8"
      using v(2) m1 [of "?n div 8"] lst bit_255 len by (simp add: of_nat_unat_div8)
    consider "i div 8 = ?n div 8" | "i div 8 < ?n div 8" | "?n div 8 < i div 8" by linarith
    then show ?thesis
    proof cases
      case 1
      moreover have "i \<noteq> 0" using 1 len(1) by auto
      ultimately show ?thesis using byte vb bit_order(1) [OF 1] by (simp add: bm_bit_def)
    next
      case 2
      then have "(m1(b + ?lb := v)) (b + of_nat (i div 8)) = (if i div 8 = 0 then 1 else 0)" using byte m1 [OF i8] by simp
      then have "bm_bit (m1(b + ?lb := v)) \<lparr>btmp_bytes_len = nb, bits = b\<rparr> i \<longleftrightarrow> i div 8 = 0 \<and> i mod 8 = 0"
        unfolding bm_bit_def by (cases "i div 8 = 0") (simp_all only: bit_1_iff bitmap.simps if_True if_False bit_0_eq simp_thms bot_apply bot_bool_def)
      then show ?thesis using bit_order(2) [OF 2] bit_order(3) [of i] by linarith
    next
      case 3
      then have "(m1(b + ?lb := v)) (b + of_nat (i div 8)) = 0xff" using byte m1 [OF i8] by simp
      then show ?thesis using bit_order(2) [OF 3] bit_255 by (simp add: bm_bit_def del: fun_upd_apply)
    qed
  qed
  then show ?thesis using run by blast
qed






end
