(* ===== verification/Path.thy ===== *)
theory Path
  imports Fs_Calls
begin

text \<open>
  Path names: \<^verbatim>\<open>path_parse\<close> and \<^verbatim>\<open>path_depth_cnt\<close> against the list of the components of a path; and the loop in
  \<^verbatim>\<open>delete_dir_entry\<close> that does not end.
\<close>

section \<open>Components\<close>

definition path_name :: "u8 list \<Rightarrow> u8 list" where
  "path_name cs = takeWhile (\<lambda>c. c \<noteq> 0x2f) (dropWhile (\<lambda>c. c = 0x2f) cs)"

definition path_rest :: "u8 list \<Rightarrow> u8 list" where
  "path_rest cs = dropWhile (\<lambda>c. c \<noteq> 0x2f) (dropWhile (\<lambda>c. c = 0x2f) cs)"

lemma path_split: "cs = takeWhile (\<lambda>c. c = 0x2f) cs @ path_name cs @ path_rest cs"
  by (simp add: path_name_def path_rest_def)

lemma path_rest_length: "length (path_rest cs) \<le> length cs" "path_name cs \<noteq> [] \<Longrightarrow> length (path_rest cs) < length cs"
proof -
  have "length cs = length (takeWhile (\<lambda>c. c = 0x2f) cs) + length (path_name cs) + length (path_rest cs)"
    using arg_cong [OF path_split [of cs], of length] by simp
  then show "length (path_rest cs) \<le> length cs" "path_name cs \<noteq> [] \<Longrightarrow> length (path_rest cs) < length cs" by auto
qed

function components :: "u8 list \<Rightarrow> u8 list list" where
  "components cs = (if path_name cs = [] then [] else path_name cs # components (path_rest cs))"
  by pat_completeness auto
termination by (relation "measure length") (auto simp: path_rest_length)

declare components.simps [simp del]

lemma components_Nil [simp]: "components [] = []"
  by (simp add: components.simps path_name_def)

text \<open>A path that is put together from names has them as its components.\<close>

lemma components_join:
  "\<forall>c\<in>set ns. c \<noteq> [] \<and> 0x2f \<notin> set c \<Longrightarrow> components (concat (map ((#) 0x2f) ns)) = ns"
proof (induction ns)
  case (Cons n ns)
  let ?r = "concat (map ((#) 0x2f) ns)"
  have n: "n \<noteq> []" "\<forall>c\<in>set n. c \<noteq> 0x2f" using Cons.prems by auto
  then have d: "dropWhile (\<lambda>c. c = 0x2f) (0x2f # n @ ?r) = n @ ?r" by (cases n) auto
  have "takeWhile (\<lambda>c. c \<noteq> 0x2f) (n @ ?r) = n" "dropWhile (\<lambda>c. c \<noteq> 0x2f) (n @ ?r) = ?r"
    using n(2) by (cases ns; simp)+
  then have "path_name (0x2f # n @ ?r) = n" "path_rest (0x2f # n @ ?r) = ?r"
    unfolding path_name_def path_rest_def d by simp_all
  then show ?case using Cons n(1) by (subst components.simps) simp
qed simp

section \<open>One component\<close>

lemma skip_slashes_eq:
  fixes s :: "'a machine_scheme"
  assumes "cstr (mem s) (p + 1) cs"
  shows "skip_slashes p s = Done (p + 1 + of_nat (length (takeWhile (\<lambda>c. c = 0x2f) cs))) s"
  using assms unfolding skip_slashes_def
proof (induction cs arbitrary: p)
  case Nil
  then show ?case by (subst kiter_unfold) (simp add: peek_byte_def)
next
  case (Cons c cs)
  show ?case
  proof (cases "c = 0x2f")
    case True
    have IH: "kiter (\<lambda>p. pbind (peek_byte (p + 1)) (\<lambda>c. if c = 0x2f then again (p + 1) else leave (p + 1))) (p + 1) s =
      Done (p + 1 + 1 + of_nat (length (takeWhile (\<lambda>c. c = 0x2f) cs))) s"
      by (rule Cons.IH) (use Cons.prems in simp)
    have "mem s (p + 1) = 0x2f" using Cons.prems True by simp
    then show ?thesis using True by (subst kiter_unfold) (simp add: peek_byte_def IH [unfolded peek_byte_def] add.assoc)
  next
    case False
    then show ?thesis using Cons.prems by (subst kiter_unfold) (simp add: peek_byte_def)
  qed
qed

lemma copy_name_eq:
  fixes s :: "'a machine_scheme"
  assumes "cstr (mem s) p cs" and "length cs < 2 ^ 31"
    and "disjoint_regions p (Suc (length cs)) q (length (takeWhile (\<lambda>c. c \<noteq> 0x2f) cs))"
  shows "copy_name p q s = Done (p + of_nat (length (takeWhile (\<lambda>c. c \<noteq> 0x2f) cs)))
    (s\<lparr>mem := put_bytes q (takeWhile (\<lambda>c. c \<noteq> 0x2f) cs) (mem s)\<rparr>)"
  using assms unfolding copy_name_def
proof (induction cs arbitrary: p q s)
  case Nil
  then show ?case by (subst kiter_unfold) (simp add: peek_byte_def)
next
  case (Cons c cs)
  show ?case
  proof (cases "c = 0x2f")
    case True
    then show ?thesis using Cons.prems by (subst kiter_unfold) (simp add: peek_byte_def)
  next
    case False
    let ?n = "length (takeWhile (\<lambda>c. c \<noteq> 0x2f) cs)" and ?s = "s\<lparr>mem := (mem s)(q := c)\<rparr>"
    have n: "?n \<le> length cs" "length cs < 2 ^ 31" using Cons.prems(2) by (simp_all add: length_takeWhile_le)
    have dj: "disjoint_regions p (Suc (Suc (length cs))) q (Suc ?n)" using Cons.prems(3) False by simp
    have p1: "within x (p + 1) (Suc (length cs)) \<Longrightarrow> within x p (Suc (Suc (length cs)))" for x
      using n by (simp add: within_Suc [of "Suc (length cs)"])
    have q1: "within x (q + 1) ?n \<Longrightarrow> within x q (Suc ?n)" for x using n by (simp add: within_Suc [of ?n])
    have "cstr (mem s) (p + 1) cs" using Cons.prems(1) by simp
    then have "cstr (mem ?s) (p + 1) cs"
    proof (rule cstr_frame)
      fix x assume "within x (p + 1) (Suc (length cs))"
      then have "x \<noteq> q" using p1 dj unfolding disjoint_regions_def by (metis within_def diff_self unat_0 zero_less_Suc)
      then show "mem ?s x = mem s x" by simp
    qed
    moreover have "disjoint_regions (p + 1) (Suc (length cs)) (q + 1) ?n"
      using dj p1 q1 unfolding disjoint_regions_def by blast
    ultimately have IH: "kiter (\<lambda>(p, q). pbind (peek_byte p) (\<lambda>c.
        if c \<noteq> 0x2f \<and> c \<noteq> 0 then pseq (poke_byte q c) (again (p + 1, q + 1)) else leave p)) (p + 1, q + 1) ?s =
      Done (p + 1 + of_nat ?n) (?s\<lparr>mem := put_bytes (q + 1) (takeWhile (\<lambda>c. c \<noteq> 0x2f) cs) (mem ?s)\<rparr>)"
      using n(2) by (intro Cons.IH)
    have "pbind (peek_byte p) (\<lambda>c. if c \<noteq> 0x2f \<and> c \<noteq> 0 then pseq (poke_byte q c) (again (p + 1, q + 1)) else leave p) s =
        Done (Inl (p + 1, q + 1)) ?s" using Cons.prems(1) False by (simp add: peek_byte_def poke_byte_def)
    then show ?thesis using IH False by (subst kiter_unfold) (simp add: add.assoc)
  qed
qed

text \<open>The path behind the first component: where it begins, \<open>NULL\<close> at the end of the path.\<close>

definition rest_at :: "addr \<Rightarrow> u8 list \<Rightarrow> addr" where
  "rest_at p cs = (if path_rest cs = [] then NULL else p + of_nat (length cs - length (path_rest cs)))"

lemma path_parse_eq:
  fixes s :: "'a machine_scheme"
  assumes c: "cstr (mem s) p cs" and len: "length cs < 2 ^ 31"
    and dj: "disjoint_regions p (Suc (length cs)) q (length (path_name cs))"
  shows "path_parse p q s = Done (rest_at p cs) (s\<lparr>mem := put_bytes q (path_name cs) (mem s)\<rparr>)"
proof -
  let ?k = "length (takeWhile (\<lambda>c. c = 0x2f) cs)" and ?d = "dropWhile (\<lambda>c. c = 0x2f) cs"
  let ?s = "s\<lparr>mem := put_bytes q (path_name cs) (mem s)\<rparr>"
  have l: "length cs = ?k + length ?d" "length ?d = length (path_name cs) + length (path_rest cs)"
    by (simp_all add: path_name_def path_rest_def flip: length_append)
  have skip: "(if mem s p = 0x2f then skip_slashes p else ret p) s = Done (p + of_nat ?k) s"
    using c skip_slashes_eq [of s p "tl cs"] by (cases cs) (auto simp: add.assoc)
  have cd: "cstr (mem s) (p + of_nat ?k) ?d"
    using c cstr_append [of "mem s" p "takeWhile (\<lambda>c. c = 0x2f) cs" ?d] by simp
  have in_path: "within x (p + of_nat ?k) (Suc (length ?d)) \<Longrightarrow> within x p (Suc (length cs))" for x
    using within_shift [of x p ?k "Suc (length ?d)"] l(1) len by simp
  have "disjoint_regions (p + of_nat ?k) (Suc (length ?d)) q (length (path_name cs))"
    using dj in_path unfolding disjoint_regions_def by blast
  then have copy: "copy_name (p + of_nat ?k) q s = Done (p + of_nat ?k + of_nat (length (path_name cs))) ?s"
    using copy_name_eq [OF cd] l len unfolding path_name_def by simp
  let ?e = "p + of_nat ?k + of_nat (length (path_name cs))"
  have e: "?e = p + of_nat (length cs - length (path_rest cs))" using l by (simp add: add.assoc)
  have w: "within ?e p (Suc (length cs))"
    unfolding e by (rule within_offset) simp
  then have "mem ?s ?e = mem s ?e"
    using dj len l unfolding disjoint_regions_def by (simp add: put_bytes_other)
  moreover have "cstr (mem s) ?e (path_rest cs)"
    using cd cstr_append [of "mem s" "p + of_nat ?k" "path_name cs" "path_rest cs"] by (simp add: path_name_def path_rest_def)
  ultimately have "mem ?s ?e = 0 \<longleftrightarrow> path_rest cs = []" by (cases "path_rest cs") auto
  then show ?thesis unfolding path_parse_def pbind_def peek_byte_def
    using skip copy e by (simp add: rest_at_def)
qed

section \<open>The depth of a path\<close>

text \<open>The loop of \<open>path_depth_cnt\<close>; \<open>name\<close> is the buffer for one component.\<close>

definition depth_loop :: "addr \<Rightarrow> addr \<times> u32 \<Rightarrow> ('a machine_scheme, u32) prog" where
  "depth_loop name = kiter (\<lambda>(p, depth).
     pbind (peek_byte name) (\<lambda>c.
       if c \<noteq> 0
       then pseq (on_mem (memset name 0 16))
           (pbind (if p \<noteq> NULL then path_parse p name else ret p) (\<lambda>p. again (p, depth + 1)))
       else leave depth))"

definition memory_off :: "addr \<Rightarrow> nat \<Rightarrow> mem \<Rightarrow> mem \<Rightarrow> bool" where
  "memory_off a n m m' \<longleftrightarrow> (\<forall>x. \<not> within x a n \<longrightarrow> m' x = m x)"

text \<open>The rest of a path is a string of its own, inside that of the path.\<close>

lemma path_rest_at:
  assumes "cstr m p cs" and "length cs < 2 ^ 31"
  shows "cstr m (p + of_nat (length cs - length (path_rest cs))) (path_rest cs)"
    and "within x (p + of_nat (length cs - length (path_rest cs))) (Suc (length (path_rest cs))) \<Longrightarrow> within x p (Suc (length cs))"
proof -
  let ?k = "length cs - length (path_rest cs)"
  have k: "?k + length (path_rest cs) = length cs" using path_rest_length(1) [of cs] by simp
  show "cstr m (p + of_nat ?k) (path_rest cs)"
    using assms(1) cstr_append [of m p "takeWhile (\<lambda>c. c = 0x2f) cs @ path_name cs" "path_rest cs"] path_split [of cs] k
    by (metis append_assoc diff_add_inverse2 length_append)
  show "within x (p + of_nat ?k) (Suc (length (path_rest cs))) \<Longrightarrow> within x p (Suc (length cs))"
    using within_shift [of x p ?k "Suc (length (path_rest cs))"] k assms(2) by simp
qed

lemma path_name_first:
  assumes "cstr m p cs" and "path_name cs \<noteq> []"
  shows "path_name cs ! 0 \<noteq> 0"
proof -
  have "path_name cs ! 0 \<in> set cs" using assms(2) path_split [of cs] by (metis Un_iff nth_mem length_greater_0_conv set_append)
  moreover have "0 \<notin> set cs" using assms(1) cstr_append [of m p cs "[]"] by simp
  ultimately show ?thesis by metis
qed

lemma depth_loop_round:
  fixes s :: "'a machine_scheme"
  assumes c: "cstr (mem s) q r" and len: "length r < 2 ^ 31" "length (path_name r) \<le> 16"
    and dj: "disjoint_regions q (Suc (length r)) name 16" and null: "name \<noteq> NULL" "\<not> within NULL q (Suc (length r))"
    and first: "mem s name \<noteq> 0"
  shows "\<exists>m'. depth_loop name (if r = [] then NULL else q, dpt) s = depth_loop name (rest_at q r, dpt + 1) (s\<lparr>mem := m'\<rparr>) \<and>
    memory_off name 16 (mem s) m' \<and> (m' name = 0 \<longleftrightarrow> path_name r = [])"
proof -
  let ?m = "memset_loop 16 name 0 (mem s)"
  let ?m' = "put_bytes name (path_name r) ?m"
  have m: "?m = (\<lambda>x. if within x name 16 then 0 else mem s x)" by (rule memset_loop_eq) simp
  have cm: "cstr ?m q r" by (rule cstr_frame [OF c]) (use dj in \<open>auto simp: m disjoint_regions_def\<close>)
  have sub: "within x name (length (path_name r)) \<Longrightarrow> within x name 16" for x using len(2) by (simp add: within_def)
  have dj': "disjoint_regions q (Suc (length r)) name (length (path_name r))"
    using dj sub unfolding disjoint_regions_def by blast
  have parse: "path_parse q name (s\<lparr>mem := ?m\<rparr>) = Done (rest_at q r) (s\<lparr>mem := ?m'\<rparr>)"
    using path_parse_eq [of "s\<lparr>mem := ?m\<rparr>" q r name] cm len(1) dj' by simp
  have q: "q \<noteq> NULL" using null(2) by (auto simp: within_def)
  have nil: "r = [] \<Longrightarrow> rest_at q r = NULL \<and> ?m' = ?m" by (simp add: rest_at_def path_rest_def path_name_def)
  have "(if (if r = [] then NULL else q) \<noteq> NULL then path_parse (if r = [] then NULL else q) name
      else ret (if r = [] then NULL else q)) (s\<lparr>mem := ?m\<rparr>) = Done (rest_at q r) (s\<lparr>mem := ?m'\<rparr>)"
    using parse q nil by (cases "r = []") simp_all
  then have "depth_loop name (if r = [] then NULL else q, dpt) s = depth_loop name (rest_at q r, dpt + 1) (s\<lparr>mem := ?m'\<rparr>)"
    unfolding depth_loop_def using first null(1)
    by (subst kiter_unfold) (simp add: peek_byte_def on_mem_def upd_mem_def memset_def cong: if_cong)
  moreover have "memory_off name 16 (mem s) ?m'"
    unfolding memory_off_def
  proof (intro allI impI)
    fix x assume x: "\<not> within x name 16"
    then have "?m' x = ?m x" using len(2) sub by (intro put_bytes_other) auto
    then show "?m' x = mem s x" using x by (simp add: m)
  qed
  moreover have "?m' name = 0 \<longleftrightarrow> path_name r = []"
  proof (cases "path_name r")
    case Nil
    then show ?thesis by (simp add: m within_def)
  next
    case (Cons a as)
    have "path_name r ! 0 \<noteq> 0" using c Cons by (intro path_name_first) simp_all
    then show ?thesis using put_bytes_at [of "path_name r" 0 name ?m] len(2) Cons by simp
  qed
  ultimately show ?thesis by blast
qed

lemma depth_loop_counts:
  fixes s :: "'a machine_scheme"
  assumes "cstr (mem s) q r" and "length r < 2 ^ 31" and "\<forall>c\<in>set (components r). length c \<le> 16"
    and "disjoint_regions q (Suc (length r)) name 16" and "name \<noteq> NULL" and "\<not> within NULL q (Suc (length r))"
    and "mem s name \<noteq> 0"
  shows "\<exists>m'. depth_loop name (if r = [] then NULL else q, d) s = Done (d + 1 + of_nat (length (components r))) (s\<lparr>mem := m'\<rparr>) \<and>
    memory_off name 16 (mem s) m'"
  using assms
proof (induction "length r" arbitrary: q r s d rule: less_induct)
  case less
  note a = less.prems
  have n16: "length (path_name r) \<le> 16" using a(3) by (subst (asm) components.simps) (auto split: if_splits)
  obtain m1 where m1: "depth_loop name (if r = [] then NULL else q, d) s = depth_loop name (rest_at q r, d + 1) (s\<lparr>mem := m1\<rparr>)"
    "memory_off name 16 (mem s) m1" "m1 name = 0 \<longleftrightarrow> path_name r = []"
    using depth_loop_round [OF a(1,2) n16 a(4-7)] by blast
  show ?case
  proof (cases "path_name r = []")
    case True
    then have "depth_loop name (rest_at q r, d + 1) (s\<lparr>mem := m1\<rparr>) = Done (d + 1) (s\<lparr>mem := m1\<rparr>)"
      unfolding depth_loop_def using m1(3) by (subst kiter_unfold) (simp add: peek_byte_def)
    moreover have "components r = []" using True by (subst components.simps) simp
    ultimately show ?thesis using m1 by auto
  next
    case False
    let ?r = "path_rest r" and ?k = "length r - length (path_rest r)" and ?s = "s\<lparr>mem := m1\<rparr>"
    let ?q = "q + of_nat ?k"
    have k: "?k + length ?r = length r" using path_rest_length(1) [of r] by simp
    have comps: "components r = path_name r # components ?r" using False by (subst components.simps) simp
    note rest = path_rest_at [OF a(1,2)]
    note sub = rest(2)
    have c: "cstr (mem ?s) ?q ?r"
      by (rule cstr_frame [OF rest(1)]) (use m1(2) sub a(4) in \<open>auto simp: memory_off_def disjoint_regions_def\<close>)
    have "\<exists>m'. depth_loop name (if ?r = [] then NULL else ?q, d + 1) ?s =
        Done (d + 1 + 1 + of_nat (length (components ?r))) (?s\<lparr>mem := m'\<rparr>) \<and> memory_off name 16 (mem ?s) m'"
    proof (rule less.hyps [OF _ c])
      show "length ?r < length r" using False by (rule path_rest_length(2))
      show "length ?r < 2 ^ 31" using k a(2) by linarith
      show "\<forall>c\<in>set (components ?r). length c \<le> 16" using a(3) comps by simp
      show "disjoint_regions ?q (Suc (length ?r)) name 16" using a(4) sub unfolding disjoint_regions_def by blast
      show "name \<noteq> NULL" "\<not> within NULL ?q (Suc (length ?r))" using a(5,6) sub by blast+
      show "mem ?s name \<noteq> 0" using m1(3) False by simp
    qed
    then show ?thesis using m1(1,2) unfolding comps rest_at_def
      by (auto simp: memory_off_def add.assoc intro!: exI)
  qed
qed

text \<open>
  C15: the depth of a path. For a path with at least one component, none longer than the 16 bytes of the
  local buffer, \<open>path_depth_cnt\<close> returns the number of its components, however many slashes separate them, and
  changes nothing but that buffer.
\<close>

theorem path_depth_counts:
  fixes s :: "'a machine_scheme"
  assumes "cstr (mem s) p cs" and "length cs < 2 ^ 31" and "components cs \<noteq> []" and "\<forall>c\<in>set (components cs). length c \<le> 16"
    and "disjoint_regions p (Suc (length cs)) (sp0 - 16) 16" and "sp0 - 16 \<noteq> NULL" and "\<not> within NULL p (Suc (length cs))"
  shows "\<exists>m'. path_depth_cnt sp0 p s = Done (of_nat (length (components cs))) (s\<lparr>mem := m'\<rparr>) \<and>
    (\<forall>x. \<not> within x (sp0 - 16) 16 \<longrightarrow> m' x = mem s x)"
proof -
  let ?name = "sp0 - 16" and ?r = "path_rest cs"
  let ?q = "p + of_nat (length cs - length ?r)" and ?s = "s\<lparr>mem := put_bytes (sp0 - 16) (path_name cs) (mem s)\<rparr>"
  have n: "path_name cs \<noteq> []" using assms(3) by (subst (asm) components.simps) (auto split: if_splits)
  have comps: "components cs = path_name cs # components ?r" using n by (subst components.simps) simp
  have n16: "length (path_name cs) \<le> 16" using assms(4) comps by simp
  have sub: "within x ?name (length (path_name cs)) \<Longrightarrow> within x ?name 16" for x using n16 by (simp add: within_def)
  have parse: "path_parse p ?name s = Done (rest_at p cs) ?s"
    by (rule path_parse_eq [OF assms(1,2)]) (use assms(5) sub in \<open>auto simp: disjoint_regions_def\<close>)
  have off: "memory_off ?name 16 (mem s) (mem ?s)"
    using n16 sub by (auto simp: memory_off_def intro!: put_bytes_other)
  note rest = path_rest_at [OF assms(1,2)]
  have c: "cstr (mem ?s) ?q ?r"
    by (rule cstr_frame [OF rest(1)]) (use off rest(2) assms(5) in \<open>auto simp: memory_off_def disjoint_regions_def\<close>)
  have "\<exists>m'. depth_loop ?name (if ?r = [] then NULL else ?q, 0) ?s = Done (0 + 1 + of_nat (length (components ?r))) (?s\<lparr>mem := m'\<rparr>) \<and>
      memory_off ?name 16 (mem ?s) m'"
  proof (rule depth_loop_counts [OF c])
    show "length ?r < 2 ^ 31" using path_rest_length(1) [of cs] assms(2) by linarith
    show "\<forall>c\<in>set (components ?r). length c \<le> 16" using assms(4) comps by simp
    show "disjoint_regions ?q (Suc (length ?r)) ?name 16" using assms(5) rest(2) unfolding disjoint_regions_def by blast
    show "?name \<noteq> NULL" "\<not> within NULL ?q (Suc (length ?r))" using assms(6,7) rest(2) by blast+
    show "mem ?s ?name \<noteq> 0"
      using put_bytes_at [of "path_name cs" 0 ?name "mem s"] path_name_first [OF assms(1) n] n n16 by simp
  qed
  then obtain m' where m': "depth_loop ?name (rest_at p cs, 0) ?s = Done (1 + of_nat (length (components ?r))) (s\<lparr>mem := m'\<rparr>)"
    "memory_off ?name 16 (mem ?s) m'" unfolding rest_at_def by auto
  have "p \<noteq> NULL" using assms(7) by (auto simp: within_def)
  then have "path_depth_cnt sp0 p s = depth_loop ?name (rest_at p cs, 0) ?s"
    using parse by (simp add: path_depth_cnt_def depth_loop_def Let_def)
  then show ?thesis using m' off unfolding comps by (intro exI [of _ m']) (auto simp: memory_off_def)
qed

theorem path_depth_counts_witness:
  "\<exists>m'. path_depth_cnt 0x2000 0x1000 (sample_threads\<lparr>mem := put_bytes 0x1000 [0x2f, 0x61, 0x2f, 0x2f, 0x62, 0x63] (\<lambda>_. 0)\<rparr>) =
     Done 2 (sample_threads\<lparr>mem := m'\<rparr>)"
proof -
  let ?cs = "[0x2f, 0x61, 0x2f, 0x2f, 0x62, 0x63] :: u8 list"
  let ?s = "sample_threads\<lparr>mem := put_bytes 0x1000 ?cs (\<lambda>_. 0)\<rparr>"
  have c: "cstr (mem ?s) 0x1000 ?cs" by simp
  have comps: "components ?cs = [[0x61], [0x62, 0x63]]"
    by (simp add: components.simps path_name_def path_rest_def)
  have dj: "disjoint_regions 0x1000 (Suc (length ?cs)) (0x2000 - 16) 16" by (rule disjoint_regionsI) simp_all
  have "\<exists>m'. path_depth_cnt 0x2000 0x1000 ?s = Done (of_nat (length (components ?cs))) (?s\<lparr>mem := m'\<rparr>) \<and>
      (\<forall>x. \<not> within x (0x2000 - 16) 16 \<longrightarrow> m' x = mem ?s x)"
    by (rule path_depth_counts [OF c _ _ _ dj]) (simp_all add: comps within_def)
  then show ?thesis unfolding comps by auto
qed

section \<open>A loop that does not end\<close>

text \<open>
  C16: \<open>count_indirect\<close>, the loop of \<^verbatim>\<open>delete_dir_entry\<close> over the table of indirect blocks, never ends, whatever
  the table holds: an entry in an indirect block of a directory whose other entries are gone cannot be
  deleted.
\<close>

theorem count_indirect_loops: "count_indirect all_blocks (s :: 'a machine_scheme) = Halt LOOP"
  unfolding count_indirect_def
  by (rule kiter_LOOP [where I = "\<lambda>x _. fst x = 12"]) (auto simp: peek_def)

end
