(* ===== verification/Kernel_Main.thy ===== *)
theory Kernel_Main
  imports Syscall
begin

text \<open>
  \<^verbatim>\<open>kernel/main.c\<close>: the entry of the kernel after the loader, and the threads and user programs that try out
  the allocator. All of them end in a loop for ever. Local variables that the code hands out the address
  of are on the stack at \<open>sp\<close>; \<open>ksp\<close> is the stack that the interrupt of a system call uses.
\<close>

section \<open>Programs\<close>

definition print_user :: "addr \<Rightarrow> addr \<Rightarrow> string \<Rightarrow> u32 list \<Rightarrow> ('a usys_scheme, unit) prog" where
  "print_user ksp sp fmt ws = (let frame = frame_of sp ws in
     pseq (modifies (push_args frame fmt ws)) (pseq (printf ksp (frame - 1024) frame) (ret ())))"

text \<open>\<^verbatim>\<open>int cpu_delay = 10000; while(cpu_delay-- > 0);\<close>\<close>

definition cpu_delay :: "('s, unit) prog" where
  "cpu_delay = kiter (\<lambda>d :: u32. if 0 <s d then again (d - 1) else leave ()) 10000"

definition spin :: "('s, unit) prog" where
  "spin = kiter again ()"

text \<open>The two calls of \<^verbatim>\<open>sys_stat\<close>; \<open>st\<close> is the local \<^verbatim>\<open>obj_stat\<close>, and the file type chooses a literal.\<close>

definition show_stat :: "addr \<Rightarrow> addr \<Rightarrow> string \<Rightarrow> string \<Rightarrow> ('a usys_scheme, unit) prog" where
  "show_stat sp st path fmt =
     pbind (reads (\<lambda>s. lits s path)) (\<lambda>p.
     pseq (sys_stat sp p st)
    (pbind (peek st) (\<lambda>no. pbind (peek (st + 4)) (\<lambda>n. pbind (peek (st + 8)) (\<lambda>t.
     pbind (reads (\<lambda>s. lits s (if t = FT_DIRECTORY then ''directory'' else ''regular''))) (\<lambda>name.
       print_user (frame_of sp [no, n, name] - 1024) sp fmt [no, n, name]))))))"

text \<open>\<open>main\<close> has the arguments of \<open>init_all\<close>, the addresses that the linker gives.\<close>

definition main :: "nat \<Rightarrow> addr \<Rightarrow> (nat \<Rightarrow> addr) \<Rightarrow> addr \<Rightarrow> addr \<Rightarrow> addr \<Rightarrow> addr \<Rightarrow> addr \<Rightarrow> ('a usys_scheme, unit) prog" where
  "main fuel sp0 entries fn_syscall_handler fn_general idt_addr fn_timer fn_keyboard = (let obj_stat = sp0 - 12; sp = obj_stat in steps [
     put_lit ''I am kernel\<newline>'',
     init_all fuel sp entries fn_syscall_handler fn_general idt_addr fn_timer fn_keyboard,
     show_stat sp obj_stat ''/'' ''root dir '/' info\<newline> i_ino: %d\<newline>  size:%d\<newline>   filetype:%s\<newline>'',
     show_stat sp obj_stat ''/dir1'' ''/dir1 info\<newline> i_ino: %d\<newline>  size:%d\<newline>   filetype:%s\<newline>'',
     spin])"

text \<open>The body of \<open>k_thread_a\<close> and \<open>k_thread_b\<close>, which differ in the text they print.\<close>

definition k_thread_body :: "string \<Rightarrow> ('a usys_scheme, unit) prog" where
  "k_thread_body msg =
     pbind (sys_malloc 256) (\<lambda>addr1. pbind (sys_malloc 255) (\<lambda>addr2. pbind (sys_malloc 254) (\<lambda>addr3.
     pbind (reads (\<lambda>s. lits s msg)) (\<lambda>p. steps [
       console_put_str p,
       console_put_int addr1, console_put_char 0x2c,
       console_put_int addr2, console_put_char 0x2c,
       console_put_int addr3, console_put_char 0x0a,
       cpu_delay,
       sys_free addr1, sys_free addr2, sys_free addr3,
       spin]))))"

definition k_thread_a :: "('a usys_scheme, unit) prog" where
  "k_thread_a = k_thread_body '' thread_a malloc addr:0x''"

definition k_thread_b :: "('a usys_scheme, unit) prog" where
  "k_thread_b = k_thread_body '' thread_b malloc addr:0x''"

definition u_thread_body :: "addr \<Rightarrow> addr \<Rightarrow> string \<Rightarrow> ('a usys_scheme, unit) prog" where
  "u_thread_body ksp sp fmt =
     pbind (user_malloc ksp 256) (\<lambda>addr1. pbind (user_malloc ksp 255) (\<lambda>addr2. pbind (user_malloc ksp 254) (\<lambda>addr3. steps [
       print_user ksp sp fmt [addr1, addr2, addr3],
       cpu_delay,
       user_free ksp addr1, user_free ksp addr2, user_free ksp addr3,
       spin])))"

definition u_thread_a :: "addr \<Rightarrow> addr \<Rightarrow> ('a usys_scheme, unit) prog" where
  "u_thread_a ksp sp = u_thread_body ksp sp '' prog_a malloc addr:0x%x,0x%x,0x%x\<newline>''"

definition u_thread_b :: "addr \<Rightarrow> addr \<Rightarrow> ('a usys_scheme, unit) prog" where
  "u_thread_b ksp sp = u_thread_body ksp sp '' prog_b malloc addr:0x%x,0x%x,0x%x\<newline>''"

text \<open>
  \<^verbatim>\<open>print_list\<close> and \<^verbatim>\<open>print_thread_list\<close>, for debugging; the entry is taken from the argument \<open>tag\<close> in every
  round and not from the element.
\<close>

definition print_list :: "addr \<Rightarrow> addr \<Rightarrow> ('a image_scheme, unit) prog" where
  "print_list plist tag =
     pbind (reads (list_empty plist)) (\<lambda>none.
       if none then put_lit ''plist is NULL''
       else pbind (reads (\<lambda>s. nxt (nodes s (head_of plist)))) (kiter (\<lambda>elem.
         if elem \<noteq> tail_of plist
         then after [does (put_str (task_name (task_of_tag tag))), modifies (put_char 0x0a)]
           (pbind (reads (\<lambda>s. nxt (nodes s elem))) again)
         else leave ())))"

definition print_thread_list :: "('a image_scheme, unit) prog" where
  "print_thread_list = pbind (reads (\<lambda>s. (thread_ready_list s, thread_tag s))) (\<lambda>(l, tag). print_list l tag)"

section \<open>Loops\<close>

text \<open>The delay ends, and the last loop does not.\<close>

lemma cpu_delay_ends: "cpu_delay s = Done () s"
proof -
  have "kiter (\<lambda>d :: u32. if 0 <s d then again (d - 1) else leave ()) (of_nat n) s = Done () s" if "n < 2 ^ 31" for n
    using that
  proof (induction n)
    case 0
    show ?case by (subst kiter_unfold) simp
  next
    case (Suc n)
    have "sint (of_nat (Suc n) :: u32) = int (Suc n)"
      using Suc.prems by (simp add: signed_of_nat signed_take_bit_int_eq_self del: of_nat_Suc)
    then have "0 <s (of_nat (Suc n) :: u32)" by (simp add: word_sless_alt)
    moreover have "(of_nat (Suc n) :: u32) - 1 = of_nat n" by simp
    ultimately show ?case using Suc by (subst kiter_unfold) simp
  qed
  from this [of 10000] show ?thesis by (simp add: cpu_delay_def)
qed

lemma spin_forever: "spin s = Halt LOOP"
  unfolding spin_def by (rule kiter_LOOP [where I = "\<lambda>_ _. True"]) auto

end
