(* ===== verification/Spec2Isabelle.thy ===== *)
theory Spec2Isabelle
  imports Lib_String Bitmap Interrupt Idt Klist Paging Thread Sync Lock_System Ioqueue Timer Keyboard
    Memory Page_Map Page_Alloc Address_Spaces Isolation Mem_Init Arena
    Stdio Console Tss Process Page_Dir Program Ide Fs_State Inode Dir File_Ops Fs Fs_Calls Syscall Ata Disk_Io Disk_Rw Disk
    Block_Device Inode_Disk Fs_Alloc Fs_Layout Path Kernel_Main
begin

text \<open>
  A verification development for OSBasis, a 32-bit x86 teaching kernel: interrupts and their gates,
  two-level paging with physical and virtual page pools, a block allocator, a round-robin scheduler
  with semaphores and locks, the drivers of timer, keyboard, console and IDE disks, formatted output,
  user processes with address spaces of their own, system calls, and a file system with inodes,
  directories and path names.

  \<^bold>\<open>How the parts interact.\<close>  The scheduler (src/thread/thread.c) keeps its ready list in the
  intrusive list of src/lib/kernel/list.c; semaphores and locks (sync.c) keep their waiters in the
  same lists and call the scheduler to block and to wake.  The console, the page pools, the process
  numbers and the keyboard's ring buffer are protected by those locks.  The timer interrupt preempts;
  the keyboard interrupt fills the ring buffer a reader blocks on.  The allocator (memory.c) marks
  frames and pages in the bitmaps of bitmap.c and edits page tables through the recursive entry of
  the current directory; process.c builds directories and pools for processes, and schedule
  activates them.  The disk driver (ide.c) holds the lock of its channel during a transfer and blocks
  on a semaphore that the disk interrupt gives; the file system (fs) reads and writes inodes, bitmaps
  and directory blocks through it, in buffers from the allocator.  User programs reach the kernel
  through the table of system calls.

  \<^bold>\<open>The state.\<close>  The state is a chain of records, each theory extending the one below with the
  variables of its source file: lists, machine (interrupt flag, port writes), threads, sync, ioqs,
  timer, kbd, kmem, console, segments, procs, image (addresses of string literals), ide, fsys, usys.
  \<open>mem\<close> holds bytes by virtual address; structures
  the code reaches only through typed pointers (list nodes, thread blocks, semaphores, locks, ring
  buffers, pools) are stores of records by address; \<open>pmem\<close> holds the words of page tables and
  directories by physical address, reached through the translation the processor performs.  Inodes,
  directory entries and super blocks are bytes at their C offsets, because they travel between memory
  and disk.  A disk is known by the history \<open>ios\<close> of port accesses and the \<open>answers\<close> its ports give
  to a history.  Functions with local arrays take an address \<open>sp\<close>, below which the stack is free.  Machine
  integers are words of their width; \<open>char\<close> is signed, as on the compiler used.

  \<^bold>\<open>Results.\<close>  A failed assertion, a PANIC or a loop the code enters for ever is a halt value,
  never an unspecified result.  An operation that may lose the processor returns a resumption
  (\<open>kop\<close> of Thread): either finished with a state and a value, or blocked, with the rest of the
  operation as a function of the state in which the thread runs again.  So another thread's actions
  appear exactly where the code can be switched away from, and a theorem about a blocked operation
  quantifies over what the others did.

  \<^bold>\<open>Loops.\<close>  Loops over a counter are recursion on it.  Loops over memory of unknown extent (strings,
  lists) are partial functions into option, None standing for a loop that does not end; the theorems
  about them prove that they return.  The waiting loops of ioqueue.c and timer.c, which a thread
  leaves only through actions of others, run through the blocking resumption.  The loops of the disk
  driver and the file system are \<open>kiter\<close> of Program, which gives \<open>Halt LOOP\<close> for a loop that goes on
  for ever.  The one recursion with fuel is partition_scan, bounded by the number of extended
  partitions on a disk, which the disk alone decides; exhausted fuel is \<open>Halt LOOP\<close>, never a result.

  \<^bold>\<open>Total correctness with blocking.\<close>  \<open>runs R m Q\<close> (Program) says that the operation \<open>m\<close> returns
  with \<open>Q\<close>, without a halt, if its thread, whenever it is switched away from, is resumed as \<open>R\<close>
  allows.  For disk operations \<open>R\<close> is \<open>disk_resumed\<close>; disk_interrupt_resumes shows that the interrupt
  handler and the scheduler bring such a state about.

  \<^bold>\<open>The theories.\<close>
    \<^item> Prelude: words, bits, ports, collections of simplification rules.
    \<^item> Lib_String (src/lib/string.c): memory and string routines on bytes; exact results and frames.
    \<^item> Bitmap (src/lib/kernel/bitmap.c): the first-fit scan against its specification, setting and
      testing of bits.
    \<^item> Interrupt, Idt (src/kernel/interrupt.c): the interrupt flag, gate descriptors and handlers.
    \<^item> Klist (src/lib/kernel/list.c): the linked list refines a sequence; the locale
      \<open>intrusive_list\<close> states the contract its clients use.
    \<^item> Paging (parts of src/kernel/memory.c): the processor's translation and the accessors that use
      the recursive directory entry.
    \<^item> Thread (src/thread/thread.c, thread.h): thread blocks, schedule, block, unblock, yield, idle.
    \<^item> Sync (src/thread/sync.c): semaphores and the recursive lock.  Lock_System: every interleaving
      of threads that acquire and release a lock, as a step relation; mutual exclusion and no lost
      wake-up as invariants of its reachable states.
    \<^item> Ioqueue (src/device/ioqueue.c): the ring buffer refines a bounded queue (locale
      \<open>bounded_queue\<close>); blocked readers are woken and get their character.
    \<^item> Timer, Keyboard, Console, Stdio: the drivers and formatted output.
    \<^item> Memory, Page_Map, Page_Alloc, Address_Spaces, Isolation (src/kernel/memory.c): allocation and
      release of pages; the invariant that keeps address spaces apart and that every operation
      preserves.  Mem_Init: the layout start-up leaves.  Arena: sys_malloc and sys_free.
    \<^item> Tss, Process, Page_Dir (src/userprog): descriptors, process creation, new page directories.
    \<^item> Program: sequential programs over operations that may block, their loops, and \<open>runs\<close>.
    \<^item> Ide (src/device/ide.c): the driver.  Ata: the device it relies on, as a state machine on port
      accesses (a hypothesis of the theorems, with an instance).  Disk_Io, Disk_Rw, Disk: transfers
      move exactly the sectors they name, and the interrupt resumes the waiting thread.  Block_Device:
      the contract as the locale \<open>block_device\<close>, interpreted on the driver; what is written is read back.
    \<^item> Fs_State, Inode, Dir, File_Ops, Fs, Fs_Calls (src/fs): tables, inodes, directories, files,
      formatting and mounting, path names and system calls.  Inode_Disk: writing an inode back changes
      exactly its place of the inode table.  Fs_Alloc: taking an inode is durable.  Fs_Layout: the regions and the block bitmap of a formatted
      partition.  Path: components of path names; a loop that does not end.
    \<^item> Syscall (src/userprog/syscall_init.c, src/lib/user/syscall.c, src/kernel/init.c), Kernel_Main
      (src/kernel/main.c): system calls, start-up, the test programs.

  \<^bold>\<open>Not modelled.\<close>  The TLB; video memory and the cursor (the screen is the sequence of characters
  printed); most start-up messages; the boot loader and the assembly entry code, with the saving of registers; user programs
  other than those of main.c.  The file system calls are defined in full, with theorems about the parts
  named above; whole paths through sys_open, sys_write and sys_mkdir are not proved.  Interrupts inside an operation that runs with interrupts on appear as steps between
  operations only, except where the operation itself blocks.
\<close>

end
